(* ===== verification/Go_Prelude.thy ===== *)
theory Go_Prelude
  imports Complex_Main "HOL-Library.AList" "HOL-Library.Multiset" "HOL-Library.Char_ord"
    "HOL-Library.List_Lexorder"
begin

text \<open>
  Shared vocabulary of the development: the Go types and the standard library functions the
  modelled code uses, and the generic lemmas the component theories rest on.

  \<^item> \<open>int64\<close>, \<open>int\<close> and \<open>time.Duration\<close> are mathematical integers; every addition, subtraction
    and multiplication whose result the code keeps is passed through \<open>wrap64\<close>, the two's
    complement reading of the low 64 bits, so overflow is visible in the theorems.
  \<^item> \<open>float64\<close> is a rational number: rounding, infinities and NaN are not modelled.
  \<^item> \<open>time.Time\<close> is the number of nanoseconds since Go's zero time, so \<open>IsZero\<close> is \<open>= 0\<close>.
  \<^item> \<open>string\<close> is a list of bytes; \<open>strings.TrimSpace\<close> and \<open>strings.ToLower\<close> are modelled on
    ASCII (the only characters of the constants the code compares with).
  \<^item> \<open>uuid.UUID\<close> is its canonical text form.
  \<^item> A pointer, an \<open>sql.Null*\<close> value and a two-result lookup are an \<open>option\<close>.
  \<^item> \<open>any\<close> holds the dynamic values of \<open>encoding/json\<close>; a \<open>map[string]any\<close> is an association list.
\<close>

named_theorems go_simps \<open>unfolding rules of the Go library functions\<close>

section \<open>Machine integers\<close>

type_synonym float64 = rat
type_synonym go_time = int
type_synonym duration = int
type_synonym uuid = string

definition wrap64 :: "int \<Rightarrow> int" where
  "wrap64 x = (x + 2 ^ 63) mod 2 ^ 64 - 2 ^ 63"

definition in_int64 :: "int \<Rightarrow> bool" where
  "in_int64 x \<longleftrightarrow> - (2 ^ 63) \<le> x \<and> x < 2 ^ 63"

lemma wrap64_id [simp]: "in_int64 x \<Longrightarrow> wrap64 x = x"
  by (simp add: wrap64_def in_int64_def)

lemma in_int64_wrap64 [simp]: "in_int64 (wrap64 x)"
proof -
  have "0 \<le> (x + 2 ^ 63) mod 2 ^ 64" and "(x + 2 ^ 63) mod 2 ^ 64 < 2 ^ 64"
    by simp_all
  then show ?thesis by (simp add: wrap64_def in_int64_def)
qed

lemma wrap64_eqI: "- (2 ^ 63) \<le> x \<Longrightarrow> x < 2 ^ 63 \<Longrightarrow> wrap64 x = x"
  by (rule wrap64_id) (simp add: in_int64_def)

lemma wrap64_cong: "wrap64 x = wrap64 y \<longleftrightarrow> x mod 2 ^ 64 = y mod 2 ^ 64"
  by (simp add: wrap64_def mod_eq_dvd_iff)

lemma wrap64_add_sub_cancel [simp]: "wrap64 (wrap64 (x + y) - y) = wrap64 x"
proof -
  have "(wrap64 (x + y) - y) mod 2 ^ 64 = x mod 2 ^ 64"
  proof -
    have "wrap64 (x + y) mod 2 ^ 64 = (x + y) mod 2 ^ 64"
      using wrap64_cong[of "wrap64 (x + y)" "x + y"] by simp
    then have "(wrap64 (x + y) - y) mod 2 ^ 64 = ((x + y) - y) mod 2 ^ 64"
      by (metis mod_diff_left_eq)
    then show ?thesis by simp
  qed
  then show ?thesis by (simp only: wrap64_cong)
qed

lemma wrap64_mod: "wrap64 x mod 2 ^ 64 = x mod 2 ^ 64"
  using wrap64_cong[of "wrap64 x" x] by simp

lemma wrap64_add_wrap [simp]: "wrap64 (wrap64 x + y) = wrap64 (x + y)" "wrap64 (x + wrap64 y) = wrap64 (x + y)"
  unfolding wrap64_cong by (metis mod_add_left_eq wrap64_mod) (metis mod_add_right_eq wrap64_mod)

section \<open>Durations\<close>

text \<open>\<open>time.Duration\<close> counts nanoseconds.\<close>

definition seconds :: "int \<Rightarrow> duration" where
  "seconds n = n * 1000000000"

abbreviation minutes :: "int \<Rightarrow> duration" where
  "minutes n \<equiv> seconds (60 * n)"

text \<open>\<open>t.Truncate(time.Minute)\<close> rounds down to a multiple of a minute since the zero time.\<close>

definition truncate_minute :: "go_time \<Rightarrow> go_time" where
  "truncate_minute t = t - t mod minutes 1"

text \<open>\<open>int64(math.Ceil(d.Seconds()))\<close>.\<close>

definition ceil_seconds :: "duration \<Rightarrow> int" where
  "ceil_seconds d = - ((- d) div seconds 1)"

lemma truncate_minute_le: "truncate_minute t \<le> t"
  by (simp add: truncate_minute_def seconds_def)

lemma truncate_minute_gt: "t < truncate_minute t + minutes 1"
proof -
  have "t mod minutes 1 < minutes 1"
    by (rule pos_mod_bound) (simp add: seconds_def)
  then show ?thesis by (simp add: truncate_minute_def)
qed

section \<open>Strings\<close>

definition is_space :: "char \<Rightarrow> bool" where
  "is_space c \<longleftrightarrow> c \<in> {CHR 0x09, CHR 0x0A, CHR 0x0B, CHR 0x0C, CHR 0x0D, CHR '' ''}"

definition trim_space :: "string \<Rightarrow> string" where
  "trim_space s = rev (dropWhile is_space (rev (dropWhile is_space s)))"

definition lower_char :: "char \<Rightarrow> char" where
  "lower_char c = (let n = of_char c :: nat in if 65 \<le> n \<and> n \<le> 90 then char_of (n + 32) else c)"

definition to_lower :: "string \<Rightarrow> string" where
  "to_lower s = map lower_char s"

definition has_prefix :: "string \<Rightarrow> string \<Rightarrow> bool" where
  "has_prefix s p \<longleftrightarrow> take (length p) s = p"

definition trim_prefix :: "string \<Rightarrow> string \<Rightarrow> string" where
  "trim_prefix s p = (if has_prefix s p then drop (length p) s else s)"

fun str_contains :: "string \<Rightarrow> string \<Rightarrow> bool" where
  "str_contains [] p \<longleftrightarrow> p = []"
| "str_contains (c # cs) p \<longleftrightarrow> has_prefix (c # cs) p \<or> str_contains cs p"

definition has_suffix :: "string \<Rightarrow> string \<Rightarrow> bool" where
  "has_suffix s p = has_prefix (rev s) (rev p)"

definition trim_suffix :: "string \<Rightarrow> string \<Rightarrow> string" where
  "trim_suffix s p = (if has_suffix s p then take (length s - length p) s else s)"

definition equal_fold :: "string \<Rightarrow> string \<Rightarrow> bool" where
  "equal_fold s t \<longleftrightarrow> to_lower s = to_lower t"

fun join_strings :: "string list \<Rightarrow> string \<Rightarrow> string" where
  "join_strings [] sep = []"
| "join_strings [x] sep = x"
| "join_strings (x # y # xs) sep = x @ sep @ join_strings (y # xs) sep"

lemmas string_defs [go_simps] = trim_space_def is_space_def to_lower_def lower_char_def
  has_prefix_def trim_prefix_def equal_fold_def

lemma trim_space_Nil [simp]: "trim_space [] = []"
  by (simp add: trim_space_def)

lemma dropWhile_fixed: "(\<forall>x. xs \<noteq> [] \<and> x = hd xs \<longrightarrow> \<not> P x) \<Longrightarrow> dropWhile P xs = xs"
  by (cases xs) auto

lemma trim_space_idem [simp]: "trim_space (trim_space s) = trim_space s"
proof -
  define a where "a = dropWhile is_space s"
  define b where "b = dropWhile is_space (rev a)"
  have b_hd: "b \<noteq> [] \<Longrightarrow> \<not> is_space (hd b)"
    unfolding b_def by (rule hd_dropWhile)
  have "\<not> is_space (hd (rev b))" if "b \<noteq> []"
  proof -
    obtain pre where "rev a = pre @ b"
      unfolding b_def by (metis takeWhile_dropWhile_id)
    then have "a = rev b @ rev pre" by (metis rev_append rev_rev_ident)
    with that have "hd (rev b) = hd a" and "a \<noteq> []" by (simp_all add: hd_append)
    then show ?thesis unfolding a_def using hd_dropWhile[of is_space s] by auto
  qed
  then have "dropWhile is_space (rev b) = rev b"
    by (intro dropWhile_fixed) auto
  moreover have "dropWhile is_space b = b"
    using b_hd by (intro dropWhile_fixed) auto
  ultimately show ?thesis
    by (simp add: trim_space_def a_def[symmetric] b_def[symmetric])
qed

lemma trim_space_fixed: "\<not> is_space (hd s) \<Longrightarrow> \<not> is_space (last s) \<Longrightarrow> trim_space s = s"
  by (cases "s = []") (auto simp: trim_space_def dropWhile_fixed hd_rev)

lemma trim_space_ends:
  assumes "trim_space s \<noteq> []"
  shows "\<not> is_space (hd (trim_space s))" and "\<not> is_space (last (trim_space s))"
proof -
  define a where "a = dropWhile is_space s"
  define b where "b = dropWhile is_space (rev a)"
  have t: "trim_space s = rev b" by (simp add: trim_space_def a_def b_def)
  with assms have b: "b \<noteq> []" by simp
  then show "\<not> is_space (last (trim_space s))"
    unfolding t b_def using hd_dropWhile[of is_space "rev a"] by (simp add: last_rev)
  obtain pre where "rev a = pre @ b" unfolding b_def by (metis takeWhile_dropWhile_id)
  then have "a = rev b @ rev pre" by (metis rev_append rev_rev_ident)
  with b have "hd (rev b) = hd a" and "a \<noteq> []" by (simp_all add: hd_append)
  then show "\<not> is_space (hd (trim_space s))"
    unfolding t a_def using hd_dropWhile[of is_space s] by auto
qed

lemma has_prefix_append [simp]: "has_prefix (p @ s) p" and trim_prefix_append [simp]: "trim_prefix (p @ s) p = s"
  by (simp_all add: has_prefix_def trim_prefix_def)

text \<open>A UUID prints as 36 characters; the nil UUID is all zeros.\<close>

definition uuid_nil :: uuid where
  "uuid_nil = ''00000000-0000-0000-0000-000000000000''"

section \<open>Dynamic JSON values\<close>

datatype any =
    ANil
  | ABool bool
  | AInt int
  | AFloat float64
  | ANumber string
  | AString string
  | AList "any list"
  | AObj "(string \<times> any) list"

type_synonym obj = "(string \<times> any) list"

text \<open>Indexing a \<open>map[string]any\<close>: an absent key reads as the nil interface.\<close>

definition obj_get :: "obj \<Rightarrow> string \<Rightarrow> any" where
  "obj_get m k = (case map_of m k of None \<Rightarrow> ANil | Some v \<Rightarrow> v)"

definition obj_set :: "string \<Rightarrow> any \<Rightarrow> obj \<Rightarrow> obj" where
  "obj_set k v m = AList.update k v m"

lemma obj_get_set [simp]: "obj_get (obj_set k v m) j = (if j = k then v else obj_get m j)"
  by (simp add: obj_get_def obj_set_def update_conv')

text \<open>Type assertions of an \<open>any\<close>; the failing assertion is \<open>None\<close>.\<close>

fun as_string :: "any \<Rightarrow> string option" where
  "as_string (AString s) = Some s"
| "as_string _ = None"

fun as_bool :: "any \<Rightarrow> bool option" where
  "as_bool (ABool b) = Some b"
| "as_bool _ = None"

fun as_float :: "any \<Rightarrow> float64 option" where
  "as_float (AFloat r) = Some r"
| "as_float _ = None"

fun as_list :: "any \<Rightarrow> any list option" where
  "as_list (AList xs) = Some xs"
| "as_list _ = None"

text \<open>\<open>m, _ := v.(map[string]any)\<close>: on failure the nil map, which reads like an empty one.\<close>

fun as_obj :: "any \<Rightarrow> obj" where
  "as_obj (AObj m) = m"
| "as_obj _ = []"

text \<open>Conversion of a float to a 64-bit integer: truncation towards zero; a value out of range
  becomes the least integer, as the conversion instruction of amd64 does.\<close>

definition float_to_int64 :: "float64 \<Rightarrow> int" where
  "float_to_int64 r = (let n = (if 0 \<le> r then \<lfloor>r\<rfloor> else \<lceil>r\<rceil>)
     in if in_int64 n then n else - (2 ^ 63))"

lemma in_int64_float_to_int64 [simp]: "in_int64 (float_to_int64 r)"
  by (simp add: float_to_int64_def Let_def in_int64_def)

text \<open>\<open>strconv.ParseInt(s, 10, 64)\<close>.\<close>

definition digit_val :: "char \<Rightarrow> nat option" where
  "digit_val c = (let n = of_char c :: nat in if 48 \<le> n \<and> n \<le> 57 then Some (n - 48) else None)"

fun parse_digits :: "int \<Rightarrow> string \<Rightarrow> int option" where
  "parse_digits acc [] = Some acc"
| "parse_digits acc (c # cs) =
     (case digit_val c of None \<Rightarrow> None | Some d \<Rightarrow> parse_digits (acc * 10 + int d) cs)"

definition parse_int64 :: "string \<Rightarrow> int option" where
  "parse_int64 s =
     (let (sign, body) = (case s of
          [] \<Rightarrow> (1, [])
        | c # cs \<Rightarrow> if c = CHR ''-'' then (- 1, cs) else if c = CHR ''+'' then (1, cs) else (1, c # cs))
      in if body = [] then None
         else case parse_digits 0 body of
             None \<Rightarrow> None
           | Some n \<Rightarrow> if in_int64 (sign * n) then Some (sign * n) else None)"

section \<open>\<open>json.Marshal\<close>\<close>

text \<open>
  The encoder of \<open>encoding/json\<close> on the dynamic values: objects with their keys sorted, HTML
  characters and control characters escaped, an invalid \<open>json.Number\<close> reported as an error.
  How a float is printed is left to the parameter \<open>fmt\<close>.
\<close>

definition is_digit :: "char \<Rightarrow> bool" where
  "is_digit c \<longleftrightarrow> digit_val c \<noteq> None"

definition valid_exp :: "string \<Rightarrow> bool" where
  "valid_exp s = (case s of
      [] \<Rightarrow> True
    | e # cs \<Rightarrow> (e = CHR ''e'' \<or> e = CHR ''E'') \<and>
        (let ds = (case cs of [] \<Rightarrow> [] | c # cs' \<Rightarrow> if c = CHR ''+'' \<or> c = CHR ''-'' then cs' else cs)
         in ds \<noteq> [] \<and> list_all is_digit ds))"

definition valid_frac :: "string \<Rightarrow> bool" where
  "valid_frac s = (case s of
      c # d # cs \<Rightarrow> if c = CHR ''.'' then is_digit d \<and> valid_exp (dropWhile is_digit cs) else valid_exp s
    | _ \<Rightarrow> valid_exp s)"

definition valid_number :: "string \<Rightarrow> bool" where
  "valid_number s =
     (let body = (case s of [] \<Rightarrow> [] | c # cs \<Rightarrow> if c = CHR ''-'' then cs else s)
      in case body of
          [] \<Rightarrow> False
        | c # cs \<Rightarrow> if c = CHR ''0'' then valid_frac cs
            else is_digit c \<and> valid_frac (dropWhile is_digit cs))"

definition hex_digit :: "nat \<Rightarrow> char" where
  "hex_digit n = (if n < 10 then char_of (48 + n) else char_of (87 + n))"

definition json_escape_char :: "char \<Rightarrow> string" where
  "json_escape_char c = (let n = of_char c :: nat in
     if n = 34 then [CHR 0x5C, CHR 0x22]
     else if n = 92 then [CHR 0x5C, CHR 0x5C]
     else if n = 8 then [CHR 0x5C, CHR ''b'']
     else if n = 12 then [CHR 0x5C, CHR ''f'']
     else if n = 10 then [CHR 0x5C, CHR ''n'']
     else if n = 13 then [CHR 0x5C, CHR ''r'']
     else if n = 9 then [CHR 0x5C, CHR ''t'']
     else if n < 32 \<or> n \<in> {38, 60, 62}
       then [CHR 0x5C, CHR ''u'', CHR ''0'', CHR ''0'', hex_digit (n div 16), hex_digit (n mod 16)]
     else [c])"

definition json_string :: "string \<Rightarrow> string" where
  "json_string s = [CHR 0x22] @ concat (map json_escape_char s) @ [CHR 0x22]"

fun nat_digits :: "nat \<Rightarrow> string" where
  "nat_digits n = (if n < 10 then [char_of (48 + n)] else nat_digits (n div 10) @ [char_of (48 + n mod 10)])"

declare nat_digits.simps [simp del]

definition int_text :: "int \<Rightarrow> string" where
  "int_text n = (if n < 0 then CHR ''-'' # nat_digits (nat (- n)) else nat_digits (nat n))"

text \<open>Printing an integer and parsing it gives it back.\<close>

lemma digit_val_digit: "d < 10 \<Longrightarrow> digit_val (char_of (48 + d)) = Some d"
  by (simp add: digit_val_def Let_def)

lemma parse_digits_snoc:
  "parse_digits acc (cs @ [c]) = (case parse_digits acc cs of None \<Rightarrow> None
     | Some n \<Rightarrow> map_option (\<lambda>d. n * 10 + int d) (digit_val c))"
  by (induction cs arbitrary: acc) (auto split: option.split)

lemma parse_nat_digits: "parse_digits 0 (nat_digits n) = Some (int n)"
proof (induction n rule: nat_digits.induct)
  case (1 n)
  show ?case
  proof (cases "n < 10")
    case True
    then show ?thesis by (simp add: nat_digits.simps[of n] digit_val_digit)
  next
    case False
    have "int n = int (n div 10) * 10 + int (n mod 10)" by presburger
    with 1 False show ?thesis
      by (simp add: nat_digits.simps[of n] parse_digits_snoc digit_val_digit)
  qed
qed

lemma nat_digits_start: "nat_digits n \<noteq> [] \<and> digit_val (hd (nat_digits n)) \<noteq> None"
proof (induction n rule: nat_digits.induct)
  case (1 n)
  then show ?case by (auto simp: nat_digits.simps[of n] digit_val_digit hd_append)
qed

lemma parse_int_text: "in_int64 n \<Longrightarrow> parse_int64 (int_text n) = Some n"
proof -
  assume n: "in_int64 n"
  obtain c cs where d: "nat_digits (nat n) = c # cs" "digit_val c \<noteq> None"
    using nat_digits_start[of "nat n"] by (cases "nat_digits (nat n)") auto
  then have "c \<noteq> CHR ''-''" "c \<noteq> CHR ''+''" by (auto simp: digit_val_def)
  with n d nat_digits_start[of "nat (- n)"] parse_nat_digits[of "nat n"] parse_nat_digits[of "nat (- n)"]
  show ?thesis by (auto simp: parse_int64_def int_text_def Let_def)
qed

lemma parse_int64_range: "parse_int64 s = Some n \<Longrightarrow> in_int64 n"
  by (auto simp: parse_int64_def Let_def split: prod.splits option.splits if_splits)

fun opt_list :: "'a option list \<Rightarrow> 'a list option" where
  "opt_list [] = Some []"
| "opt_list (None # xs) = None"
| "opt_list (Some x # xs) = map_option (Cons x) (opt_list xs)"

definition json_object :: "(string \<times> string) list \<Rightarrow> string" where
  "json_object kvs =
     ''{'' @ join_strings (map (\<lambda>(k, v). json_string k @ '':'' @ v) (sort_key fst kvs)) '','' @ ''}''"

fun json_encode :: "(float64 \<Rightarrow> string) \<Rightarrow> any \<Rightarrow> string option" where
  "json_encode fmt ANil = Some ''null''"
| "json_encode fmt (ABool b) = Some (if b then ''true'' else ''false'')"
| "json_encode fmt (AInt n) = Some (int_text n)"
| "json_encode fmt (AFloat r) = Some (fmt r)"
| "json_encode fmt (ANumber s) =
     (if s = [] then Some ''0'' else if valid_number s then Some s else None)"
| "json_encode fmt (AString s) = Some (json_string s)"
| "json_encode fmt (AList xs) =
     map_option (\<lambda>ys. ''['' @ join_strings ys '','' @ '']'') (opt_list (map (json_encode fmt) xs))"
| "json_encode fmt (AObj m) =
     map_option json_object (opt_list (map (\<lambda>(k, v). map_option (Pair k) (json_encode fmt v)) m))"

section \<open>\<open>json.Unmarshal\<close>\<close>

text \<open>Bytes that hold JSON are represented by the document: no bytes, bytes that are not JSON, or a document
  (whose objects have distinct keys and whose numbers keep their text).\<close>

datatype json_raw = JEmpty | JInvalid | JDoc any

text \<open>The value of a JSON number, without the rounding to a \<open>float64\<close>.\<close>

definition digits_value :: "string \<Rightarrow> int" where
  "digits_value ds = (case parse_digits 0 ds of None \<Rightarrow> 0 | Some n \<Rightarrow> n)"

definition exponent_value :: "string \<Rightarrow> int" where
  "exponent_value s = (case s of
      [] \<Rightarrow> 0
    | e # cs \<Rightarrow> (case cs of [] \<Rightarrow> 0
        | c # ds \<Rightarrow> if c = CHR ''-'' then - digits_value ds else if c = CHR ''+'' then digits_value ds else digits_value cs))"

definition scale_ten :: "rat \<Rightarrow> int \<Rightarrow> rat" where
  "scale_ten r n = (if 0 \<le> n then r * 10 ^ nat n else r / 10 ^ nat (- n))"

definition number_value :: "string \<Rightarrow> float64" where
  "number_value s =
     (let neg = (s \<noteq> [] \<and> hd s = CHR ''-'');
          body = (if neg then tl s else s);
          whole = takeWhile is_digit body;
          rest = dropWhile is_digit body;
          frac = (case rest of c # cs \<Rightarrow> if c = CHR ''.'' then takeWhile is_digit cs else [] | [] \<Rightarrow> []);
          expo = (case rest of c # cs \<Rightarrow> if c = CHR ''.'' then dropWhile is_digit cs else rest | [] \<Rightarrow> []);
          mant = of_int (digits_value (whole @ frac));
          r = scale_ten mant (exponent_value expo - int (length frac))
      in if neg then - r else r)"

text \<open>Decoding into \<open>any\<close>: numbers become floats.\<close>

fun unmarshal_any :: "any \<Rightarrow> any" where
  "unmarshal_any (ANumber s) = AFloat (number_value s)"
| "unmarshal_any (AList vs) = AList (map unmarshal_any vs)"
| "unmarshal_any (AObj m) = AObj (map (\<lambda>(k, v). (k, unmarshal_any v)) m)"
| "unmarshal_any v = v"

text \<open>Decoding into a nil \<open>map[string]any\<close>: \<open>None\<close> is an error, after which the map is still nil; nil reads like
  the empty map.\<close>

definition unmarshal_map :: "json_raw \<Rightarrow> obj option" where
  "unmarshal_map raw = (case raw of
      JDoc (AObj m) \<Rightarrow> Some (as_obj (unmarshal_any (AObj m)))
    | JDoc ANil \<Rightarrow> Some []
    | _ \<Rightarrow> None)"

section \<open>Optional values\<close>

text \<open>The result of reading a single database row.\<close>

datatype 'a fetch = Found 'a | RecordNotFound | DbError string

section \<open>Association maps\<close>

lemma map_of_filter_key:
  "map_of (filter (\<lambda>(k, v). P k) xs) k = (if P k then map_of xs k else None)"
  by (induction xs) auto

section \<open>Stable sorting by a comparison function\<close>

text \<open>
  \<open>sort.SliceStable(xs, lt)\<close> returns the unique permutation that is ordered by \<open>lt\<close> and keeps
  the order of equivalent elements, whenever \<open>lt\<close> is a strict weak order. The model computes it
  by insertion; \<open>sort.Slice\<close>, whose order of equivalent elements is unspecified, is read as one of
  its possible results.
\<close>

fun insert_by :: "('a \<Rightarrow> 'a \<Rightarrow> bool) \<Rightarrow> 'a \<Rightarrow> 'a list \<Rightarrow> 'a list" where
  "insert_by lt x [] = [x]"
| "insert_by lt x (y # ys) = (if lt y x then y # insert_by lt x ys else x # y # ys)"

definition stable_sort :: "('a \<Rightarrow> 'a \<Rightarrow> bool) \<Rightarrow> 'a list \<Rightarrow> 'a list" where
  "stable_sort lt xs = foldr (insert_by lt) xs []"

lemma mset_insert_by [simp]: "mset (insert_by lt x xs) = add_mset x (mset xs)"
  by (induction xs) auto

lemma mset_stable_sort [simp]: "mset (stable_sort lt xs) = mset xs"
  unfolding stable_sort_def by (induction xs) auto

lemma set_stable_sort [simp]: "set (stable_sort lt xs) = set xs"
  using mset_eq_setD[OF mset_stable_sort] .

lemma length_stable_sort [simp]: "length (stable_sort lt xs) = length xs"
  using mset_eq_length[OF mset_stable_sort] .

lemma set_insert_by [simp]: "set (insert_by lt x xs) = insert x (set xs)"
  by (induction xs) auto

locale strict_weak_order =
  fixes lt :: "'a \<Rightarrow> 'a \<Rightarrow> bool"
  assumes irrefl: "\<not> lt x x"
    and trans: "lt x y \<Longrightarrow> lt y z \<Longrightarrow> lt x z"
    and neg_trans: "lt x z \<Longrightarrow> lt x y \<or> lt y z"
begin

lemma asym: "lt x y \<Longrightarrow> \<not> lt y x"
  using irrefl trans by blast

lemma sorted_insert_by:
  "sorted_wrt (\<lambda>a b. \<not> lt b a) xs \<Longrightarrow> sorted_wrt (\<lambda>a b. \<not> lt b a) (insert_by lt x xs)"
proof (induction xs)
  case Nil
  then show ?case by simp
next
  case (Cons y ys)
  show ?case
  proof (cases "lt y x")
    case True
    with Cons show ?thesis by (auto dest: asym)
  next
    case False
    have "\<not> lt z x" if "z \<in> set ys" for z
      using Cons.prems that False neg_trans[of z x y] by auto
    with Cons False show ?thesis by auto
  qed
qed

lemma sorted_stable_sort: "sorted_wrt (\<lambda>a b. \<not> lt b a) (stable_sort lt xs)"
  unfolding stable_sort_def by (induction xs) (auto intro: sorted_insert_by)

text \<open>Stability: the elements equivalent to a given one keep their order.\<close>

lemma filter_insert_by:
  assumes "sorted_wrt (\<lambda>a b. \<not> lt b a) xs"
  shows "filter (\<lambda>y. \<not> lt y a \<and> \<not> lt a y) (insert_by lt x xs) =
    filter (\<lambda>y. \<not> lt y a \<and> \<not> lt a y) (x # xs)"
  using assms
proof (induction xs)
  case Nil
  then show ?case by simp
next
  case (Cons y ys)
  show ?case
  proof (cases "lt y x")
    case True
    then have "\<not> (\<not> lt y a \<and> \<not> lt a y \<and> \<not> lt x a \<and> \<not> lt a x)"
      using neg_trans[of y x a] by blast
    with True Cons show ?thesis by auto
  next
    case False
    then show ?thesis by simp
  qed
qed

lemma stable_sort_stable:
  "filter (\<lambda>y. \<not> lt y a \<and> \<not> lt a y) (stable_sort lt xs) =
   filter (\<lambda>y. \<not> lt y a \<and> \<not> lt a y) xs"
proof (induction xs)
  case Nil
  then show ?case by (simp add: stable_sort_def)
next
  case (Cons x xs)
  have "filter (\<lambda>y. \<not> lt y a \<and> \<not> lt a y) (insert_by lt x (stable_sort lt xs)) =
      filter (\<lambda>y. \<not> lt y a \<and> \<not> lt a y) (x # stable_sort lt xs)"
    by (rule filter_insert_by[OF sorted_stable_sort])
  with Cons show ?case by (simp add: stable_sort_def)
qed

end

end
