(* ===== verification/Slot_Pool.thy ===== *)
theory Slot_Pool
  imports Main
begin

text \<open>
  The contract shared by the components that bound how many requests run at once: the in-flight
  counter of a rate-limit scope and the channel of an upstream concurrency limiter. A client takes
  a slot, gives it back once, and everything else leaves the count alone.

  \<open>slot_run\<close> are the runs of such a component together with the number of slots its clients hold;
  a slot is only given back by a client that holds one.
\<close>

inductive slot_run ::
  "('s \<Rightarrow> bool) \<Rightarrow> ('s \<Rightarrow> 's \<Rightarrow> bool) \<Rightarrow> ('s \<Rightarrow> 's \<Rightarrow> bool) \<Rightarrow> ('s \<Rightarrow> 's \<Rightarrow> bool) \<Rightarrow> 's \<Rightarrow> nat \<Rightarrow> bool"
  for start takes gives other where
  init: "start s \<Longrightarrow> slot_run start takes gives other s 0"
| acquire: "slot_run start takes gives other s n \<Longrightarrow> takes s s' \<Longrightarrow>
    slot_run start takes gives other s' (Suc n)"
| release: "slot_run start takes gives other s (Suc n) \<Longrightarrow> gives s s' \<Longrightarrow>
    slot_run start takes gives other s' n"
| unrelated: "slot_run start takes gives other s n \<Longrightarrow> other s s' \<Longrightarrow>
    slot_run start takes gives other s' n"

locale slot_pool =
  fixes start :: "'s \<Rightarrow> bool"
    and takes gives other :: "'s \<Rightarrow> 's \<Rightarrow> bool"
    and slots :: "'s \<Rightarrow> int"
    and limit :: int
  assumes start_slots: "start s \<Longrightarrow> slots s = 0"
    and limit_nonneg: "0 \<le> limit"
    and takes_slots: "takes s s' \<Longrightarrow> 0 \<le> slots s \<Longrightarrow> slots s \<le> limit \<Longrightarrow>
          slots s' = slots s + 1 \<and> slots s' \<le> limit"
    and gives_slots: "gives s s' \<Longrightarrow> 0 < slots s \<Longrightarrow> slots s \<le> limit \<Longrightarrow> slots s' = slots s - 1"
    and other_slots: "other s s' \<Longrightarrow> slots s' = slots s"
begin

text \<open>The counter is exactly the number of slots held, and never above the limit.\<close>

lemma slots_held:
  "slot_run start takes gives other s n \<Longrightarrow> slots s = int n \<and> int n \<le> limit"
proof (induction rule: slot_run.induct)
  case (init s)
  then show ?case using start_slots limit_nonneg by simp
next
  case (acquire s n s')
  then show ?case using takes_slots[of s s'] by simp
next
  case (release s n s')
  then show ?case using gives_slots[of s s'] by simp
next
  case (unrelated s n s')
  then show ?case using other_slots[of s s'] by simp
qed

lemma all_released: "slot_run start takes gives other s 0 \<Longrightarrow> slots s = 0"
  using slots_held[of s 0] by simp

end

end
