(* ===== verification/Rate_Limit.thy ===== *)
theory Rate_Limit
  imports Go_Prelude Slot_Pool
begin

text \<open>
  The gateway rate limiter, \<open>server/internal/ratelimit/service.go\<close>: per-scope windows that hold a
  number of in-flight requests (the \<open>RPMLimit\<close> bounds concurrency) and the tokens reserved and
  used in the current minute (the \<open>TPMLimit\<close>), the configuration cache in front of the
  repository, and the token estimate taken from the request payload.

  The service's mutex makes each locked section atomic; a locked section is one function on
  \<open>service\<close>. The repository, which is a query of the database, is the parameter \<open>repo\<close>; reading
  the clock is a parameter as well. Pointers to waiters are numbered, see \<open>Rate_Queue\<close>.
\<close>

section \<open>Data\<close>

record config =
  cfg_Status :: string
  cfg_RPMLimit :: "int option"
  cfg_TPMLimit :: "int option"

record config_input =
  ci_Status :: string
  ci_RPMLimit :: "int option"
  ci_TPMLimit :: "int option"

text \<open>The columns of \<open>store.GatewayRateLimit\<close> the service reads.\<close>

record gateway_rate_limit =
  grl_Scope :: string
  grl_APIKeyID :: "uuid option"
  grl_Status :: string
  grl_RPMLimit :: "int option"
  grl_TPMLimit :: "int option"

record upsert_params =
  up_Scope :: string
  up_APIKeyID :: "uuid option"
  up_Status :: string
  up_RPMLimit :: "int option"
  up_TPMLimit :: "int option"

record acquire_input =
  ai_APIKeyID :: uuid
  ai_Endpoint :: string
  ai_Payload :: "obj option"
  ai_EstimateTPM :: bool
  ai_RequestedAt :: go_time

record reservation_scope =
  rs_Scope :: string
  rs_ScopeKey :: string
  rs_RPMLimit :: "int option"
  rs_TPMLimit :: "int option"
  rs_RPMUsed :: int
  rs_TPMReserved :: int
  rs_TPMActual :: int
  rs_ReservedTokens :: int
  rs_RPMHeld :: bool

record reservation =
  res_WindowStart :: go_time
  res_EstimatedTokens :: int
  res_ReservedTokens :: int
  res_Scopes :: "reservation_scope list"

record limit_error =
  le_Scope :: string
  le_ScopeKey :: string
  le_LimitType :: string
  le_Limit :: int
  le_RetryAfterSeconds :: int
  le_Message :: string

text \<open>The errors of \<open>Acquire\<close>: a \<open>LimitError\<close>, or whatever the repository returned.\<close>

datatype acquire_error = Limited limit_error | RepoFailed string

record active_config =
  ac_Scope :: string
  ac_ScopeKey :: string
  ac_RPMLimit :: "int option"
  ac_TPMLimit :: "int option"

record cached_scope_config =
  csc_config :: active_config
  csc_active :: bool
  csc_fetchedAt :: go_time

text \<open>The release channel has capacity one: \<open>None\<close> is the nil channel, \<open>Some b\<close> says whether a
  token is in it.\<close>

record scope_window =
  sw_windowStart :: go_time
  sw_inflight :: int
  sw_tpmReserved :: int
  sw_tpmActual :: int
  sw_release :: "bool option"

text \<open>A waiter is an object; \<open>qw_id\<close> is its identity, \<open>qw_ready\<close> says that its channel is closed.\<close>

record queue_waiter =
  qw_id :: nat
  qw_ready :: bool
  qw_abandoned :: bool

record service =
  sv_db :: bool
  sv_windows :: "string \<rightharpoonup> scope_window"
  sv_configs :: "string \<rightharpoonup> cached_scope_config"
  sv_queues :: "string \<Rightarrow> queue_waiter list"
  sv_lastSweep :: go_time
  sv_nextWaiter :: nat

definition new_service :: "bool \<Rightarrow> service" where
  "new_service db = \<lparr>sv_db = db, sv_windows = Map.empty, sv_configs = Map.empty,
     sv_queues = (\<lambda>_. []), sv_lastSweep = 0, sv_nextWaiter = 0\<rparr>"

section \<open>Constants\<close>

definition defaultReserveOutputTokens :: int where "defaultReserveOutputTokens = 4096"
definition configCacheTTL :: duration where "configCacheTTL = seconds 30"
definition windowSweepInterval :: duration where "windowSweepInterval = minutes 1"
definition windowExpiry :: duration where "windowExpiry = minutes 2"
definition rpmRetryAfterSeconds :: int where "rpmRetryAfterSeconds = 5"

definition rateLimitStatusEnabled :: string where "rateLimitStatusEnabled = ''enabled''"
definition rateLimitStatusDisabled :: string where "rateLimitStatusDisabled = ''disabled''"
definition rateLimitScopeGlobal :: string where "rateLimitScopeGlobal = ''global''"
definition rateLimitScopeAPIKey :: string where "rateLimitScopeAPIKey = ''api_key''"

lemmas rl_const_defs [go_simps] = defaultReserveOutputTokens_def configCacheTTL_def
  windowSweepInterval_def windowExpiry_def rpmRetryAfterSeconds_def rateLimitStatusEnabled_def
  rateLimitStatusDisabled_def rateLimitScopeGlobal_def rateLimitScopeAPIKey_def seconds_def

definition error_text :: "limit_error \<Rightarrow> string" where
  "error_text e = (if trim_space (le_Message e) \<noteq> [] then le_Message e else ''rate limit exceeded'')"

section \<open>Configuration\<close>

definition defaultConfig :: config where
  "defaultConfig = \<lparr>cfg_Status = rateLimitStatusDisabled, cfg_RPMLimit = None, cfg_TPMLimit = None\<rparr>"

definition normalizeStatus :: "string \<Rightarrow> string" where
  "normalizeStatus value = (let t = trim_space value in
     if t = rateLimitStatusEnabled then rateLimitStatusEnabled
     else if t = rateLimitStatusDisabled \<or> t = [] then rateLimitStatusDisabled
     else [])"

definition configFromStore :: "gateway_rate_limit \<Rightarrow> config" where
  "configFromStore item =
     (let status = normalizeStatus (grl_Status item);
          status = (if status = [] then rateLimitStatusDisabled else status)
      in \<lparr>cfg_Status = status, cfg_RPMLimit = grl_RPMLimit item, cfg_TPMLimit = grl_TPMLimit item\<rparr>)"

definition activeConfigFromStore :: "gateway_rate_limit \<Rightarrow> string \<Rightarrow> active_config \<times> bool" where
  "activeConfigFromStore item scopeKey =
     (let zero = \<lparr>ac_Scope = [], ac_ScopeKey = [], ac_RPMLimit = None, ac_TPMLimit = None\<rparr> in
      if grl_Status item \<noteq> rateLimitStatusEnabled then (zero, False)
      else if grl_RPMLimit item = None \<and> grl_TPMLimit item = None then (zero, False)
      else (\<lparr>ac_Scope = grl_Scope item, ac_ScopeKey = scopeKey,
             ac_RPMLimit = grl_RPMLimit item, ac_TPMLimit = grl_TPMLimit item\<rparr>, True))"

definition getGlobal :: "service \<Rightarrow> (string \<Rightarrow> gateway_rate_limit fetch) \<Rightarrow> string + config" where
  "getGlobal s repo = (if \<not> sv_db s then Inr defaultConfig
     else case repo ''global'' of
         RecordNotFound \<Rightarrow> Inr defaultConfig
       | DbError e \<Rightarrow> Inl e
       | Found item \<Rightarrow> Inr (configFromStore item))"

definition api_key_scope :: "uuid \<Rightarrow> string" where
  "api_key_scope apiKeyID = ''api_key:'' @ apiKeyID"

definition getAPIKey ::
  "service \<Rightarrow> (string \<Rightarrow> gateway_rate_limit fetch) \<Rightarrow> uuid \<Rightarrow> string + config" where
  "getAPIKey s repo apiKeyID = (if \<not> sv_db s \<or> apiKeyID = uuid_nil then Inr defaultConfig
     else case repo (api_key_scope apiKeyID) of
         RecordNotFound \<Rightarrow> Inr defaultConfig
       | DbError e \<Rightarrow> Inl e
       | Found item \<Rightarrow> Inr (configFromStore item))"

definition invalidateConfig :: "service \<Rightarrow> string \<Rightarrow> uuid \<Rightarrow> service" where
  "invalidateConfig s scope apiKeyID =
     (let scopeKey = (if scope = rateLimitScopeAPIKey then api_key_scope apiKeyID else ''global'')
      in s\<lparr>sv_configs := (sv_configs s)(scopeKey := None)\<rparr>)"

definition set_config ::
  "(upsert_params \<Rightarrow> string + gateway_rate_limit) \<Rightarrow> service \<Rightarrow> string \<Rightarrow> uuid \<Rightarrow> config_input
     \<Rightarrow> service \<times> (string + config)" where
  "set_config upsert s scope apiKeyID input =
     (let status = normalizeStatus (ci_Status input) in
      if \<not> sv_db s then (s, Inl ''store is not initialized'')
      else if status = [] then (s, Inl ''rate_limit.status must be enabled or disabled'')
      else if (case ci_RPMLimit input of Some n \<Rightarrow> n \<le> 0 | None \<Rightarrow> False)
        then (s, Inl ''rate_limit.rpm_limit must be greater than 0'')
      else if (case ci_TPMLimit input of Some n \<Rightarrow> n \<le> 0 | None \<Rightarrow> False)
        then (s, Inl ''rate_limit.tpm_limit must be greater than 0'')
      else case upsert \<lparr>up_Scope = scope,
               up_APIKeyID = (if scope = rateLimitScopeAPIKey then Some apiKeyID else None),
               up_Status = status, up_RPMLimit = ci_RPMLimit input, up_TPMLimit = ci_TPMLimit input\<rparr> of
           Inl e \<Rightarrow> (s, Inl e)
         | Inr item \<Rightarrow> (invalidateConfig s scope apiKeyID, Inr (configFromStore item)))"

definition setGlobal ::
  "(upsert_params \<Rightarrow> string + gateway_rate_limit) \<Rightarrow> service \<Rightarrow> config_input
     \<Rightarrow> service \<times> (string + config)" where
  "setGlobal upsert s input = set_config upsert s rateLimitScopeGlobal uuid_nil input"

definition setAPIKey ::
  "(upsert_params \<Rightarrow> string + gateway_rate_limit) \<Rightarrow> service \<Rightarrow> uuid \<Rightarrow> config_input
     \<Rightarrow> service \<times> (string + config)" where
  "setAPIKey upsert s apiKeyID input =
     (if apiKeyID = uuid_nil then (s, Inl ''api_key_id is required'')
      else set_config upsert s rateLimitScopeAPIKey apiKeyID input)"

text \<open>The configuration cache: the first loop reads what is fresh, the second fetches the rest.\<close>

fun cached_configs ::
  "service \<Rightarrow> go_time \<Rightarrow> string list \<Rightarrow> active_config list \<times> string list" where
  "cached_configs s now [] = ([], [])"
| "cached_configs s now (k # ks) =
     (let (result, missing) = cached_configs s now ks in
      case sv_configs s k of
        None \<Rightarrow> (result, k # missing)
      | Some c \<Rightarrow> if now - csc_fetchedAt c > configCacheTTL then (result, k # missing)
          else if csc_active c then (csc_config c # result, missing) else (result, missing))"

definition zero_rate_limit :: gateway_rate_limit where
  "zero_rate_limit = \<lparr>grl_Scope = [], grl_APIKeyID = None, grl_Status = [],
     grl_RPMLimit = None, grl_TPMLimit = None\<rparr>"

fun fetch_configs ::
  "(string \<Rightarrow> gateway_rate_limit fetch) \<Rightarrow> go_time \<Rightarrow> string list
     \<Rightarrow> string + (string \<times> cached_scope_config) list" where
  "fetch_configs repo now [] = Inr []"
| "fetch_configs repo now (k # ks) =
     (case (case repo k of
              Found item \<Rightarrow> Inr item | RecordNotFound \<Rightarrow> Inr zero_rate_limit | DbError e \<Rightarrow> Inl e) of
        Inl e \<Rightarrow> Inl e
      | Inr item \<Rightarrow>
          (let (cfg, active) = activeConfigFromStore item k in
           case fetch_configs repo now ks of
             Inl e \<Rightarrow> Inl e
           | Inr rest \<Rightarrow> Inr ((k, \<lparr>csc_config = cfg, csc_active = active, csc_fetchedAt = now\<rparr>) # rest)))"

definition store_configs :: "(string \<times> cached_scope_config) list \<Rightarrow> service \<Rightarrow> service" where
  "store_configs fetched s = s\<lparr>sv_configs := sv_configs s ++ map_of fetched\<rparr>"

definition activeConfigsCached ::
  "(string \<Rightarrow> gateway_rate_limit fetch) \<Rightarrow> service \<Rightarrow> uuid \<Rightarrow> go_time
     \<Rightarrow> service \<times> (string + active_config list)" where
  "activeConfigsCached repo s apiKeyID now =
     (let (result, missing) = cached_configs s now [''global'', api_key_scope apiKeyID] in
      if missing = [] then (s, Inr result)
      else case fetch_configs repo now missing of
          Inl e \<Rightarrow> (s, Inl e)
        | Inr fetched \<Rightarrow>
            (store_configs fetched s,
             Inr (result @ map (csc_config \<circ> snd) (filter (csc_active \<circ> snd) fetched))))"

section \<open>Token estimate\<close>

definition int64FromAny :: "any \<Rightarrow> int option" where
  "int64FromAny value = (case value of
      AInt v \<Rightarrow> Some v
    | AFloat v \<Rightarrow> Some (float_to_int64 v)
    | ANumber v \<Rightarrow> parse_int64 v
    | _ \<Rightarrow> None)"

fun outputTokenReservation_keys :: "string list \<Rightarrow> obj \<Rightarrow> int" where
  "outputTokenReservation_keys [] payload = defaultReserveOutputTokens"
| "outputTokenReservation_keys (k # ks) payload =
     (case int64FromAny (obj_get payload k) of
        Some value \<Rightarrow> if value > 0 then value else outputTokenReservation_keys ks payload
      | None \<Rightarrow> outputTokenReservation_keys ks payload)"

definition outputTokenReservation :: "obj \<Rightarrow> int" where
  "outputTokenReservation payload =
     outputTokenReservation_keys [''max_tokens'', ''max_completion_tokens'', ''max_output_tokens''] payload"

definition estimatePromptTokens :: "(float64 \<Rightarrow> string) \<Rightarrow> obj \<Rightarrow> int" where
  "estimatePromptTokens fmt payload =
     (let cloned = filter (\<lambda>(k, v). k \<notin> {''max_tokens'', ''max_completion_tokens'',
                                           ''max_output_tokens'', ''stream''}) payload
      in case json_encode fmt (AObj cloned) of
          None \<Rightarrow> 1
        | Some encoded \<Rightarrow> (let tokens = int (length encoded div 4) in if tokens < 1 then 1 else tokens))"

definition estimateTokens :: "(float64 \<Rightarrow> string) \<Rightarrow> obj option \<Rightarrow> int" where
  "estimateTokens fmt payload = (case payload of
      None \<Rightarrow> defaultReserveOutputTokens
    | Some p \<Rightarrow> wrap64 (estimatePromptTokens fmt p + outputTokenReservation p))"

section \<open>Windows\<close>

definition window_locked :: "service \<Rightarrow> string \<Rightarrow> go_time \<Rightarrow> service \<times> scope_window" where
  "window_locked s scopeKey windowStart =
     (let w = (case sv_windows s scopeKey of
          None \<Rightarrow> \<lparr>sw_windowStart = windowStart, sw_inflight = 0, sw_tpmReserved = 0,
                    sw_tpmActual = 0, sw_release = None\<rparr>
        | Some w \<Rightarrow> if sw_windowStart w \<noteq> windowStart
            then w\<lparr>sw_windowStart := windowStart, sw_tpmReserved := 0, sw_tpmActual := 0\<rparr>
            else w)
      in (s\<lparr>sv_windows := (sv_windows s)(scopeKey \<mapsto> w)\<rparr>, w))"

definition sweep_locked :: "service \<Rightarrow> go_time \<Rightarrow> service" where
  "sweep_locked s now =
     (if now - sv_lastSweep s < windowSweepInterval then s
      else let windowCutoff = now - windowExpiry; configCutoff = now - configCacheTTL in
        s\<lparr>sv_lastSweep := now,
          sv_windows := (\<lambda>key. case sv_windows s key of
              None \<Rightarrow> None
            | Some w \<Rightarrow> if sw_inflight w = 0 \<and> sv_queues s key = [] \<and> sw_windowStart w < windowCutoff
                then None else Some w),
          sv_configs := (\<lambda>key. case sv_configs s key of
              None \<Rightarrow> None
            | Some c \<Rightarrow> if csc_fetchedAt c < configCutoff then None else Some c)\<rparr>)"

definition release_signal :: "service \<Rightarrow> string \<Rightarrow> service" where
  "release_signal s scopeKey =
     (let w = (case sv_windows s scopeKey of
          None \<Rightarrow> \<lparr>sw_windowStart = 0, sw_inflight = 0, sw_tpmReserved = 0,
                    sw_tpmActual = 0, sw_release = None\<rparr>
        | Some w \<Rightarrow> w);
          w = (if sw_release w = None then w\<lparr>sw_release := Some False\<rparr> else w)
      in s\<lparr>sv_windows := (sv_windows s)(scopeKey \<mapsto> w)\<rparr>)"

section \<open>Acquire and settle\<close>

record pending_scope =
  ps_config :: active_config
  ps_holdSlot :: bool
  ps_tpmDelta :: int

definition rpm_error :: "active_config \<Rightarrow> int \<Rightarrow> limit_error" where
  "rpm_error cfg limit = \<lparr>le_Scope = ac_Scope cfg, le_ScopeKey = ac_ScopeKey cfg,
     le_LimitType = ''rpm'', le_Limit = limit, le_RetryAfterSeconds = rpmRetryAfterSeconds,
     le_Message = []\<rparr>"

definition tpm_error :: "active_config \<Rightarrow> int \<Rightarrow> int \<Rightarrow> limit_error" where
  "tpm_error cfg limit retryAfter = \<lparr>le_Scope = ac_Scope cfg, le_ScopeKey = ac_ScopeKey cfg,
     le_LimitType = ''tpm'', le_Limit = limit, le_RetryAfterSeconds = retryAfter, le_Message = []\<rparr>"

definition scope_refused ::
  "string \<Rightarrow> queue_waiter list \<Rightarrow> active_config \<Rightarrow> scope_window \<Rightarrow> limit_error option" where
  "scope_refused queueHeadScope waiters cfg w =
     (case ac_RPMLimit cfg of
        Some limit \<Rightarrow>
          if (waiters \<noteq> [] \<and> ac_ScopeKey cfg \<noteq> queueHeadScope) \<or> wrap64 (sw_inflight w + 1) > limit
          then Some (rpm_error cfg limit) else None
      | None \<Rightarrow> None)"

definition tokens_refused ::
  "int \<Rightarrow> int \<Rightarrow> active_config \<Rightarrow> scope_window \<Rightarrow> limit_error option" where
  "tokens_refused retryAfter est cfg w =
     (case ac_TPMLimit cfg of
        Some limit \<Rightarrow>
          if est > 0 \<and> wrap64 (wrap64 (sw_tpmActual w + sw_tpmReserved w) + est) > limit
          then Some (tpm_error cfg limit retryAfter) else None
      | None \<Rightarrow> None)"

fun check_scopes ::
  "int \<Rightarrow> go_time \<Rightarrow> int \<Rightarrow> string \<Rightarrow> active_config list \<Rightarrow> service
     \<Rightarrow> service \<times> (limit_error + pending_scope list)" where
  "check_scopes retryAfter windowStart est queueHeadScope [] s = (s, Inr [])"
| "check_scopes retryAfter windowStart est queueHeadScope (cfg # cfgs) s =
     (let holdSlot = (ac_RPMLimit cfg \<noteq> None);
          tpmDelta = (if ac_TPMLimit cfg \<noteq> None then est else 0) in
      if \<not> holdSlot \<and> tpmDelta = 0
      then check_scopes retryAfter windowStart est queueHeadScope cfgs s
      else
        let (s', w) = window_locked s (ac_ScopeKey cfg) windowStart in
        case scope_refused queueHeadScope (sv_queues s' (ac_ScopeKey cfg)) cfg w of
          Some e \<Rightarrow> (s', Inl e)
        | None \<Rightarrow>
          (case tokens_refused retryAfter est cfg w of
             Some e \<Rightarrow> (s', Inl e)
           | None \<Rightarrow>
             (case check_scopes retryAfter windowStart est queueHeadScope cfgs s' of
                (s'', Inl e) \<Rightarrow> (s'', Inl e)
              | (s'', Inr ps) \<Rightarrow>
                  (s'', Inr (\<lparr>ps_config = cfg, ps_holdSlot = holdSlot, ps_tpmDelta = tpmDelta\<rparr> # ps)))))"

definition commit_window :: "pending_scope \<Rightarrow> scope_window \<Rightarrow> scope_window" where
  "commit_window item w =
     (let w1 = (if ps_holdSlot item then w\<lparr>sw_inflight := wrap64 (sw_inflight w + 1)\<rparr> else w)
      in w1\<lparr>sw_tpmReserved := wrap64 (sw_tpmReserved w1 + ps_tpmDelta item)\<rparr>)"

definition reservation_entry :: "pending_scope \<Rightarrow> scope_window \<Rightarrow> reservation_scope" where
  "reservation_entry item w =
     \<lparr>rs_Scope = ac_Scope (ps_config item), rs_ScopeKey = ac_ScopeKey (ps_config item),
      rs_RPMLimit = ac_RPMLimit (ps_config item), rs_TPMLimit = ac_TPMLimit (ps_config item),
      rs_RPMUsed = sw_inflight w, rs_TPMReserved = sw_tpmReserved w, rs_TPMActual = sw_tpmActual w,
      rs_ReservedTokens = ps_tpmDelta item, rs_RPMHeld = ps_holdSlot item\<rparr>"

definition commit_scope :: "go_time \<Rightarrow> pending_scope \<Rightarrow> service \<Rightarrow> service \<times> reservation_scope" where
  "commit_scope windowStart item s =
     (let key = ac_ScopeKey (ps_config item);
          (s', w) = window_locked s key windowStart;
          w' = commit_window item w
      in (s'\<lparr>sv_windows := (sv_windows s')(key \<mapsto> w')\<rparr>, reservation_entry item w'))"

fun commit_scopes ::
  "go_time \<Rightarrow> pending_scope list \<Rightarrow> service \<Rightarrow> service \<times> reservation_scope list" where
  "commit_scopes windowStart [] s = (s, [])"
| "commit_scopes windowStart (item # items) s =
     (let (s', r) = commit_scope windowStart item s;
          (s'', rs) = commit_scopes windowStart items s'
      in (s'', r # rs))"

text \<open>The section of \<open>acquire\<close> that runs under the mutex.\<close>

definition admit ::
  "go_time \<Rightarrow> int \<Rightarrow> string \<Rightarrow> active_config list \<Rightarrow> service
     \<Rightarrow> service \<times> (limit_error + reservation option)" where
  "admit now est queueHeadScope configs s =
     (let windowStart = truncate_minute now;
          s = sweep_locked s now;
          retry = ceil_seconds (windowStart + minutes 1 - now);
          retry = (if retry < 1 then 1 else retry)
      in case check_scopes retry windowStart est queueHeadScope configs s of
          (s', Inl e) \<Rightarrow> (s', Inl e)
        | (s', Inr pending) \<Rightarrow>
            if pending = [] then (s', Inr None)
            else let (s'', scopes) = commit_scopes windowStart pending s' in
              (s'', Inr (Some \<lparr>res_WindowStart = windowStart, res_EstimatedTokens = est,
                               res_ReservedTokens = est, res_Scopes = scopes\<rparr>)))"

definition acquire_input_tokens :: "(float64 \<Rightarrow> string) \<Rightarrow> acquire_input \<Rightarrow> int" where
  "acquire_input_tokens fmt input =
     (if ai_EstimateTPM input then estimateTokens fmt (ai_Payload input) else 0)"

definition acquire_at ::
  "(float64 \<Rightarrow> string) \<Rightarrow> (string \<Rightarrow> gateway_rate_limit fetch) \<Rightarrow> go_time \<Rightarrow> service
     \<Rightarrow> acquire_input \<Rightarrow> string \<Rightarrow> service \<times> (acquire_error + reservation option)" where
  "acquire_at fmt repo clock s input queueHeadScope =
     (if \<not> sv_db s \<or> ai_APIKeyID input = uuid_nil then (s, Inr None)
      else
        let now = (if ai_RequestedAt input = 0 then clock else ai_RequestedAt input) in
        case activeConfigsCached repo s (ai_APIKeyID input) now of
          (s', Inl e) \<Rightarrow> (s', Inl (RepoFailed e))
        | (s', Inr configs) \<Rightarrow>
          (case admit now (acquire_input_tokens fmt input) queueHeadScope configs s' of
             (s'', Inl e) \<Rightarrow> (s'', Inl (Limited e))
           | (s'', Inr r) \<Rightarrow> (s'', Inr r)))"

definition acquire ::
  "(float64 \<Rightarrow> string) \<Rightarrow> (string \<Rightarrow> gateway_rate_limit fetch) \<Rightarrow> go_time \<Rightarrow> service
     \<Rightarrow> acquire_input \<Rightarrow> service \<times> (acquire_error + reservation option)" where
  "acquire fmt repo clock s input = acquire_at fmt repo clock s input []"

definition settle_window :: "reservation_scope \<Rightarrow> go_time \<Rightarrow> int \<Rightarrow> scope_window \<Rightarrow> scope_window" where
  "settle_window sc resWindow actualTokens w =
     (let w1 = (if rs_RPMHeld sc then
            (let n = wrap64 (sw_inflight w - 1); n = (if n < 0 then 0 else n)
             in w\<lparr>sw_inflight := n, sw_release := map_option (\<lambda>_. True) (sw_release w)\<rparr>)
          else w)
      in if rs_ReservedTokens sc > 0 \<and> sw_windowStart w1 = resWindow
         then (let r = wrap64 (sw_tpmReserved w1 - rs_ReservedTokens sc); r = (if r < 0 then 0 else r)
               in w1\<lparr>sw_tpmReserved := r, sw_tpmActual := wrap64 (sw_tpmActual w1 + actualTokens)\<rparr>)
         else w1)"

definition settle_scope :: "go_time \<Rightarrow> int \<Rightarrow> reservation_scope \<Rightarrow> service \<Rightarrow> service" where
  "settle_scope resWindow actualTokens sc s =
     (case sv_windows s (rs_ScopeKey sc) of
        None \<Rightarrow> s
      | Some w \<Rightarrow> s\<lparr>sv_windows :=
          (sv_windows s)(rs_ScopeKey sc \<mapsto> settle_window sc resWindow actualTokens w)\<rparr>)"

definition settle :: "service \<Rightarrow> reservation option \<Rightarrow> int \<Rightarrow> service" where
  "settle s res actualTokens = (case res of
      None \<Rightarrow> s
    | Some r \<Rightarrow>
        if res_Scopes r = [] then s
        else let actual = (if actualTokens < 0 then 0 else actualTokens)
          in fold (settle_scope (res_WindowStart r) actual) (res_Scopes r) s)"

definition opt_int :: "int option \<Rightarrow> any" where
  "opt_int v = (case v of None \<Rightarrow> ANil | Some n \<Rightarrow> AInt n)"

definition reservation_metadata :: "(go_time \<Rightarrow> string) \<Rightarrow> reservation option \<Rightarrow> int \<Rightarrow> obj option" where
  "reservation_metadata rfc3339 res actualTokens = (case res of
      None \<Rightarrow> None
    | Some r \<Rightarrow> Some
       [(''estimated_tokens'', AInt (res_EstimatedTokens r)),
        (''reserved_tokens'', AInt (res_ReservedTokens r)),
        (''actual_tokens'', AInt actualTokens),
        (''scope_results'', AList (map (\<lambda>sc. AObj
           [(''scope'', AString (rs_Scope sc)),
            (''scope_key'', AString (rs_ScopeKey sc)),
            (''rpm_limit'', opt_int (rs_RPMLimit sc)),
            (''tpm_limit'', opt_int (rs_TPMLimit sc)),
            (''rpm_used'', AInt (rs_RPMUsed sc)),
            (''tpm_reserved'', AInt (rs_TPMReserved sc)),
            (''tpm_actual'', AInt (rs_TPMActual sc)),
            (''reserved_tokens'', AInt (rs_ReservedTokens sc))]) (res_Scopes r))),
        (''window_start'', AString (rfc3339 (res_WindowStart r)))])"

section \<open>What a request in a given window sees\<close>

text \<open>
  The abstract state of a scope: the window a request of the minute \<open>ws\<close> works on, after the
  creation or roll-over that \<open>windowLocked\<close> performs. \<open>inflight_of\<close> does not depend on the minute.
\<close>

definition seen_window :: "service \<Rightarrow> string \<Rightarrow> go_time \<Rightarrow> scope_window" where
  "seen_window s key ws = snd (window_locked s key ws)"

definition inflight_of :: "service \<Rightarrow> string \<Rightarrow> int" where
  "inflight_of s key = (case sv_windows s key of None \<Rightarrow> 0 | Some w \<Rightarrow> sw_inflight w)"

definition usage_of :: "service \<Rightarrow> string \<Rightarrow> go_time \<Rightarrow> int \<times> int \<times> int" where
  "usage_of s key ws = (let w = seen_window s key ws in (sw_inflight w, sw_tpmReserved w, sw_tpmActual w))"

lemma window_locked_eq:
  "window_locked s key ws = (s\<lparr>sv_windows := (sv_windows s)(key \<mapsto> seen_window s key ws)\<rparr>, seen_window s key ws)"
  by (simp add: seen_window_def window_locked_def Let_def)

lemma seen_window_start [simp]: "sw_windowStart (seen_window s key ws) = ws"
  by (simp add: seen_window_def window_locked_def Let_def split: option.split)

lemma seen_window_inflight [simp]: "sw_inflight (seen_window s key ws) = inflight_of s key"
  by (simp add: seen_window_def window_locked_def inflight_of_def Let_def split: option.split)

lemma seen_window_cong: "sv_windows s key = sv_windows s' key \<Longrightarrow> seen_window s key ws = seen_window s' key ws"
  by (simp add: seen_window_def window_locked_def Let_def)

lemma seen_window_self:
  "sv_windows s key = Some w \<Longrightarrow> sw_windowStart w = ws \<Longrightarrow> seen_window s key ws = w"
  by (simp add: seen_window_def window_locked_def)

lemma inflight_of_cong: "sv_windows s key = sv_windows s' key \<Longrightarrow> inflight_of s key = inflight_of s' key"
  by (simp add: inflight_of_def)

lemma seen_window_lock [simp]:
  "seen_window (s\<lparr>sv_windows := (sv_windows s)(key \<mapsto> seen_window s key ws)\<rparr>) key' ws = seen_window s key' ws"
proof (cases "key' = key")
  case True
  then show ?thesis by (auto intro: seen_window_self)
next
  case False
  then show ?thesis by (auto intro: seen_window_cong)
qed

lemma inflight_of_lock [simp]:
  "inflight_of (s\<lparr>sv_windows := (sv_windows s)(key \<mapsto> seen_window s key ws)\<rparr>) key' = inflight_of s key'"
proof (cases "key' = key")
  case True
  then show ?thesis by (simp add: inflight_of_def)
next
  case False
  then show ?thesis by (simp add: inflight_of_def)
qed

text \<open>Sweeping drops only windows without in-flight requests whose minute is long over.\<close>

lemma inflight_of_sweep [simp]: "inflight_of (sweep_locked s now) key = inflight_of s key"
  by (simp add: sweep_locked_def inflight_of_def Let_def split: option.split)

lemma sweep_locked_queues [simp]: "sv_queues (sweep_locked s now) = sv_queues s"
  by (simp add: sweep_locked_def Let_def)

lemma seen_window_sweep:
  assumes "now - windowExpiry \<le> ws"
  shows "sw_tpmReserved (seen_window (sweep_locked s now) key ws) = sw_tpmReserved (seen_window s key ws)"
    and "sw_tpmActual (seen_window (sweep_locked s now) key ws) = sw_tpmActual (seen_window s key ws)"
  using assms
  by (auto simp: sweep_locked_def seen_window_def window_locked_def Let_def split: option.split)

lemma truncate_minute_recent: "now - windowExpiry \<le> truncate_minute now"
  using truncate_minute_gt[of now] by (simp add: windowExpiry_def seconds_def)

lemma usage_of_sweep [simp]:
  "usage_of (sweep_locked s now) key (truncate_minute now) = usage_of s key (truncate_minute now)"
  by (simp add: usage_of_def Let_def seen_window_sweep[OF truncate_minute_recent])

section \<open>The check loop\<close>

lemma check_scopes_frame:
  assumes "check_scopes ra ws est qh cfgs s = (s', r)"
  shows "sv_queues s' = sv_queues s" and "seen_window s' key ws = seen_window s key ws"
    and "inflight_of s' key = inflight_of s key"
proof -
  have "sv_queues s' = sv_queues s \<and> seen_window s' key ws = seen_window s key ws
      \<and> inflight_of s' key = inflight_of s key"
    using assms
  proof (induction cfgs arbitrary: s s' r)
    case Nil
    then show ?case by simp
  next
    case (Cons c cfgs)
    show ?case
    proof (cases "ac_RPMLimit c = None \<and> (if ac_TPMLimit c \<noteq> None then est else 0) = 0")
      case True
      with Cons show ?thesis by simp
    next
      case False
      define s1 where "s1 = s\<lparr>sv_windows := (sv_windows s)(ac_ScopeKey c \<mapsto> seen_window s (ac_ScopeKey c) ws)\<rparr>"
      have "s' = s1 \<or> (\<exists>r'. check_scopes ra ws est qh cfgs s1 = (s', r'))"
        using Cons.prems False
        by (auto simp: Let_def window_locked_eq s1_def split: option.splits prod.splits sum.splits if_splits)
      then show ?thesis
        using Cons.IH[of s1] by (auto simp: s1_def)
    qed
  qed
  then show "sv_queues s' = sv_queues s" and "seen_window s' key ws = seen_window s key ws"
    and "inflight_of s' key = inflight_of s key" by simp_all
qed

lemma check_scopes_passed:
  assumes "check_scopes ra ws est qh cfgs s = (s', Inr ps)" and "p \<in> set ps"
  shows "ps_config p \<in> set cfgs"
    and "ps_holdSlot p \<longleftrightarrow> ac_RPMLimit (ps_config p) \<noteq> None"
    and "ps_tpmDelta p = (if ac_TPMLimit (ps_config p) \<noteq> None then est else 0)"
    and "scope_refused qh (sv_queues s (ac_ScopeKey (ps_config p))) (ps_config p)
           (seen_window s (ac_ScopeKey (ps_config p)) ws) = None"
    and "tokens_refused ra est (ps_config p) (seen_window s (ac_ScopeKey (ps_config p)) ws) = None"
proof -
  have "ps_config p \<in> set cfgs \<and> (ps_holdSlot p \<longleftrightarrow> ac_RPMLimit (ps_config p) \<noteq> None)
    \<and> ps_tpmDelta p = (if ac_TPMLimit (ps_config p) \<noteq> None then est else 0)
    \<and> scope_refused qh (sv_queues s (ac_ScopeKey (ps_config p))) (ps_config p)
         (seen_window s (ac_ScopeKey (ps_config p)) ws) = None
    \<and> tokens_refused ra est (ps_config p) (seen_window s (ac_ScopeKey (ps_config p)) ws) = None"
    using assms
  proof (induction cfgs arbitrary: s s' ps)
    case Nil
    then show ?case by simp
  next
    case (Cons c cfgs)
    show ?case
    proof (cases "ac_RPMLimit c = None \<and> (if ac_TPMLimit c \<noteq> None then est else 0) = 0")
      case True
      with Cons.prems(1) have "check_scopes ra ws est qh cfgs s = (s', Inr ps)" by simp
      from Cons.IH[OF this Cons.prems(2)] show ?thesis by simp
    next
      case False
      define s1 where "s1 = s\<lparr>sv_windows := (sv_windows s)(ac_ScopeKey c \<mapsto> seen_window s (ac_ScopeKey c) ws)\<rparr>"
      obtain ps' where
        rec: "check_scopes ra ws est qh cfgs s1 = (s', Inr ps')" and
        ps: "ps = \<lparr>ps_config = c, ps_holdSlot = (ac_RPMLimit c \<noteq> None),
              ps_tpmDelta = (if ac_TPMLimit c \<noteq> None then est else 0)\<rparr> # ps'" and
        ok: "scope_refused qh (sv_queues s (ac_ScopeKey c)) c (seen_window s (ac_ScopeKey c) ws) = None"
            "tokens_refused ra est c (seen_window s (ac_ScopeKey c) ws) = None"
        using Cons.prems(1) False
        by (auto simp: Let_def window_locked_eq s1_def split: option.splits prod.splits sum.splits if_splits)
      show ?thesis
      proof (cases "p \<in> set ps'")
        case True
        from Cons.IH[OF rec True] show ?thesis by (simp add: s1_def)
      next
        case False
        with Cons.prems(2) ps ok show ?thesis by simp
      qed
    qed
  qed
  then show "ps_config p \<in> set cfgs"
    and "ps_holdSlot p \<longleftrightarrow> ac_RPMLimit (ps_config p) \<noteq> None"
    and "ps_tpmDelta p = (if ac_TPMLimit (ps_config p) \<noteq> None then est else 0)"
    and "scope_refused qh (sv_queues s (ac_ScopeKey (ps_config p))) (ps_config p)
           (seen_window s (ac_ScopeKey (ps_config p)) ws) = None"
    and "tokens_refused ra est (ps_config p) (seen_window s (ac_ScopeKey (ps_config p)) ws) = None"
    by simp_all
qed

abbreviation pending_key :: "pending_scope \<Rightarrow> string" where
  "pending_key p \<equiv> ac_ScopeKey (ps_config p)"

lemma check_scopes_distinct:
  assumes "check_scopes ra ws est qh cfgs s = (s', Inr ps)" and "distinct (map ac_ScopeKey cfgs)"
  shows "distinct (map pending_key ps)"
  using assms
proof (induction cfgs arbitrary: s s' ps)
  case Nil
  then show ?case by simp
next
  case (Cons c cfgs)
  show ?case
  proof (cases "ac_RPMLimit c = None \<and> (if ac_TPMLimit c \<noteq> None then est else 0) = 0")
    case True
    with Cons show ?thesis by simp
  next
    case False
    then obtain s1 p ps' where rec: "check_scopes ra ws est qh cfgs s1 = (s', Inr ps')"
      and ps: "ps = p # ps'" "ps_config p = c"
      using Cons.prems(1)
      by (auto simp: Let_def window_locked_eq split: option.splits prod.splits sum.splits if_splits)
    have "distinct (map pending_key ps')"
      using Cons.IH[OF rec] Cons.prems(2) by simp
    moreover have "ac_ScopeKey (ps_config q) \<noteq> ac_ScopeKey c" if "q \<in> set ps'" for q
      using check_scopes_passed(1)[OF rec that] Cons.prems(2) by (metis distinct.simps(2) imageI list.simps(9) list.set_map)
    ultimately show ?thesis using ps by fastforce
  qed
qed

section \<open>The commit loop\<close>

lemma commit_scope_eq:
  "commit_scope ws p s =
     (s\<lparr>sv_windows := (sv_windows s)(pending_key p \<mapsto> commit_window p (seen_window s (pending_key p) ws))\<rparr>,
      reservation_entry p (commit_window p (seen_window s (pending_key p) ws)))"
  by (simp add: commit_scope_def window_locked_eq Let_def)

lemma commit_window_simps [simp]:
  "sw_windowStart (commit_window p w) = sw_windowStart w"
  "sw_tpmActual (commit_window p w) = sw_tpmActual w"
  "sw_inflight (commit_window p w) = (if ps_holdSlot p then wrap64 (sw_inflight w + 1) else sw_inflight w)"
  "sw_tpmReserved (commit_window p w) = wrap64 (sw_tpmReserved w + ps_tpmDelta p)"
  by (simp_all add: commit_window_def Let_def)

lemma commit_scopes_queues: "commit_scopes ws ps s = (s', rs) \<Longrightarrow> sv_queues s' = sv_queues s"
  by (induction ps arbitrary: s s' rs) (auto simp: commit_scope_eq Let_def split: prod.splits)

lemma commit_scopes_other:
  "commit_scopes ws ps s = (s', rs) \<Longrightarrow> key \<notin> pending_key ` set ps \<Longrightarrow> sv_windows s' key = sv_windows s key"
  by (induction ps arbitrary: s s' rs) (auto simp: commit_scope_eq Let_def split: prod.splits)

lemma commit_scopes_window:
  assumes "commit_scopes ws ps s = (s', rs)" and "distinct (map pending_key ps)" and "p \<in> set ps"
  shows "sv_windows s' (pending_key p) = Some (commit_window p (seen_window s (pending_key p) ws))"
  using assms
proof (induction ps arbitrary: s s' rs)
  case Nil
  then show ?case by simp
next
  case (Cons q ps)
  define s1 where "s1 = fst (commit_scope ws q s)"
  obtain rs' where rec: "commit_scopes ws ps s1 = (s', rs')"
    using Cons.prems(1) by (auto simp: s1_def Let_def split: prod.splits)
  show ?case
  proof (cases "p \<in> set ps")
    case True
    with Cons.prems(2) have "pending_key p \<noteq> pending_key q" by (auto simp: rev_image_eqI)
    then have "seen_window s1 (pending_key p) ws = seen_window s (pending_key p) ws"
      by (intro seen_window_cong) (simp add: s1_def commit_scope_eq)
    with Cons.IH[OF rec _ True] Cons.prems(2) show ?thesis by simp
  next
    case False
    with Cons.prems have "p = q" and "pending_key q \<notin> pending_key ` set ps" by auto
    with commit_scopes_other[OF rec] show ?thesis by (simp add: s1_def commit_scope_eq)
  qed
qed

lemma commit_scopes_entries:
  assumes "commit_scopes ws ps s = (s', rs)" and "distinct (map pending_key ps)"
  shows "rs = map (\<lambda>p. reservation_entry p (commit_window p (seen_window s (pending_key p) ws))) ps"
  using assms
proof (induction ps arbitrary: s s' rs)
  case Nil
  then show ?case by simp
next
  case (Cons q ps)
  define s1 where "s1 = fst (commit_scope ws q s)"
  obtain rs' where rec: "commit_scopes ws ps s1 = (s', rs')"
    and rs: "rs = snd (commit_scope ws q s) # rs'"
    using Cons.prems(1) by (auto simp: s1_def Let_def split: prod.splits)
  have "seen_window s1 (pending_key p) ws = seen_window s (pending_key p) ws" if "p \<in> set ps" for p
  proof -
    from that Cons.prems(2) have "pending_key p \<noteq> pending_key q" by (auto simp: rev_image_eqI)
    then show ?thesis by (intro seen_window_cong) (simp add: s1_def commit_scope_eq)
  qed
  with Cons.IH[OF rec] Cons.prems(2) rs show ?case by (simp add: commit_scope_eq)
qed

lemma reservation_entry_simps [simp]:
  "rs_ScopeKey (reservation_entry p w) = pending_key p"
  "rs_Scope (reservation_entry p w) = ac_Scope (ps_config p)"
  "rs_RPMHeld (reservation_entry p w) = ps_holdSlot p"
  "rs_ReservedTokens (reservation_entry p w) = ps_tpmDelta p"
  "rs_RPMLimit (reservation_entry p w) = ac_RPMLimit (ps_config p)"
  "rs_TPMLimit (reservation_entry p w) = ac_TPMLimit (ps_config p)"
  "rs_RPMUsed (reservation_entry p w) = sw_inflight w"
  "rs_TPMReserved (reservation_entry p w) = sw_tpmReserved w"
  "rs_TPMActual (reservation_entry p w) = sw_tpmActual w"
  by (simp_all add: reservation_entry_def)

section \<open>The locked section of \<open>acquire\<close>\<close>

lemma admit_run:
  assumes "admit now est qh cfgs s = (s', Inr (Some r))"
  obtains ra s1 ps where
    "check_scopes ra (truncate_minute now) est qh cfgs (sweep_locked s now) = (s1, Inr ps)"
    and "commit_scopes (truncate_minute now) ps s1 = (s', res_Scopes r)"
    and "res_WindowStart r = truncate_minute now"
    and "res_EstimatedTokens r = est" and "res_ReservedTokens r = est" and "ps \<noteq> []"
  using assms unfolding admit_def Let_def
  by (auto split: prod.splits sum.splits if_splits)

lemma admit_reservation:
  assumes "admit now est qh cfgs s = (s', Inr (Some r))"
  shows "res_WindowStart r = truncate_minute now" and "res_EstimatedTokens r = est"
  using assms by (auto elim: admit_run)

text \<open>A scope the reservation does not mention is left alone.\<close>

lemma admit_elsewhere:
  assumes ok: "admit now est qh cfgs s = (s', Inr (Some r))" and dist: "distinct (map ac_ScopeKey cfgs)"
  shows "distinct (map rs_ScopeKey (res_Scopes r))"
    and "key \<notin> rs_ScopeKey ` set (res_Scopes r) \<Longrightarrow> inflight_of s' key = inflight_of s key"
    and "key \<notin> rs_ScopeKey ` set (res_Scopes r) \<Longrightarrow>
           usage_of s' key (truncate_minute now) = usage_of s key (truncate_minute now)"
    and "sv_queues s' = sv_queues s"
proof -
  obtain ra s1 ps where chk: "check_scopes ra (truncate_minute now) est qh cfgs (sweep_locked s now) = (s1, Inr ps)"
    and com: "commit_scopes (truncate_minute now) ps s1 = (s', res_Scopes r)"
    using ok by (rule admit_run)
  note dps = check_scopes_distinct[OF chk dist]
  have keys: "map rs_ScopeKey (res_Scopes r) = map pending_key ps"
    unfolding commit_scopes_entries[OF com dps] by simp
  show "distinct (map rs_ScopeKey (res_Scopes r))" using keys dps by simp
  have same: "sv_windows s' key = sv_windows s1 key" if "key \<notin> rs_ScopeKey ` set (res_Scopes r)"
    using commit_scopes_other[OF com] that keys by (metis list.set_map)
  show "inflight_of s' key = inflight_of s key" if "key \<notin> rs_ScopeKey ` set (res_Scopes r)"
    using inflight_of_cong[OF same[OF that]] check_scopes_frame(3)[OF chk] by simp
  show "usage_of s' key (truncate_minute now) = usage_of s key (truncate_minute now)"
    if "key \<notin> rs_ScopeKey ` set (res_Scopes r)"
    using seen_window_cong[OF same[OF that]] check_scopes_frame(2)[OF chk] usage_of_sweep[of s now key]
    by (simp add: usage_of_def)
  show "sv_queues s' = sv_queues s"
    using commit_scopes_queues[OF com] check_scopes_frame(1)[OF chk] by simp
qed

text \<open>What a successful admission establishes for a scope of the reservation, in terms of the state
  before it.\<close>

lemma admit_entry:
  assumes ok: "admit now est qh cfgs s = (s', Inr (Some r))" and dist: "distinct (map ac_ScopeKey cfgs)"
    and sc: "sc \<in> set (res_Scopes r)"
    and usage: "usage_of s (rs_ScopeKey sc) (truncate_minute now) = (a, b, c)"
  shows "\<exists>cfg w. cfg \<in> set cfgs \<and> ac_ScopeKey cfg = rs_ScopeKey sc
    \<and> rs_RPMLimit sc = ac_RPMLimit cfg \<and> rs_TPMLimit sc = ac_TPMLimit cfg
    \<and> (rs_RPMHeld sc \<longleftrightarrow> ac_RPMLimit cfg \<noteq> None)
    \<and> rs_ReservedTokens sc = (if ac_TPMLimit cfg \<noteq> None then est else 0)
    \<and> a = inflight_of s (rs_ScopeKey sc)
    \<and> (\<forall>n. ac_RPMLimit cfg = Some n \<longrightarrow> wrap64 (a + 1) \<le> n)
    \<and> (ac_RPMLimit cfg \<noteq> None \<longrightarrow> sv_queues s (rs_ScopeKey sc) = [] \<or> rs_ScopeKey sc = qh)
    \<and> (\<forall>n. ac_TPMLimit cfg = Some n \<and> est > 0 \<longrightarrow> wrap64 (wrap64 (c + b) + est) \<le> n)
    \<and> sv_windows s' (rs_ScopeKey sc) = Some w \<and> sw_windowStart w = truncate_minute now
    \<and> sw_inflight w = (if rs_RPMHeld sc then wrap64 (a + 1) else a)
    \<and> sw_tpmReserved w = wrap64 (b + rs_ReservedTokens sc) \<and> sw_tpmActual w = c"
proof -
  obtain ra s1 ps where chk: "check_scopes ra (truncate_minute now) est qh cfgs (sweep_locked s now) = (s1, Inr ps)"
    and com: "commit_scopes (truncate_minute now) ps s1 = (s', res_Scopes r)"
    using ok by (rule admit_run)
  note dps = check_scopes_distinct[OF chk dist]
  obtain p where p: "p \<in> set ps"
    and sc_eq: "sc = reservation_entry p (commit_window p (seen_window s1 (pending_key p) (truncate_minute now)))"
    using sc unfolding commit_scopes_entries[OF com dps] by auto
  have seen: "seen_window s1 k (truncate_minute now) = seen_window (sweep_locked s now) k (truncate_minute now)" for k
    by (rule check_scopes_frame(2)[OF chk])
  have u: "sw_tpmReserved (seen_window (sweep_locked s now) (pending_key p) (truncate_minute now)) = b"
    "sw_tpmActual (seen_window (sweep_locked s now) (pending_key p) (truncate_minute now)) = c"
    and a: "a = inflight_of s (pending_key p)"
    using usage usage_of_sweep[of s now "pending_key p"] by (simp_all add: usage_of_def Let_def sc_eq)
  note passed = check_scopes_passed[OF chk p]
  have rpm: "wrap64 (a + 1) \<le> n" if "ac_RPMLimit (ps_config p) = Some n" for n
    using passed(4) that by (simp add: scope_refused_def a split: if_splits)
  have queue: "sv_queues s (pending_key p) = [] \<or> pending_key p = qh" if "ac_RPMLimit (ps_config p) \<noteq> None"
    using passed(4) that by (auto simp: scope_refused_def split: if_splits)
  have tpm: "wrap64 (wrap64 (c + b) + est) \<le> n" if "ac_TPMLimit (ps_config p) = Some n" "est > 0" for n
    using passed(5) that u by (simp add: tokens_refused_def split: if_splits)
  have win: "sv_windows s' (pending_key p) = Some (commit_window p (seen_window s1 (pending_key p) (truncate_minute now)))"
    by (rule commit_scopes_window[OF com dps p])
  show ?thesis
    by (rule exI[of _ "ps_config p"], rule exI[of _ "commit_window p (seen_window s1 (pending_key p) (truncate_minute now))"])
      (use passed(1-3) rpm queue tpm win seen u a check_scopes_frame(3)[OF chk] in \<open>simp add: sc_eq\<close>)
qed

lemma admit_refused_frame:
  assumes "admit now est qh cfgs s = (s', r)" and "\<nexists>x. r = Inr (Some x)"
  shows "inflight_of s' key = inflight_of s key"
    and "usage_of s' key (truncate_minute now) = usage_of s key (truncate_minute now)"
    and "sv_queues s' = sv_queues s"
proof -
  define s0 where "s0 = sweep_locked s now"
  obtain ra r' where chk: "check_scopes ra (truncate_minute now) est qh cfgs s0 = (s', r')"
    using assms unfolding admit_def Let_def s0_def
    by (auto split: prod.splits sum.splits if_splits)
  from check_scopes_frame[OF chk] usage_of_sweep[of s now key]
  show "inflight_of s' key = inflight_of s key"
    and "usage_of s' key (truncate_minute now) = usage_of s key (truncate_minute now)"
    and "sv_queues s' = sv_queues s"
    by (simp_all add: s0_def usage_of_def Let_def)
qed

section \<open>Settling\<close>

lemma settle_scope_frame [simp]:
  "sv_queues (settle_scope rw t sc s) = sv_queues s"
  "key \<noteq> rs_ScopeKey sc \<Longrightarrow> sv_windows (settle_scope rw t sc s) key = sv_windows s key"
  by (simp_all add: settle_scope_def split: option.split)

lemma settle_fold_other:
  "key \<notin> rs_ScopeKey ` set scs \<Longrightarrow> sv_windows (fold (settle_scope rw t) scs s) key = sv_windows s key"
  by (induction scs arbitrary: s) auto

lemma settle_fold_window:
  assumes "distinct (map rs_ScopeKey scs)" and "sc \<in> set scs"
  shows "sv_windows (fold (settle_scope rw t) scs s) (rs_ScopeKey sc) =
    map_option (settle_window sc rw t) (sv_windows s (rs_ScopeKey sc))"
  using assms
proof (induction scs arbitrary: s)
  case Nil
  then show ?case by simp
next
  case (Cons x xs)
  show ?case
  proof (cases "sc \<in> set xs")
    case True
    with Cons.prems(1) have "rs_ScopeKey sc \<noteq> rs_ScopeKey x" by (auto simp: rev_image_eqI)
    with Cons.IH[OF _ True] Cons.prems(1) show ?thesis by simp
  next
    case False
    with Cons.prems have "sc = x" and "rs_ScopeKey x \<notin> rs_ScopeKey ` set xs" by auto
    then show ?thesis by (simp add: settle_fold_other) (simp add: settle_scope_def split: option.split)
  qed
qed

lemma settle_Some:
  "settle s (Some r) t = fold (settle_scope (res_WindowStart r) (max 0 t)) (res_Scopes r) s"
  by (simp add: settle_def Let_def max_def)

lemma settle_fold_queues [simp]: "sv_queues (fold (settle_scope rw t) scs s) = sv_queues s"
  by (induction scs arbitrary: s) auto

lemma inflight_of_settle_window [simp]:
  "sw_inflight (settle_window sc rw t w) = (if rs_RPMHeld sc then max 0 (wrap64 (sw_inflight w - 1)) else sw_inflight w)"
  by (simp add: settle_window_def Let_def max_def)

section \<open>The in-flight counter of a scope as a slot pool\<close>

text \<open>A reservation holds a slot of the scope \<open>key\<close>.\<close>

definition holds_slot :: "string \<Rightarrow> reservation \<Rightarrow> bool" where
  "holds_slot key r = list_ex (\<lambda>sc. rs_RPMHeld sc \<and> rs_ScopeKey sc = key) (res_Scopes r)"

definition well_scoped :: "reservation \<Rightarrow> bool" where
  "well_scoped r \<longleftrightarrow> distinct (map rs_ScopeKey (res_Scopes r))"

text \<open>The largest limit below which adding one to the counter cannot overflow.\<close>

definition slot_limit :: "nat \<Rightarrow> int" where
  "slot_limit N = min (int N) (2 ^ 63 - 2)"

definition limit_at_most :: "string \<Rightarrow> nat \<Rightarrow> active_config list \<Rightarrow> bool" where
  "limit_at_most key N cfgs \<longleftrightarrow> distinct (map ac_ScopeKey cfgs) \<and>
     (\<forall>c \<in> set cfgs. ac_ScopeKey c = key \<longrightarrow>
        (case ac_RPMLimit c of None \<Rightarrow> True | Some n \<Rightarrow> n \<le> slot_limit N))"

text \<open>The steps of the service, seen from the scope \<open>key\<close>: an admission that takes a slot of it, a
  settlement that gives one back, and all the others.\<close>

definition scope_takes :: "string \<Rightarrow> nat \<Rightarrow> service \<Rightarrow> service \<Rightarrow> bool" where
  "scope_takes key N s s' \<longleftrightarrow> (\<exists>now est qh cfgs r. limit_at_most key N cfgs
     \<and> admit now est qh cfgs s = (s', Inr (Some r)) \<and> holds_slot key r)"

definition scope_gives :: "string \<Rightarrow> service \<Rightarrow> service \<Rightarrow> bool" where
  "scope_gives key s s' \<longleftrightarrow> (\<exists>r t. well_scoped r \<and> holds_slot key r \<and> s' = settle s (Some r) t)"

inductive scope_other :: "string \<Rightarrow> nat \<Rightarrow> service \<Rightarrow> service \<Rightarrow> bool" for key N where
  granted_elsewhere: "limit_at_most key N cfgs \<Longrightarrow> admit now est qh cfgs s = (s', Inr (Some r)) \<Longrightarrow>
    \<not> holds_slot key r \<Longrightarrow> scope_other key N s s'"
| not_limited: "admit now est qh cfgs s = (s', Inr None) \<Longrightarrow> scope_other key N s s'"
| refused: "admit now est qh cfgs s = (s', Inl e) \<Longrightarrow> scope_other key N s s'"
| settled_elsewhere: "well_scoped r \<Longrightarrow> \<not> holds_slot key r \<Longrightarrow> scope_other key N s (settle s (Some r) t)"
| signalled: "scope_other key N s (release_signal s k)"
| configs: "scope_other key N s (s\<lparr>sv_configs := cs\<rparr>)"
| queues: "scope_other key N s (s\<lparr>sv_queues := qs, sv_nextWaiter := n\<rparr>)"

lemma inflight_of_release_signal [simp]: "inflight_of (release_signal s k) key = inflight_of s key"
  by (simp add: release_signal_def inflight_of_def Let_def split: option.split)

lemma inflight_of_settle:
  assumes "well_scoped r"
  shows "inflight_of (settle s (Some r) t) key =
    (if holds_slot key r \<and> sv_windows s key \<noteq> None then max 0 (wrap64 (inflight_of s key - 1)) else inflight_of s key)"
proof (cases "key \<in> rs_ScopeKey ` set (res_Scopes r)")
  case True
  then obtain sc where sc: "sc \<in> set (res_Scopes r)" "rs_ScopeKey sc = key" by auto
  have uniq: "sc' = sc" if "sc' \<in> set (res_Scopes r)" "rs_ScopeKey sc' = key" for sc'
    using assms sc that by (auto simp: well_scoped_def distinct_map inj_on_def)
  have "sv_windows (settle s (Some r) t) key =
      map_option (settle_window sc (res_WindowStart r) (max 0 t)) (sv_windows s key)"
    using settle_fold_window[OF _ sc(1)] assms sc(2) by (simp add: settle_Some well_scoped_def)
  moreover have "holds_slot key r \<longleftrightarrow> rs_RPMHeld sc"
    using sc by (auto simp: holds_slot_def list_ex_iff dest: uniq)
  ultimately show ?thesis
    by (cases "sv_windows s key") (auto simp: inflight_of_def)
next
  case False
  then have "\<not> holds_slot key r" by (auto simp: holds_slot_def list_ex_iff)
  with False show ?thesis
    by (simp add: settle_Some inflight_of_def settle_fold_other)
qed

lemma admit_takes_slot:
  assumes ok: "admit now est qh cfgs s = (s', Inr (Some r))" and lim: "limit_at_most key N cfgs"
  shows "holds_slot key r \<Longrightarrow> inflight_of s' key = wrap64 (inflight_of s key + 1)"
    and "holds_slot key r \<Longrightarrow> wrap64 (inflight_of s key + 1) \<le> slot_limit N"
    and "\<not> holds_slot key r \<Longrightarrow> inflight_of s' key = inflight_of s key"
proof -
  from lim have dist: "distinct (map ac_ScopeKey cfgs)" by (simp add: limit_at_most_def)
  note els = admit_elsewhere[OF ok dist]
  obtain b c where u: "usage_of s key (truncate_minute now) = (inflight_of s key, b, c)"
    by (simp add: usage_of_def Let_def)
  have entry: "inflight_of s' key = (if rs_RPMHeld sc then wrap64 (inflight_of s key + 1) else inflight_of s key)
      \<and> (rs_RPMHeld sc \<longrightarrow> wrap64 (inflight_of s key + 1) \<le> slot_limit N)"
    if sc: "sc \<in> set (res_Scopes r)" and key: "rs_ScopeKey sc = key" for sc
  proof -
    obtain cfg w where cfg: "cfg \<in> set cfgs" "ac_ScopeKey cfg = key" "rs_RPMHeld sc \<longleftrightarrow> ac_RPMLimit cfg \<noteq> None"
      and le: "\<And>n. ac_RPMLimit cfg = Some n \<Longrightarrow> wrap64 (inflight_of s key + 1) \<le> n"
      and w: "sv_windows s' key = Some w"
        "sw_inflight w = (if rs_RPMHeld sc then wrap64 (inflight_of s key + 1) else inflight_of s key)"
      using admit_entry[OF ok dist sc u[folded key]] key by blast
    have "wrap64 (inflight_of s key + 1) \<le> slot_limit N" if h: "rs_RPMHeld sc"
    proof -
      obtain n where n: "ac_RPMLimit cfg = Some n" using h cfg(3) by auto
      with lim cfg have "n \<le> slot_limit N" by (auto simp: limit_at_most_def)
      with le[OF n] show ?thesis by simp
    qed
    with w show ?thesis by (simp add: inflight_of_def)
  qed
  show "inflight_of s' key = wrap64 (inflight_of s key + 1)" "wrap64 (inflight_of s key + 1) \<le> slot_limit N"
    if "holds_slot key r"
    using that entry by (auto simp: holds_slot_def list_ex_iff)
  show "inflight_of s' key = inflight_of s key" if nh: "\<not> holds_slot key r"
  proof (cases "key \<in> rs_ScopeKey ` set (res_Scopes r)")
    case True
    then obtain sc where "sc \<in> set (res_Scopes r)" "rs_ScopeKey sc = key" by auto
    with entry nh show ?thesis by (auto simp: holds_slot_def list_ex_iff)
  next
    case False
    then show ?thesis by (rule els(2))
  qed
qed

lemma scope_other_inflight: "scope_other key N s s' \<Longrightarrow> inflight_of s' key = inflight_of s key"
proof (induction rule: scope_other.induct)
  case (granted_elsewhere cfgs now est qh s s' r)
  then show ?case using admit_takes_slot(3)[of now est qh cfgs s s' r key N] by simp
next
  case (not_limited now est qh cfgs s s')
  then show ?case using admit_refused_frame(1)[of now est qh cfgs s s' "Inr None"] by simp
next
  case (refused now est qh cfgs s s' e)
  then show ?case using admit_refused_frame(1)[of now est qh cfgs s s' "Inl e"] by simp
next
  case (settled_elsewhere r s t)
  then show ?case by (simp add: inflight_of_settle)
next
  case (signalled s k)
  then show ?case by simp
qed (simp_all add: inflight_of_def)

definition idle :: "string \<Rightarrow> service \<Rightarrow> bool" where
  "idle key s \<longleftrightarrow> inflight_of s key = 0"

interpretation scope_slots: slot_pool "idle key" "scope_takes key N" "scope_gives key" "scope_other key N"
    "\<lambda>s. inflight_of s key" "slot_limit N" for key :: string and N :: nat
proof unfold_locales
  show "inflight_of s key = 0" if "idle key s" for s using that by (simp add: idle_def)
  show "0 \<le> slot_limit N" by (simp add: slot_limit_def)
  show "inflight_of s' key = inflight_of s key + 1 \<and> inflight_of s' key \<le> slot_limit N"
    if takes: "scope_takes key N s s'" and lo: "0 \<le> inflight_of s key" and hi: "inflight_of s key \<le> slot_limit N" for s s'
  proof -
    obtain now est qh cfgs r where lim: "limit_at_most key N cfgs"
      and ok: "admit now est qh cfgs s = (s', Inr (Some r))" and h: "holds_slot key r"
      using takes by (auto simp: scope_takes_def)
    have eq: "inflight_of s' key = wrap64 (inflight_of s key + 1)" and le: "wrap64 (inflight_of s key + 1) \<le> slot_limit N"
      using admit_takes_slot(1,2)[OF ok lim h] by simp_all
    have "wrap64 (inflight_of s key + 1) = inflight_of s key + 1"
      using lo hi by (intro wrap64_eqI) (auto simp: slot_limit_def)
    with eq le show ?thesis by simp
  qed
  show "inflight_of s' key = inflight_of s key - 1"
    if gives: "scope_gives key s s'" and pos: "0 < inflight_of s key" and hi: "inflight_of s key \<le> slot_limit N" for s s'
  proof -
    obtain r t where "well_scoped r" "holds_slot key r" "s' = settle s (Some r) t"
      using gives by (auto simp: scope_gives_def)
    moreover have "sv_windows s key \<noteq> None" using pos by (auto simp: inflight_of_def split: option.splits)
    moreover have "wrap64 (inflight_of s key - 1) = inflight_of s key - 1"
      using pos hi by (intro wrap64_eqI) (auto simp: slot_limit_def)
    ultimately show ?thesis using pos by (simp add: inflight_of_settle)
  qed
  show "inflight_of s' key = inflight_of s key" if "scope_other key N s s'" for s s'
    using that by (rule scope_other_inflight)
qed

section \<open>Properties\<close>

text \<open>C1. In every run of the service, the in-flight counter of a scope is exactly the number of
  reservations that hold a slot of it, and it never exceeds the configured limit: whatever admissions,
  settlements, sweeps, roll-overs, configuration changes and queue operations are interleaved.\<close>

theorem scope_concurrency_bounded:
  assumes "slot_run (idle key) (scope_takes key N) (scope_gives key) (scope_other key N) s n"
  shows "inflight_of s key = int n \<and> n \<le> N"
  using scope_slots.slots_held[OF assms] by (auto simp: slot_limit_def)

text \<open>A run for the witnesses: one request of the global scope with a limit of two is admitted.\<close>

definition demo_config :: active_config where
  "demo_config = \<lparr>ac_Scope = ''global'', ac_ScopeKey = ''global'', ac_RPMLimit = Some 2, ac_TPMLimit = Some 10000\<rparr>"

definition demo_now :: go_time where
  "demo_now = seconds 130"

lemmas admit_eval = admit_def sweep_locked_def new_service_def Let_def ceil_seconds_def truncate_minute_def
  demo_now_def demo_config_def seconds_def windowSweepInterval_def windowExpiry_def configCacheTTL_def
  window_locked_def scope_refused_def tokens_refused_def wrap64_def commit_scope_def commit_window_def
  reservation_entry_def

definition demo_granted :: "service \<times> reservation" where
  "demo_granted = (case admit demo_now 5000 [] [demo_config] (new_service True) of
     (s, Inr (Some r)) \<Rightarrow> (s, r) | (s, _) \<Rightarrow> (s, undefined))"

lemma demo_granted_eq:
  "admit demo_now 5000 [] [demo_config] (new_service True) = (fst demo_granted, Inr (Some (snd demo_granted)))"
  unfolding demo_granted_def by (simp add: admit_eval)

lemma demo_granted_facts:
  "holds_slot ''global'' (snd demo_granted)" "well_scoped (snd demo_granted)"
  "usage_of (fst demo_granted) ''global'' (truncate_minute demo_now) = (1, 5000, 0)"
  unfolding demo_granted_def
  by (simp_all add: admit_eval holds_slot_def well_scoped_def usage_of_def seen_window_def)

theorem scope_concurrency_bounded_witness:
  "inflight_of (fst demo_granted) ''global'' = int 1 \<and> (1::nat) \<le> 2"
proof -
  have "slot_run (idle ''global'') (scope_takes ''global'' 2) (scope_gives ''global'') (scope_other ''global'' 2)
      (new_service True) 0"
    by (rule slot_run.init) (simp add: idle_def inflight_of_def new_service_def)
  moreover have "limit_at_most ''global'' 2 [demo_config]"
    by (simp add: limit_at_most_def demo_config_def slot_limit_def)
  then have "scope_takes ''global'' 2 (new_service True) (fst demo_granted)"
    unfolding scope_takes_def using demo_granted_eq demo_granted_facts(1) by blast
  ultimately have "slot_run (idle ''global'') (scope_takes ''global'' 2) (scope_gives ''global'')
      (scope_other ''global'' 2) (fst demo_granted) (Suc 0)"
    by (rule slot_run.acquire)
  from scope_concurrency_bounded[OF this] show ?thesis by simp
qed



lemma check_scopes_error:
  assumes "check_scopes ra ws est qh cfgs s = (s', Inl e)"
  shows "le_RetryAfterSeconds e \<in> {ra, rpmRetryAfterSeconds} \<and> le_ScopeKey e \<in> ac_ScopeKey ` set cfgs"
  using assms
proof (induction cfgs arbitrary: s s')
  case Nil
  then show ?case by simp
next
  case (Cons c cfgs)
  then show ?case
    by (auto simp: Let_def scope_refused_def tokens_refused_def rpm_error_def tpm_error_def
        split: option.splits prod.splits sum.splits if_splits)
qed

lemma tpm_retry_bounds:
  "1 \<le> ceil_seconds (truncate_minute now + minutes 1 - now) \<and> ceil_seconds (truncate_minute now + minutes 1 - now) \<le> 60"
proof -
  define d where "d = truncate_minute now + minutes 1 - now"
  have "0 < d" "d \<le> 60 * 1000000000"
    using truncate_minute_le[of now] truncate_minute_gt[of now] by (auto simp: d_def seconds_def)
  have "(- d) div 1000000000 < 0"
    using \<open>0 < d\<close> by (simp add: div_neg_pos_less0)
  moreover have "(- (60 * 1000000000)) div 1000000000 \<le> (- d) div (1000000000 :: int)"
    using \<open>d \<le> 60 * 1000000000\<close> by (intro zdiv_mono1) auto
  ultimately have "1 \<le> ceil_seconds d \<and> ceil_seconds d \<le> 60"
    by (simp add: ceil_seconds_def seconds_def)
  then show ?thesis unfolding d_def .
qed

text \<open>C9. A refused request reserves nothing: in every scope the in-flight counter and the tokens
  reserved and used in the minute are what they were, although the sweep and the roll-over of a
  window may have run. The error names a configured scope and a retry delay between one second and
  one minute.\<close>

theorem refused_request_reserves_nothing:
  assumes "admit now est qh cfgs s = (s', Inl e)"
  shows "usage_of s' key (truncate_minute now) = usage_of s key (truncate_minute now)
    \<and> sv_queues s' = sv_queues s
    \<and> 1 \<le> le_RetryAfterSeconds e \<and> le_RetryAfterSeconds e \<le> 60
    \<and> le_ScopeKey e \<in> ac_ScopeKey ` set cfgs"
proof -
  define ra where "ra = ceil_seconds (truncate_minute now + minutes 1 - now)"
  have ra: "1 \<le> ra" "ra \<le> 60" using tpm_retry_bounds[of now] by (simp_all add: ra_def)
  have "check_scopes ra (truncate_minute now) est qh cfgs (sweep_locked s now) = (s', Inl e)"
    using assms ra unfolding admit_def Let_def ra_def[symmetric]
    by (auto split: prod.splits sum.splits if_splits)
  from check_scopes_error[OF this] admit_refused_frame(2,3)[OF assms] ra
  show ?thesis by (auto simp: rpmRetryAfterSeconds_def)
qed

definition demo_refusal :: limit_error where
  "demo_refusal = tpm_error demo_config 10000 50"

lemma demo_refusal_eq:
  "\<exists>s'. admit demo_now 6000 [] [demo_config] (fst demo_granted) = (s', Inl demo_refusal)"
  unfolding demo_granted_def demo_refusal_def by (simp add: admit_eval tpm_error_def)

theorem refused_request_reserves_nothing_witness:
  "\<exists>s'. usage_of s' ''global'' (truncate_minute demo_now) = (1, 5000, 0)
     \<and> sv_queues s' = sv_queues (fst demo_granted)
     \<and> 1 \<le> le_RetryAfterSeconds demo_refusal \<and> le_RetryAfterSeconds demo_refusal \<le> 60
     \<and> le_ScopeKey demo_refusal \<in> ac_ScopeKey ` set [demo_config]"
proof -
  obtain s' where "admit demo_now 6000 [] [demo_config] (fst demo_granted) = (s', Inl demo_refusal)"
    using demo_refusal_eq by blast
  from refused_request_reserves_nothing[OF this, of "''global''"] demo_granted_facts(3)
  show ?thesis by auto
qed

text \<open>C8. Admission and settlement are inverse on the reservation: settling an admitted request in
  the same minute gives back its in-flight slot and its reserved tokens, and adds the tokens it
  really used to the scopes that had reserved some.\<close>

theorem admit_settle_roundtrip:
  assumes ok: "admit now est qh cfgs s = (s', Inr (Some r))" and dist: "distinct (map ac_ScopeKey cfgs)"
    and usage: "usage_of s key (truncate_minute now) = (a, b, c)"
    and fits: "0 \<le> a" "a < 2 ^ 63 - 1" "0 \<le> b" "0 \<le> est" "b + est < 2 ^ 63" "0 \<le> c" "c + max 0 t < 2 ^ 63"
  shows "usage_of (settle s' (Some r) t) key (truncate_minute now) =
    (a, b, c + (if \<exists>sc \<in> set (res_Scopes r). rs_ScopeKey sc = key \<and> rs_ReservedTokens sc > 0 then max 0 t else 0))"
proof (cases "key \<in> rs_ScopeKey ` set (res_Scopes r)")
  case True
  then obtain sc where sc: "sc \<in> set (res_Scopes r)" and key: "rs_ScopeKey sc = key" by auto
  have uniq: "sc' = sc" if "sc' \<in> set (res_Scopes r)" "rs_ScopeKey sc' = key" for sc'
    using admit_elsewhere(1)[OF ok dist] sc key that by (auto simp: distinct_map inj_on_def)
  obtain w where w: "sv_windows s' key = Some w" "sw_windowStart w = truncate_minute now"
      "sw_inflight w = (if rs_RPMHeld sc then wrap64 (a + 1) else a)"
      "sw_tpmReserved w = wrap64 (b + rs_ReservedTokens sc)" "sw_tpmActual w = c"
      and toks: "rs_ReservedTokens sc = 0 \<or> rs_ReservedTokens sc = est"
    using admit_entry[OF ok dist sc usage[folded key]] key by auto
  have wraps: "wrap64 (a + 1) = a + 1" "wrap64 (a + 1 - 1) = a" "wrap64 (b + rs_ReservedTokens sc) = b + rs_ReservedTokens sc"
    "wrap64 b = b" "wrap64 (c + max 0 t) = c + max 0 t"
    using fits toks by (auto intro!: wrap64_eqI)
  have "sv_windows (settle s' (Some r) t) key = Some (settle_window sc (truncate_minute now) (max 0 t) w)"
    using settle_fold_window[OF admit_elsewhere(1)[OF ok dist] sc] w(1) key admit_reservation(1)[OF ok]
    by (simp add: settle_Some)
  then have "seen_window (settle s' (Some r) t) key (truncate_minute now) = settle_window sc (truncate_minute now) (max 0 t) w"
    by (rule seen_window_self) (simp add: settle_window_def Let_def w(2))
  moreover have "(\<exists>sc \<in> set (res_Scopes r). rs_ScopeKey sc = key \<and> rs_ReservedTokens sc > 0) \<longleftrightarrow> rs_ReservedTokens sc > 0"
    using sc key by (auto dest: uniq)
  ultimately show ?thesis
    using w fits wraps toks by (auto simp: usage_of_def settle_window_def Let_def)
next
  case False
  have "sv_windows (settle s' (Some r) t) key = sv_windows s' key"
    using settle_fold_other[OF False] by (simp add: settle_Some)
  then have "usage_of (settle s' (Some r) t) key (truncate_minute now) = usage_of s' key (truncate_minute now)"
    by (simp add: usage_of_def seen_window_def window_locked_def Let_def)
  moreover have "\<not> (\<exists>sc \<in> set (res_Scopes r). rs_ScopeKey sc = key \<and> rs_ReservedTokens sc > 0)"
    using False by auto
  ultimately show ?thesis
    using admit_elsewhere(3)[OF ok dist False] usage by auto
qed

theorem admit_settle_roundtrip_witness:
  "usage_of (settle (fst demo_granted) (Some (snd demo_granted)) 700) ''global'' (truncate_minute demo_now) = (0, 0, 700)"
proof -
  have u: "usage_of (new_service True) ''global'' (truncate_minute demo_now) = (0, 0, 0)"
    by (simp add: admit_eval usage_of_def seen_window_def)
  have "\<exists>sc \<in> set (res_Scopes (snd demo_granted)). rs_ScopeKey sc = ''global'' \<and> rs_ReservedTokens sc > 0"
    unfolding demo_granted_def by (simp add: admit_eval)
  with admit_settle_roundtrip[OF demo_granted_eq _ u, of 700] show ?thesis by simp
qed

text \<open>C36. The token limit does not hold when the estimate overflows: if the used and reserved tokens
  plus the estimate reach \<open>2 ^ 63\<close>, the 64-bit sum is negative and the request is admitted, however
  small the limit is. The estimate contains the client's \<open>max_tokens\<close>.\<close>

theorem token_limit_overflow_admits:
  assumes cfg: "ac_TPMLimit cfg = Some m" "ac_RPMLimit cfg = None" "0 \<le> m" "m < 2 ^ 63"
    and usage: "usage_of s (ac_ScopeKey cfg) (truncate_minute now) = (a, b, c)"
    and range: "0 \<le> b" "0 \<le> c" "c + b < 2 ^ 63" "0 < est" "est < 2 ^ 63" "2 ^ 63 \<le> c + b + est"
  shows "\<exists>s' r. admit now est qh [cfg] s = (s', Inr (Some r)) \<and> res_ReservedTokens r > m - (c + b)"
proof -
  define s0 where "s0 = sweep_locked s now"
  define w where "w = seen_window s0 (ac_ScopeKey cfg) (truncate_minute now)"
  have w: "sw_tpmReserved w = b" "sw_tpmActual w = c"
    using usage usage_of_sweep[of s now "ac_ScopeKey cfg"] by (simp_all add: usage_of_def Let_def w_def s0_def)
  have "(c + b + est + 2 ^ 63) mod 2 ^ 64 = c + b + est + 2 ^ 63 - 2 ^ 64"
    using range by (simp add: mod_pos_geq)
  then have "wrap64 (c + b + est) < 0"
    using range by (simp add: wrap64_def)
  moreover have "wrap64 (c + b) = c + b" using range by (intro wrap64_eqI) auto
  ultimately have "tokens_refused ra est cfg w = None" for ra
    using cfg w by (simp add: tokens_refused_def)
  moreover have "scope_refused qh q cfg w = None" for q
    using cfg by (simp add: scope_refused_def)
  ultimately have "check_scopes ra (truncate_minute now) est qh [cfg] s0 =
      (s0\<lparr>sv_windows := (sv_windows s0)(ac_ScopeKey cfg \<mapsto> w)\<rparr>,
       Inr [\<lparr>ps_config = cfg, ps_holdSlot = False, ps_tpmDelta = est\<rparr>])" for ra
    using cfg range by (simp add: window_locked_eq flip: w_def)
  then show ?thesis
    using range cfg by (simp add: admit_def Let_def split: prod.splits flip: s0_def)
qed

text \<open>A request that asks for the largest \<open>max_tokens\<close> a JSON number below \<open>2 ^ 63\<close> can carry.\<close>

definition huge_payload :: obj where
  "huge_payload = [(''max_tokens'', AFloat 9223372036854774784)]"

lemma estimate_huge: "estimateTokens fmt (Some huge_payload) = 9223372036854774785"
  by (simp add: estimateTokens_def huge_payload_def estimatePromptTokens_def outputTokenReservation_def
      obj_get_def int64FromAny_def float_to_int64_def in_int64_def json_object_def wrap64_def Let_def)

definition token_config :: active_config where
  "token_config = demo_config\<lparr>ac_RPMLimit := None\<rparr>"

theorem token_limit_overflow_admits_witness:
  "\<exists>s' r. admit demo_now (estimateTokens (\<lambda>_. ''0'') (Some huge_payload)) [] [token_config] (fst demo_granted) = (s', Inr (Some r))
     \<and> res_ReservedTokens r > 10000 - (0 + 5000)"
proof -
  have "usage_of (fst demo_granted) (ac_ScopeKey token_config) (truncate_minute demo_now) = (1, 5000, 0)"
    using demo_granted_facts(3) by (simp add: token_config_def demo_config_def)
  from token_limit_overflow_admits[OF _ _ _ _ this, of 10000 "estimateTokens (\<lambda>_. ''0'') (Some huge_payload)" "[]"]
  show ?thesis by (simp add: estimate_huge token_config_def demo_config_def)
qed

section \<open>The configuration cache\<close>

text \<open>An active cached entry carries the key it is stored under.\<close>

definition cache_ok :: "service \<Rightarrow> bool" where
  "cache_ok s \<longleftrightarrow> (\<forall>k c. sv_configs s k = Some c \<longrightarrow> csc_active c \<longrightarrow> ac_ScopeKey (csc_config c) = k)"

lemma cache_ok_new: "cache_ok (new_service db)"
  by (simp add: cache_ok_def new_service_def)

lemma cache_ok_invalidate: "cache_ok s \<Longrightarrow> cache_ok (invalidateConfig s scope k)"
  by (simp add: cache_ok_def invalidateConfig_def Let_def)

lemma activeConfig_key: "activeConfigFromStore item k = (cfg, True) \<Longrightarrow> ac_ScopeKey cfg = k"
  by (auto simp: activeConfigFromStore_def Let_def split: if_splits)

lemma activeConfig_zero: "activeConfigFromStore zero_rate_limit k \<noteq> (cfg, True)"
  by (simp add: activeConfigFromStore_def zero_rate_limit_def rateLimitStatusEnabled_def Let_def)

lemma fetch_configs_entries:
  assumes "fetch_configs repo now ks = Inr fs" and "(k, c) \<in> set fs"
  shows "k \<in> set ks \<and> csc_fetchedAt c = now \<and> (csc_active c \<longrightarrow> ac_ScopeKey (csc_config c) = k \<and>
    (\<exists>item. repo k = Found item \<and> activeConfigFromStore item k = (csc_config c, True)))"
  using assms
proof (induction ks arbitrary: fs)
  case Nil
  then show ?case by simp
next
  case (Cons k' ks)
  then show ?case
    by (auto simp: Let_def activeConfig_zero activeConfig_key
        split: sum.splits fetch.splits prod.splits)
qed

lemma fetch_configs_keys: "fetch_configs repo now ks = Inr fs \<Longrightarrow> map fst fs = ks"
  by (induction ks arbitrary: fs) (auto simp: Let_def split: sum.splits fetch.splits prod.splits)

lemma fetch_configs_active:
  assumes "fetch_configs repo now ks = Inr fs" and "k \<in> set ks" and "repo k = Found item"
    and "activeConfigFromStore item k = (cfg, True)"
  shows "\<exists>c. (k, c) \<in> set fs \<and> csc_active c \<and> csc_config c = cfg"
  using assms
  by (induction ks arbitrary: fs) (auto simp: Let_def split: sum.splits fetch.splits prod.splits)

lemma cache_ok_store:
  assumes "cache_ok s" and "fetch_configs repo now ks = Inr fs"
  shows "cache_ok (store_configs fs s)"
  using assms(1) fetch_configs_entries[OF assms(2)]
  by (auto simp: cache_ok_def store_configs_def map_add_Some_iff dest!: map_of_SomeD)

lemma cached_configs_spec:
  assumes "cache_ok s" and "cached_configs s now ks = (res, miss)" and "distinct ks"
  shows "set miss \<subseteq> set ks" and "distinct miss" and "distinct (map ac_ScopeKey res)"
    and "ac_ScopeKey ` set res \<subseteq> set ks - set miss"
proof -
  have "set miss \<subseteq> set ks \<and> distinct miss \<and> distinct (map ac_ScopeKey res) \<and> ac_ScopeKey ` set res \<subseteq> set ks - set miss"
    using assms(2,3)
  proof (induction ks arbitrary: res miss)
    case Nil
    then show ?case by simp
  next
    case (Cons k ks)
    obtain res' miss' where rec: "cached_configs s now ks = (res', miss')" by fastforce
    with Cons.IH[OF rec] Cons.prems assms(1) show ?case
      by (auto simp: cache_ok_def image_subset_iff subset_iff split: option.splits if_splits)
  qed
  then show "set miss \<subseteq> set ks" and "distinct miss" and "distinct (map ac_ScopeKey res)"
    and "ac_ScopeKey ` set res \<subseteq> set ks - set miss" by blast+
qed

lemma distinct_fetched:
  assumes "fetch_configs repo now ks = Inr fs" and "distinct ks"
  shows "distinct (map ac_ScopeKey (map (csc_config \<circ> snd) (filter (csc_active \<circ> snd) fs)))"
    and "ac_ScopeKey ` set (map (csc_config \<circ> snd) (filter (csc_active \<circ> snd) fs)) \<subseteq> set ks"
proof -
  have key: "ac_ScopeKey (csc_config (snd x)) = fst x" if "x \<in> set (filter (csc_active \<circ> snd) fs)" for x
    using fetch_configs_entries[OF assms(1), of "fst x" "snd x"] that by simp
  then have eq: "map ac_ScopeKey (map (csc_config \<circ> snd) (filter (csc_active \<circ> snd) fs)) =
      map fst (filter (csc_active \<circ> snd) fs)"
    by simp
  have "distinct (map fst fs)" using fetch_configs_keys[OF assms(1)] assms(2) by simp
  then show "distinct (map ac_ScopeKey (map (csc_config \<circ> snd) (filter (csc_active \<circ> snd) fs)))"
    unfolding eq by (rule distinct_map_filter)
  show "ac_ScopeKey ` set (map (csc_config \<circ> snd) (filter (csc_active \<circ> snd) fs)) \<subseteq> set ks"
  proof (rule image_subsetI)
    fix x assume "x \<in> set (map (csc_config \<circ> snd) (filter (csc_active \<circ> snd) fs))"
    then obtain e where e: "e \<in> set (filter (csc_active \<circ> snd) fs)" "x = csc_config (snd e)" by auto
    with key[OF e(1)] have "ac_ScopeKey x \<in> set (map fst fs)" by auto
    then show "ac_ScopeKey x \<in> set ks" by (simp only: fetch_configs_keys[OF assms(1)])
  qed
qed

lemma global_not_api_key [simp]: "''global'' \<noteq> api_key_scope k" "api_key_scope k \<noteq> ''global''"
  by (simp_all add: api_key_scope_def)

text \<open>The configurations of a request have distinct scope keys, as the admission theorems assume,
  and the cache stays well formed.\<close>

lemma active_configs_distinct:
  assumes ok: "cache_ok s" and res: "activeConfigsCached repo s k now = (s', Inr cfgs)"
  shows "distinct (map ac_ScopeKey cfgs) \<and> cache_ok s'"
proof -
  obtain hit miss where c: "cached_configs s now [''global'', api_key_scope k] = (hit, miss)"
    by fastforce
  note spec = cached_configs_spec[OF ok c]
  show ?thesis
  proof (cases "miss = []")
    case True
    with res c spec ok show ?thesis by (simp add: activeConfigsCached_def)
  next
    case False
    then obtain fs where f: "fetch_configs repo now miss = Inr fs"
      and s': "s' = store_configs fs s"
      and cfgs: "cfgs = hit @ map (csc_config \<circ> snd) (filter (csc_active \<circ> snd) fs)"
      using res unfolding activeConfigsCached_def c by (auto split: sum.splits)
    show ?thesis
      unfolding s' cfgs
      using distinct_fetched[OF f spec(2)] spec(3,4) cache_ok_store[OF ok f] by fastforce
  qed
qed

text \<open>A configuration change takes effect on the next request: after a successful
  \<open>SetGlobal\<close> the global limits an acquisition works with are exactly the ones the repository
  holds at that moment, whatever was cached before.\<close>

lemma set_global_takes_effect:
  assumes ok: "cache_ok s" and set: "setGlobal upsert s input = (s', Inr c)"
    and res: "activeConfigsCached repo s' k now = (s'', Inr cfgs)"
  shows "cfg \<in> set cfgs \<and> ac_ScopeKey cfg = ''global'' \<longleftrightarrow>
    (\<exists>item. repo ''global'' = Found item \<and> activeConfigFromStore item ''global'' = (cfg, True))"
proof -
  have s': "s' = invalidateConfig s rateLimitScopeGlobal uuid_nil"
    using set by (auto simp: setGlobal_def set_config_def Let_def split: if_splits sum.splits)
  then have none: "sv_configs s' ''global'' = None"
    by (simp add: invalidateConfig_def rateLimitScopeGlobal_def rateLimitScopeAPIKey_def)
  have ok': "cache_ok s'" unfolding s' by (rule cache_ok_invalidate[OF ok])
  obtain hit miss where c: "cached_configs s' now [''global'', api_key_scope k] = (hit, miss)"
    by fastforce
  note spec = cached_configs_spec[OF ok' c]
  have miss: "''global'' \<in> set miss"
    using c none by (auto split: prod.splits)
  then have "miss \<noteq> []" by auto
  then obtain fs where f: "fetch_configs repo now miss = Inr fs"
    and cfgs: "cfgs = hit @ map (csc_config \<circ> snd) (filter (csc_active \<circ> snd) fs)"
    using res unfolding activeConfigsCached_def c by (auto split: sum.splits)
  have hit: "ac_ScopeKey h \<noteq> ''global''" if "h \<in> set hit" for h
    using spec(4) miss that by auto
  show ?thesis
  proof
    assume "cfg \<in> set cfgs \<and> ac_ScopeKey cfg = ''global''"
    then obtain k' e where e: "(k', e) \<in> set fs" "csc_active e" "csc_config e = cfg" "ac_ScopeKey cfg = ''global''"
      using hit cfgs by auto
    from fetch_configs_entries[OF f e(1)] e
    show "\<exists>item. repo ''global'' = Found item \<and> activeConfigFromStore item ''global'' = (cfg, True)" by auto
  next
    assume "\<exists>item. repo ''global'' = Found item \<and> activeConfigFromStore item ''global'' = (cfg, True)"
    then obtain item where item: "repo ''global'' = Found item" "activeConfigFromStore item ''global'' = (cfg, True)"
      by blast
    from fetch_configs_active[OF f miss item] obtain e where "(''global'', e) \<in> set fs" "csc_active e" "csc_config e = cfg"
      by blast
    moreover have "ac_ScopeKey cfg = ''global''"
      using item(2) by (auto simp: activeConfigFromStore_def Let_def split: if_splits)
    ultimately show "cfg \<in> set cfgs \<and> ac_ScopeKey cfg = ''global''"
      unfolding cfgs by force
  qed
qed

end
