(* ===== verification/Rate_Queue.thy ===== *)
theory Rate_Queue
  imports Rate_Limit
begin

text \<open>
  The wait queue of the rate limiter, \<open>server/internal/ratelimit/queue.go\<close>. \<open>enqueue_waiter\<close> and
  \<open>finish_waiter\<close> are the two locked sections on a scope's list of waiters. \<open>acquireQueued\<close> is a loop
  that many goroutines run at once, so it is a step relation: \<open>q_step\<close> moves one goroutine from one
  program point to the next (one rule per branch of the source), \<open>sys_step\<close> interleaves any number
  of goroutines and the settlements of the requests that were admitted.

  Time is read anew at each program point that reads it (a rule may take any value of the clock) and
  a \<open>select\<close> takes any branch that is ready.
\<close>

section \<open>The waiter list\<close>

definition queueMaxWait :: duration where "queueMaxWait = seconds 60"
definition queueMaxDepth :: nat where "queueMaxDepth = 100"

definition enqueue_waiter :: "service \<Rightarrow> string \<Rightarrow> service \<times> nat option" where
  "enqueue_waiter s scopeKey =
     (let waiters = sv_queues s scopeKey in
      if length waiters \<ge> queueMaxDepth then (s, None)
      else let waiters' = waiters @ [\<lparr>qw_id = sv_nextWaiter s, qw_ready = False, qw_abandoned = False\<rparr>];
               waiters'' = (if length waiters' = 1 then map (qw_ready_update (\<lambda>_. True)) waiters' else waiters')
           in (s\<lparr>sv_queues := (sv_queues s)(scopeKey := waiters''), sv_nextWaiter := Suc (sv_nextWaiter s)\<rparr>,
               Some (sv_nextWaiter s)))"

definition finish_waiter :: "service \<Rightarrow> string \<Rightarrow> nat \<Rightarrow> service" where
  "finish_waiter s scopeKey waiter =
     (let marked = map (\<lambda>w. if qw_id w = waiter then w\<lparr>qw_abandoned := True\<rparr> else w) (sv_queues s scopeKey);
          waiters = dropWhile qw_abandoned marked;
          waiters' = (case waiters of [] \<Rightarrow> [] | w # ws \<Rightarrow> w\<lparr>qw_ready := True\<rparr> # ws)
      in s\<lparr>sv_queues := (sv_queues s)(scopeKey := waiters')\<rparr>)"

definition queueWaitImpossible :: "(float64 \<Rightarrow> string) \<Rightarrow> limit_error \<Rightarrow> acquire_input \<Rightarrow> bool" where
  "queueWaitImpossible fmt limitErr input =
     (if le_LimitType limitErr \<noteq> ''tpm'' \<or> le_Limit limitErr \<le> 0 \<or> \<not> ai_EstimateTPM input then False
      else estimateTokens fmt (ai_Payload input) > le_Limit limitErr)"

section \<open>\<open>acquireQueued\<close>\<close>

datatype queue_error = AcquireError acquire_error | ContextError

text \<open>
  The program points of \<open>acquireQueued\<close>: the first attempt, the head of the outer loop, the wait for
  the waiter's turn, an attempt at the head of the queue, the two stages of \<open>waitForRelease\<close> (before
  and after \<open>releaseSignal\<close>), the sleep of a token limit, the exit of the inner loop with what it
  leaves in \<open>reservation\<close>, \<open>terminalErr\<close> and \<open>scopeChanged\<close>, and the return. \<open>QSettled\<close> is a request
  whose reservation was settled afterwards.
\<close>

datatype qpc =
    QStart
  | QLoop limit_error
  | QWait string nat limit_error
  | QTry string nat limit_error
  | QSignal string nat limit_error
  | QRelease string nat limit_error
  | QSleep string nat limit_error
  | QFinish string nat limit_error "reservation option" "queue_error option" bool
  | QDone "queue_error + reservation option"
  | QSettled

definition wait_until :: "limit_error \<Rightarrow> go_time \<Rightarrow> go_time" where
  "wait_until e now = now + wrap64 (le_RetryAfterSeconds e * seconds 1)"

inductive q_step ::
  "(float64 \<Rightarrow> string) \<Rightarrow> (string \<Rightarrow> gateway_rate_limit fetch) \<Rightarrow> acquire_input \<Rightarrow> go_time
     \<Rightarrow> service \<Rightarrow> qpc \<Rightarrow> service \<Rightarrow> qpc \<Rightarrow> bool" for fmt repo input start where
  first_ok: "acquire_at fmt repo now s (input\<lparr>ai_RequestedAt := start\<rparr>) [] = (s', Inr r) \<Longrightarrow>
    q_step fmt repo input start s QStart s' (QDone (Inr r))"
| first_limited: "acquire_at fmt repo now s (input\<lparr>ai_RequestedAt := start\<rparr>) [] = (s', Inl (Limited e)) \<Longrightarrow>
    q_step fmt repo input start s QStart s' (QLoop e)"
| first_failed: "acquire_at fmt repo now s (input\<lparr>ai_RequestedAt := start\<rparr>) [] = (s', Inl (RepoFailed x)) \<Longrightarrow>
    q_step fmt repo input start s QStart s' (QDone (Inl (AcquireError (RepoFailed x))))"
| loop_impossible: "queueWaitImpossible fmt e input \<Longrightarrow>
    q_step fmt repo input start s (QLoop e) s (QDone (Inl (AcquireError (Limited e))))"
| loop_deadline: "\<not> queueWaitImpossible fmt e input \<Longrightarrow> now > start + queueMaxWait \<Longrightarrow>
    q_step fmt repo input start s (QLoop e) s (QDone (Inl (AcquireError (Limited e))))"
| loop_full: "\<not> queueWaitImpossible fmt e input \<Longrightarrow> now \<le> start + queueMaxWait \<Longrightarrow>
    enqueue_waiter s (le_ScopeKey e) = (s', None) \<Longrightarrow>
    q_step fmt repo input start s (QLoop e) s' (QDone (Inl (AcquireError (Limited e))))"
| loop_enqueue: "\<not> queueWaitImpossible fmt e input \<Longrightarrow> now \<le> start + queueMaxWait \<Longrightarrow>
    enqueue_waiter s (le_ScopeKey e) = (s', Some i) \<Longrightarrow>
    q_step fmt repo input start s (QLoop e) s' (QWait (le_ScopeKey e) i e)"
| wait_ready: "w \<in> set (sv_queues s k) \<Longrightarrow> qw_id w = i \<Longrightarrow> qw_ready w \<Longrightarrow>
    q_step fmt repo input start s (QWait k i e) s (QTry k i e)"
| wait_cancelled:
    "q_step fmt repo input start s (QWait k i e) (finish_waiter s k i) (QDone (Inl ContextError))"
| try_ok: "acquire_at fmt repo now s (input\<lparr>ai_RequestedAt := now\<rparr>) k = (s', Inr r) \<Longrightarrow>
    q_step fmt repo input start s (QTry k i e) s' (QFinish k i e r None False)"
| try_failed: "acquire_at fmt repo now s (input\<lparr>ai_RequestedAt := now\<rparr>) k = (s', Inl (RepoFailed x)) \<Longrightarrow>
    q_step fmt repo input start s (QTry k i e) s'
      (QFinish k i e None (Some (AcquireError (RepoFailed x))) False)"
| try_scope_changed: "acquire_at fmt repo now s (input\<lparr>ai_RequestedAt := now\<rparr>) k = (s', Inl (Limited e')) \<Longrightarrow>
    le_ScopeKey e' \<noteq> k \<Longrightarrow>
    q_step fmt repo input start s (QTry k i e) s' (QFinish k i e' None None True)"
| try_rpm_expired: "acquire_at fmt repo now s (input\<lparr>ai_RequestedAt := now\<rparr>) k = (s', Inl (Limited e')) \<Longrightarrow>
    le_ScopeKey e' = k \<Longrightarrow> le_LimitType e' = ''rpm'' \<Longrightarrow> start + queueMaxWait - later \<le> 0 \<Longrightarrow>
    q_step fmt repo input start s (QTry k i e) s'
      (QFinish k i e' None (Some (AcquireError (Limited e'))) False)"
| try_rpm_wait: "acquire_at fmt repo now s (input\<lparr>ai_RequestedAt := now\<rparr>) k = (s', Inl (Limited e')) \<Longrightarrow>
    le_ScopeKey e' = k \<Longrightarrow> le_LimitType e' = ''rpm'' \<Longrightarrow> start + queueMaxWait - later > 0 \<Longrightarrow>
    q_step fmt repo input start s (QTry k i e) s' (QSignal k i e')"
| try_tpm_expired: "acquire_at fmt repo now s (input\<lparr>ai_RequestedAt := now\<rparr>) k = (s', Inl (Limited e')) \<Longrightarrow>
    le_ScopeKey e' = k \<Longrightarrow> le_LimitType e' \<noteq> ''rpm'' \<Longrightarrow> wait_until e' later > start + queueMaxWait \<Longrightarrow>
    q_step fmt repo input start s (QTry k i e) s'
      (QFinish k i e' None (Some (AcquireError (Limited e'))) False)"
| try_tpm_sleep: "acquire_at fmt repo now s (input\<lparr>ai_RequestedAt := now\<rparr>) k = (s', Inl (Limited e')) \<Longrightarrow>
    le_ScopeKey e' = k \<Longrightarrow> le_LimitType e' \<noteq> ''rpm'' \<Longrightarrow> wait_until e' later \<le> start + queueMaxWait \<Longrightarrow>
    q_step fmt repo input start s (QTry k i e) s' (QSleep k i e')"
| signal: "q_step fmt repo input start s (QSignal k i e) (release_signal s k) (QRelease k i e)"
| released: "sv_windows s k = Some w \<Longrightarrow> sw_release w = Some True \<Longrightarrow>
    q_step fmt repo input start s (QRelease k i e)
      (s\<lparr>sv_windows := (sv_windows s)(k \<mapsto> w\<lparr>sw_release := Some False\<rparr>)\<rparr>) (QTry k i e)"
| release_cancelled: "q_step fmt repo input start s (QRelease k i e) s (QFinish k i e None (Some ContextError) False)"
| release_timeout: "q_step fmt repo input start s (QRelease k i e) s
      (QFinish k i e None (Some (AcquireError (Limited e))) False)"
| slept: "q_step fmt repo input start s (QSleep k i e) s (QTry k i e)"
| sleep_cancelled: "q_step fmt repo input start s (QSleep k i e) s (QFinish k i e None (Some ContextError) False)"
| finish_granted:
    "q_step fmt repo input start s (QFinish k i e (Some r) t c) (finish_waiter s k i) (QDone (Inr (Some r)))"
| finish_error:
    "q_step fmt repo input start s (QFinish k i e None (Some t) c) (finish_waiter s k i) (QDone (Inl t))"
| finish_limited: "q_step fmt repo input start s (QFinish k i e None None False) (finish_waiter s k i)
      (QDone (Inl (AcquireError (Limited e))))"
| finish_again: "q_step fmt repo input start s (QFinish k i e None None True) (finish_waiter s k i) (QLoop e)"

inductive_cases release_retry_cases: "q_step fmt repo input start s (QRelease k i e) s' (QTry k' i' e')"
inductive_cases finish_cases: "q_step fmt repo input start s (QFinish k i e r t c) s' pc'"

text \<open>The system: goroutine \<open>g\<close> runs \<open>acquireQueued\<close> for the request \<open>inputs g\<close> that arrived at
  \<open>starts g\<close>; an admitted request is settled once.\<close>

record qsys =
  qs_service :: service
  qs_pc :: "nat \<Rightarrow> qpc"

inductive sys_step ::
  "(float64 \<Rightarrow> string) \<Rightarrow> (string \<Rightarrow> gateway_rate_limit fetch) \<Rightarrow> (nat \<Rightarrow> acquire_input) \<Rightarrow> (nat \<Rightarrow> go_time)
     \<Rightarrow> qsys \<Rightarrow> qsys \<Rightarrow> bool" for fmt repo inputs starts where
  move: "q_step fmt repo (inputs g) (starts g) (qs_service y) (qs_pc y g) s' pc' \<Longrightarrow>
    sys_step fmt repo inputs starts y \<lparr>qs_service = s', qs_pc = (qs_pc y)(g := pc')\<rparr>"
| settles: "qs_pc y g = QDone (Inr (Some r)) \<Longrightarrow>
    sys_step fmt repo inputs starts y
      \<lparr>qs_service = settle (qs_service y) (Some r) t, qs_pc = (qs_pc y)(g := QSettled)\<rparr>"

definition init_sys :: qsys where
  "init_sys = \<lparr>qs_service = new_service True, qs_pc = (\<lambda>_. QStart)\<rparr>"

inductive sys_reach ::
  "(float64 \<Rightarrow> string) \<Rightarrow> (string \<Rightarrow> gateway_rate_limit fetch) \<Rightarrow> (nat \<Rightarrow> acquire_input) \<Rightarrow> (nat \<Rightarrow> go_time)
     \<Rightarrow> qsys \<Rightarrow> bool" for fmt repo inputs starts where
  reach_init: "sys_reach fmt repo inputs starts init_sys"
| reach_step: "sys_reach fmt repo inputs starts y \<Longrightarrow> sys_step fmt repo inputs starts y y' \<Longrightarrow>
    sys_reach fmt repo inputs starts y'"

section \<open>The queue as a first-in first-out list\<close>

text \<open>The live waiters of a scope in their order, and the waiter whose turn it is.\<close>

definition live :: "service \<Rightarrow> string \<Rightarrow> nat list" where
  "live s k = map qw_id (filter (\<lambda>w. \<not> qw_abandoned w) (sv_queues s k))"

definition has_turn :: "service \<Rightarrow> string \<Rightarrow> nat \<Rightarrow> bool" where
  "has_turn s k i = list_ex (\<lambda>w. qw_id w = i \<and> qw_ready w \<and> \<not> qw_abandoned w) (sv_queues s k)"

definition waiters_ok :: "nat \<Rightarrow> queue_waiter list \<Rightarrow> bool" where
  "waiters_ok n q \<longleftrightarrow> distinct (map qw_id q) \<and> (\<forall>w \<in> set q. qw_id w < n) \<and> length q \<le> queueMaxDepth
     \<and> (case q of [] \<Rightarrow> True
        | w # ws \<Rightarrow> qw_ready w \<and> \<not> qw_abandoned w \<and> (\<forall>v \<in> set ws. \<not> qw_ready v))"

definition queues_ok :: "service \<Rightarrow> bool" where
  "queues_ok s \<longleftrightarrow> (\<forall>k. waiters_ok (sv_nextWaiter s) (sv_queues s k))"

text \<open>
  The contract between the waiter list and the goroutines that wait in it. \<open>own g\<close> is the place a
  goroutine holds, \<open>served g\<close> says that it got past the wait for its turn. Exactly the live waiters are
  owned, each by one goroutine, and a served goroutine has the turn.
\<close>

definition owners_ok ::
  "('k \<Rightarrow> nat list) \<Rightarrow> ('k \<Rightarrow> nat \<Rightarrow> bool) \<Rightarrow> ('g \<Rightarrow> ('k \<times> nat) option) \<Rightarrow> ('g \<Rightarrow> bool) \<Rightarrow> bool" where
  "owners_ok ids turn own served \<longleftrightarrow>
     (\<forall>g k i. own g = Some (k, i) \<longrightarrow> i \<in> set (ids k))
   \<and> (\<forall>k i. i \<in> set (ids k) \<longrightarrow> (\<exists>g. own g = Some (k, i)))
   \<and> (\<forall>g g' p. own g = Some p \<longrightarrow> own g' = Some p \<longrightarrow> g = g')
   \<and> (\<forall>g k i. own g = Some (k, i) \<longrightarrow> served g \<longrightarrow> turn k i)"

lemma owners_okI:
  assumes "\<And>g k i. own g = Some (k, i) \<Longrightarrow> i \<in> set (ids k)"
    and "\<And>k i. i \<in> set (ids k) \<Longrightarrow> \<exists>g. own g = Some (k, i)"
    and "\<And>g g' p. own g = Some p \<Longrightarrow> own g' = Some p \<Longrightarrow> g = g'"
    and "\<And>g k i. own g = Some (k, i) \<Longrightarrow> served g \<Longrightarrow> turn k i"
  shows "owners_ok ids turn own served"
  unfolding owners_ok_def using assms by blast

lemma owners_okD:
  assumes "owners_ok ids turn own served"
  shows "own g = Some (k, i) \<Longrightarrow> i \<in> set (ids k)"
    and "i \<in> set (ids k) \<Longrightarrow> \<exists>g. own g = Some (k, i)"
    and "own g = Some p \<Longrightarrow> own g' = Some p \<Longrightarrow> g = g'"
    and "own g = Some (k, i) \<Longrightarrow> served g \<Longrightarrow> turn k i"
  using assms unfolding owners_ok_def by blast+

locale turn_queue =
  fixes ok :: "'s \<Rightarrow> bool"
    and live_ids :: "'s \<Rightarrow> 'k \<Rightarrow> nat list"
    and turn :: "'s \<Rightarrow> 'k \<Rightarrow> nat \<Rightarrow> bool"
    and enq :: "'s \<Rightarrow> 'k \<Rightarrow> 's \<times> nat option"
    and fin :: "'s \<Rightarrow> 'k \<Rightarrow> nat \<Rightarrow> 's"
  assumes live_distinct: "ok s \<Longrightarrow> distinct (live_ids s k)"
    and turn_head: "ok s \<Longrightarrow> turn s k i \<longleftrightarrow> live_ids s k \<noteq> [] \<and> hd (live_ids s k) = i"
    and enq_some: "ok s \<Longrightarrow> enq s k = (s', Some i) \<Longrightarrow> ok s' \<and> (\<forall>k'. i \<notin> set (live_ids s k'))
          \<and> live_ids s' k' = (if k' = k then live_ids s k @ [i] else live_ids s k')"
    and enq_none: "enq s k = (s', None) \<Longrightarrow> s' = s"
    and fin_ok: "ok s \<Longrightarrow> ok (fin s k i)"
    and fin_live: "ok s \<Longrightarrow> live_ids (fin s k i) k' = (if k' = k then remove1 i (live_ids s k) else live_ids s k')"
begin

lemma turn_unique: "ok s \<Longrightarrow> turn s k i \<Longrightarrow> turn s k j \<Longrightarrow> i = j"
  by (simp add: turn_head)

lemma turn_live: "ok s \<Longrightarrow> turn s k i \<Longrightarrow> i \<in> set (live_ids s k)"
  by (auto simp: turn_head)

lemma turn_stays_enq: "ok s \<Longrightarrow> enq s k = (s', Some i) \<Longrightarrow> turn s k' j \<Longrightarrow> turn s' k' j"
  using enq_some[of s k s' i k'] by (auto simp: turn_head)

lemma turn_stays_fin: "ok s \<Longrightarrow> turn s k' j \<Longrightarrow> (k', j) \<noteq> (k, i) \<Longrightarrow> turn (fin s k i) k' j"
  using fin_ok[of s k i] fin_live[of s k i k']
  by (cases "live_ids s k'") (auto simp: turn_head)

text \<open>No waiter overtakes another one: leaving the queue keeps the order of those who stay.\<close>

lemma fin_keeps_order:
  assumes "ok s" and "i \<notin> set xs"
  shows "live_ids s k = xs @ i # ys \<Longrightarrow> live_ids (fin s k i) k = xs @ ys"
  using assms fin_live[of s k i k] by (simp add: remove1_append)

lemma next_turn: "ok s \<Longrightarrow> live_ids s k = i # j # ys \<Longrightarrow> turn (fin s k i) k j"
  using fin_ok[of s k i] fin_live[of s k i k] by (simp add: turn_head)

lemma owners_enq:
  assumes ok: "ok s" and inv: "owners_ok (live_ids s) (turn s) own served"
    and enq: "enq s k = (s', Some i)" and own: "own g = None"
  shows "owners_ok (live_ids s') (turn s') (own(g := Some (k, i))) (served(g := False))"
proof -
  have live: "live_ids s' k' = (if k' = k then live_ids s k @ [i] else live_ids s k')" for k'
    using enq_some[OF ok enq] by blast
  have new: "i \<notin> set (live_ids s k')" for k' using enq_some[OF ok enq] by blast
  have fresh: "own g' \<noteq> Some (k, i)" for g'
    using owners_okD(1)[OF inv, of g' k i] new by blast
  show ?thesis
  proof (rule owners_okI)
    fix g' k' j assume "(own(g := Some (k, i))) g' = Some (k', j)"
    then show "j \<in> set (live_ids s' k')"
      using owners_okD(1)[OF inv, of g' k' j] by (auto simp: live split: if_splits)
  next
    fix k' j assume "j \<in> set (live_ids s' k')"
    then have "(k', j) = (k, i) \<or> j \<in> set (live_ids s k')" by (auto simp: live split: if_splits)
    then show "\<exists>g'. (own(g := Some (k, i))) g' = Some (k', j)"
      using owners_okD(2)[OF inv, of j k'] own by (metis fun_upd_apply option.distinct(1))
  next
    fix g1 g2 p assume "(own(g := Some (k, i))) g1 = Some p" "(own(g := Some (k, i))) g2 = Some p"
    then show "g1 = g2"
      using owners_okD(3)[OF inv, of g1 p g2] fresh by (auto split: if_splits)
  next
    fix g' k' j assume "(own(g := Some (k, i))) g' = Some (k', j)" "(served(g := False)) g'"
    then show "turn s' k' j"
      using owners_okD(4)[OF inv, of g' k' j] turn_stays_enq[OF ok enq] by (auto split: if_splits)
  qed
qed

lemma owners_fin:
  assumes ok: "ok s" and inv: "owners_ok (live_ids s) (turn s) own served" and own: "own g = Some (k, i)"
  shows "owners_ok (live_ids (fin s k i)) (turn (fin s k i)) (own(g := None)) (served(g := False))"
proof -
  have live: "set (live_ids (fin s k i) k') = (if k' = k then set (live_ids s k) - {i} else set (live_ids s k'))" for k'
    using fin_live[OF ok, of k i k'] live_distinct[OF ok, of k] by simp
  have other: "(k', j) \<noteq> (k, i)" if "g' \<noteq> g" "own g' = Some (k', j)" for g' k' j
    using inv own that unfolding owners_ok_def by metis
  show ?thesis
  proof (rule owners_okI)
    fix g' k' j assume "(own(g := None)) g' = Some (k', j)"
    then show "j \<in> set (live_ids (fin s k i) k')"
      using owners_okD(1)[OF inv, of g' k' j] other[of g' k' j] by (auto simp: live split: if_splits)
  next
    fix k' j assume "j \<in> set (live_ids (fin s k i) k')"
    then have "j \<in> set (live_ids s k')" "(k', j) \<noteq> (k, i)" by (auto simp: live split: if_splits)
    then show "\<exists>g'. (own(g := None)) g' = Some (k', j)"
      using owners_okD(2)[OF inv, of j k'] own by (metis fun_upd_apply option.inject)
  next
    fix g1 g2 p assume "(own(g := None)) g1 = Some p" "(own(g := None)) g2 = Some p"
    then show "g1 = g2" using owners_okD(3)[OF inv, of g1 p g2] by (auto split: if_splits)
  next
    fix g' k' j assume "(own(g := None)) g' = Some (k', j)" "(served(g := False)) g'"
    then show "turn (fin s k i) k' j"
      using owners_okD(4)[OF inv, of g' k' j] turn_stays_fin[OF ok _ other[of g' k' j]] by (auto split: if_splits)
  qed
qed

lemma owners_serve:
  "owners_ok (live_ids s) (turn s) own served \<Longrightarrow> own g = Some (k, i) \<Longrightarrow> turn s k i \<Longrightarrow>
   owners_ok (live_ids s) (turn s) own (served(g := True))"
  unfolding owners_ok_def by auto

lemma served_unique:
  assumes "ok s" and inv: "owners_ok (live_ids s) (turn s) own served"
    and "own g = Some (k, i)" "served g" "own g' = Some (k, j)" "served g'"
  shows "g = g'"
proof -
  have "turn s k i" "turn s k j" using assms unfolding owners_ok_def by blast+
  then have "i = j" by (rule turn_unique[OF assms(1)])
  then show ?thesis using assms unfolding owners_ok_def by blast
qed

lemma head_owned:
  assumes "owners_ok (live_ids s) (turn s) own served" and "live_ids s k \<noteq> []"
  shows "\<exists>g. own g = Some (k, hd (live_ids s k))"
  using assms hd_in_set unfolding owners_ok_def by blast

end

section \<open>The waiter list provides turns\<close>

lemma waiters_ok_ConsD:
  "waiters_ok n (w # ws) \<Longrightarrow> qw_ready w \<and> \<not> qw_abandoned w \<and> (\<forall>v \<in> set ws. \<not> qw_ready v)"
  by (simp add: waiters_ok_def)

lemma enqueue_waiter_some:
  assumes "enqueue_waiter s k = (s', Some i)"
  shows "i = sv_nextWaiter s" and "sv_nextWaiter s' = Suc (sv_nextWaiter s)"
    and "length (sv_queues s k) < queueMaxDepth"
    and "sv_queues s' = (sv_queues s)(k := sv_queues s k @
           [\<lparr>qw_id = sv_nextWaiter s, qw_ready = (sv_queues s k = []), qw_abandoned = False\<rparr>])"
  using assms by (auto simp: enqueue_waiter_def Let_def split: if_splits)

lemma waiters_ok_enqueue:
  assumes "waiters_ok n q" and "length q < queueMaxDepth"
  shows "waiters_ok (Suc n) (q @ [\<lparr>qw_id = n, qw_ready = (q = []), qw_abandoned = False\<rparr>])"
  using assms by (cases q) (auto simp: waiters_ok_def)

lemma waiters_ok_mono: "waiters_ok n q \<Longrightarrow> n \<le> m \<Longrightarrow> waiters_ok m q"
  by (auto simp: waiters_ok_def)

lemma map_id_mark [simp]:
  "map qw_id (map (\<lambda>w. if qw_id w = i then w\<lparr>qw_abandoned := True\<rparr> else w) q) = map qw_id q"
  by (induction q) auto

lemma distinct_ids_dropWhile: "distinct (map qw_id q) \<Longrightarrow> distinct (map qw_id (dropWhile P q))"
  by (induction q) auto

definition promote :: "queue_waiter list \<Rightarrow> queue_waiter list" where
  "promote q = (case q of [] \<Rightarrow> [] | w # ws \<Rightarrow> w\<lparr>qw_ready := True\<rparr> # ws)"

lemma promote_ids [simp]: "map qw_id (promote q) = map qw_id q" "length (promote q) = length q"
  by (simp_all add: promote_def split: list.split)

lemma waiters_ok_promote:
  assumes "distinct (map qw_id q)" "\<forall>w \<in> set q. qw_id w < n" "length q \<le> queueMaxDepth"
    and "\<forall>v \<in> set (tl q). \<not> qw_ready v"
  shows "waiters_ok n (promote (dropWhile qw_abandoned q))"
proof (cases "dropWhile qw_abandoned q")
  case Nil
  show ?thesis unfolding Nil by (simp add: promote_def waiters_ok_def)
next
  case (Cons w ws)
  have "length (dropWhile qw_abandoned q) \<le> length q" by (rule length_dropWhile_le)
  moreover have "\<not> qw_abandoned w" using Cons dropWhile_eq_Cons_conv[of qw_abandoned q w ws] by simp
  moreover obtain pre where "q = pre @ w # ws" using Cons by (metis takeWhile_dropWhile_id)
  then have "set ws \<subseteq> set (tl q)" by (cases pre) auto
  moreover have "\<forall>v \<in> set (w # ws). qw_id v < n"
    using assms(2) Cons set_dropWhileD[of _ qw_abandoned q] by fastforce
  ultimately show ?thesis
    using assms Cons distinct_ids_dropWhile[OF assms(1), of qw_abandoned]
    by (auto simp: promote_def waiters_ok_def)
qed

lemma finish_waiter_queues:
  "sv_queues (finish_waiter s k i) = (sv_queues s)(k := promote (dropWhile qw_abandoned
     (map (\<lambda>w. if qw_id w = i then w\<lparr>qw_abandoned := True\<rparr> else w) (sv_queues s k))))"
  "sv_nextWaiter (finish_waiter s k i) = sv_nextWaiter s"
  by (simp_all add: finish_waiter_def promote_def Let_def)

lemma queues_ok_finish: "queues_ok s \<Longrightarrow> queues_ok (finish_waiter s k i)"
  unfolding queues_ok_def finish_waiter_queues fun_upd_apply
proof (intro allI)
  fix k' assume all: "\<forall>k. waiters_ok (sv_nextWaiter s) (sv_queues s k)"
  have ok: "waiters_ok (sv_nextWaiter s) (sv_queues s k)" using all by blast
  let ?m = "map (\<lambda>w. if qw_id w = i then w\<lparr>qw_abandoned := True\<rparr> else w) (sv_queues s k)"
  have "distinct (map qw_id ?m)" "\<forall>w \<in> set ?m. qw_id w < sv_nextWaiter s" "length ?m \<le> queueMaxDepth"
    using ok unfolding map_id_mark by (auto simp: waiters_ok_def)
  moreover have "\<forall>v \<in> set (tl ?m). \<not> qw_ready v"
    using ok by (cases "sv_queues s k") (auto simp: waiters_ok_def)
  ultimately have "waiters_ok (sv_nextWaiter s) (promote (dropWhile qw_abandoned ?m))"
    by (rule waiters_ok_promote)
  then show "waiters_ok (sv_nextWaiter s) (if k' = k then promote (dropWhile qw_abandoned ?m) else sv_queues s k')"
    using all by simp
qed

lemma live_promote: "map qw_id (filter (\<lambda>w. \<not> qw_abandoned w) (promote q)) = map qw_id (filter (\<lambda>w. \<not> qw_abandoned w) q)"
  by (simp add: promote_def split: list.split)

lemma filter_dropWhile_not: "filter (\<lambda>w. \<not> P w) (dropWhile P q) = filter (\<lambda>w. \<not> P w) q"
  by (induction q) auto

lemma live_mark:
  "distinct (map qw_id q) \<Longrightarrow>
   map qw_id (filter (\<lambda>w. \<not> qw_abandoned w) (map (\<lambda>w. if qw_id w = i then w\<lparr>qw_abandoned := True\<rparr> else w) q)) =
   remove1 i (map qw_id (filter (\<lambda>w. \<not> qw_abandoned w) q))"
proof (induction q)
  case Nil
  then show ?case by simp
next
  case (Cons w q)
  have "i \<notin> set (map qw_id (filter (\<lambda>w. \<not> qw_abandoned w) q))" if "qw_id w = i"
    using Cons.prems that by auto
  with Cons show ?case by (auto simp: remove1_idem)
qed

lemma live_finish:
  assumes "queues_ok s"
  shows "live (finish_waiter s k i) k' = (if k' = k then remove1 i (live s k) else live s k')"
proof -
  have "distinct (map qw_id (sv_queues s k))" using assms by (simp add: queues_ok_def waiters_ok_def)
  from live_mark[OF this] show ?thesis
    by (simp only: live_def finish_waiter_queues fun_upd_apply live_promote filter_dropWhile_not split: if_split) simp
qed

lemma has_turn_head:
  assumes "queues_ok s"
  shows "has_turn s k i \<longleftrightarrow> live s k \<noteq> [] \<and> hd (live s k) = i"
proof -
  have "waiters_ok (sv_nextWaiter s) (sv_queues s k)" using assms by (simp add: queues_ok_def)
  then show ?thesis
    by (cases "sv_queues s k") (auto simp: has_turn_def live_def waiters_ok_def list_ex_iff)
qed

lemma live_distinct: "queues_ok s \<Longrightarrow> distinct (live s k)"
  unfolding live_def queues_ok_def waiters_ok_def by (blast intro: distinct_map_filter)

lemma live_enqueue:
  assumes ok: "queues_ok s" and enq: "enqueue_waiter s k = (s', Some i)"
  shows "queues_ok s' \<and> (\<forall>k'. i \<notin> set (live s k'))
    \<and> live s' k' = (if k' = k then live s k @ [i] else live s k')"
proof -
  note e = enqueue_waiter_some[OF enq]
  have q: "waiters_ok (sv_nextWaiter s) (sv_queues s k)" for k using ok by (simp add: queues_ok_def)
  have "queues_ok s'"
    unfolding queues_ok_def e(2) e(4) fun_upd_apply
    using waiters_ok_enqueue[OF q e(3)] waiters_ok_mono[OF q, of "Suc (sv_nextWaiter s)"] by simp
  moreover have "w \<in> set (sv_queues s k') \<Longrightarrow> qw_id w < i" for w k'
    using q[of k'] by (simp add: waiters_ok_def e(1))
  then have "\<forall>k'. i \<notin> set (live s k')" by (fastforce simp: live_def)
  ultimately show ?thesis by (simp add: live_def e(1,4))
qed

lemma enqueue_full: "enqueue_waiter s k = (s', None) \<Longrightarrow> s' = s \<and> queueMaxDepth \<le> length (sv_queues s k)"
  by (auto simp: enqueue_waiter_def Let_def split: if_splits)

interpretation rq: turn_queue queues_ok live has_turn enqueue_waiter finish_waiter
proof
  fix s k i assume "queues_ok s"
  then show "has_turn s k i = (live s k \<noteq> [] \<and> hd (live s k) = i)" by (rule has_turn_head)
next
  fix s s' k k' i assume "queues_ok s" "enqueue_waiter s k = (s', Some i)"
  then show "queues_ok s' \<and> (\<forall>k'. i \<notin> set (live s k'))
      \<and> live s' k' = (if k' = k then live s k @ [i] else live s k')" by (rule live_enqueue)
next
  fix s s' k assume "enqueue_waiter s k = (s', None)"
  then show "s' = s" by (simp add: enqueue_full)
qed (simp_all add: live_distinct queues_ok_finish live_finish)

section \<open>The goroutines that wait\<close>

text \<open>The other locked sections leave the waiter lists alone.\<close>

lemma waiters_frame:
  assumes "sv_queues s' = sv_queues s" "sv_nextWaiter s' = sv_nextWaiter s"
  shows "live s' = live s" and "has_turn s' = has_turn s" and "queues_ok s' = queues_ok s"
  using assms by (simp_all add: fun_eq_iff live_def has_turn_def queues_ok_def)

lemma check_scopes_nextWaiter:
  "check_scopes ra ws est qh cfgs s = (s', r) \<Longrightarrow> sv_nextWaiter s' = sv_nextWaiter s"
proof (induction cfgs arbitrary: s s' r)
  case Nil
  then show ?case by simp
next
  case (Cons c cfgs)
  define s1 where "s1 = s\<lparr>sv_windows := (sv_windows s)(ac_ScopeKey c \<mapsto> seen_window s (ac_ScopeKey c) ws)\<rparr>"
  have "s' = s1 \<or> (\<exists>r'. check_scopes ra ws est qh cfgs s1 = (s', r')) \<or> check_scopes ra ws est qh cfgs s = (s', r)"
    using Cons.prems
    by (auto simp: Let_def window_locked_eq s1_def split: option.splits prod.splits sum.splits if_splits)
  then show ?case
    using Cons.IH[of s1 s'] Cons.IH[of s s' r] by (auto simp: s1_def)
qed

lemma commit_scopes_nextWaiter: "commit_scopes ws ps s = (s', rs) \<Longrightarrow> sv_nextWaiter s' = sv_nextWaiter s"
  by (induction ps arbitrary: s s' rs)
     (auto simp: Let_def commit_scope_def window_locked_eq split: prod.splits)

lemma sweep_nextWaiter [simp]: "sv_nextWaiter (sweep_locked s now) = sv_nextWaiter s"
  by (simp add: sweep_locked_def Let_def)

lemma admit_waiters:
  assumes "admit now est qh cfgs s = (s', r)"
  shows "sv_queues s' = sv_queues s" and "sv_nextWaiter s' = sv_nextWaiter s"
proof -
  obtain ra s1 x where c: "check_scopes ra (truncate_minute now) est qh cfgs (sweep_locked s now) = (s1, x)"
    and s': "s' = s1 \<or> (\<exists>ps scopes. commit_scopes (truncate_minute now) ps s1 = (s', scopes))"
    using assms by (auto simp: admit_def Let_def split: prod.splits sum.splits if_splits; blast)
  note frame = check_scopes_frame(1)[OF c] check_scopes_nextWaiter[OF c]
  from s' frame show "sv_queues s' = sv_queues s" and "sv_nextWaiter s' = sv_nextWaiter s"
    using commit_scopes_queues commit_scopes_nextWaiter by fastforce+
qed

lemma activeConfigs_waiters:
  assumes "activeConfigsCached repo s k now = (s', r)"
  shows "sv_queues s' = sv_queues s" and "sv_nextWaiter s' = sv_nextWaiter s"
  using assms by (auto simp: activeConfigsCached_def store_configs_def Let_def
      split: prod.splits sum.splits if_splits)

lemma acquire_at_waiters:
  assumes "acquire_at fmt repo now s input k = (s', r)"
  shows "sv_queues s' = sv_queues s" and "sv_nextWaiter s' = sv_nextWaiter s"
proof -
  have "sv_queues s' = sv_queues s \<and> sv_nextWaiter s' = sv_nextWaiter s"
    using assms by (auto simp: acquire_at_def Let_def activeConfigs_waiters admit_waiters
        split: prod.splits sum.splits if_splits dest!: activeConfigs_waiters admit_waiters)
  then show "sv_queues s' = sv_queues s" and "sv_nextWaiter s' = sv_nextWaiter s" by simp_all
qed

lemma settle_fold_nextWaiter: "sv_nextWaiter (fold (settle_scope rw t) scs s) = sv_nextWaiter s"
  by (induction scs arbitrary: s) (simp_all add: settle_scope_def split: option.split)

lemma settle_waiters:
  "sv_queues (settle s res t) = sv_queues s" "sv_nextWaiter (settle s res t) = sv_nextWaiter s"
  by (simp_all add: settle_def Let_def settle_fold_nextWaiter split: option.split)

lemma release_signal_waiters:
  "sv_queues (release_signal s k) = sv_queues s" "sv_nextWaiter (release_signal s k) = sv_nextWaiter s"
  by (simp_all add: release_signal_def Let_def)

text \<open>The place in a queue a program point holds, and whether the goroutine is past the wait.\<close>

fun pc_place :: "qpc \<Rightarrow> (string \<times> nat) option" where
  "pc_place (QWait k i e) = Some (k, i)"
| "pc_place (QTry k i e) = Some (k, i)"
| "pc_place (QSignal k i e) = Some (k, i)"
| "pc_place (QRelease k i e) = Some (k, i)"
| "pc_place (QSleep k i e) = Some (k, i)"
| "pc_place (QFinish k i e r t c) = Some (k, i)"
| "pc_place _ = None"

fun pc_served :: "qpc \<Rightarrow> bool" where
  "pc_served (QTry k i e) = True"
| "pc_served (QSignal k i e) = True"
| "pc_served (QRelease k i e) = True"
| "pc_served (QSleep k i e) = True"
| "pc_served (QFinish k i e r t c) = True"
| "pc_served _ = False"

definition waiting_ok :: "service \<Rightarrow> (nat \<Rightarrow> qpc) \<Rightarrow> bool" where
  "waiting_ok s pc \<longleftrightarrow> queues_ok s \<and> owners_ok (live s) (has_turn s) (pc_place \<circ> pc) (pc_served \<circ> pc)"

text \<open>What a step of one goroutine does to the queues: nothing, or it enters, is served, or leaves.\<close>

inductive place_step :: "service \<Rightarrow> qpc \<Rightarrow> service \<Rightarrow> qpc \<Rightarrow> bool" where
  same: "sv_queues s' = sv_queues s \<Longrightarrow> sv_nextWaiter s' = sv_nextWaiter s \<Longrightarrow>
    pc_place pc' = pc_place pc \<Longrightarrow> pc_served pc' = pc_served pc \<Longrightarrow> place_step s pc s' pc'"
| enters: "enqueue_waiter s k = (s', Some i) \<Longrightarrow> pc_place pc = None \<Longrightarrow> pc_place pc' = Some (k, i) \<Longrightarrow>
    \<not> pc_served pc' \<Longrightarrow> place_step s pc s' pc'"
| is_served: "pc_place pc = Some (k, i) \<Longrightarrow> pc_place pc' = Some (k, i) \<Longrightarrow> pc_served pc' \<Longrightarrow>
    w \<in> set (sv_queues s k) \<Longrightarrow> qw_id w = i \<Longrightarrow> qw_ready w \<Longrightarrow> place_step s pc s pc'"
| leaves: "pc_place pc = Some (k, i) \<Longrightarrow> pc_place pc' = None \<Longrightarrow> \<not> pc_served pc' \<Longrightarrow>
    place_step s pc (finish_waiter s k i) pc'"

lemma q_step_place:
  assumes "q_step fmt repo input start s pc s' pc'"
  shows "place_step s pc s' pc'"
  using assms
proof cases
  case (loop_full e now)
  then show ?thesis using enqueue_full by (intro same) auto
next
  case (loop_enqueue e now i)
  then show ?thesis by (intro enters[of s "le_ScopeKey e" s' i]) auto
next
  case (wait_ready w k i e)
  then show ?thesis by (auto intro: is_served)
qed (auto intro!: same leaves simp: acquire_at_waiters release_signal_waiters)

lemma comp_upd: "f \<circ> (pc(g := x)) = (f \<circ> pc)(g := f x)"
  by auto

lemma place_step_ok:
  assumes inv: "waiting_ok s pc" and step: "place_step s (pc g) s' pc'"
  shows "waiting_ok s' (pc(g := pc'))"
proof -
  have ok: "queues_ok s" and own: "owners_ok (live s) (has_turn s) (pc_place \<circ> pc) (pc_served \<circ> pc)"
    using inv by (simp_all add: waiting_ok_def)
  show ?thesis
    using step
  proof cases
    case same
    then have "(pc_place \<circ> pc)(g := pc_place pc') = pc_place \<circ> pc"
      "(pc_served \<circ> pc)(g := pc_served pc') = pc_served \<circ> pc" by (auto simp: fun_eq_iff)
    then show ?thesis
      using own ok waiters_frame[OF same(1,2)] by (simp add: waiting_ok_def comp_upd)
  next
    case (enters k i)
    then show ?thesis
      using rq.owners_enq[OF ok own enters(1), of g] rq.enq_some[OF ok enters(1)]
      by (simp add: waiting_ok_def comp_upd)
  next
    case (is_served k i w)
    have "i \<in> set (live s k)" using owners_okD(1)[OF own, of g k i] is_served by simp
    then obtain x where x: "x \<in> set (sv_queues s k)" "qw_id x = i" "\<not> qw_abandoned x"
      by (auto simp: live_def)
    have "inj_on qw_id (set (sv_queues s k))"
      using ok by (simp add: queues_ok_def waiters_ok_def distinct_map)
    then have "x = w" by (rule inj_onD) (use x is_served in auto)
    then have "has_turn s k i" using x is_served by (auto simp: has_turn_def list_ex_iff)
    moreover have "(pc_place \<circ> pc)(g := pc_place pc') = pc_place \<circ> pc" using is_served by auto
    ultimately show ?thesis
      using rq.owners_serve[OF own, of g k i] is_served ok by (simp add: waiting_ok_def comp_upd)
  next
    case (leaves k i)
    then show ?thesis
      using rq.owners_fin[OF ok own, of g k i] rq.fin_ok[OF ok] by (simp add: waiting_ok_def comp_upd)
  qed
qed

lemma sys_waiting_ok: "sys_reach fmt repo inputs starts y \<Longrightarrow> waiting_ok (qs_service y) (qs_pc y)"
proof (induction rule: sys_reach.induct)
  case reach_init
  then show ?case
    by (auto simp: init_sys_def new_service_def waiting_ok_def queues_ok_def waiters_ok_def live_def
        owners_ok_def comp_def)
next
  case (reach_step y y')
  from reach_step.hyps(2) show ?case
  proof cases
    case (move g s' pc')
    then show ?thesis using place_step_ok[OF reach_step.IH q_step_place[OF move(2)]] by (simp add: fun_upd_def)
  next
    case (settles g r t)
    have "place_step (qs_service y) (qs_pc y g) (settle (qs_service y) (Some r) t) QSettled"
      using settles by (intro same) (simp_all add: settle_waiters)
    then show ?thesis using place_step_ok[OF reach_step.IH] settles by (simp add: fun_upd_def)
  qed
qed

text \<open>C2. Turns are exclusive: however the goroutines of \<open>AcquireQueued\<close> and the settlements
  interleave, at most one goroutine per scope is past the wait for its turn (trying to acquire,
  waiting for a release, sleeping, or about to leave the queue), the queue of a scope never
  exceeds 100 waiters, and a non-empty queue is never orphaned: its head is awake and belongs to
  a goroutine that is still inside the queue.\<close>

theorem queue_turns_exclusive:
  assumes reach: "sys_reach fmt repo inputs starts y"
  shows "(\<forall>g g' k i j. pc_served (qs_pc y g) \<and> pc_served (qs_pc y g') \<and>
            pc_place (qs_pc y g) = Some (k, i) \<and> pc_place (qs_pc y g') = Some (k, j) \<longrightarrow> g = g')
    \<and> length (sv_queues (qs_service y) k) \<le> 100
    \<and> (sv_queues (qs_service y) k \<noteq> [] \<longrightarrow>
        (\<exists>g. pc_place (qs_pc y g) = Some (k, qw_id (hd (sv_queues (qs_service y) k)))
           \<and> qw_ready (hd (sv_queues (qs_service y) k))))"
proof -
  have ok: "queues_ok (qs_service y)"
    and own: "owners_ok (live (qs_service y)) (has_turn (qs_service y)) (pc_place \<circ> qs_pc y) (pc_served \<circ> qs_pc y)"
    using sys_waiting_ok[OF reach] by (simp_all add: waiting_ok_def)
  have q: "waiters_ok (sv_nextWaiter (qs_service y)) (sv_queues (qs_service y) k)"
    using ok by (simp add: queues_ok_def)
  have "\<exists>g. pc_place (qs_pc y g) = Some (k, qw_id w) \<and> qw_ready w"
    if "sv_queues (qs_service y) k = w # ws" for w ws
    using rq.head_owned[OF own, of k] waiters_ok_ConsD[OF q[unfolded that]]
    by (simp add: live_def that)
  moreover have "length (sv_queues (qs_service y) k) \<le> 100"
    using q by (simp add: waiters_ok_def queueMaxDepth_def)
  ultimately show ?thesis
    using rq.served_unique[OF ok own] by (cases "sv_queues (qs_service y) k") (fastforce simp: comp_def)+
qed

section \<open>A run of two requests on one slot\<close>

definition one_slot_repo :: "string \<Rightarrow> gateway_rate_limit fetch" where
  "one_slot_repo k = (if k = ''global'' then Found \<lparr>grl_Scope = ''global'', grl_APIKeyID = None,
      grl_Status = ''enabled'', grl_RPMLimit = Some 1, grl_TPMLimit = None\<rparr> else RecordNotFound)"

definition one_slot_input :: acquire_input where
  "one_slot_input = \<lparr>ai_APIKeyID = ''k'', ai_Endpoint = [], ai_Payload = None, ai_EstimateTPM = False,
     ai_RequestedAt = 0\<rparr>"

definition one_slot_window :: "int \<Rightarrow> bool option \<Rightarrow> scope_window" where
  "one_slot_window n r = \<lparr>sw_windowStart = seconds 120, sw_inflight = n, sw_tpmReserved = 0,
     sw_tpmActual = 0, sw_release = r\<rparr>"

definition one_slot_reservation :: reservation where
  "one_slot_reservation = \<lparr>res_WindowStart = seconds 120, res_EstimatedTokens = 0, res_ReservedTokens = 0,
     res_Scopes = [\<lparr>rs_Scope = ''global'', rs_ScopeKey = ''global'', rs_RPMLimit = Some 1, rs_TPMLimit = None,
       rs_RPMUsed = 1, rs_TPMReserved = 0, rs_TPMActual = 0, rs_ReservedTokens = 0, rs_RPMHeld = True\<rparr>]\<rparr>"

definition one_slot_error :: limit_error where
  "one_slot_error = \<lparr>le_Scope = ''global'', le_ScopeKey = ''global'', le_LimitType = ''rpm'', le_Limit = 1,
     le_RetryAfterSeconds = 5, le_Message = []\<rparr>"

definition one_slot_cache :: "string \<rightharpoonup> cached_scope_config" where
  "one_slot_cache = [''global'' \<mapsto> \<lparr>csc_config = \<lparr>ac_Scope = ''global'', ac_ScopeKey = ''global'',
       ac_RPMLimit = Some 1, ac_TPMLimit = None\<rparr>, csc_active = True, csc_fetchedAt = demo_now\<rparr>,
     api_key_scope ''k'' \<mapsto> \<lparr>csc_config = \<lparr>ac_Scope = [], ac_ScopeKey = [],
       ac_RPMLimit = None, ac_TPMLimit = None\<rparr>, csc_active = False, csc_fetchedAt = demo_now\<rparr>]"

definition one_slot_service :: "int \<Rightarrow> bool option \<Rightarrow> queue_waiter list \<Rightarrow> nat \<Rightarrow> service" where
  "one_slot_service n r q i = \<lparr>sv_db = True, sv_windows = [''global'' \<mapsto> one_slot_window n r],
     sv_configs = one_slot_cache, sv_queues = (\<lambda>_. [])(''global'' := q), sv_lastSweep = demo_now,
     sv_nextWaiter = i\<rparr>"

lemmas one_slot_eval = one_slot_service_def one_slot_window_def one_slot_error_def one_slot_input_def
  one_slot_cache_def one_slot_repo_def one_slot_reservation_def acquire_at_def activeConfigsCached_def
  acquire_input_tokens_def admit_eval api_key_scope_def uuid_nil_def rpm_error_def rpmRetryAfterSeconds_def
  store_configs_def activeConfigFromStore_def zero_rate_limit_def rateLimitStatusEnabled_def fun_eq_iff map_add_def

lemma one_slot_first:
  "acquire_at fmt one_slot_repo now (new_service True) (one_slot_input\<lparr>ai_RequestedAt := demo_now\<rparr>) [] =
     (one_slot_service 1 None [] 0, Inr (Some one_slot_reservation))"
  by (simp add: one_slot_eval)

lemma one_slot_second:
  "acquire_at fmt one_slot_repo now (one_slot_service 1 None [] 0) (one_slot_input\<lparr>ai_RequestedAt := demo_now\<rparr>) [] =
     (one_slot_service 1 None [] 0, Inl (Limited one_slot_error))"
  by (simp add: one_slot_eval)

lemma one_slot_head:
  "acquire_at fmt one_slot_repo now (one_slot_service 1 None q i) (one_slot_input\<lparr>ai_RequestedAt := demo_now\<rparr>) ''global'' =
     (one_slot_service 1 None q i, Inl (Limited one_slot_error))"
  by (simp add: one_slot_eval)

lemma one_slot_settle:
  "settle (one_slot_service 1 r q i) (Some one_slot_reservation) t = one_slot_service 0 (map_option (\<lambda>_. True) r) q i"
  by (simp add: settle_def settle_scope_def settle_window_def one_slot_eval)

lemma one_slot_signal:
  "release_signal (one_slot_service n None q i) ''global'' = one_slot_service n (Some False) q i"
  by (simp add: release_signal_def one_slot_eval)

definition two_requests :: "service \<Rightarrow> qpc \<Rightarrow> qpc \<Rightarrow> qsys" where
  "two_requests s a b = \<lparr>qs_service = s, qs_pc = (\<lambda>_. QStart)(0 := a, 1 := b)\<rparr>"

lemma two_requests_init: "init_sys = two_requests (new_service True) QStart QStart"
  by (simp add: init_sys_def two_requests_def fun_eq_iff)

lemma two_requests_fst:
  assumes "sys_reach fmt repo inputs starts (two_requests s a b)"
    and "q_step fmt repo (inputs 0) (starts 0) s a s' a'"
  shows "sys_reach fmt repo inputs starts (two_requests s' a' b)"
proof -
  have "sys_step fmt repo inputs starts (two_requests s a b)
      \<lparr>qs_service = s', qs_pc = (qs_pc (two_requests s a b))(0 := a')\<rparr>"
    using assms(2) by (intro sys_step.move) (simp add: two_requests_def)
  moreover have "\<lparr>qs_service = s', qs_pc = (qs_pc (two_requests s a b))(0 := a')\<rparr> = two_requests s' a' b"
    by (simp add: two_requests_def fun_eq_iff)
  ultimately show ?thesis using assms(1) sys_reach.reach_step by metis
qed

lemma two_requests_snd:
  assumes "sys_reach fmt repo inputs starts (two_requests s a b)"
    and "q_step fmt repo (inputs 1) (starts 1) s b s' b'"
  shows "sys_reach fmt repo inputs starts (two_requests s' a b')"
proof -
  have "sys_step fmt repo inputs starts (two_requests s a b)
      \<lparr>qs_service = s', qs_pc = (qs_pc (two_requests s a b))(1 := b')\<rparr>"
    using assms(2) by (intro sys_step.move) (simp add: two_requests_def)
  moreover have "\<lparr>qs_service = s', qs_pc = (qs_pc (two_requests s a b))(1 := b')\<rparr> = two_requests s' a b'"
    by (simp add: two_requests_def fun_eq_iff)
  ultimately show ?thesis using assms(1) sys_reach.reach_step by metis
qed

lemma two_requests_settle:
  assumes "sys_reach fmt repo inputs starts (two_requests s (QDone (Inr (Some r))) b)"
  shows "sys_reach fmt repo inputs starts (two_requests (settle s (Some r) t) QSettled b)"
proof -
  have "sys_step fmt repo inputs starts (two_requests s (QDone (Inr (Some r))) b)
      \<lparr>qs_service = settle (qs_service (two_requests s (QDone (Inr (Some r))) b)) (Some r) t,
       qs_pc = (qs_pc (two_requests s (QDone (Inr (Some r))) b))(0 := QSettled)\<rparr>"
    by (intro sys_step.settles) (simp add: two_requests_def)
  moreover have "\<lparr>qs_service = settle (qs_service (two_requests s (QDone (Inr (Some r))) b)) (Some r) t,
       qs_pc = (qs_pc (two_requests s (QDone (Inr (Some r))) b))(0 := QSettled)\<rparr> =
      two_requests (settle s (Some r) t) QSettled b"
    by (simp add: two_requests_def fun_eq_iff)
  ultimately show ?thesis using assms sys_reach.reach_step by metis
qed

definition one_waiter :: "queue_waiter list" where
  "one_waiter = [\<lparr>qw_id = 0, qw_ready = True, qw_abandoned = False\<rparr>]"

lemma one_slot_queued:
  "sys_reach fmt one_slot_repo (\<lambda>_. one_slot_input) (\<lambda>_. demo_now)
     (two_requests (one_slot_service 1 None one_waiter 1) (QDone (Inr (Some one_slot_reservation)))
        (QSignal ''global'' 0 one_slot_error))"
  (is "?R (two_requests _ ?done _)")
proof -
  have "?R (two_requests (one_slot_service 1 None [] 0) ?done QStart)"
    by (rule two_requests_fst[OF sys_reach.reach_init[unfolded two_requests_init]])
       (rule q_step.first_ok[OF one_slot_first])
  then have "?R (two_requests (one_slot_service 1 None [] 0) ?done (QLoop one_slot_error))"
    by (rule two_requests_snd) (rule q_step.first_limited[OF one_slot_second])
  moreover have "q_step fmt one_slot_repo one_slot_input demo_now (one_slot_service 1 None [] 0) (QLoop one_slot_error)
      (one_slot_service 1 None one_waiter 1) (QWait (le_ScopeKey one_slot_error) 0 one_slot_error)"
    by (rule q_step.loop_enqueue[where now = demo_now])
       (simp_all add: queueWaitImpossible_def one_slot_error_def queueMaxWait_def seconds_def enqueue_waiter_def
          one_slot_service_def one_waiter_def queueMaxDepth_def)
  ultimately have "?R (two_requests (one_slot_service 1 None one_waiter 1) ?done
      (QWait (le_ScopeKey one_slot_error) 0 one_slot_error))"
    by (rule two_requests_snd)
  then have "?R (two_requests (one_slot_service 1 None one_waiter 1) ?done (QWait ''global'' 0 one_slot_error))"
    by (simp add: one_slot_error_def)
  then have "?R (two_requests (one_slot_service 1 None one_waiter 1) ?done (QTry ''global'' 0 one_slot_error))"
    by (rule two_requests_snd)
       (rule q_step.wait_ready[where w = "hd one_waiter"], simp_all add: one_slot_service_def one_waiter_def)
  then show ?thesis
    by (rule two_requests_snd)
       (rule q_step.try_rpm_wait[OF one_slot_head, where later = demo_now],
        simp_all add: one_slot_error_def queueMaxWait_def seconds_def)
qed

text \<open>C34. A wake-up can be lost: if the request that holds the slot is settled after the head of the
  queue failed to acquire and before it asks for the release channel (which does not exist yet),
  the head waits although the scope is empty; it has no step back to an attempt, only its
  deadline or its cancellation ends the wait.\<close>

theorem release_wakeup_can_be_lost:
  "\<exists>y. sys_reach fmt one_slot_repo (\<lambda>_. one_slot_input) (\<lambda>_. demo_now) y
     \<and> qs_pc y 0 = QSettled \<and> qs_pc y 1 = QRelease ''global'' 0 one_slot_error
     \<and> inflight_of (qs_service y) ''global'' = 0
     \<and> (\<nexists>s' k i e. q_step fmt one_slot_repo one_slot_input demo_now (qs_service y) (qs_pc y 1) s' (QTry k i e))"
proof -
  let ?y = "two_requests (one_slot_service 0 (Some False) one_waiter 1) QSettled (QRelease ''global'' 0 one_slot_error)"
  have "sys_reach fmt one_slot_repo (\<lambda>_. one_slot_input) (\<lambda>_. demo_now)
      (two_requests (one_slot_service 0 None one_waiter 1) QSettled (QSignal ''global'' 0 one_slot_error))"
    using two_requests_settle[OF one_slot_queued, of fmt 0] by (simp only: one_slot_settle option.map)
  then have "sys_reach fmt one_slot_repo (\<lambda>_. one_slot_input) (\<lambda>_. demo_now) ?y"
    by (rule two_requests_snd) (use q_step.signal[where k = "''global''"] one_slot_signal in metis)
  moreover have "inflight_of (qs_service ?y) ''global'' = 0"
    by (simp add: two_requests_def one_slot_service_def one_slot_window_def inflight_of_def)
  moreover have "\<not> q_step fmt one_slot_repo one_slot_input demo_now (qs_service ?y) (qs_pc ?y 1) s' (QTry k i e)"
    for s' k i e
    by (auto simp: two_requests_def one_slot_service_def one_slot_window_def elim!: release_retry_cases)
  ultimately show ?thesis
    by (intro exI[of _ ?y]) (simp add: two_requests_def)
qed

text \<open>C35. A waiter is refused by a limit that no longer exists: when the limits are lifted while a
  request waits, its attempt at the head of the queue succeeds without a reservation, and the
  goroutine then leaves the queue and returns the limit error of its earlier attempt (it can do
  nothing else).\<close>

theorem lifted_limit_still_refuses:
  assumes "acquire_at fmt repo now s (input\<lparr>ai_RequestedAt := now\<rparr>) k = (s', Inr None)"
  shows "\<exists>pc. q_step fmt repo input start s (QTry k i e) s' pc
    \<and> {(s'', pc'). q_step fmt repo input start s' pc s'' pc'} =
        {(finish_waiter s' k i, QDone (Inl (AcquireError (Limited e))))}"
proof -
  have "q_step fmt repo input start s' (QFinish k i e None None False) s'' pc' \<longleftrightarrow>
      s'' = finish_waiter s' k i \<and> pc' = QDone (Inl (AcquireError (Limited e)))" for s'' pc'
    by (auto elim: finish_cases intro: q_step.finish_limited)
  then show ?thesis using q_step.try_ok[OF assms] by blast
qed

theorem lifted_limit_still_refuses_witness:
  "\<exists>pc s'. q_step (\<lambda>_. ''0'') (\<lambda>_. RecordNotFound) one_slot_input demo_now
      (invalidateConfig (one_slot_service 1 None one_waiter 1) ''global'' []) (QTry ''global'' 0 one_slot_error) s' pc
    \<and> {(s'', pc'). q_step (\<lambda>_. ''0'') (\<lambda>_. RecordNotFound) one_slot_input demo_now s' pc s'' pc'} =
        {(finish_waiter s' ''global'' 0, QDone (Inl (AcquireError (Limited one_slot_error))))}"
proof -
  let ?a = "acquire_at (\<lambda>_. ''0'') (\<lambda>_. RecordNotFound) demo_now
      (invalidateConfig (one_slot_service 1 None one_waiter 1) ''global'' [])
      (one_slot_input\<lparr>ai_RequestedAt := demo_now\<rparr>) ''global''"
  have "snd ?a = Inr None"
    by (simp add: one_slot_eval invalidateConfig_def rateLimitScopeAPIKey_def del: fun_eq_iff)
  then have "?a = (fst ?a, Inr None)" by (simp only: prod_eq_iff fst_conv snd_conv)
  from lifted_limit_still_refuses[OF this, of demo_now 0 one_slot_error] show ?thesis by blast
qed

theorem queue_turns_exclusive_witness:
  "length (sv_queues (one_slot_service 1 None one_waiter 1) ''global'') \<le> 100
   \<and> (\<exists>g. pc_place (qs_pc (two_requests (one_slot_service 1 None one_waiter 1) (QDone (Inr (Some one_slot_reservation)))
        (QSignal ''global'' 0 one_slot_error)) g) = Some (''global'', 0))"
proof -
  let ?y = "two_requests (one_slot_service 1 None one_waiter 1) (QDone (Inr (Some one_slot_reservation)))
        (QSignal ''global'' 0 one_slot_error)"
  have y: "qs_service ?y = one_slot_service 1 None one_waiter 1" by (simp only: two_requests_def qsys.select_convs)
  have q: "sv_queues (one_slot_service 1 None one_waiter 1) ''global'' = one_waiter" by (simp add: one_slot_service_def)
  have "hd one_waiter = \<lparr>qw_id = 0, qw_ready = True, qw_abandoned = False\<rparr>" "one_waiter \<noteq> []"
    by (simp_all add: one_waiter_def)
  with queue_turns_exclusive[OF one_slot_queued[of "\<lambda>_. ''0''"], of "''global''", THEN conjunct2]
  show ?thesis unfolding y q by (simp only: queue_waiter.select_convs) blast
qed

end
