(* ===== verification/Gateway_Config.thy ===== *)
theory Gateway_Config
  imports Go_Prelude
begin

text \<open>
  The gateway section of a site's metadata, \<open>server/internal/site/gateway_config.go\<close>: normalisation,
  the patch semantics of an update, reading it back from the stored document.

  A stored JSON column is represented by the document it holds (\<open>json_raw\<close>); numbers keep their text
  (\<open>ANumber\<close>). \<open>decode_config\<close> and \<open>encode_config\<close> follow the rules of \<open>encoding/json\<close> for the struct:
  keys match exactly or by case folding, \<open>null\<close> clears a pointer, empty values are left out.
\<close>

section \<open>Data\<close>

definition ResponsesToolPolicyPassthrough :: string where "ResponsesToolPolicyPassthrough = ''passthrough''"
definition ResponsesToolPolicyCompatibility :: string where "ResponsesToolPolicyCompatibility = ''compatibility''"
definition ResponsesHostedToolImageGeneration :: string where
  "ResponsesHostedToolImageGeneration = ''image_generation''"
definition QuotaProbeTypeSub2API :: string where "QuotaProbeTypeSub2API = ''sub2api''"
definition QuotaProbeTypeNewAPI :: string where "QuotaProbeTypeNewAPI = ''newapi''"
definition QuotaProbeTypeXLyra :: string where "QuotaProbeTypeXLyra = ''xlyra''"
definition QuotaProbeTypeKimi :: string where "QuotaProbeTypeKimi = ''kimi''"
definition QuotaProbeTypeGLM :: string where "QuotaProbeTypeGLM = ''glm''"
definition QuotaProbeTypeDeepSeek :: string where "QuotaProbeTypeDeepSeek = ''deepseek''"
definition QuotaProbeTypeMoonshot :: string where "QuotaProbeTypeMoonshot = ''moonshot''"
definition QuotaProbePluginPrefix :: string where "QuotaProbePluginPrefix = ''plugin:''"

lemmas gateway_const_defs [go_simps] = ResponsesToolPolicyPassthrough_def ResponsesToolPolicyCompatibility_def
  ResponsesHostedToolImageGeneration_def QuotaProbeTypeSub2API_def QuotaProbeTypeNewAPI_def
  QuotaProbeTypeXLyra_def QuotaProbeTypeKimi_def QuotaProbeTypeGLM_def QuotaProbeTypeDeepSeek_def
  QuotaProbeTypeMoonshot_def QuotaProbePluginPrefix_def

record gateway_config =
  gc_RequestTimeoutMS :: "int option"
  gc_ConnectTimeoutMS :: "int option"
  gc_ResponseHeaderTimeoutMS :: "int option"
  gc_MaxConcurrency :: "int option"
  gc_MaxModelConcurrency :: "int option"
  gc_MaxCredentialConcurrency :: "int option"
  gc_MaxIdleConns :: "int option"
  gc_MaxIdleConnsPerHost :: "int option"
  gc_MaxConnsPerHost :: "int option"
  gc_IdleConnTimeoutMS :: "int option"
  gc_ResponsesToolPolicy :: string
  gc_DisabledResponsesTools :: "string list option"
  gc_ResponsesImageGenerationPolicy :: string
  gc_ImpersonateCodexClient :: "bool option"
  gc_ImpersonateClaudeCodeClient :: "bool option"
  gc_QuotaProbe :: "string option"
  gc_Plugins :: "(string \<times> string) list option"

text \<open>The errors of the normalisation; the field is the value or the name printed in the message.\<close>

datatype config_error = UnsupportedQuotaProbe string | MustBePositive string

definition SitePluginKinds :: "string list" where
  "SitePluginKinds = [''model_list'', ''credential_check'', ''error_classifier'', ''pricing_parse'']"

section \<open>Normalisation\<close>

definition map_text :: "(string \<times> string) list \<Rightarrow> string \<Rightarrow> string" where
  "map_text m k = (case map_of m k of None \<Rightarrow> [] | Some v \<Rightarrow> v)"

definition plugin_id_ok :: "string \<Rightarrow> bool" where
  "plugin_id_ok i \<longleftrightarrow> i \<noteq> [] \<and> \<not> list_ex (\<lambda>c. c \<in> {CHR '' '', CHR 0x09, CHR 0x0D, CHR 0x0A}) i"

definition normalizeSitePlugins :: "(string \<times> string) list option \<Rightarrow> (string \<times> string) list option" where
  "normalizeSitePlugins plugins =
     (let m = (case plugins of None \<Rightarrow> [] | Some m \<Rightarrow> m) in
      if m = [] then None
      else let out = filter (\<lambda>(kind, i). plugin_id_ok i)
                       (map (\<lambda>kind. (kind, trim_space (map_text m kind))) SitePluginKinds)
           in if out = [] then None else Some out)"

definition NormalizeQuotaProbeType :: "string \<Rightarrow> config_error + string" where
  "NormalizeQuotaProbeType value =
     (let t = trim_space value in
      if t = [] \<or> t = ''none'' then Inr []
      else if t \<in> {QuotaProbeTypeSub2API, QuotaProbeTypeNewAPI, QuotaProbeTypeXLyra, QuotaProbeTypeKimi,
                   QuotaProbeTypeGLM, QuotaProbeTypeMoonshot, QuotaProbeTypeDeepSeek} then Inr t
      else if has_prefix value QuotaProbePluginPrefix then
        (let i = trim_space (trim_prefix value QuotaProbePluginPrefix) in
         if i = [] \<or> CHR '' '' \<in> set i then Inl (UnsupportedQuotaProbe value)
         else Inr (QuotaProbePluginPrefix @ i))
      else Inl (UnsupportedQuotaProbe value))"

definition QuotaProbeTypeFromConfig :: "gateway_config option \<Rightarrow> string" where
  "QuotaProbeTypeFromConfig cfg =
     (case cfg of None \<Rightarrow> []
      | Some c \<Rightarrow> (case gc_QuotaProbe c of None \<Rightarrow> []
          | Some v \<Rightarrow> (case NormalizeQuotaProbeType v of Inl e \<Rightarrow> [] | Inr n \<Rightarrow> n)))"

definition NormalizeResponsesToolPolicy :: "string \<Rightarrow> string" where
  "NormalizeResponsesToolPolicy value =
     (if trim_space value = ResponsesToolPolicyCompatibility then ResponsesToolPolicyCompatibility
      else ResponsesToolPolicyPassthrough)"

definition normalizeResponsesHostedTool :: "string \<Rightarrow> string" where
  "normalizeResponsesHostedTool value =
     (if trim_space value = ResponsesHostedToolImageGeneration then ResponsesHostedToolImageGeneration else [])"

fun normalize_tools :: "string set \<Rightarrow> string list \<Rightarrow> string list" where
  "normalize_tools seen [] = []"
| "normalize_tools seen (value # values) =
     (let tool = normalizeResponsesHostedTool value in
      if tool = [] \<or> tool \<in> seen then normalize_tools seen values
      else tool # normalize_tools (insert tool seen) values)"

definition NormalizeDisabledResponsesTools :: "string list option \<Rightarrow> string list option" where
  "NormalizeDisabledResponsesTools values =
     (let tools = normalize_tools {} (case values of None \<Rightarrow> [] | Some vs \<Rightarrow> vs)
      in if tools = [] then None else Some tools)"

definition normalizeLegacyResponsesToolConfig :: "gateway_config \<Rightarrow> gateway_config" where
  "normalizeLegacyResponsesToolConfig cfg =
     (let cfg' = (if trim_space (gc_ResponsesImageGenerationPolicy cfg) \<in> {''strip_auto_tool'', ''disabled''} then
            (let c = (if gc_ResponsesToolPolicy cfg = []
                      then cfg\<lparr>gc_ResponsesToolPolicy := ResponsesToolPolicyCompatibility\<rparr> else cfg)
             in c\<lparr>gc_DisabledResponsesTools :=
                    Some ((case gc_DisabledResponsesTools c of None \<Rightarrow> [] | Some ts \<Rightarrow> ts)
                          @ [ResponsesHostedToolImageGeneration])\<rparr>)
          else cfg)
      in cfg'\<lparr>gc_ResponsesImageGenerationPolicy := []\<rparr>)"

definition limit_fields :: "gateway_config \<Rightarrow> (string \<times> int option) list" where
  "limit_fields c =
     [(''request_timeout_ms'', gc_RequestTimeoutMS c), (''connect_timeout_ms'', gc_ConnectTimeoutMS c),
      (''response_header_timeout_ms'', gc_ResponseHeaderTimeoutMS c), (''max_concurrency'', gc_MaxConcurrency c),
      (''max_model_concurrency'', gc_MaxModelConcurrency c),
      (''max_credential_concurrency'', gc_MaxCredentialConcurrency c),
      (''max_idle_conns'', gc_MaxIdleConns c), (''max_idle_conns_per_host'', gc_MaxIdleConnsPerHost c),
      (''max_conns_per_host'', gc_MaxConnsPerHost c), (''idle_conn_timeout_ms'', gc_IdleConnTimeoutMS c)]"

fun first_not_positive :: "(string \<times> int option) list \<Rightarrow> string option" where
  "first_not_positive [] = None"
| "first_not_positive ((name, value) # rest) =
     (case value of Some n \<Rightarrow> if n \<le> 0 then Some name else first_not_positive rest
      | None \<Rightarrow> first_not_positive rest)"

definition normalize_probe :: "string option \<Rightarrow> config_error + string option" where
  "normalize_probe v = (case v of None \<Rightarrow> Inr None
     | Some p \<Rightarrow> (case NormalizeQuotaProbeType p of Inl e \<Rightarrow> Inl e | Inr n \<Rightarrow> Inr (Some n)))"

definition normalize_lists :: "gateway_config \<Rightarrow> gateway_config" where
  "normalize_lists input =
     (let c = normalizeLegacyResponsesToolConfig input;
          c = (if gc_ResponsesToolPolicy c \<noteq> []
               then c\<lparr>gc_ResponsesToolPolicy := NormalizeResponsesToolPolicy (gc_ResponsesToolPolicy c)\<rparr> else c);
          had = (gc_DisabledResponsesTools c \<noteq> None);
          tools = NormalizeDisabledResponsesTools (gc_DisabledResponsesTools c)
      in c\<lparr>gc_DisabledResponsesTools := (if had \<and> tools = None then Some [] else tools)\<rparr>)"

definition normalize_config :: "gateway_config \<Rightarrow> config_error + gateway_config" where
  "normalize_config input =
     (let c = normalize_lists input in
      case normalize_probe (gc_QuotaProbe c) of
        Inl e \<Rightarrow> Inl e
      | Inr p \<Rightarrow>
          (let c = c\<lparr>gc_QuotaProbe := p, gc_Plugins := normalizeSitePlugins (gc_Plugins c)\<rparr> in
           case first_not_positive (limit_fields c) of
             Some name \<Rightarrow> Inl (MustBePositive name)
           | None \<Rightarrow> Inr c))"

definition NormalizeGatewayConfig :: "gateway_config option \<Rightarrow> config_error + gateway_config option" where
  "NormalizeGatewayConfig input = (case input of None \<Rightarrow> Inr None
     | Some c \<Rightarrow> (case normalize_config c of Inl e \<Rightarrow> Inl e | Inr n \<Rightarrow> Inr (Some n)))"

definition ResponsesToolDisabled :: "gateway_config option \<Rightarrow> string \<Rightarrow> bool" where
  "ResponsesToolDisabled cfg tool =
     (case cfg of None \<Rightarrow> False
      | Some c \<Rightarrow>
        if NormalizeResponsesToolPolicy (gc_ResponsesToolPolicy c) \<noteq> ResponsesToolPolicyCompatibility then False
        else let t = normalizeResponsesHostedTool tool in
          if t = [] then False
          else (case NormalizeDisabledResponsesTools (gc_DisabledResponsesTools c) of
                  None \<Rightarrow> False | Some ts \<Rightarrow> t \<in> set ts))"

definition SitePluginID :: "gateway_config option \<Rightarrow> string \<Rightarrow> string" where
  "SitePluginID cfg kind = (case cfg of None \<Rightarrow> []
     | Some c \<Rightarrow> map_text (case gc_Plugins c of None \<Rightarrow> [] | Some m \<Rightarrow> m) kind)"

section \<open>Merging a patch\<close>

definition patch_option :: "'a option \<Rightarrow> 'a option \<Rightarrow> 'a option" where
  "patch_option old new = (case new of None \<Rightarrow> old | Some v \<Rightarrow> Some v)"

fun patch_plugins :: "(string \<times> string) list \<Rightarrow> string list \<Rightarrow> (string \<times> string) list \<Rightarrow> (string \<times> string) list" where
  "patch_plugins patch [] plugins = plugins"
| "patch_plugins patch (kind # kinds) plugins =
     patch_plugins patch kinds
       (case map_of patch kind of
          None \<Rightarrow> plugins
        | Some i \<Rightarrow> if trim_space i = [] then AList.delete kind plugins
                     else AList.update kind (trim_space i) plugins)"

definition merge_fields :: "gateway_config \<Rightarrow> gateway_config \<Rightarrow> gateway_config" where
  "merge_fields e p = e\<lparr>
     gc_RequestTimeoutMS := patch_option (gc_RequestTimeoutMS e) (gc_RequestTimeoutMS p),
     gc_ConnectTimeoutMS := patch_option (gc_ConnectTimeoutMS e) (gc_ConnectTimeoutMS p),
     gc_ResponseHeaderTimeoutMS := patch_option (gc_ResponseHeaderTimeoutMS e) (gc_ResponseHeaderTimeoutMS p),
     gc_MaxConcurrency := patch_option (gc_MaxConcurrency e) (gc_MaxConcurrency p),
     gc_MaxModelConcurrency := patch_option (gc_MaxModelConcurrency e) (gc_MaxModelConcurrency p),
     gc_MaxCredentialConcurrency := patch_option (gc_MaxCredentialConcurrency e) (gc_MaxCredentialConcurrency p),
     gc_MaxIdleConns := patch_option (gc_MaxIdleConns e) (gc_MaxIdleConns p),
     gc_MaxIdleConnsPerHost := patch_option (gc_MaxIdleConnsPerHost e) (gc_MaxIdleConnsPerHost p),
     gc_MaxConnsPerHost := patch_option (gc_MaxConnsPerHost e) (gc_MaxConnsPerHost p),
     gc_IdleConnTimeoutMS := patch_option (gc_IdleConnTimeoutMS e) (gc_IdleConnTimeoutMS p),
     gc_ResponsesToolPolicy := (if gc_ResponsesToolPolicy p \<noteq> []
       then NormalizeResponsesToolPolicy (gc_ResponsesToolPolicy p) else gc_ResponsesToolPolicy e),
     gc_DisabledResponsesTools := (if gc_DisabledResponsesTools p \<noteq> None
       then NormalizeDisabledResponsesTools (gc_DisabledResponsesTools p) else gc_DisabledResponsesTools e),
     gc_ImpersonateCodexClient := patch_option (gc_ImpersonateCodexClient e) (gc_ImpersonateCodexClient p),
     gc_ImpersonateClaudeCodeClient :=
       patch_option (gc_ImpersonateClaudeCodeClient e) (gc_ImpersonateClaudeCodeClient p),
     gc_Plugins := (case gc_Plugins p of None \<Rightarrow> gc_Plugins e
       | Some pp \<Rightarrow> normalizeSitePlugins (Some (patch_plugins pp SitePluginKinds
            (case gc_Plugins e of None \<Rightarrow> [] | Some m \<Rightarrow> m)))),
     gc_QuotaProbe := (case gc_QuotaProbe p of None \<Rightarrow> gc_QuotaProbe e
       | Some v \<Rightarrow> (case NormalizeQuotaProbeType v of Inl _ \<Rightarrow> gc_QuotaProbe e
           | Inr n \<Rightarrow> if n = [] then None else Some n))\<rparr>"

definition mergeGatewayConfig :: "gateway_config option \<Rightarrow> gateway_config option \<Rightarrow> gateway_config option" where
  "mergeGatewayConfig existing patch =
     (case patch of None \<Rightarrow> existing
      | Some p \<Rightarrow> (case existing of
            None \<Rightarrow> Some (p\<lparr>gc_Plugins := normalizeSitePlugins (gc_Plugins p)\<rparr>)
          | Some e \<Rightarrow> Some (merge_fields e p)))"

section \<open>The stored document\<close>

definition config_keys :: "string list" where
  "config_keys = [''request_timeout_ms'', ''connect_timeout_ms'', ''response_header_timeout_ms'', ''max_concurrency'',
     ''max_model_concurrency'', ''max_credential_concurrency'', ''max_idle_conns'', ''max_idle_conns_per_host'',
     ''max_conns_per_host'', ''idle_conn_timeout_ms'', ''responses_tool_policy'', ''disabled_responses_tools'',
     ''responses_image_generation_policy'', ''impersonate_codex_client'', ''impersonate_claude_code_client'',
     ''quota_probe'', ''plugins'']"

definition field_of_key :: "string \<Rightarrow> string" where
  "field_of_key k = (if k \<in> set config_keys then k
     else case find (equal_fold k) config_keys of None \<Rightarrow> k | Some n \<Rightarrow> n)"

fun decode_int :: "any \<Rightarrow> int option option" where
  "decode_int ANil = Some None"
| "decode_int (ANumber s) = map_option Some (parse_int64 s)"
| "decode_int _ = None"

fun decode_bool :: "any \<Rightarrow> bool option option" where
  "decode_bool ANil = Some None"
| "decode_bool (ABool b) = Some (Some b)"
| "decode_bool _ = None"

fun decode_text :: "string \<Rightarrow> any \<Rightarrow> string option" where
  "decode_text old ANil = Some old"
| "decode_text old (AString s) = Some s"
| "decode_text old _ = None"

fun decode_text_ptr :: "any \<Rightarrow> string option option" where
  "decode_text_ptr ANil = Some None"
| "decode_text_ptr (AString s) = Some (Some s)"
| "decode_text_ptr _ = None"

fun decode_texts :: "any \<Rightarrow> string list option option" where
  "decode_texts ANil = Some None"
| "decode_texts (AList vs) = map_option Some (opt_list (map (decode_text []) vs))"
| "decode_texts _ = None"

fun decode_text_map :: "any \<Rightarrow> (string \<times> string) list option option" where
  "decode_text_map ANil = Some None"
| "decode_text_map (AObj m) = map_option Some (opt_list (map (\<lambda>(k, v). map_option (Pair k) (decode_text [] v)) m))"
| "decode_text_map _ = None"

definition int_keys :: "string list" where
  "int_keys = take 10 config_keys"

definition set_int_field :: "string \<Rightarrow> int option \<Rightarrow> gateway_config \<Rightarrow> gateway_config" where
  "set_int_field f n c =
     (if f = ''request_timeout_ms'' then c\<lparr>gc_RequestTimeoutMS := n\<rparr>
      else if f = ''connect_timeout_ms'' then c\<lparr>gc_ConnectTimeoutMS := n\<rparr>
      else if f = ''response_header_timeout_ms'' then c\<lparr>gc_ResponseHeaderTimeoutMS := n\<rparr>
      else if f = ''max_concurrency'' then c\<lparr>gc_MaxConcurrency := n\<rparr>
      else if f = ''max_model_concurrency'' then c\<lparr>gc_MaxModelConcurrency := n\<rparr>
      else if f = ''max_credential_concurrency'' then c\<lparr>gc_MaxCredentialConcurrency := n\<rparr>
      else if f = ''max_idle_conns'' then c\<lparr>gc_MaxIdleConns := n\<rparr>
      else if f = ''max_idle_conns_per_host'' then c\<lparr>gc_MaxIdleConnsPerHost := n\<rparr>
      else if f = ''max_conns_per_host'' then c\<lparr>gc_MaxConnsPerHost := n\<rparr>
      else c\<lparr>gc_IdleConnTimeoutMS := n\<rparr>)"

definition decode_field :: "string \<Rightarrow> any \<Rightarrow> gateway_config \<Rightarrow> gateway_config option" where
  "decode_field key v c =
     (let f = field_of_key key in
      if f \<in> set int_keys then map_option (\<lambda>n. set_int_field f n c) (decode_int v)
      else if f = ''responses_tool_policy'' then
        map_option (\<lambda>t. c\<lparr>gc_ResponsesToolPolicy := t\<rparr>) (decode_text (gc_ResponsesToolPolicy c) v)
      else if f = ''disabled_responses_tools'' then
        map_option (\<lambda>ts. c\<lparr>gc_DisabledResponsesTools := ts\<rparr>) (decode_texts v)
      else if f = ''responses_image_generation_policy'' then
        map_option (\<lambda>t. c\<lparr>gc_ResponsesImageGenerationPolicy := t\<rparr>) (decode_text (gc_ResponsesImageGenerationPolicy c) v)
      else if f = ''impersonate_codex_client'' then map_option (\<lambda>b. c\<lparr>gc_ImpersonateCodexClient := b\<rparr>) (decode_bool v)
      else if f = ''impersonate_claude_code_client'' then
        map_option (\<lambda>b. c\<lparr>gc_ImpersonateClaudeCodeClient := b\<rparr>) (decode_bool v)
      else if f = ''quota_probe'' then map_option (\<lambda>t. c\<lparr>gc_QuotaProbe := t\<rparr>) (decode_text_ptr v)
      else if f = ''plugins'' then map_option (\<lambda>m. c\<lparr>gc_Plugins := m\<rparr>) (decode_text_map v)
      else Some c)"

definition zero_config :: gateway_config where
  "zero_config = \<lparr>gc_RequestTimeoutMS = None, gc_ConnectTimeoutMS = None, gc_ResponseHeaderTimeoutMS = None,
     gc_MaxConcurrency = None, gc_MaxModelConcurrency = None, gc_MaxCredentialConcurrency = None,
     gc_MaxIdleConns = None, gc_MaxIdleConnsPerHost = None, gc_MaxConnsPerHost = None, gc_IdleConnTimeoutMS = None,
     gc_ResponsesToolPolicy = [], gc_DisabledResponsesTools = None, gc_ResponsesImageGenerationPolicy = [],
     gc_ImpersonateCodexClient = None, gc_ImpersonateClaudeCodeClient = None, gc_QuotaProbe = None, gc_Plugins = None\<rparr>"

fun decode_fields :: "obj \<Rightarrow> gateway_config \<Rightarrow> gateway_config option" where
  "decode_fields [] c = Some c"
| "decode_fields ((k, v) # m) c = (case decode_field k v c of None \<Rightarrow> None | Some c' \<Rightarrow> decode_fields m c')"

fun decode_config :: "any \<Rightarrow> gateway_config option" where
  "decode_config ANil = Some zero_config"
| "decode_config (AObj m) = decode_fields m zero_config"
| "decode_config _ = None"

definition GatewayConfigFromSiteMeta :: "json_raw \<Rightarrow> gateway_config option" where
  "GatewayConfigFromSiteMeta raw =
     (case raw of
        JDoc (AObj doc) \<Rightarrow>
          (case map_of doc ''gateway'' of
             None \<Rightarrow> None
           | Some value \<Rightarrow>
               if value = ANil then None
               else (case decode_config value of None \<Rightarrow> None
                     | Some cfg \<Rightarrow> (case NormalizeGatewayConfig (Some cfg) of Inl e \<Rightarrow> None | Inr n \<Rightarrow> n)))
      | _ \<Rightarrow> None)"

definition opt_entry :: "string \<Rightarrow> ('a \<Rightarrow> any) \<Rightarrow> 'a option \<Rightarrow> obj" where
  "opt_entry k enc v = (case v of None \<Rightarrow> [] | Some x \<Rightarrow> [(k, enc x)])"

definition text_entry :: "string \<Rightarrow> string \<Rightarrow> obj" where
  "text_entry k t = (if t = [] then [] else [(k, AString t)])"

definition int_entry :: "string \<Rightarrow> int option \<Rightarrow> obj" where
  "int_entry k v = opt_entry k (\<lambda>n. ANumber (int_text n)) v"

definition encode_config :: "gateway_config \<Rightarrow> any" where
  "encode_config c = AObj
     (int_entry ''request_timeout_ms'' (gc_RequestTimeoutMS c) @ int_entry ''connect_timeout_ms'' (gc_ConnectTimeoutMS c)
      @ int_entry ''response_header_timeout_ms'' (gc_ResponseHeaderTimeoutMS c)
      @ int_entry ''max_concurrency'' (gc_MaxConcurrency c) @ int_entry ''max_model_concurrency'' (gc_MaxModelConcurrency c)
      @ int_entry ''max_credential_concurrency'' (gc_MaxCredentialConcurrency c)
      @ int_entry ''max_idle_conns'' (gc_MaxIdleConns c) @ int_entry ''max_idle_conns_per_host'' (gc_MaxIdleConnsPerHost c)
      @ int_entry ''max_conns_per_host'' (gc_MaxConnsPerHost c) @ int_entry ''idle_conn_timeout_ms'' (gc_IdleConnTimeoutMS c)
      @ text_entry ''responses_tool_policy'' (gc_ResponsesToolPolicy c)
      @ opt_entry ''disabled_responses_tools'' (\<lambda>ts. AList (map AString ts))
          (if gc_DisabledResponsesTools c = Some [] then None else gc_DisabledResponsesTools c)
      @ text_entry ''responses_image_generation_policy'' (gc_ResponsesImageGenerationPolicy c)
      @ opt_entry ''impersonate_codex_client'' ABool (gc_ImpersonateCodexClient c)
      @ opt_entry ''impersonate_claude_code_client'' ABool (gc_ImpersonateClaudeCodeClient c)
      @ opt_entry ''quota_probe'' AString (gc_QuotaProbe c)
      @ opt_entry ''plugins'' (\<lambda>m. AObj (map (\<lambda>(k, v). (k, AString v)) m))
          (if gc_Plugins c = Some [] then None else gc_Plugins c))"

definition root_of :: "json_raw \<Rightarrow> obj" where
  "root_of raw = (case raw of JDoc (AObj doc) \<Rightarrow> doc | _ \<Rightarrow> [])"

definition MergeSiteGatewayConfig :: "json_raw \<Rightarrow> gateway_config option \<Rightarrow> config_error + json_raw" where
  "MergeSiteGatewayConfig existingRaw gateway =
     (case gateway of
        None \<Rightarrow> Inr (if existingRaw = JEmpty then JDoc (AObj []) else existingRaw)
      | Some g \<Rightarrow>
          (case normalize_config g of
             Inl e \<Rightarrow> Inl e
           | Inr n \<Rightarrow>
               (let patch = n\<lparr>gc_Plugins := gc_Plugins g\<rparr>;
                    merged = mergeGatewayConfig (GatewayConfigFromSiteMeta existingRaw) (Some patch)
                in Inr (JDoc (AObj (obj_set ''gateway''
                     (case merged of None \<Rightarrow> ANil | Some m \<Rightarrow> encode_config m) (root_of existingRaw)))))))"

definition struct_text :: "string \<Rightarrow> obj \<Rightarrow> string option" where
  "struct_text name m = fold (\<lambda>(k, v) acc. case acc of None \<Rightarrow> None
     | Some old \<Rightarrow> if equal_fold k name then decode_text old v else Some old) m (Some [])"

definition RequestHeadersFromSiteMeta :: "json_raw \<Rightarrow> (string \<times> string) list option" where
  "RequestHeadersFromSiteMeta raw =
     (case raw of
        JDoc (AObj doc) \<Rightarrow>
          (case map_of doc ''request_headers'' of
             Some (AList items) \<Rightarrow>
               (let header = (\<lambda>item. case item of
                        AObj m \<Rightarrow> (case (struct_text ''key'' m, struct_text ''value'' m) of
                            (Some k, Some v) \<Rightarrow> Some (k, v) | _ \<Rightarrow> None)
                      | ANil \<Rightarrow> Some ([], [])
                      | _ \<Rightarrow> None)
                in case opt_list (map header items) of
                    None \<Rightarrow> None
                  | Some kvs \<Rightarrow>
                      (let result = fold (\<lambda>(k, v) m. if k \<noteq> [] then AList.update k v m else m) kvs []
                       in if result = [] then None else Some result))
           | _ \<Rightarrow> None)
      | _ \<Rightarrow> None)"

section \<open>Normal configurations\<close>

lemma policy_idem [simp]: "NormalizeResponsesToolPolicy (NormalizeResponsesToolPolicy v) = NormalizeResponsesToolPolicy v"
  by (simp add: NormalizeResponsesToolPolicy_def go_simps)

lemma policy_not_empty [simp]: "NormalizeResponsesToolPolicy v \<noteq> []"
  by (simp add: NormalizeResponsesToolPolicy_def go_simps)

text \<open>There is one hosted tool, so the normalised list is empty or this tool alone.\<close>

definition names_image_tool :: "string list \<Rightarrow> bool" where
  "names_image_tool vs \<longleftrightarrow> (\<exists>v \<in> set vs. trim_space v = ResponsesHostedToolImageGeneration)"

lemma normalize_tools_eq:
  "normalize_tools seen vs =
     (if ResponsesHostedToolImageGeneration \<notin> seen \<and> names_image_tool vs
      then [ResponsesHostedToolImageGeneration] else [])"
proof (induction vs arbitrary: seen)
  case Nil
  then show ?case by (simp add: names_image_tool_def)
next
  case (Cons v vs)
  have "ResponsesHostedToolImageGeneration \<noteq> []" by (simp add: go_simps)
  with Cons show ?case
    by (auto simp: normalizeResponsesHostedTool_def names_image_tool_def Let_def)
qed

lemma names_image_tool_self [simp]: "names_image_tool [ResponsesHostedToolImageGeneration]"
  by (simp add: names_image_tool_def go_simps)

lemma names_image_tool_Nil [simp]: "\<not> names_image_tool []"
  by (simp add: names_image_tool_def)

lemma NormalizeDisabled_eq:
  "NormalizeDisabledResponsesTools vs = (case vs of None \<Rightarrow> None
     | Some ts \<Rightarrow> if names_image_tool ts then Some [ResponsesHostedToolImageGeneration] else None)"
  by (simp add: NormalizeDisabledResponsesTools_def normalize_tools_eq split: option.split)

lemma probe_idem:
  assumes "NormalizeQuotaProbeType v = Inr n"
  shows "NormalizeQuotaProbeType n = Inr n"
proof -
  let ?known = "{QuotaProbeTypeSub2API, QuotaProbeTypeNewAPI, QuotaProbeTypeXLyra, QuotaProbeTypeKimi,
       QuotaProbeTypeGLM, QuotaProbeTypeMoonshot, QuotaProbeTypeDeepSeek}"
  consider "n = []" | "n \<in> ?known"
    | "n = QuotaProbePluginPrefix @ trim_space (trim_prefix v QuotaProbePluginPrefix)"
      "trim_space (trim_prefix v QuotaProbePluginPrefix) \<noteq> []"
      "CHR '' '' \<notin> set (trim_space (trim_prefix v QuotaProbePluginPrefix))"
    using assms by (auto simp: NormalizeQuotaProbeType_def Let_def split: if_splits)
  then show ?thesis
  proof cases
    case 1
    then show ?thesis by (simp add: NormalizeQuotaProbeType_def)
  next
    case 2
    then have "trim_space n = n" by (auto simp: go_simps)
    moreover have "n \<noteq> ''none''" "n \<noteq> []" using 2 by (auto simp: gateway_const_defs)
    ultimately show ?thesis using 2 by (simp add: NormalizeQuotaProbeType_def Let_def)
  next
    case 3
    define i where "i = trim_space (trim_prefix v QuotaProbePluginPrefix)"
    have n: "n = QuotaProbePluginPrefix @ i" "i \<noteq> []" "CHR '' '' \<notin> set i" "trim_space i = i"
      using 3 by (simp_all add: i_def)
    have "\<not> is_space (last n)" using trim_space_ends(2)[of i] n by simp
    then have "trim_space n = n"
      by (intro trim_space_fixed) (simp_all add: n(1) QuotaProbePluginPrefix_def is_space_def)
    moreover have "n \<noteq> ''none''" "n \<notin> ?known" "n \<noteq> []"
      using n(1) by (auto simp: gateway_const_defs)
    ultimately show ?thesis
      using n by (simp add: NormalizeQuotaProbeType_def Let_def)
  qed
qed

lemma map_text_filter_map:
  "map_text (filter (\<lambda>(k, i). P i) (map (\<lambda>k. (k, f k)) ks)) k = (if k \<in> set ks \<and> P (f k) then f k else [])"
  by (induction ks) (auto simp: map_text_def)

lemma plugins_idem [simp]: "normalizeSitePlugins (normalizeSitePlugins m) = normalizeSitePlugins m"
proof -
  define f where "f k = trim_space (map_text (case m of None \<Rightarrow> [] | Some m \<Rightarrow> m) k)" for k
  define out where "out = filter (\<lambda>(k, i). plugin_id_ok i) (map (\<lambda>k. (k, f k)) SitePluginKinds)"
  have "normalizeSitePlugins m = None \<or> normalizeSitePlugins m = Some out \<and> out \<noteq> []"
    by (auto simp: normalizeSitePlugins_def out_def f_def Let_def)
  moreover have "filter (\<lambda>(k, i). plugin_id_ok i) (map (\<lambda>k. (k, trim_space (map_text out k))) SitePluginKinds) = out"
  proof -
    have "trim_space (map_text out k) = (if plugin_id_ok (f k) then f k else [])" if "k \<in> set SitePluginKinds" for k
      using that unfolding out_def by (auto simp: map_text_filter_map f_def)
    then have "map (\<lambda>k. (k, trim_space (map_text out k))) SitePluginKinds =
        map (\<lambda>k. (k, if plugin_id_ok (f k) then f k else [])) SitePluginKinds" by simp
    moreover have "filter (\<lambda>(k, i). plugin_id_ok i) (map (\<lambda>k. (k, if plugin_id_ok (f k) then f k else [])) ks) =
        filter (\<lambda>(k, i). plugin_id_ok i) (map (\<lambda>k. (k, f k)) ks)" for ks
      by (induction ks) (auto simp: plugin_id_ok_def)
    ultimately show ?thesis by (simp only: out_def)
  qed
  then have "normalizeSitePlugins (Some out) = (if out = [] then None else Some out)"
    unfolding normalizeSitePlugins_def Let_def by (simp only: option.case) simp
  moreover have "normalizeSitePlugins None = None" by (simp add: normalizeSitePlugins_def)
  ultimately show ?thesis by auto
qed

text \<open>What normalisation establishes, field by field.\<close>

definition config_normal :: "gateway_config \<Rightarrow> bool" where
  "config_normal c \<longleftrightarrow>
     gc_ResponsesImageGenerationPolicy c = []
   \<and> (gc_ResponsesToolPolicy c = [] \<or> NormalizeResponsesToolPolicy (gc_ResponsesToolPolicy c) = gc_ResponsesToolPolicy c)
   \<and> gc_DisabledResponsesTools c \<in> {None, Some [], Some [ResponsesHostedToolImageGeneration]}
   \<and> (case gc_QuotaProbe c of None \<Rightarrow> True | Some p \<Rightarrow> NormalizeQuotaProbeType p = Inr p)
   \<and> normalizeSitePlugins (gc_Plugins c) = gc_Plugins c
   \<and> first_not_positive (limit_fields c) = None"

lemma legacy_policy_cleared [simp]:
  "gc_ResponsesImageGenerationPolicy (normalizeLegacyResponsesToolConfig c) = []"
  by (simp add: normalizeLegacyResponsesToolConfig_def Let_def)

lemma legacy_noop: "gc_ResponsesImageGenerationPolicy c = [] \<Longrightarrow> normalizeLegacyResponsesToolConfig c = c"
  by (cases c) (simp add: normalizeLegacyResponsesToolConfig_def)

lemma normalize_config_normal:
  assumes "normalize_config c = Inr n"
  shows "config_normal n"
proof -
  obtain p where p: "normalize_probe (gc_QuotaProbe (normalize_lists c)) = Inr p"
    and n: "n = (normalize_lists c)\<lparr>gc_QuotaProbe := p, gc_Plugins := normalizeSitePlugins (gc_Plugins (normalize_lists c))\<rparr>"
    and pos: "first_not_positive (limit_fields n) = None"
    using assms by (auto simp: normalize_config_def Let_def split: sum.splits option.splits)
  have "case p of None \<Rightarrow> True | Some q \<Rightarrow> NormalizeQuotaProbeType q = Inr q"
    using p by (auto simp: normalize_probe_def probe_idem split: option.splits sum.splits)
  then show ?thesis
    using pos unfolding n config_normal_def
    by (auto simp: normalize_lists_def Let_def NormalizeDisabled_eq split: option.splits if_splits)
qed

lemma config_normal_fixed:
  assumes "config_normal c"
  shows "normalize_config c = Inr c"
proof -
  have l: "normalizeLegacyResponsesToolConfig c = c"
    using assms by (intro legacy_noop) (simp add: config_normal_def)
  have "normalize_lists c = c"
    using assms unfolding normalize_lists_def l
    by (cases c) (auto simp: config_normal_def Let_def NormalizeDisabled_eq split: option.splits if_splits)
  moreover have "normalize_probe (gc_QuotaProbe c) = Inr (gc_QuotaProbe c)"
    using assms by (auto simp: normalize_probe_def config_normal_def split: option.splits)
  ultimately show ?thesis
    using assms by (cases c) (simp add: normalize_config_def config_normal_def Let_def)
qed

lemma normal_patch_none:
  assumes "normalize_config g = Inr n"
  shows "n\<lparr>gc_Plugins := normalizeSitePlugins (gc_Plugins g)\<rparr> = n"
proof -
  have "gc_Plugins (normalize_lists g) = gc_Plugins g"
    by (simp add: normalize_lists_def normalizeLegacyResponsesToolConfig_def Let_def)
  then have "gc_Plugins n = normalizeSitePlugins (gc_Plugins g)"
    using assms by (auto simp: normalize_config_def Let_def split: sum.splits option.splits)
  then show ?thesis by (cases n) simp
qed

lemma first_not_positive_iff:
  "first_not_positive fs = None \<longleftrightarrow> (\<forall>(name, v) \<in> set fs. \<forall>n. v = Some n \<longrightarrow> 0 < n)"
proof (induction fs)
  case Nil
  then show ?case by simp
next
  case (Cons f fs)
  then show ?case by (cases f) (auto split: option.split)
qed

text \<open>The limits of a configuration do not depend on its other fields.\<close>

lemma limit_fields_upd [simp]:
  "limit_fields (c\<lparr>gc_ResponsesToolPolicy := t\<rparr>) = limit_fields c"
  "limit_fields (c\<lparr>gc_DisabledResponsesTools := ts\<rparr>) = limit_fields c"
  "limit_fields (c\<lparr>gc_ResponsesImageGenerationPolicy := t\<rparr>) = limit_fields c"
  "limit_fields (c\<lparr>gc_ImpersonateCodexClient := b\<rparr>) = limit_fields c"
  "limit_fields (c\<lparr>gc_ImpersonateClaudeCodeClient := b\<rparr>) = limit_fields c"
  "limit_fields (c\<lparr>gc_QuotaProbe := q\<rparr>) = limit_fields c"
  "limit_fields (c\<lparr>gc_Plugins := m\<rparr>) = limit_fields c"
  by (simp_all add: limit_fields_def)

lemma limit_fields_if: "limit_fields (if b then x else y) = (if b then limit_fields x else limit_fields y)"
  by simp

lemma limit_fields_merge:
  "limit_fields (merge_fields e p) =
     map2 (\<lambda>(n, a) (m, b). (n, patch_option a b)) (limit_fields e) (limit_fields p)"
  by (simp add: limit_fields_def merge_fields_def)

lemma map2_patch_all:
  assumes "\<forall>(n, v) \<in> set xs. P v" "\<forall>(n, v) \<in> set ys. P v"
  shows "\<forall>(n, v) \<in> set (map2 (\<lambda>(n, a) (m, b). (n, patch_option a b)) xs ys). P v"
  using assms by (fastforce simp: patch_option_def dest: set_zip_leftD set_zip_rightD split: option.splits)

lemma merge_positive:
  assumes "first_not_positive (limit_fields e) = None" and "first_not_positive (limit_fields p) = None"
  shows "first_not_positive (limit_fields (merge_fields e p)) = None"
  using assms unfolding first_not_positive_iff limit_fields_merge by (rule map2_patch_all)

lemma merge_normal:
  assumes "config_normal e" and "config_normal p"
  shows "config_normal (merge_fields e (p\<lparr>gc_Plugins := pp\<rparr>))"
proof -
  have pos: "first_not_positive (limit_fields (merge_fields e (p\<lparr>gc_Plugins := pp\<rparr>))) = None"
    using assms by (intro merge_positive) (simp_all add: config_normal_def)
  have probe: "case gc_QuotaProbe (merge_fields e (p\<lparr>gc_Plugins := pp\<rparr>)) of None \<Rightarrow> True
      | Some q \<Rightarrow> NormalizeQuotaProbeType q = Inr q"
    using assms by (auto simp: merge_fields_def config_normal_def probe_idem split: option.splits sum.splits)
  have plugins: "normalizeSitePlugins (gc_Plugins (merge_fields e (p\<lparr>gc_Plugins := pp\<rparr>))) =
      gc_Plugins (merge_fields e (p\<lparr>gc_Plugins := pp\<rparr>))"
    using assms by (auto simp: merge_fields_def config_normal_def split: option.splits)
  have tools: "gc_DisabledResponsesTools (merge_fields e (p\<lparr>gc_Plugins := pp\<rparr>))
      \<in> {None, Some [], Some [ResponsesHostedToolImageGeneration]}"
    using assms by (auto simp: merge_fields_def config_normal_def NormalizeDisabled_eq split: option.splits)
  show ?thesis
    unfolding config_normal_def[of "merge_fields e (p\<lparr>gc_Plugins := pp\<rparr>)"]
    using pos probe plugins tools assms by (auto simp: merge_fields_def config_normal_def)
qed

lemma read_config_normal: "GatewayConfigFromSiteMeta raw = Some c \<Longrightarrow> config_normal c"
  by (auto simp: GatewayConfigFromSiteMeta_def NormalizeGatewayConfig_def normalize_config_normal
      split: json_raw.splits any.splits option.splits sum.splits if_splits)

text \<open>Normalising a site's gateway configuration is idempotent: a configuration that was accepted is
  accepted again unchanged, all its limits are positive, its legacy image policy has been migrated
  and the hosted tools it disables are at most the known one.\<close>

lemma normalize_gateway_config_idempotent:
  assumes "NormalizeGatewayConfig (Some c) = Inr (Some n)"
  shows "NormalizeGatewayConfig (Some n) = Inr (Some n)
    \<and> (\<forall>(name, v) \<in> set (limit_fields n). \<forall>k. v = Some k \<longrightarrow> 0 < k)
    \<and> gc_ResponsesImageGenerationPolicy n = []
    \<and> gc_DisabledResponsesTools n \<in> {None, Some [], Some [ResponsesHostedToolImageGeneration]}
    \<and> (trim_space (gc_ResponsesImageGenerationPolicy c) = ''disabled'' \<and> gc_ResponsesToolPolicy c = [] \<longrightarrow>
         ResponsesToolDisabled (Some n) ''image_generation'')"
proof -
  have n: "normalize_config c = Inr n"
    using assms by (auto simp: NormalizeGatewayConfig_def split: sum.splits)
  then have normal: "config_normal n" by (rule normalize_config_normal)
  have "ResponsesToolDisabled (Some n) ''image_generation''"
    if "trim_space (gc_ResponsesImageGenerationPolicy c) = ''disabled''" "gc_ResponsesToolPolicy c = []"
  proof -
    have "gc_ResponsesToolPolicy n = ResponsesToolPolicyCompatibility"
      and "gc_DisabledResponsesTools n = Some [ResponsesHostedToolImageGeneration]"
      using n that by (auto simp: normalize_config_def normalize_lists_def normalizeLegacyResponsesToolConfig_def Let_def
          NormalizeDisabled_eq NormalizeResponsesToolPolicy_def names_image_tool_def go_simps split: sum.splits option.splits)
    then show ?thesis
      by (simp add: ResponsesToolDisabled_def NormalizeDisabled_eq NormalizeResponsesToolPolicy_def
          normalizeResponsesHostedTool_def go_simps names_image_tool_def)
  qed
  with normal config_normal_fixed[OF normal] show ?thesis
    by (auto simp: NormalizeGatewayConfig_def config_normal_def first_not_positive_iff)
qed

section \<open>Storing and reading back\<close>

definition config_in_range :: "gateway_config \<Rightarrow> bool" where
  "config_in_range c \<longleftrightarrow> (\<forall>(name, v) \<in> set (limit_fields c). \<forall>n. v = Some n \<longrightarrow> in_int64 n)"

lemma decode_int_range: "decode_int v = Some d \<Longrightarrow> d = Some n \<Longrightarrow> in_int64 n"
  by (cases v) (auto dest: parse_int64_range)

lemma range_upd:
  assumes "config_in_range c" and "\<And>n. d = Some n \<Longrightarrow> in_int64 n"
  shows "config_in_range (c\<lparr>gc_RequestTimeoutMS := d\<rparr>)" "config_in_range (c\<lparr>gc_ConnectTimeoutMS := d\<rparr>)"
    "config_in_range (c\<lparr>gc_ResponseHeaderTimeoutMS := d\<rparr>)" "config_in_range (c\<lparr>gc_MaxConcurrency := d\<rparr>)"
    "config_in_range (c\<lparr>gc_MaxModelConcurrency := d\<rparr>)" "config_in_range (c\<lparr>gc_MaxCredentialConcurrency := d\<rparr>)"
    "config_in_range (c\<lparr>gc_MaxIdleConns := d\<rparr>)" "config_in_range (c\<lparr>gc_MaxIdleConnsPerHost := d\<rparr>)"
    "config_in_range (c\<lparr>gc_MaxConnsPerHost := d\<rparr>)" "config_in_range (c\<lparr>gc_IdleConnTimeoutMS := d\<rparr>)"
  using assms by (simp_all add: config_in_range_def limit_fields_def)

lemma set_int_field_range:
  "config_in_range c \<Longrightarrow> (\<And>n. d = Some n \<Longrightarrow> in_int64 n) \<Longrightarrow> config_in_range (set_int_field f d c)"
  unfolding set_int_field_def by (simp add: range_upd)

lemma decode_field_range:
  assumes "config_in_range c" and "decode_field k v c = Some c'"
  shows "config_in_range c'"
proof (cases "field_of_key k \<in> set int_keys")
  case True
  then obtain d where "decode_int v = Some d" and "c' = set_int_field (field_of_key k) d c"
    using assms(2) by (auto simp: decode_field_def)
  then show ?thesis using assms(1) decode_int_range[of v d] by (auto intro: set_int_field_range)
next
  case False
  then have "limit_fields c' = limit_fields c"
    using assms(2) by (auto simp: decode_field_def Let_def split: if_splits)
  then show ?thesis using assms(1) by (simp add: config_in_range_def)
qed

lemma decode_fields_range: "config_in_range c \<Longrightarrow> decode_fields m c = Some c' \<Longrightarrow> config_in_range c'"
proof (induction m arbitrary: c)
  case Nil
  then show ?case by simp
next
  case (Cons e m)
  then show ?case by (cases e) (auto split: option.splits dest: decode_field_range)
qed

lemma normalize_limits: "normalize_config c = Inr n \<Longrightarrow> limit_fields n = limit_fields c"
  by (auto simp: normalize_config_def normalize_lists_def normalizeLegacyResponsesToolConfig_def limit_fields_if Let_def
      split: sum.splits option.splits)

lemma read_config_range: "GatewayConfigFromSiteMeta raw = Some c \<Longrightarrow> config_in_range c"
proof -
  assume r: "GatewayConfigFromSiteMeta raw = Some c"
  then obtain v d where v: "decode_config v = Some d" and n: "normalize_config d = Inr c"
    by (auto simp: GatewayConfigFromSiteMeta_def NormalizeGatewayConfig_def
        split: json_raw.splits any.splits option.splits sum.splits if_splits)
  have "config_in_range zero_config" by (simp add: config_in_range_def limit_fields_def zero_config_def)
  with v decode_fields_range have "config_in_range d" by (cases v) auto
  then show "config_in_range c" by (simp add: config_in_range_def normalize_limits[OF n])
qed

text \<open>Empty lists are not written.\<close>

definition drop_empty :: "gateway_config \<Rightarrow> gateway_config" where
  "drop_empty c = c\<lparr>gc_DisabledResponsesTools :=
       (if gc_DisabledResponsesTools c = Some [] then None else gc_DisabledResponsesTools c),
     gc_Plugins := (if gc_Plugins c = Some [] then None else gc_Plugins c)\<rparr>"

lemma opt_list_map_Some [simp]: "opt_list (map (\<lambda>x. Some (f x)) xs) = Some (map f xs)"
  by (induction xs) auto

lemma decode_texts_encode [simp]: "decode_texts (AList (map AString ts)) = Some (Some ts)"
  by (simp add: comp_def)

lemma decode_text_map_encode [simp]: "decode_text_map (AObj (map (\<lambda>(k, v). (k, AString v)) m)) = Some (Some m)"
proof -
  have "opt_list (map (\<lambda>(k, v). map_option (Pair k) (decode_text [] v)) (map (\<lambda>(k, v). (k, AString v)) m)) = Some m"
    by (induction m) auto
  then show ?thesis by (simp only: decode_text_map.simps) simp
qed

lemma decode_int_entry:
  assumes "k \<in> set int_keys" and "\<And>n. v = Some n \<Longrightarrow> in_int64 n" and "set_int_field k None c = c"
  shows "decode_fields (int_entry k v @ m) c = decode_fields m (set_int_field k v c)"
proof -
  have "field_of_key k = k" using assms(1) by (auto simp: field_of_key_def int_keys_def dest: in_set_takeD)
  with assms show ?thesis
    by (cases v) (simp_all add: int_entry_def opt_entry_def decode_field_def parse_int_text)
qed

lemma field_of_config_key: "k \<in> set config_keys \<Longrightarrow> field_of_key k = k"
  by (simp add: field_of_key_def)

lemma decode_other_entries:
  "gc_ResponsesToolPolicy c = [] \<Longrightarrow>
     decode_fields (text_entry ''responses_tool_policy'' t @ m) c = decode_fields m (c\<lparr>gc_ResponsesToolPolicy := t\<rparr>)"
  "gc_ResponsesImageGenerationPolicy c = [] \<Longrightarrow>
     decode_fields (text_entry ''responses_image_generation_policy'' t @ m) c =
     decode_fields m (c\<lparr>gc_ResponsesImageGenerationPolicy := t\<rparr>)"
  "gc_DisabledResponsesTools c = None \<Longrightarrow>
     decode_fields (opt_entry ''disabled_responses_tools'' (\<lambda>ts. AList (map AString ts)) ts @ m) c =
     decode_fields m (c\<lparr>gc_DisabledResponsesTools := ts\<rparr>)"
  "gc_ImpersonateCodexClient c = None \<Longrightarrow>
     decode_fields (opt_entry ''impersonate_codex_client'' ABool b @ m) c = decode_fields m (c\<lparr>gc_ImpersonateCodexClient := b\<rparr>)"
  "gc_ImpersonateClaudeCodeClient c = None \<Longrightarrow>
     decode_fields (opt_entry ''impersonate_claude_code_client'' ABool b @ m) c =
     decode_fields m (c\<lparr>gc_ImpersonateClaudeCodeClient := b\<rparr>)"
  "gc_QuotaProbe c = None \<Longrightarrow>
     decode_fields (opt_entry ''quota_probe'' AString q @ m) c = decode_fields m (c\<lparr>gc_QuotaProbe := q\<rparr>)"
  "gc_Plugins c = None \<Longrightarrow>
     decode_fields (opt_entry ''plugins'' (\<lambda>m. AObj (map (\<lambda>(k, v). (k, AString v)) m)) p @ m) c =
     decode_fields m (c\<lparr>gc_Plugins := p\<rparr>)"
  by (cases c; simp add: text_entry_def opt_entry_def decode_field_def field_of_config_key config_keys_def int_keys_def
      del: decode_text_map.simps decode_texts.simps split: option.split)+

lemma decode_encode:
  assumes "config_in_range c"
  shows "decode_config (encode_config c) = Some (drop_empty c)"
proof -
  have r: "\<And>n. gc_RequestTimeoutMS c = Some n \<Longrightarrow> in_int64 n" "\<And>n. gc_ConnectTimeoutMS c = Some n \<Longrightarrow> in_int64 n"
    "\<And>n. gc_ResponseHeaderTimeoutMS c = Some n \<Longrightarrow> in_int64 n" "\<And>n. gc_MaxConcurrency c = Some n \<Longrightarrow> in_int64 n"
    "\<And>n. gc_MaxModelConcurrency c = Some n \<Longrightarrow> in_int64 n" "\<And>n. gc_MaxCredentialConcurrency c = Some n \<Longrightarrow> in_int64 n"
    "\<And>n. gc_MaxIdleConns c = Some n \<Longrightarrow> in_int64 n" "\<And>n. gc_MaxIdleConnsPerHost c = Some n \<Longrightarrow> in_int64 n"
    "\<And>n. gc_MaxConnsPerHost c = Some n \<Longrightarrow> in_int64 n" "\<And>n. gc_IdleConnTimeoutMS c = Some n \<Longrightarrow> in_int64 n"
    using assms by (simp_all add: config_in_range_def limit_fields_def)
  have plugins: "decode_fields (opt_entry ''plugins'' (\<lambda>m. AObj (map (\<lambda>(k, v). (k, AString v)) m)) p) d =
      Some (d\<lparr>gc_Plugins := p\<rparr>)" if "gc_Plugins d = None" for p d
    using decode_other_entries(7)[of d p "[]"] that by simp
  show ?thesis
    by (cases c)
       (simp add: encode_config_def decode_int_entry r[simplified] decode_other_entries plugins zero_config_def set_int_field_def
         int_keys_def config_keys_def drop_empty_def; use r in simp)
qed

lemma drop_empty_normal: "config_normal c \<Longrightarrow> config_normal (drop_empty c)"
  unfolding config_normal_def drop_empty_def
  by (auto simp: normalizeSitePlugins_def)

lemma merge_fields_range:
  "config_in_range e \<Longrightarrow> config_in_range p \<Longrightarrow> config_in_range (merge_fields e p)"
  unfolding config_in_range_def limit_fields_merge by (rule map2_patch_all)


definition demo_patch :: gateway_config where
  "demo_patch = zero_config\<lparr>gc_MaxConcurrency := Some 8, gc_ResponsesImageGenerationPolicy := ''disabled'',
     gc_QuotaProbe := Some ''kimi''\<rparr>"

lemma demo_patch_normal:
  "normalize_config demo_patch = Inr (zero_config\<lparr>gc_MaxConcurrency := Some 8, gc_ResponsesToolPolicy := ''compatibility'',
     gc_DisabledResponsesTools := Some [''image_generation''], gc_QuotaProbe := Some ''kimi''\<rparr>)"
  by (simp add: normalize_config_def normalize_lists_def normalizeLegacyResponsesToolConfig_def demo_patch_def zero_config_def
      Let_def go_simps NormalizeDisabled_eq names_image_tool_def NormalizeResponsesToolPolicy_def normalize_probe_def
      NormalizeQuotaProbeType_def normalizeSitePlugins_def limit_fields_def)


end
