(* ===== verification/Model_Key.thy ===== *)
theory Model_Key
  imports Go_Prelude
begin

text \<open>
  Model names, \<open>server/internal/catalog/service.go\<close>: the canonical key of a model name, under which the
  catalogue stores a model and the router looks it up, and the provider inferred from the key.
\<close>

section \<open>Normalisation\<close>

definition key_char :: "char \<Rightarrow> bool" where
  "key_char c \<longleftrightarrow> (let n = of_char c :: nat in 97 \<le> n \<and> n \<le> 122 \<or> 48 \<le> n \<and> n \<le> 57 \<or> n = 46)"

text \<open>\<open>modelKeySeparatorPattern.ReplaceAllString(value, "-")\<close>: each maximal run of other characters becomes
  one dash; the flag says that the run has already been replaced.\<close>

fun replace_separators :: "bool \<Rightarrow> string \<Rightarrow> string" where
  "replace_separators inRun [] = []"
| "replace_separators inRun (c # cs) =
     (if key_char c then c # replace_separators False cs
      else if inRun then replace_separators True cs
      else CHR ''-'' # replace_separators True cs)"

definition replace_plus :: "string \<Rightarrow> string" where
  "replace_plus s = concat (map (\<lambda>c. if c = CHR ''+'' then '' plus '' else [c]) s)"

definition dash_or_dot :: "char \<Rightarrow> bool" where
  "dash_or_dot c \<longleftrightarrow> c = CHR ''-'' \<or> c = CHR ''.''"

definition trim_dashes :: "string \<Rightarrow> string" where
  "trim_dashes s = rev (dropWhile dash_or_dot (rev (dropWhile dash_or_dot s)))"

definition vendor_prefixes :: "string list" where
  "vendor_prefixes = [''models/'', ''model/'', ''openai/'', ''anthropic/'', ''google/'', ''gemini/'',
     ''deepseek/'', ''xai/'', ''moonshotai/'', ''nvidia/'']"

definition strip_key :: "string \<Rightarrow> string" where
  "strip_key value = replace_separators False (replace_plus
     (fold (\<lambda>p v. trim_prefix v p) vendor_prefixes (to_lower (trim_space value))))"

definition NormalizeModelKey :: "string \<Rightarrow> string" where
  "NormalizeModelKey value = trim_dashes (strip_key value)"

definition NormalizeModelKeyPrefix :: "string \<Rightarrow> string" where
  "NormalizeModelKeyPrefix value = dropWhile dash_or_dot (strip_key value)"

section \<open>Canonical keys\<close>

definition canonicalFamilyTokens :: "string list" where
  "canonicalFamilyTokens = [''bge'', ''claude'', ''cohere'', ''dall'', ''deepseek'', ''embedding'', ''flux'', ''gemma'',
     ''gemini'', ''glm'', ''gpt'', ''grok'', ''hermes'', ''jina'', ''kimi'', ''lyria'', ''mimo'', ''minimax'', ''moonshot'',
     ''moonshotai'', ''nanobananapro'', ''o1'', ''o3'', ''o4'', ''perplexity'', ''qwen'', ''qwen2'', ''qwen3'', ''rerank'',
     ''sora'', ''text'', ''trinity'', ''tts'', ''veo'', ''whisper'']"

definition canonicalSuffixNoiseTokens :: "string list" where
  "canonicalSuffixNoiseTokens = [''business'', ''inference'', ''search'', ''tiered'']"

text \<open>\<open>strings.Split(s, "-")\<close>.\<close>

fun split_dash :: "string \<Rightarrow> string list" where
  "split_dash [] = [[]]"
| "split_dash (c # cs) =
     (if c = CHR ''-'' then [] # split_dash cs
      else (case split_dash cs of [] \<Rightarrow> [[c]] | t # ts \<Rightarrow> (c # t) # ts))"

definition family_token :: "string \<Rightarrow> bool" where
  "family_token t \<longleftrightarrow> t \<in> set canonicalFamilyTokens"

definition noise_token :: "string \<Rightarrow> bool" where
  "noise_token t \<longleftrightarrow> t \<in> set canonicalSuffixNoiseTokens"

text \<open>The loop drops noise tokens from the end and always keeps the first token.\<close>

definition trimCanonicalSuffixNoise :: "string list \<Rightarrow> string list" where
  "trimCanonicalSuffixNoise tokens =
     (case tokens of [] \<Rightarrow> [] | t # ts \<Rightarrow> t # rev (dropWhile noise_token (rev ts)))"

definition CanonicalModelKeyFromUpstream :: "string \<Rightarrow> string" where
  "CanonicalModelKeyFromUpstream value =
     (let normalized = NormalizeModelKey value in
      if normalized = [] then []
      else let tokens = split_dash normalized in
        if \<not> list_ex family_token tokens then normalized
        else join_strings (trimCanonicalSuffixNoise (dropWhile (\<lambda>t. \<not> family_token t) tokens)) ''-'')"

section \<open>Provider\<close>

definition providerModelFamilyRules :: "(string \<times> string list) list" where
  "providerModelFamilyRules =
     [(''openai'', [''gpt'', ''o1'', ''o3'', ''o4'', ''dall'', ''sora'']),
      (''anthropic'', [''claude'']),
      (''google'', [''gemini'', ''gemma'', ''deep-research'', ''lyria'', ''nano-banana'', ''veo'']),
      (''deepseek'', [''deepseek'']),
      (''xai'', [''grok'']),
      (''qwen'', [''qwen'', ''qwen2'', ''qwen3'']),
      (''zhipuai'', [''glm'']),
      (''moonshotai-cn'', [''kimi'', ''moonshot'', ''moonshotai'', ''k3'']),
      (''xiaomi'', [''mimo'']),
      (''minimax'', [''minimax'']),
      (''nvidia'', [''nvidia'', ''nemotron'']),
      (''bytedance'', [''bytedance'', ''doubao'', ''seedance'', ''seedream'']),
      (''vidu'', [''vidu'', ''viduq'']),
      (''stepfun'', [''step'', ''stepaudio'']),
      (''alibaba'', [''funaudiollm'', ''tongyi'', ''wan'', ''happyhorse'']),
      (''kuaishou'', [''kling'', ''kwai'', ''kolors'']),
      (''baai'', [''bge'']),
      (''flux'', [''flux'']),
      (''hunyuan'', [''hy'', ''hunyuan'', ''tencent-hunyuan'']),
      (''sensenova'', [''sensenova'']),
      (''perplexity'', [''perplexity''])]"

definition hasModelFamilyPrefix :: "string \<Rightarrow> string \<Rightarrow> bool" where
  "hasModelFamilyPrefix modelKey0 family0 =
     (let modelKey = to_lower (trim_space modelKey0); family = to_lower (trim_space family0) in
      if modelKey = [] \<or> family = [] then False
      else if modelKey = family then True
      else if \<not> has_prefix modelKey family then False
      else let next = modelKey ! length family; n = of_char next :: nat
        in next = CHR ''-'' \<or> next = CHR ''_'' \<or> next = CHR ''.'' \<or> 48 \<le> n \<and> n \<le> 57)"

definition InferProvider :: "string \<Rightarrow> string" where
  "InferProvider modelKey =
     (let key = CanonicalModelKeyFromUpstream modelKey in
      case find (\<lambda>(provider, families). list_ex (hasModelFamilyPrefix key) families) providerModelFamilyRules of
        Some (provider, families) \<Rightarrow> provider
      | None \<Rightarrow> ''unknown'')"

section \<open>Normal keys\<close>

text \<open>A normal key consists of key characters and single dashes and neither starts nor ends with a dash
  or a dot.\<close>

definition no_dash_pair :: "string \<Rightarrow> bool" where
  "no_dash_pair s = successively (\<lambda>a b. \<not> (a = CHR ''-'' \<and> b = CHR ''-'')) s"

definition normal_key :: "string \<Rightarrow> bool" where
  "normal_key s \<longleftrightarrow> list_all (\<lambda>c. key_char c \<or> c = CHR ''-'') s \<and> no_dash_pair s
     \<and> (s \<noteq> [] \<longrightarrow> \<not> dash_or_dot (hd s) \<and> \<not> dash_or_dot (last s))"

lemma dash_not_key [simp]: "\<not> key_char (CHR ''-'')"
  by (simp add: key_char_def)

lemma replace_separators_ok:
  "list_all (\<lambda>c. key_char c \<or> c = CHR ''-'') (replace_separators b s)
   \<and> no_dash_pair (replace_separators b s)
   \<and> (b \<and> replace_separators b s \<noteq> [] \<longrightarrow> hd (replace_separators b s) \<noteq> CHR ''-'')"
proof (induction s arbitrary: b)
  case Nil
  then show ?case by (simp add: no_dash_pair_def)
next
  case (Cons c s)
  have "c \<noteq> CHR ''-''" if "key_char c" using that dash_not_key by blast
  with Cons[of True] Cons[of False] show ?case
    by (auto simp: no_dash_pair_def successively_Cons)
qed

lemma replace_separators_id:
  "list_all (\<lambda>c. key_char c \<or> c = CHR ''-'') s \<Longrightarrow> no_dash_pair s \<Longrightarrow> (b \<Longrightarrow> s \<noteq> [] \<Longrightarrow> hd s \<noteq> CHR ''-'') \<Longrightarrow>
   replace_separators b s = s"
proof (induction s arbitrary: b)
  case Nil
  then show ?case by simp
next
  case (Cons c s)
  then have "no_dash_pair s" by (cases s) (auto simp: no_dash_pair_def)
  moreover have "c = CHR ''-'' \<Longrightarrow> s \<noteq> [] \<Longrightarrow> hd s \<noteq> CHR ''-''"
    using Cons.prems(2) by (cases s) (auto simp: no_dash_pair_def)
  ultimately show ?case using Cons by auto
qed

lemma no_dash_pair_dropWhile: "no_dash_pair s \<Longrightarrow> no_dash_pair (dropWhile P s)"
  by (induction s) (auto simp: no_dash_pair_def successively_Cons)

lemma no_dash_pair_rev [simp]: "no_dash_pair (rev s) = no_dash_pair s"
  unfolding no_dash_pair_def successively_rev by (rule arg_cong[where f = "\<lambda>P. successively P s"]) auto

lemma list_all_dropWhile: "list_all P s \<Longrightarrow> list_all P (dropWhile Q s)"
  by (induction s) auto

lemma trim_dashes_ends:
  assumes "trim_dashes s \<noteq> []"
  shows "\<not> dash_or_dot (hd (trim_dashes s))" and "\<not> dash_or_dot (last (trim_dashes s))"
proof -
  define a where "a = dropWhile dash_or_dot s"
  define b where "b = dropWhile dash_or_dot (rev a)"
  have t: "trim_dashes s = rev b" by (simp add: trim_dashes_def a_def b_def)
  with assms have b: "b \<noteq> []" by simp
  then show "\<not> dash_or_dot (last (trim_dashes s))"
    unfolding t b_def using hd_dropWhile[of dash_or_dot "rev a"] by (simp add: last_rev)
  obtain pre where "rev a = pre @ b" unfolding b_def by (metis takeWhile_dropWhile_id)
  then have "a = rev b @ rev pre" by (metis rev_append rev_rev_ident)
  with b have "hd (rev b) = hd a" and "a \<noteq> []" by (simp_all add: hd_append)
  then show "\<not> dash_or_dot (hd (trim_dashes s))"
    unfolding t a_def using hd_dropWhile[of dash_or_dot s] by auto
qed

lemma trim_dashes_id: "(s \<noteq> [] \<Longrightarrow> \<not> dash_or_dot (hd s) \<and> \<not> dash_or_dot (last s)) \<Longrightarrow> trim_dashes s = s"
  by (cases "s = []") (auto simp: trim_dashes_def dropWhile_fixed hd_rev)

lemma NormalizeModelKey_normal: "normal_key (NormalizeModelKey v)"
proof -
  have "list_all (\<lambda>c. key_char c \<or> c = CHR ''-'') (strip_key v)" "no_dash_pair (strip_key v)"
    unfolding strip_key_def using replace_separators_ok by blast+
  then have "list_all (\<lambda>c. key_char c \<or> c = CHR ''-'') (trim_dashes (strip_key v))" "no_dash_pair (trim_dashes (strip_key v))"
    by (simp_all add: trim_dashes_def list_all_rev list_all_dropWhile no_dash_pair_dropWhile)
  then show ?thesis
    unfolding normal_key_def NormalizeModelKey_def using trim_dashes_ends by blast
qed

lemma key_char_plain:
  assumes "key_char c \<or> c = CHR ''-''"
  shows "\<not> is_space c" and "lower_char c = c" and "c \<noteq> CHR ''/''" and "c \<noteq> CHR ''+''"
  using assms by (auto simp: key_char_def is_space_def lower_char_def Let_def)

lemma strip_key_id:
  assumes "list_all (\<lambda>c. key_char c \<or> c = CHR ''-'') s" and "no_dash_pair s"
  shows "strip_key s = s"
proof -
  have c: "key_char c \<or> c = CHR ''-''" if "c \<in> set s" for c using assms(1) that by (simp add: list_all_iff)
  have "dropWhile is_space s = s" "dropWhile is_space (rev s) = rev s"
    using key_char_plain(1)[OF c] hd_in_set[of s] hd_in_set[of "rev s"] by (auto intro!: dropWhile_fixed)
  then have trim: "trim_space s = s" by (simp add: trim_space_def)
  have lower: "to_lower s = s" unfolding to_lower_def by (rule map_idI) (rule key_char_plain(2)[OF c])
  have "\<not> has_prefix s p" if "CHR ''/'' \<in> set p" for p
    unfolding has_prefix_def using that key_char_plain(3)[OF c] in_set_takeD[of "CHR ''/''" "length p" s] by metis
  then have "trim_prefix s p = s" if "CHR ''/'' \<in> set p" for p using that by (simp add: trim_prefix_def)
  then have "fold (\<lambda>p v. trim_prefix v p) vendor_prefixes s = s" by (simp add: vendor_prefixes_def)
  moreover have "replace_plus s = s"
  proof -
    have "map (\<lambda>c. if c = CHR ''+'' then '' plus '' else [c]) s = map (\<lambda>c. [c]) s"
      using key_char_plain(4)[OF c] by auto
    then show ?thesis by (simp only: replace_plus_def) simp
  qed
  ultimately show ?thesis
    using trim lower replace_separators_id[OF assms] by (simp add: strip_key_def)
qed

lemma NormalizeModelKey_id: "normal_key s \<Longrightarrow> NormalizeModelKey s = s"
  using strip_key_id[of s] trim_dashes_id[of s] by (simp add: normal_key_def NormalizeModelKey_def)

text \<open>Normalising a model name is idempotent, and a normalised key consists of lower-case letters,
  digits, dots and single dashes and neither starts nor ends with a dash or a dot.\<close>

lemma normalize_model_key_idempotent:
  "NormalizeModelKey (NormalizeModelKey v) = NormalizeModelKey v \<and> normal_key (NormalizeModelKey v)"
  using NormalizeModelKey_normal NormalizeModelKey_id by blast

section \<open>Tokens\<close>

lemma split_dash_ne [simp]: "split_dash s \<noteq> []"
  by (induction s) (auto split: list.split)

lemma split_dash_no_dash: "t \<in> set (split_dash s) \<Longrightarrow> CHR ''-'' \<notin> set t"
proof (induction s arbitrary: t)
  case Nil
  then show ?case by simp
next
  case (Cons c s)
  then show ?case by (cases "split_dash s") (auto split: if_splits)
qed

lemma split_dash_plain: "CHR ''-'' \<notin> set t \<Longrightarrow> split_dash t = [t]"
  by (induction t) auto

lemma split_dash_append: "CHR ''-'' \<notin> set t \<Longrightarrow> split_dash (t @ CHR ''-'' # s) = t # split_dash s"
  by (induction t) auto

lemma split_join: "ts \<noteq> [] \<Longrightarrow> \<forall>t \<in> set ts. CHR ''-'' \<notin> set t \<Longrightarrow> split_dash (join_strings ts ''-'') = ts"
  by (induction ts "''-''" rule: join_strings.induct) (auto simp: split_dash_plain split_dash_append)

lemma join_split: "join_strings (split_dash s) ''-'' = s"
proof (induction s)
  case Nil
  then show ?case by simp
next
  case (Cons c s)
  obtain t ts where "split_dash s = t # ts" by (cases "split_dash s") auto
  with Cons show ?case by (cases ts) auto
qed

lemma split_dash_chars: "t \<in> set (split_dash s) \<Longrightarrow> set t \<subseteq> set s"
proof (induction s arbitrary: t)
  case Nil
  then show ?case by simp
next
  case (Cons c s)
  obtain u us where s: "split_dash s = u # us" by (cases "split_dash s") auto
  show ?case
  proof (cases "c = CHR ''-''")
    case True
    with Cons show ?thesis by auto
  next
    case False
    with Cons.prems s have "t = c # u \<or> t \<in> set us" by auto
    with Cons.IH[of u] Cons.IH[of t] s show ?thesis by auto
  qed
qed

text \<open>The tokens of a normal key are not empty.\<close>

lemma split_dash_tokens:
  "no_dash_pair s \<Longrightarrow> (s \<noteq> [] \<Longrightarrow> last s \<noteq> CHR ''-'') \<Longrightarrow> t \<in> set (tl (split_dash s)) \<Longrightarrow> t \<noteq> []"
proof (induction s arbitrary: t)
  case Nil
  then show ?case by simp
next
  case (Cons c s)
  have pair: "no_dash_pair s" using Cons.prems(1) by (cases s) (auto simp: no_dash_pair_def)
  have last: "s \<noteq> [] \<Longrightarrow> last s \<noteq> CHR ''-''" using Cons.prems(2) by auto
  obtain u us where s: "split_dash s = u # us" by (cases "split_dash s") auto
  show ?case
  proof (cases "c = CHR ''-''")
    case False
    with Cons.prems(3) s have "t \<in> set (tl (split_dash s))" by simp
    then show ?thesis using Cons.IH[OF pair last] by blast
  next
    case True
    then have "s \<noteq> []" using Cons.prems(2) by auto
    then have "hd s \<noteq> CHR ''-''" using Cons.prems(1) True by (cases s) (auto simp: no_dash_pair_def)
    with \<open>s \<noteq> []\<close> s have "u \<noteq> []" by (cases s) (auto split: list.splits if_splits)
    moreover have "t = u \<or> t \<in> set us" using Cons.prems(3) True s by auto
    ultimately show ?thesis using Cons.IH[OF pair last, of t] s by auto
  qed
qed

lemma join_chars: "set (join_strings ts ''-'') \<subseteq> insert (CHR ''-'') (\<Union> (set ` set ts))"
  by (induction ts "''-''" rule: join_strings.induct) auto

lemma join_ends:
  assumes "ts \<noteq> []" and "\<forall>t \<in> set ts. t \<noteq> []"
  shows "join_strings ts ''-'' \<noteq> []" and "hd (join_strings ts ''-'') = hd (hd ts)"
    and "last (join_strings ts ''-'') = last (last ts)"
proof -
  have "join_strings ts ''-'' \<noteq> [] \<and> hd (join_strings ts ''-'') = hd (hd ts) \<and> last (join_strings ts ''-'') = last (last ts)"
    using assms by (induction ts "''-''" rule: join_strings.induct) auto
  then show "join_strings ts ''-'' \<noteq> []" and "hd (join_strings ts ''-'') = hd (hd ts)"
    and "last (join_strings ts ''-'') = last (last ts)" by auto
qed

lemma plain_no_pair: "CHR ''-'' \<notin> set t \<Longrightarrow> no_dash_pair t"
  by (induction t) (auto simp: no_dash_pair_def successively_Cons)

lemma join_no_pair:
  assumes "\<forall>t \<in> set ts. t \<noteq> [] \<and> CHR ''-'' \<notin> set t"
  shows "no_dash_pair (join_strings ts ''-'')"
  using assms
proof (induction ts "''-''" rule: join_strings.induct)
  case (3 x y xs)
  have "hd (join_strings (y # xs) ''-'') \<noteq> CHR ''-''" "join_strings (y # xs) ''-'' \<noteq> []"
    using join_ends[of "y # xs"] 3(2) hd_in_set[of y] by fastforce+
  moreover have "x \<noteq> []" "last x \<noteq> CHR ''-''" "no_dash_pair x"
    using 3(2) last_in_set[of x] plain_no_pair[of x] by (auto, metis last_in_set)
  ultimately show ?case
    using 3 by (auto simp: no_dash_pair_def successively_append_iff successively_Cons)
qed (simp_all add: plain_no_pair)

section \<open>Canonical keys are stable\<close>

lemma family_token_plain: "family_token t \<Longrightarrow> t \<noteq> [] \<and> \<not> dash_or_dot (hd t)"
  by (auto simp: family_token_def canonicalFamilyTokens_def dash_or_dot_def)

lemma trim_noise_set: "set (trimCanonicalSuffixNoise ts) \<subseteq> set ts"
  by (cases ts) (auto simp: trimCanonicalSuffixNoise_def dest: set_dropWhileD)

lemma trim_noise_hd: "ts \<noteq> [] \<Longrightarrow> trimCanonicalSuffixNoise ts \<noteq> [] \<and> hd (trimCanonicalSuffixNoise ts) = hd ts"
  by (cases ts) (auto simp: trimCanonicalSuffixNoise_def)

lemma dropWhile_idem: "dropWhile P (dropWhile P xs) = dropWhile P xs"
  by (induction xs) auto

lemma trim_noise_idem: "trimCanonicalSuffixNoise (trimCanonicalSuffixNoise ts) = trimCanonicalSuffixNoise ts"
  by (cases ts) (simp_all add: trimCanonicalSuffixNoise_def dropWhile_idem)

text \<open>The tokens a canonical key is made of, when the name contains the name of a family.\<close>

lemma canonical_tokens:
  assumes ne: "NormalizeModelKey v \<noteq> []" and fam: "list_ex family_token (split_dash (NormalizeModelKey v))"
  obtains ts where "CanonicalModelKeyFromUpstream v = join_strings ts ''-''" "ts \<noteq> []" "family_token (hd ts)"
    "trimCanonicalSuffixNoise ts = ts" "\<forall>t \<in> set ts. t \<noteq> [] \<and> CHR ''-'' \<notin> set t \<and> list_all key_char t"
proof
  let ?n = "NormalizeModelKey v"
  let ?fam = "dropWhile (\<lambda>t. \<not> family_token t) (split_dash ?n)"
  let ?ts = "trimCanonicalSuffixNoise ?fam"
  have n: "normal_key ?n" by (rule NormalizeModelKey_normal)
  have fam_ne: "?fam \<noteq> []" using fam by (auto simp: list_ex_iff dropWhile_eq_Nil_conv)
  show "CanonicalModelKeyFromUpstream v = join_strings ?ts ''-''"
    using ne fam by (simp add: CanonicalModelKeyFromUpstream_def Let_def)
  show "?ts \<noteq> []" "family_token (hd ?ts)"
    using trim_noise_hd[OF fam_ne] hd_dropWhile[OF fam_ne] by auto
  show "trimCanonicalSuffixNoise ?ts = ?ts" by (rule trim_noise_idem)
  have sub: "set ?ts \<subseteq> set (split_dash ?n)"
    using trim_noise_set[of ?fam] set_dropWhileD by fastforce
  obtain t0 rest where sp: "split_dash ?n = t0 # rest" by (cases "split_dash ?n") auto
  have t0: "t0 \<noteq> []"
  proof -
    obtain c cs where c: "?n = c # cs" using ne by (cases ?n) auto
    with n have "c \<noteq> CHR ''-''" by (auto simp: normal_key_def dash_or_dot_def)
    with c sp show ?thesis by (auto split: list.splits)
  qed
  have "t \<noteq> []" if "t \<in> set (split_dash ?n)" for t
    using that sp t0 split_dash_tokens[of ?n t] n ne by (auto simp: normal_key_def dash_or_dot_def)
  moreover have "list_all key_char t" if "t \<in> set (split_dash ?n)" for t
    using split_dash_chars[OF that] split_dash_no_dash[OF that] n by (fastforce simp: normal_key_def list_all_iff)
  ultimately show "\<forall>t \<in> set ?ts. t \<noteq> [] \<and> CHR ''-'' \<notin> set t \<and> list_all key_char t"
    using sub split_dash_no_dash by blast
qed

lemma canonical_normal:
  assumes ne: "NormalizeModelKey v \<noteq> []" and fam: "list_ex family_token (split_dash (NormalizeModelKey v))"
    and dot: "last (CanonicalModelKeyFromUpstream v) \<noteq> CHR ''.''"
  shows "CanonicalModelKeyFromUpstream (CanonicalModelKeyFromUpstream v) = CanonicalModelKeyFromUpstream v"
proof -
  obtain ts where key: "CanonicalModelKeyFromUpstream v = join_strings ts ''-''" and ts: "ts \<noteq> []" "family_token (hd ts)"
    "trimCanonicalSuffixNoise ts = ts" "\<forall>t \<in> set ts. t \<noteq> [] \<and> CHR ''-'' \<notin> set t \<and> list_all key_char t"
    using canonical_tokens[OF ne fam] by blast
  let ?k = "join_strings ts ''-''"
  have ends: "?k \<noteq> []" "hd ?k = hd (hd ts)" "last ?k = last (last ts)"
    using join_ends[of ts] ts(1,4) by auto
  have "last (last ts) \<noteq> CHR ''-''"
    using ts(1,4) last_in_set[of ts] last_in_set[of "last ts"] by metis
  then have "normal_key ?k"
    using ends ts dot[unfolded key] family_token_plain[OF ts(2)] join_no_pair[of ts] join_chars[of ts]
    by (fastforce simp: normal_key_def list_all_iff dash_or_dot_def)
  then have norm: "NormalizeModelKey ?k = ?k" by (rule NormalizeModelKey_id)
  have "split_dash ?k = ts" using split_join[of ts] ts by blast
  moreover have "dropWhile (\<lambda>t. \<not> family_token t) ts = ts" "list_ex family_token ts"
    using ts(1,2) by (cases ts; simp)+
  ultimately show ?thesis
    using norm ends(1) ts(3) unfolding key by (simp add: CanonicalModelKeyFromUpstream_def[of ?k] Let_def)
qed

text \<open>Canonical keys are stable: the canonical key of a canonical key is that key, provided it does not
  end with a dot. So a request that names a model by its canonical key finds the model stored
  under it.\<close>

lemma canonical_key_stable:
  assumes "CanonicalModelKeyFromUpstream v = [] \<or> last (CanonicalModelKeyFromUpstream v) \<noteq> CHR ''.''"
  shows "CanonicalModelKeyFromUpstream (CanonicalModelKeyFromUpstream v) = CanonicalModelKeyFromUpstream v"
proof (cases "NormalizeModelKey v = []")
  case True
  then have "CanonicalModelKeyFromUpstream v = []" by (simp add: CanonicalModelKeyFromUpstream_def)
  moreover have "NormalizeModelKey [] = []" by (rule NormalizeModelKey_id) (simp add: normal_key_def no_dash_pair_def)
  ultimately show ?thesis by (simp add: CanonicalModelKeyFromUpstream_def)
next
  case ne: False
  show ?thesis
  proof (cases "list_ex family_token (split_dash (NormalizeModelKey v))")
    case True
    obtain ts where "CanonicalModelKeyFromUpstream v = join_strings ts ''-''" "ts \<noteq> []" "\<forall>t \<in> set ts. t \<noteq> []"
      using canonical_tokens[OF ne True] by metis
    then have "CanonicalModelKeyFromUpstream v \<noteq> []" using join_ends(1)[of ts] by simp
    then show ?thesis using canonical_normal[OF ne True] assms by blast
  next
    case False
    then have "CanonicalModelKeyFromUpstream v = NormalizeModelKey v"
      using ne by (simp add: CanonicalModelKeyFromUpstream_def Let_def)
    then show ?thesis
      using ne False NormalizeModelKey_id[OF NormalizeModelKey_normal, of v]
      by (simp add: CanonicalModelKeyFromUpstream_def[of "NormalizeModelKey v"] Let_def)
  qed
qed

lemma key_example: "CanonicalModelKeyFromUpstream ''OpenAI/GPT 5.2 Search'' = ''gpt-5.2''"
  by code_simp

text \<open>Without that proviso the key is not stable: a name whose noise suffix follows a dot yields a
  canonical key whose own canonical key is different, so a model stored under it is not found by
  its key.\<close>

lemma canonical_key_unstable_after_dot:
  "\<exists>v. CanonicalModelKeyFromUpstream v = ''gpt-5.''
     \<and> CanonicalModelKeyFromUpstream (CanonicalModelKeyFromUpstream v) = ''gpt-5''"
proof -
  have "CanonicalModelKeyFromUpstream ''gpt-5.-search'' = ''gpt-5.''" "CanonicalModelKeyFromUpstream ''gpt-5.'' = ''gpt-5''"
    by code_simp+
  then show ?thesis by metis
qed

end
