(* ===== verification/Route_Cooldown.thy ===== *)
theory Route_Cooldown
  imports Go_Prelude
begin

text \<open>
  The table of route cooldowns, \<open>server/internal/store/route_cooldown_repository.go\<close>. A cooldown takes
  a site, a model of a site, or a credential out of routing until a point in time or until it is
  cleared.

  The table is the list of its rows. The queries the repository builds are data (\<open>sql_expr\<close>, the clauses
  of the query builder) and are run with SQL's three-valued logic by \<open>sql_eval\<close>. The clock and the
  identifier of a new row are parameters; a statement that fails is an argument as well, so that the
  error branches are part of the model. One reading of the clock serves a whole operation.
\<close>

section \<open>Data\<close>

record route_cooldown =
  rc_ID :: uuid
  rc_SiteID :: uuid
  rc_SiteModelID :: "uuid option"
  rc_SiteCredentialID :: "uuid option"
  rc_Scope :: string
  rc_Source :: string
  rc_Reason :: string
  rc_ActiveUntil :: go_time
  rc_ClearedAt :: "go_time option"
  rc_Metadata :: string
  rc_CreatedAt :: go_time
  rc_UpdatedAt :: go_time

definition CooldownReasonCodexUsageLimitReached :: string where
  "CooldownReasonCodexUsageLimitReached = ''codex_usage_limit_reached''"
definition CooldownReasonUpstreamModelNotFound :: string where
  "CooldownReasonUpstreamModelNotFound = ''upstream_model_not_found''"
definition CooldownReasonUpstreamCredentialsExhausted :: string where
  "CooldownReasonUpstreamCredentialsExhausted = ''upstream_credentials_exhausted''"
definition CooldownReasonUpstreamStreamUnstable :: string where
  "CooldownReasonUpstreamStreamUnstable = ''upstream_stream_unstable''"
definition CooldownReasonUpstreamCredentialUnauthorized :: string where
  "CooldownReasonUpstreamCredentialUnauthorized = ''upstream_credential_unauthorized''"
definition CooldownReasonUpstreamCredentialLimited :: string where
  "CooldownReasonUpstreamCredentialLimited = ''upstream_credential_limited''"
definition CooldownReasonUpstreamInsufficientBalance :: string where
  "CooldownReasonUpstreamInsufficientBalance = ''upstream_insufficient_balance''"
definition CooldownReasonUpstreamSubscriptionLimitExceeded :: string where
  "CooldownReasonUpstreamSubscriptionLimitExceeded = ''upstream_subscription_limit_exceeded''"
definition CooldownReasonOpenCodeGoUsageLimitReached :: string where
  "CooldownReasonOpenCodeGoUsageLimitReached = ''opencode_go_usage_limit_reached''"
definition CooldownReasonCodingPlanQuotaExhausted :: string where
  "CooldownReasonCodingPlanQuotaExhausted = ''coding_plan_quota_exhausted''"

lemmas cooldown_reason_defs [go_simps] = CooldownReasonCodexUsageLimitReached_def
  CooldownReasonUpstreamModelNotFound_def CooldownReasonUpstreamCredentialsExhausted_def
  CooldownReasonUpstreamStreamUnstable_def CooldownReasonUpstreamCredentialUnauthorized_def
  CooldownReasonUpstreamCredentialLimited_def CooldownReasonUpstreamInsufficientBalance_def
  CooldownReasonUpstreamSubscriptionLimitExceeded_def CooldownReasonOpenCodeGoUsageLimitReached_def
  CooldownReasonCodingPlanQuotaExhausted_def

definition TransientRouteCooldown :: "route_cooldown \<Rightarrow> bool" where
  "TransientRouteCooldown item \<longleftrightarrow>
     rc_Source item = ''gateway'' \<and> rc_SiteModelID item \<noteq> None \<and> rc_SiteCredentialID item = None
     \<and> rc_Reason item \<noteq> CooldownReasonUpstreamModelNotFound"

definition CodexQuotaCooldownReasons :: "string list" where
  "CodexQuotaCooldownReasons = [CooldownReasonCodexUsageLimitReached]"

record clear_active_cooldown_filter =
  cf_SiteID :: uuid
  cf_SiteCredentialID :: "uuid option"
  cf_Reasons :: "string list"

text \<open>A UUID passed as \<open>any\<close>: nil, a nullable UUID, a UUID, a pointer to one, or something else.\<close>

datatype uuid_arg = NoArg | NullArg "uuid option" | UuidArg uuid | PtrArg "uuid option" | OtherArg

fun nullUUIDFromAny :: "uuid_arg \<Rightarrow> uuid option" where
  "nullUUIDFromAny NoArg = None"
| "nullUUIDFromAny (NullArg v) = v"
| "nullUUIDFromAny (UuidArg v) = (if v = uuid_nil then None else Some v)"
| "nullUUIDFromAny (PtrArg v) = (case v of None \<Rightarrow> None | Some u \<Rightarrow> if u = uuid_nil then None else Some u)"
| "nullUUIDFromAny OtherArg = None"

definition jsonDefault :: "string \<Rightarrow> string \<Rightarrow> string" where
  "jsonDefault value fallback = (if length value > 0 then value else fallback)"

record activate_params =
  ap_SiteID :: uuid
  ap_SiteModelID :: uuid_arg
  ap_SiteCredentialID :: uuid_arg
  ap_Scope :: string
  ap_Source :: string
  ap_Reason :: string
  ap_ActiveUntil :: go_time
  ap_Metadata :: string

record count_params =
  cp_SiteID :: uuid
  cp_SiteModelID :: "uuid option"
  cp_SiteCredentialID :: "uuid option"
  cp_Source :: string
  cp_Reasons :: "string list"
  cp_Since :: go_time

type_synonym cooldown_table = "route_cooldown list"

section \<open>Query clauses\<close>

datatype sql_val = SqlNull | SqlText string | SqlTime go_time

datatype sql_expr =
    SqlEq string sql_val
  | SqlGt string sql_val
  | SqlGte string sql_val
  | SqlIn string "sql_val list"
  | SqlNot sql_expr

definition text_or_null :: "string option \<Rightarrow> sql_val" where
  "text_or_null v = (case v of None \<Rightarrow> SqlNull | Some t \<Rightarrow> SqlText t)"

definition column :: "route_cooldown \<Rightarrow> string \<Rightarrow> sql_val" where
  "column r name =
     (if name = ''id'' then SqlText (rc_ID r)
      else if name = ''site_id'' then SqlText (rc_SiteID r)
      else if name = ''site_model_id'' then text_or_null (rc_SiteModelID r)
      else if name = ''site_credential_id'' then text_or_null (rc_SiteCredentialID r)
      else if name = ''scope'' then SqlText (rc_Scope r)
      else if name = ''source'' then SqlText (rc_Source r)
      else if name = ''reason'' then SqlText (rc_Reason r)
      else if name = ''active_until'' then SqlTime (rc_ActiveUntil r)
      else if name = ''cleared_at'' then (case rc_ClearedAt r of None \<Rightarrow> SqlNull | Some t \<Rightarrow> SqlTime t)
      else if name = ''created_at'' then SqlTime (rc_CreatedAt r)
      else if name = ''updated_at'' then SqlTime (rc_UpdatedAt r)
      else SqlNull)"

text \<open>\<open>None\<close> is SQL's unknown. An equality with nil is written as \<open>IS NULL\<close> by the query builder.\<close>

fun sql_cmp :: "(go_time \<Rightarrow> go_time \<Rightarrow> bool) \<Rightarrow> sql_val \<Rightarrow> sql_val \<Rightarrow> bool option" where
  "sql_cmp f (SqlTime a) (SqlTime b) = Some (f a b)"
| "sql_cmp f _ _ = None"

fun sql_eval :: "route_cooldown \<Rightarrow> sql_expr \<Rightarrow> bool option" where
  "sql_eval r (SqlEq c v) =
     (if v = SqlNull then Some (column r c = SqlNull)
      else if column r c = SqlNull then None else Some (column r c = v))"
| "sql_eval r (SqlGt c v) = sql_cmp (>) (column r c) v"
| "sql_eval r (SqlGte c v) = sql_cmp (\<ge>) (column r c) v"
| "sql_eval r (SqlIn c vs) = (if column r c = SqlNull then None else Some (column r c \<in> set vs))"
| "sql_eval r (SqlNot e) = map_option Not (sql_eval r e)"

definition sql_where :: "sql_expr list \<Rightarrow> route_cooldown \<Rightarrow> bool" where
  "sql_where exprs r = list_all (\<lambda>e. sql_eval r e = Some True) exprs"

definition nullableUUIDExpr :: "string \<Rightarrow> uuid option \<Rightarrow> sql_expr" where
  "nullableUUIDExpr col value = (case value of Some u \<Rightarrow> SqlEq col (SqlText u) | None \<Rightarrow> SqlEq col SqlNull)"

section \<open>Operations\<close>

definition clear_exprs :: "uuid \<Rightarrow> uuid option \<Rightarrow> uuid option \<Rightarrow> string \<Rightarrow> string list \<Rightarrow> sql_expr list" where
  "clear_exprs siteID siteModelID siteCredentialID source protectedReasons =
     [SqlEq ''site_id'' (SqlText siteID), SqlEq ''cleared_at'' SqlNull,
      nullableUUIDExpr ''site_model_id'' siteModelID, nullableUUIDExpr ''site_credential_id'' siteCredentialID]
     @ (if source \<noteq> [] then [SqlEq ''source'' (SqlText source)] else [])
     @ (if protectedReasons \<noteq> [] then [SqlNot (SqlIn ''reason'' (map SqlText protectedReasons))] else [])"

definition mark_cleared :: "go_time \<Rightarrow> sql_expr list \<Rightarrow> cooldown_table \<Rightarrow> cooldown_table" where
  "mark_cleared now exprs tbl =
     map (\<lambda>r. if sql_where exprs r then r\<lparr>rc_ClearedAt := Some now, rc_UpdatedAt := now\<rparr> else r) tbl"

definition clearMatching ::
  "go_time \<Rightarrow> uuid \<Rightarrow> uuid option \<Rightarrow> uuid option \<Rightarrow> string \<Rightarrow> string list \<Rightarrow> cooldown_table \<Rightarrow> cooldown_table" where
  "clearMatching now siteID siteModelID siteCredentialID source protectedReasons tbl =
     mark_cleared now (clear_exprs siteID siteModelID siteCredentialID source protectedReasons) tbl"

definition default_scope :: "uuid option \<Rightarrow> uuid option \<Rightarrow> string" where
  "default_scope siteModelID siteCredentialID =
     (if siteCredentialID \<noteq> None then ''credential'' else if siteModelID = None then ''site'' else ''model'')"

definition activate_item :: "uuid \<Rightarrow> go_time \<Rightarrow> activate_params \<Rightarrow> route_cooldown" where
  "activate_item newID now params =
     (let siteModelID = nullUUIDFromAny (ap_SiteModelID params);
          siteCredentialID = nullUUIDFromAny (ap_SiteCredentialID params) in
      \<lparr>rc_ID = newID, rc_SiteID = ap_SiteID params, rc_SiteModelID = siteModelID,
       rc_SiteCredentialID = siteCredentialID,
       rc_Scope = (if ap_Scope params = [] then default_scope siteModelID siteCredentialID else ap_Scope params),
       rc_Source = (if ap_Source params = [] then ''manual'' else ap_Source params),
       rc_Reason = (if ap_Reason params = [] then ''cooldown'' else ap_Reason params),
       rc_ActiveUntil = (if ap_ActiveUntil params = 0 then now else ap_ActiveUntil params),
       rc_ClearedAt = None, rc_Metadata = jsonDefault (ap_Metadata params) ''{}'',
       rc_CreatedAt = now, rc_UpdatedAt = now\<rparr>)"

text \<open>\<open>clearErr\<close> and \<open>createErr\<close> say whether the two statements of the transaction fail; a failed
  transaction leaves the table as it was.\<close>

definition activate ::
  "uuid \<Rightarrow> go_time \<Rightarrow> string option \<Rightarrow> string option \<Rightarrow> activate_params \<Rightarrow> cooldown_table
     \<Rightarrow> cooldown_table \<times> (string + route_cooldown)" where
  "activate newID now clearErr createErr params tbl =
     (let item = activate_item newID now params;
          protectedReasons = (if rc_Reason item \<noteq> CooldownReasonUpstreamSubscriptionLimitExceeded
            then [CooldownReasonUpstreamSubscriptionLimitExceeded] else [])
      in case clearErr of
          Some e \<Rightarrow> (tbl, Inl (''clear existing route cooldowns: '' @ e))
        | None \<Rightarrow>
          (case createErr of
             Some e \<Rightarrow> (tbl, Inl (''activate route cooldown: '' @ e))
           | None \<Rightarrow>
             (clearMatching now (rc_SiteID item) (rc_SiteModelID item) (rc_SiteCredentialID item)
                (rc_Source item) protectedReasons tbl @ [item], Inr item)))"

definition count_exprs :: "count_params \<Rightarrow> sql_expr list" where
  "count_exprs params =
     [SqlEq ''site_id'' (SqlText (cp_SiteID params)), SqlGte ''created_at'' (SqlTime (cp_Since params)),
      nullableUUIDExpr ''site_model_id'' (cp_SiteModelID params),
      nullableUUIDExpr ''site_credential_id'' (cp_SiteCredentialID params)]
     @ (if cp_Source params \<noteq> [] then [SqlEq ''source'' (SqlText (cp_Source params))] else [])
     @ (if cp_Reasons params \<noteq> [] then [SqlIn ''reason'' (map SqlText (cp_Reasons params))] else [])"

definition countRecentActivations :: "count_params \<Rightarrow> cooldown_table \<Rightarrow> nat" where
  "countRecentActivations params tbl =
     (if cp_SiteID params = uuid_nil then 0 else length (filter (sql_where (count_exprs params)) tbl))"

definition clearActive ::
  "go_time \<Rightarrow> uuid \<Rightarrow> uuid_arg \<Rightarrow> uuid_arg \<Rightarrow> string \<Rightarrow> cooldown_table \<Rightarrow> cooldown_table" where
  "clearActive now siteID siteModelID siteCredentialID source tbl =
     clearMatching now siteID (nullUUIDFromAny siteModelID) (nullUUIDFromAny siteCredentialID) source [] tbl"

definition matching_exprs :: "clear_active_cooldown_filter \<Rightarrow> sql_expr list" where
  "matching_exprs flt =
     [SqlEq ''site_id'' (SqlText (cf_SiteID flt)), SqlEq ''cleared_at'' SqlNull]
     @ (case cf_SiteCredentialID flt of Some u \<Rightarrow> [SqlEq ''site_credential_id'' (SqlText u)] | None \<Rightarrow> [])
     @ (if cf_Reasons flt \<noteq> [] then [SqlIn ''reason'' (map SqlText (cf_Reasons flt))] else [])"

definition clearActiveMatching ::
  "go_time \<Rightarrow> clear_active_cooldown_filter \<Rightarrow> cooldown_table \<Rightarrow> cooldown_table \<times> nat" where
  "clearActiveMatching now flt tbl =
     (if cf_SiteID flt = uuid_nil then (tbl, 0)
      else (mark_cleared now (matching_exprs flt) tbl, length (filter (sql_where (matching_exprs flt)) tbl)))"

definition updateActiveUntil ::
  "go_time \<Rightarrow> uuid \<Rightarrow> go_time \<Rightarrow> string \<Rightarrow> cooldown_table \<Rightarrow> cooldown_table" where
  "updateActiveUntil now cooldownID activeUntil metadata tbl =
     (if cooldownID = uuid_nil \<or> activeUntil = 0 then tbl
      else map (\<lambda>r. if sql_where [SqlEq ''id'' (SqlText cooldownID), SqlEq ''cleared_at'' SqlNull] r
             then (if length metadata > 0 then r\<lparr>rc_Metadata := metadata\<rparr> else r)
                    \<lparr>rc_ActiveUntil := activeUntil, rc_UpdatedAt := now\<rparr>
             else r) tbl)"

text \<open>A struct condition of the query builder uses the fields that are not zero.\<close>

definition site_expr :: "uuid \<Rightarrow> sql_expr list" where
  "site_expr siteID = (if siteID = uuid_nil then [] else [SqlEq ''site_id'' (SqlText siteID)])"

definition deleteBySiteModel :: "uuid \<Rightarrow> uuid \<Rightarrow> cooldown_table \<Rightarrow> cooldown_table" where
  "deleteBySiteModel siteID siteModelID tbl =
     filter (\<lambda>r. \<not> sql_where (site_expr siteID @ [SqlEq ''site_model_id'' (SqlText siteModelID)]) r) tbl"

definition deleteBySiteCredential :: "uuid \<Rightarrow> uuid \<Rightarrow> cooldown_table \<Rightarrow> cooldown_table" where
  "deleteBySiteCredential siteID siteCredentialID tbl =
     filter (\<lambda>r. \<not> sql_where (site_expr siteID @ [SqlEq ''site_credential_id'' (SqlText siteCredentialID)]) r) tbl"

definition cooldown_before :: "route_cooldown \<Rightarrow> route_cooldown \<Rightarrow> bool" where
  "cooldown_before a b = (if rc_ActiveUntil a \<noteq> rc_ActiveUntil b then rc_ActiveUntil a > rc_ActiveUntil b
     else rc_CreatedAt a > rc_CreatedAt b)"

definition listActive :: "go_time \<Rightarrow> go_time \<Rightarrow> cooldown_table \<Rightarrow> cooldown_table" where
  "listActive clock now0 tbl =
     (let now = (if now0 = 0 then clock else now0);
          rows = filter (sql_where [SqlEq ''cleared_at'' SqlNull, SqlGt ''active_until'' (SqlTime now)]) tbl;
          items = filter (\<lambda>r. rc_ClearedAt r = None \<and> rc_ActiveUntil r > now) rows
      in stable_sort cooldown_before items)"

definition listActiveByCredential ::
  "go_time \<Rightarrow> uuid \<Rightarrow> uuid \<Rightarrow> string list \<Rightarrow> go_time \<Rightarrow> cooldown_table \<Rightarrow> cooldown_table" where
  "listActiveByCredential clock siteID siteCredentialID reasons now0 tbl =
     (if siteID = uuid_nil \<or> siteCredentialID = uuid_nil then []
      else let now = (if now0 = 0 then clock else now0) in
        filter (sql_where
          ([SqlEq ''site_id'' (SqlText siteID), SqlEq ''site_credential_id'' (SqlText siteCredentialID),
            SqlEq ''cleared_at'' SqlNull, SqlGt ''active_until'' (SqlTime now)]
           @ (if reasons \<noteq> [] then [SqlIn ''reason'' (map SqlText reasons)] else []))) tbl)"

section \<open>The queries in closed form\<close>

lemma text_or_null_simps [simp]:
  "text_or_null v = SqlNull \<longleftrightarrow> v = None" "text_or_null v = SqlText t \<longleftrightarrow> v = Some t"
  by (simp_all add: text_or_null_def split: option.split)

lemma eval_nullable [simp]:
  "sql_eval r (nullableUUIDExpr ''site_model_id'' v) = Some True \<longleftrightarrow> rc_SiteModelID r = v"
  "sql_eval r (nullableUUIDExpr ''site_credential_id'' v) = Some True \<longleftrightarrow> rc_SiteCredentialID r = v"
  by (auto simp: nullableUUIDExpr_def column_def split: option.split)

lemma where_clear:
  "sql_where (clear_exprs s m c src prot) r \<longleftrightarrow>
     rc_SiteID r = s \<and> rc_ClearedAt r = None \<and> rc_SiteModelID r = m \<and> rc_SiteCredentialID r = c
     \<and> (src = [] \<or> rc_Source r = src) \<and> (prot = [] \<or> rc_Reason r \<notin> set prot)"
  by (auto simp: sql_where_def clear_exprs_def column_def split: option.splits)

lemma where_matching:
  "sql_where (matching_exprs flt) r \<longleftrightarrow>
     rc_SiteID r = cf_SiteID flt \<and> rc_ClearedAt r = None
     \<and> (cf_SiteCredentialID flt = None \<or> rc_SiteCredentialID r = cf_SiteCredentialID flt)
     \<and> (cf_Reasons flt = [] \<or> rc_Reason r \<in> set (cf_Reasons flt))"
  by (auto simp: sql_where_def matching_exprs_def column_def split: option.splits)

lemma where_active:
  "sql_where [SqlEq ''cleared_at'' SqlNull, SqlGt ''active_until'' (SqlTime now)] r \<longleftrightarrow>
     rc_ClearedAt r = None \<and> rc_ActiveUntil r > now"
  by (auto simp: sql_where_def column_def split: option.splits)

interpretation cooldown_order: strict_weak_order cooldown_before
  by unfold_locales (auto simp: cooldown_before_def split: if_splits)

section \<open>What is active\<close>

definition is_active :: "go_time \<Rightarrow> route_cooldown \<Rightarrow> bool" where
  "is_active now r \<longleftrightarrow> rc_ClearedAt r = None \<and> rc_ActiveUntil r > now"

lemma listActive_eq:
  "listActive clock now tbl = stable_sort cooldown_before (filter (is_active (if now = 0 then clock else now)) tbl)"
  by (simp add: listActive_def where_active is_active_def[abs_def] Let_def conj_ac cong: conj_cong)

lemma set_listActive:
  "set (listActive clock now tbl) = {r \<in> set tbl. is_active (if now = 0 then clock else now) r}"
  by (auto simp: listActive_eq)

text \<open>The list of active cooldowns holds exactly the rows that are neither cleared nor expired,
  each as often as the table has it, the one that lasts longest first and among equals the most
  recent one first.\<close>

lemma list_active_exact:
  "mset (listActive clock now tbl) = mset (filter (is_active (if now = 0 then clock else now)) tbl)
   \<and> sorted_wrt (\<lambda>a b. rc_ActiveUntil a > rc_ActiveUntil b
        \<or> (rc_ActiveUntil a = rc_ActiveUntil b \<and> rc_CreatedAt a \<ge> rc_CreatedAt b)) (listActive clock now tbl)"
proof -
  have "sorted_wrt (\<lambda>a b. \<not> cooldown_before b a) (listActive clock now tbl)"
    unfolding listActive_eq by (rule cooldown_order.sorted_stable_sort)
  then have "sorted_wrt (\<lambda>a b. rc_ActiveUntil a > rc_ActiveUntil b
        \<or> (rc_ActiveUntil a = rc_ActiveUntil b \<and> rc_CreatedAt a \<ge> rc_CreatedAt b)) (listActive clock now tbl)"
    by (rule sorted_wrt_mono_rel[rotated]) (auto simp: cooldown_before_def split: if_splits)
  then show ?thesis by (simp add: listActive_eq)
qed

text \<open>The rows an activation replaces: same target and source, unless the row says that a subscription
  is exhausted and the new one does not.\<close>

definition same_target :: "route_cooldown \<Rightarrow> route_cooldown \<Rightarrow> bool" where
  "same_target a b \<longleftrightarrow> rc_SiteID a = rc_SiteID b \<and> rc_SiteModelID a = rc_SiteModelID b
     \<and> rc_SiteCredentialID a = rc_SiteCredentialID b \<and> rc_Source a = rc_Source b"

definition superseded_by :: "route_cooldown \<Rightarrow> route_cooldown \<Rightarrow> bool" where
  "superseded_by item r \<longleftrightarrow> same_target item r
     \<and> (rc_Reason r \<noteq> CooldownReasonUpstreamSubscriptionLimitExceeded
        \<or> rc_Reason item = CooldownReasonUpstreamSubscriptionLimitExceeded)"

lemma activate_item_source [simp]: "rc_Source (activate_item newID now params) \<noteq> []"
  by (simp add: activate_item_def Let_def)

lemma activate_item_open [simp]: "rc_ClearedAt (activate_item newID now params) = None"
  by (simp add: activate_item_def Let_def)

lemma activate_eq:
  "activate newID now None None params tbl =
     (let item = activate_item newID now params in
      (map (\<lambda>r. if rc_ClearedAt r = None \<and> superseded_by item r
                then r\<lparr>rc_ClearedAt := Some now, rc_UpdatedAt := now\<rparr> else r) tbl @ [item], Inr item))"
  by (auto simp: activate_def clearMatching_def mark_cleared_def where_clear superseded_by_def same_target_def Let_def)

text \<open>Activating a cooldown changes what is active in one way: the new cooldown is active while its
  time lasts, and of the cooldowns that were active it replaces those of the same site, model,
  credential and source; a cooldown for an exhausted subscription is replaced only by another one
  of that reason. Nothing else is lost or added.\<close>

lemma activate_changes_active:
  "set (listActive clock t (fst (activate newID now None None params tbl))) =
     {r \<in> set (listActive clock t tbl). \<not> superseded_by (activate_item newID now params) r}
     \<union> {r. r = activate_item newID now params \<and> is_active (if t = 0 then clock else t) r}"
  by (auto simp: activate_eq Let_def set_listActive is_active_def)

lemma activate_failed:
  "clearErr \<noteq> None \<or> createErr \<noteq> None \<Longrightarrow>
     fst (activate newID now clearErr createErr params tbl) = tbl \<and> isl (snd (activate newID now clearErr createErr params tbl))"
  by (auto simp: activate_def Let_def split: option.split)

section \<open>Runs of the repository\<close>

inductive cooldown_run :: "cooldown_table \<Rightarrow> bool" where
  run_empty: "cooldown_run []"
| run_activate: "cooldown_run tbl \<Longrightarrow> cooldown_run (fst (activate newID now clearErr createErr params tbl))"
| run_clear: "cooldown_run tbl \<Longrightarrow> cooldown_run (clearActive now siteID m c source tbl)"
| run_clear_matching: "cooldown_run tbl \<Longrightarrow> cooldown_run (fst (clearActiveMatching now flt tbl))"
| run_update: "cooldown_run tbl \<Longrightarrow> cooldown_run (updateActiveUntil now i t md tbl)"
| run_delete_model: "cooldown_run tbl \<Longrightarrow> cooldown_run (deleteBySiteModel siteID i tbl)"
| run_delete_credential: "cooldown_run tbl \<Longrightarrow> cooldown_run (deleteBySiteCredential siteID i tbl)"

definition open_rows :: "route_cooldown \<Rightarrow> bool \<Rightarrow> cooldown_table \<Rightarrow> cooldown_table" where
  "open_rows x exhausted tbl = filter (\<lambda>r. rc_ClearedAt r = None \<and> same_target x r
     \<and> (rc_Reason r = CooldownReasonUpstreamSubscriptionLimitExceeded) = exhausted) tbl"

text \<open>An update row by row that opens no row and keeps target and reason opens no second row.\<close>

lemma open_rows_map:
  assumes "\<And>r. rc_ClearedAt (f r) = None \<Longrightarrow> rc_ClearedAt r = None"
    and "\<And>r. rc_SiteID (f r) = rc_SiteID r \<and> rc_SiteModelID (f r) = rc_SiteModelID r
       \<and> rc_SiteCredentialID (f r) = rc_SiteCredentialID r \<and> rc_Source (f r) = rc_Source r \<and> rc_Reason (f r) = rc_Reason r"
  shows "length (open_rows x b (map f tbl)) \<le> length (open_rows x b tbl)"
proof (induction tbl)
  case Nil
  then show ?case by (simp add: open_rows_def)
next
  case (Cons r tbl)
  then show ?case using assms(1)[of r] assms(2)[of r] by (auto simp: open_rows_def same_target_def)
qed

lemma open_rows_mark: "length (open_rows x b (mark_cleared now exprs tbl)) \<le> length (open_rows x b tbl)"
  unfolding mark_cleared_def by (rule open_rows_map) (auto split: if_splits)

lemma open_rows_filter: "length (open_rows x b (filter P tbl)) \<le> length (open_rows x b tbl)"
  by (induction tbl) (auto simp: open_rows_def)

lemma open_rows_update: "length (open_rows x b (updateActiveUntil now i t md tbl)) \<le> length (open_rows x b tbl)"
  unfolding updateActiveUntil_def by (auto intro!: open_rows_map split: if_splits)

lemma open_rows_activate:
  assumes "length (open_rows x b tbl) \<le> 1"
  shows "length (open_rows x b (fst (activate newID now None None params tbl))) \<le> 1"
proof -
  let ?item = "activate_item newID now params"
  let ?f = "\<lambda>r. if rc_ClearedAt r = None \<and> superseded_by ?item r
                then r\<lparr>rc_ClearedAt := Some now, rc_UpdatedAt := now\<rparr> else r"
  have split: "open_rows x b (fst (activate newID now None None params tbl)) =
      open_rows x b (map ?f tbl) @ open_rows x b [?item]"
    by (simp add: activate_eq Let_def open_rows_def)
  show ?thesis
  proof (cases "open_rows x b [?item] = []")
    case True
    have "length (open_rows x b (map ?f tbl)) \<le> length (open_rows x b tbl)"
      by (rule open_rows_map) (auto split: if_splits)
    with True split assms show ?thesis by simp
  next
    case False
    then have item: "same_target x ?item"
      "(rc_Reason ?item = CooldownReasonUpstreamSubscriptionLimitExceeded) = b"
      by (auto simp: open_rows_def split: if_splits)
    have "open_rows x b (map ?f tbl) = []"
      using item by (auto simp: open_rows_def filter_empty_conv superseded_by_def same_target_def split: if_splits)
    with split show ?thesis by (simp add: open_rows_def)
  qed
qed

text \<open>C30. Cooldowns do not pile up: whatever sequence of activations (failed ones included), clearances,
  updates and deletions ran, a site, model, credential and source have at most one uncleared
  cooldown for an exhausted subscription and at most one uncleared cooldown of any other reason.\<close>

theorem one_open_cooldown_per_target:
  assumes "cooldown_run tbl"
  shows "length (open_rows x exhausted tbl) \<le> 1"
  using assms
proof induction
  case run_empty
  then show ?case by (simp add: open_rows_def)
next
  case (run_activate tbl newID now clearErr createErr params)
  then show ?case
    using open_rows_activate activate_failed[of clearErr createErr]
    by (cases "clearErr = None \<and> createErr = None") auto
next
  case (run_clear tbl now siteID m c source)
  then show ?case unfolding clearActive_def clearMatching_def by (blast intro: le_trans open_rows_mark)
next
  case (run_clear_matching tbl now flt)
  then show ?case unfolding clearActiveMatching_def by (auto intro: le_trans open_rows_mark)
next
  case (run_update tbl now i t md)
  then show ?case by (blast intro: le_trans open_rows_update)
next
  case (run_delete_model tbl siteID i)
  then show ?case unfolding deleteBySiteModel_def by (blast intro: le_trans open_rows_filter)
next
  case (run_delete_credential tbl siteID i)
  then show ?case unfolding deleteBySiteCredential_def by (blast intro: le_trans open_rows_filter)
qed

definition demo_params :: activate_params where
  "demo_params = \<lparr>ap_SiteID = ''s1'', ap_SiteModelID = UuidArg ''m1'', ap_SiteCredentialID = NoArg, ap_Scope = [],
     ap_Source = ''gateway'', ap_Reason = ''upstream_rate_limited'', ap_ActiveUntil = seconds 100, ap_Metadata = []\<rparr>"

definition demo_table :: cooldown_table where
  "demo_table = fst (activate ''c2'' (seconds 20) None None demo_params
     (fst (activate ''c1'' (seconds 10) None None demo_params [])))"

theorem one_open_cooldown_per_target_witness:
  "length (open_rows (activate_item ''c2'' (seconds 20) demo_params) False demo_table) \<le> 1 \<and> length demo_table = 2"
proof
  have "cooldown_run demo_table"
    unfolding demo_table_def by (intro cooldown_run.intros)
  then show "length (open_rows (activate_item ''c2'' (seconds 20) demo_params) False demo_table) \<le> 1"
    by (rule one_open_cooldown_per_target)
  show "length demo_table = 2" by (simp add: demo_table_def activate_eq Let_def)
qed

lemma mark_changes:
  "rc_ClearedAt r = None \<Longrightarrow> r \<noteq> r\<lparr>rc_ClearedAt := Some now, rc_UpdatedAt := now\<rparr>"
  by (metis option.distinct(1) route_cooldown.select_convs(9) route_cooldown.surjective route_cooldown.update_convs(9,12))

text \<open>Quota recovery lifts quota cooldowns only: clearing with the Codex quota reasons leaves every
  other cooldown as it was and reports the number of rows it cleared.\<close>

lemma quota_recovery_clears_only_quota:
  assumes "cf_Reasons flt = CodexQuotaCooldownReasons" and "clearActiveMatching now flt tbl = (tbl', n)"
  shows "length tbl' = length tbl \<and> n = length (filter (\<lambda>(r, r'). r \<noteq> r') (zip tbl tbl'))
    \<and> list_all2 (\<lambda>r r'. r' = r \<or> rc_Reason r = ''codex_usage_limit_reached'' \<and> rc_SiteID r = cf_SiteID flt
         \<and> rc_ClearedAt r = None \<and> rc_ClearedAt r' = Some now) tbl tbl'"
proof (cases "cf_SiteID flt = uuid_nil")
  case True
  then show ?thesis using assms by (auto simp: clearActiveMatching_def list_all2_refl zip_same_conv_map filter_empty_conv)
next
  case False
  have n: "n = length (filter (sql_where (matching_exprs flt)) tbl)"
    and t: "tbl' = mark_cleared now (matching_exprs flt) tbl"
    using assms(2) False by (auto simp: clearActiveMatching_def)
  have count: "length (filter (\<lambda>(r, r'). r \<noteq> r') (zip tbl (mark_cleared now es tbl))) = length (filter (sql_where es) tbl)"
    if "\<And>r. sql_where es r \<Longrightarrow> rc_ClearedAt r = None" for es
    by (induction tbl) (auto simp: mark_cleared_def mark_changes dest: that)
  have "n = length (filter (\<lambda>(r, r'). r \<noteq> r') (zip tbl tbl'))"
    unfolding n t by (rule count[symmetric]) (simp add: where_matching)
  then show ?thesis
    unfolding t using assms(1) by (auto simp: mark_cleared_def list_all2_conv_all_nth where_matching
        CodexQuotaCooldownReasons_def CooldownReasonCodexUsageLimitReached_def)
qed

end
