(* ===== verification/Router.thy ===== *)
theory Router
  imports Gateway_Config Model_Key Route_Cooldown
begin

text \<open>
  Route selection, \<open>server/internal/router/service.go\<close>: from the rows that offer a model to the ranked
  list of candidates, the selected candidate and its failover plan, and the cooldown commands.

  The catalogue and candidate queries are parameters (\<open>getByKey\<close>, \<open>getByAlias\<close>, \<open>listRows\<close>); the cooldown
  table is that of \<open>Route_Cooldown\<close>, or the error its query returned.
\<close>

section \<open>Data\<close>

record candidate_query =
  cq_ModelKey :: string
  cq_EndpointType :: string
  cq_ImageGeneration :: bool
  cq_Debug :: bool
  cq_AllowedSiteIDs :: "uuid list"
  cq_AllowedSiteModelIDs :: "uuid list"
  cq_ExcludeSiteIDs :: "uuid list"
  cq_ExcludeSiteModelIDs :: "uuid list"
  cq_Limit :: int
  cq_FailoverLimit :: int

text \<open>The canonical model and the candidate row, with the columns the router reads.\<close>

record canonical_model =
  cm_ID :: uuid
  cm_ModelKey :: string

record candidate_row =
  row_SiteID :: uuid
  row_SiteName :: string
  row_SiteSlug :: string
  row_SiteType :: string
  row_SiteBaseURL :: string
  row_SiteStatus :: string
  row_SiteEnabled :: bool
  row_SiteRoutingPriority :: float64
  row_SiteMeta :: json_raw
  row_SiteModelID :: uuid
  row_UpstreamModelName :: string
  row_SiteModelDisplayName :: string
  row_SiteModelStatus :: string
  row_MatchSource :: string
  row_MatchConfidence :: int
  row_SiteHealthStatus :: string
  row_SiteHealthSuccessRate :: "float64 option"
  row_SiteHealthAvgLatencyMS :: "int option"
  row_SiteHealthFailures :: int
  row_ModelSuccessRate :: "float64 option"
  row_ModelAvgLatencyMS :: "int option"
  row_ModelRequestCount :: int
  row_ModelAPIKeyCount :: int
  row_ModelAvailableKeyCount :: int
  row_SiteCredentialCount :: int
  row_PreferredCredentialID :: "uuid option"
  row_PreferredCredentialName :: "string option"
  row_PreferredCredentialRoutingPriority :: float64
  row_PreferredCredentialCostMultiplier :: float64
  row_PreferredCredentialGroupName :: "string option"
  row_PreferredCredentialCacheDomain :: string
  row_PricingGroupName :: "string option"
  row_PricingCurrency :: "string option"
  row_PricingInputValue :: "float64 option"
  row_PricingOutputValue :: "float64 option"
  row_PricingImageRatio :: "float64 option"
  row_PricingPerRequestValue :: "float64 option"
  row_PricingBillingType :: "string option"
  row_PricingQuotaType :: "int option"
  row_PricingVariants :: json_raw
  row_SupportedEndpointTypes :: "string list"

record candidate_site =
  cs_ID :: uuid
  cs_Name :: string
  cs_Slug :: string
  cs_SiteType :: string
  cs_BaseURL :: string
  cs_RoutingPriority :: float64
  cs_ResponsesToolPolicy :: string
  cs_DisabledResponsesTools :: "string list option"
  cs_ErrorClassifierPlugin :: string

record candidate_model =
  cmo_SiteModelID :: uuid
  cmo_UpstreamName :: string
  cmo_DisplayName :: string
  cmo_MatchSource :: string
  cmo_MatchConfidence :: int
  cmo_SupportedEndpointTypes :: "string list"
  cmo_PricingVariants :: json_raw

record candidate_health =
  ch_Status :: string
  ch_RecentSuccessRate :: "float64 option"
  ch_RecentAvgLatencyMS :: "int option"
  ch_ConsecutiveFailures :: int
  ch_ModelSuccessRate :: "float64 option"
  ch_ModelAvgLatencyMS :: "int option"
  ch_ModelRequestCount :: int

record candidate_availability =
  cav_AvailableAPIKeys :: int
  cav_TotalAPIKeys :: int

record candidate_credential =
  cc_ID :: "uuid option"
  cc_Name :: string
  cc_RoutingPriority :: float64
  cc_GroupName :: "string option"
  cc_CacheDomain :: string
  cc_UpstreamCostMultiplier :: float64

record candidate_pricing =
  cpr_GroupName :: "string option"
  cpr_Currency :: "string option"
  cpr_BaseInputValue :: "float64 option"
  cpr_BaseOutputValue :: "float64 option"
  cpr_BasePerRequestValue :: "float64 option"
  cpr_InputValue :: "float64 option"
  cpr_OutputValue :: "float64 option"
  cpr_ImageRatio :: "float64 option"
  cpr_PerRequestValue :: "float64 option"
  cpr_BillingType :: "string option"
  cpr_QuotaType :: "int option"
  cpr_UpstreamCostMultiplier :: float64

record candidate =
  cand_Rank :: int
  cand_Score :: float64
  cand_Cooling :: bool
  cand_CoolingReason :: string
  cand_Site :: candidate_site
  cand_Model :: candidate_model
  cand_Health :: candidate_health
  cand_Availability :: candidate_availability
  cand_Credential :: candidate_credential
  cand_Pricing :: candidate_pricing
  cand_ScoreBreakdown :: "(string \<times> float64) list option"

record candidate_list =
  cl_CanonicalModel :: canonical_model
  cl_Items :: "candidate list"

record selection =
  sel_CanonicalModel :: canonical_model
  sel_Candidate :: candidate

record selection_plan =
  plan_CanonicalModel :: canonical_model
  plan_Selected :: candidate
  plan_Failover :: "candidate list"

record cooldown_input =
  coi_SiteID :: uuid
  coi_SiteModelID :: "uuid option"
  coi_SiteCredentialID :: "uuid option"
  coi_Scope :: string
  coi_Source :: string
  coi_Reason :: string
  coi_Duration :: duration
  coi_Metadata :: "obj option"

datatype route_error =
    ModelKeyRequired
  | StoreError string
  | CanonicalNotFound string
  | NoRouteCandidates

section \<open>Endpoint families\<close>

definition isMiMoV25TTSRouteModel :: "string \<Rightarrow> bool" where
  "isMiMoV25TTSRouteModel model \<longleftrightarrow> to_lower (trim_space model) \<in>
     {''mimo-v2.5-tts'', ''mimo-v2.5-tts-voicedesign'', ''mimo-v2.5-tts-voiceclone''}"

definition endpointTypeFamily :: "string \<Rightarrow> string" where
  "endpointTypeFamily endpointType =
     (if endpointType \<in> {''openai'', ''openai-response'', ''anthropic-messages'', ''google-gemini''} then ''text''
      else if endpointType = ''openai-image'' then ''image''
      else if endpointType = ''openai-embedding'' then ''embedding''
      else if endpointType = ''openai-audio-speech'' then ''audio-speech''
      else if endpointType \<in> {''systemone'', ''typesafe-systemone''} then ''systemone''
      else [])"

definition endpointTypeSameFamily :: "string \<Rightarrow> string \<Rightarrow> bool" where
  "endpointTypeSameFamily a b \<longleftrightarrow> endpointTypeFamily a \<noteq> [] \<and> endpointTypeFamily a = endpointTypeFamily b"

definition routeCandidateSupportsEndpoint :: "candidate_row \<Rightarrow> string \<Rightarrow> bool" where
  "routeCandidateSupportsEndpoint row endpointType0 =
     (let endpointType = trim_space (to_lower endpointType0) in
      if endpointType = [] then True
      else if endpointType = ''gemini-image'' then
        list_ex (\<lambda>item. let supported = trim_space (to_lower item)
                        in supported = ''google-gemini'' \<or> supported = ''openai-image'') (row_SupportedEndpointTypes row)
      else if isMiMoV25TTSRouteModel (row_UpstreamModelName row) then
        endpointType = ''openai'' \<or> endpointType = ''openai-audio-speech''
      else list_ex (\<lambda>item. endpointTypeSameFamily endpointType (trim_space (to_lower item)))
             (row_SupportedEndpointTypes row))"

section \<open>Site settings\<close>

definition siteGatewayConfig :: "json_raw \<Rightarrow> gateway_config option" where
  "siteGatewayConfig meta = GatewayConfigFromSiteMeta meta"

definition siteResponsesToolPolicy :: "json_raw \<Rightarrow> string" where
  "siteResponsesToolPolicy meta = (case GatewayConfigFromSiteMeta meta of
      None \<Rightarrow> ResponsesToolPolicyPassthrough
    | Some cfg \<Rightarrow> NormalizeResponsesToolPolicy (gc_ResponsesToolPolicy cfg))"

definition siteDisabledResponsesTools :: "json_raw \<Rightarrow> string list option" where
  "siteDisabledResponsesTools meta = (case GatewayConfigFromSiteMeta meta of
      None \<Rightarrow> None
    | Some cfg \<Rightarrow> NormalizeDisabledResponsesTools (gc_DisabledResponsesTools cfg))"

section \<open>Cooldown index\<close>

record cooldown_index =
  ix_sites :: "uuid \<rightharpoonup> route_cooldown"
  ix_models :: "uuid \<rightharpoonup> route_cooldown"
  ix_transientModels :: "uuid \<rightharpoonup> route_cooldown"
  ix_siteCredentialCounts :: "uuid \<Rightarrow> int"
  ix_modelCredentialCounts :: "uuid \<Rightarrow> int"

definition index_cooldown :: "route_cooldown \<Rightarrow> cooldown_index \<Rightarrow> cooldown_index" where
  "index_cooldown item ix =
     (if rc_SiteCredentialID item \<noteq> None then
        (case rc_SiteModelID item of
           Some m \<Rightarrow> ix\<lparr>ix_modelCredentialCounts :=
             (ix_modelCredentialCounts ix)(m := ix_modelCredentialCounts ix m + 1)\<rparr>
         | None \<Rightarrow> ix\<lparr>ix_siteCredentialCounts :=
             (ix_siteCredentialCounts ix)(rc_SiteID item := ix_siteCredentialCounts ix (rc_SiteID item) + 1)\<rparr>)
      else (case rc_SiteModelID item of
           Some m \<Rightarrow> if TransientRouteCooldown item
             then ix\<lparr>ix_transientModels := (ix_transientModels ix)(m \<mapsto> item)\<rparr>
             else ix\<lparr>ix_models := (ix_models ix)(m \<mapsto> item)\<rparr>
         | None \<Rightarrow> ix\<lparr>ix_sites := (ix_sites ix)(rc_SiteID item \<mapsto> item)\<rparr>))"

definition empty_index :: cooldown_index where
  "empty_index = \<lparr>ix_sites = Map.empty, ix_models = Map.empty, ix_transientModels = Map.empty,
     ix_siteCredentialCounts = (\<lambda>_. 0), ix_modelCredentialCounts = (\<lambda>_. 0)\<rparr>"

definition indexCooldowns :: "route_cooldown list \<Rightarrow> cooldown_index" where
  "indexCooldowns items = fold index_cooldown items empty_index"

text \<open>A nil set is different from an empty one: it allows everything.\<close>

definition uuidSet :: "uuid list \<Rightarrow> uuid set option" where
  "uuidSet items = (if items = [] then None else Some (set items))"

section \<open>Scores\<close>

definition healthScore :: "string \<Rightarrow> float64" where
  "healthScore status = (if status = ''healthy'' then 40 else if status = ''degraded'' then 22
     else if status = ''unknown'' then 12 else 0)"

definition successRateScore :: "float64 option \<Rightarrow> float64 \<Rightarrow> float64" where
  "successRateScore rate maxScore = (case rate of None \<Rightarrow> 0 | Some r \<Rightarrow> r * maxScore)"

definition latencyScore :: "int option \<Rightarrow> float64 \<Rightarrow> float64" where
  "latencyScore latency maxScore = (case latency of None \<Rightarrow> 0
     | Some l \<Rightarrow> if l \<le> 500 then maxScore
         else if l \<le> 1500 then maxScore * (6 / 10)
         else if l \<le> 3000 then maxScore * (1 / 4)
         else 0)"

definition candidatePriceValue :: "candidate \<Rightarrow> float64 option" where
  "candidatePriceValue item =
     (let p = cand_Pricing item in
      case cpr_PerRequestValue p of
        Some v \<Rightarrow> Some v
      | None \<Rightarrow> (case (cpr_InputValue p, cpr_OutputValue p) of
            (None, None) \<Rightarrow> None
          | (Some i, None) \<Rightarrow> Some (0 + i)
          | (None, Some out) \<Rightarrow> Some (0 + out)
          | (Some i, Some out) \<Rightarrow> Some (0 + i + out)))"

definition priceScore :: "candidate \<Rightarrow> float64 \<Rightarrow> float64 \<Rightarrow> float64" where
  "priceScore item minPrice maxPrice = (case candidatePriceValue item of
      None \<Rightarrow> 2
    | Some value \<Rightarrow> if maxPrice \<le> minPrice then 10
        else 10 * ((maxPrice - value) / (maxPrice - minPrice)))"

definition score_breakdown :: "candidate \<Rightarrow> float64 \<Rightarrow> float64 \<Rightarrow> (string \<times> float64) list" where
  "score_breakdown item minPrice maxPrice =
     [(''site_health'', healthScore (ch_Status (cand_Health item))),
      (''site_success_rate'', successRateScore (ch_RecentSuccessRate (cand_Health item)) 10),
      (''site_latency'', latencyScore (ch_RecentAvgLatencyMS (cand_Health item)) 5),
      (''model_success_rate'', successRateScore (ch_ModelSuccessRate (cand_Health item)) 30),
      (''model_latency'', latencyScore (ch_ModelAvgLatencyMS (cand_Health item)) 15),
      (''api_key_capacity'', of_int (min (cav_AvailableAPIKeys (cand_Availability item)) 5) * 3),
      (''price'', priceScore item minPrice maxPrice)]"

definition scoreCandidate :: "candidate \<Rightarrow> float64 \<Rightarrow> float64 \<Rightarrow> float64 \<times> (string \<times> float64) list" where
  "scoreCandidate item minPrice maxPrice =
     (let breakdown = score_breakdown item minPrice maxPrice in (sum_list (map snd breakdown), breakdown))"

section \<open>Candidates\<close>

definition available_keys :: "candidate_row \<Rightarrow> int" where
  "available_keys row = (if row_SiteType row \<noteq> ''newapi'' \<and> row_ModelAPIKeyCount row = 0
     then row_SiteCredentialCount row else row_ModelAvailableKeyCount row)"

definition total_keys :: "candidate_row \<Rightarrow> int" where
  "total_keys row = (if row_SiteType row \<noteq> ''newapi'' \<and> row_ModelAPIKeyCount row = 0
     then row_SiteCredentialCount row else row_ModelAPIKeyCount row)"

text \<open>The conditions of the loop, in its order; a row that fails one is skipped.\<close>

definition row_eligible :: "candidate_query \<Rightarrow> cooldown_index \<Rightarrow> candidate_row \<Rightarrow> bool" where
  "row_eligible query ix row =
     (if \<not> row_SiteEnabled row \<or> row_SiteStatus row \<noteq> ''active'' then False
      else if row_SiteModelStatus row \<noteq> ''active'' then False
      else if \<not> routeCandidateSupportsEndpoint row (cq_EndpointType query) then False
      else if cq_ImageGeneration query \<and>
          ResponsesToolDisabled (siteGatewayConfig (row_SiteMeta row)) ResponsesHostedToolImageGeneration then False
      else if available_keys row \<le> 0 then False
      else if (case uuidSet (cq_AllowedSiteIDs query) of None \<Rightarrow> False | Some S \<Rightarrow> row_SiteID row \<notin> S) then False
      else if (case uuidSet (cq_AllowedSiteModelIDs query) of None \<Rightarrow> False | Some S \<Rightarrow> row_SiteModelID row \<notin> S) then False
      else if (case uuidSet (cq_ExcludeSiteIDs query) of None \<Rightarrow> False | Some S \<Rightarrow> row_SiteID row \<in> S) then False
      else if (case uuidSet (cq_ExcludeSiteModelIDs query) of None \<Rightarrow> False | Some S \<Rightarrow> row_SiteModelID row \<in> S) then False
      else if ix_sites ix (row_SiteID row) \<noteq> None then False
      else if ix_models ix (row_SiteModelID row) \<noteq> None then False
      else True)"

definition multipliedFloat :: "float64 option \<Rightarrow> float64 \<Rightarrow> float64 option" where
  "multipliedFloat value multiplier = map_option (\<lambda>v. v * multiplier) value"

definition row_candidate :: "cooldown_index \<Rightarrow> candidate_row \<Rightarrow> candidate" where
  "row_candidate ix row =
     (let transient = ix_transientModels ix (row_SiteModelID row);
          costMultiplier = (if row_PreferredCredentialCostMultiplier row \<le> 0 then 1
                            else row_PreferredCredentialCostMultiplier row) in
      \<lparr>cand_Rank = 0, cand_Score = 0, cand_Cooling = (transient \<noteq> None),
       cand_CoolingReason = (case transient of None \<Rightarrow> [] | Some item \<Rightarrow> rc_Reason item),
       cand_Site = \<lparr>cs_ID = row_SiteID row, cs_Name = row_SiteName row, cs_Slug = row_SiteSlug row,
         cs_SiteType = row_SiteType row, cs_BaseURL = row_SiteBaseURL row,
         cs_RoutingPriority = row_SiteRoutingPriority row,
         cs_ResponsesToolPolicy = siteResponsesToolPolicy (row_SiteMeta row),
         cs_DisabledResponsesTools = siteDisabledResponsesTools (row_SiteMeta row),
         cs_ErrorClassifierPlugin = SitePluginID (siteGatewayConfig (row_SiteMeta row)) ''error_classifier''\<rparr>,
       cand_Model = \<lparr>cmo_SiteModelID = row_SiteModelID row, cmo_UpstreamName = row_UpstreamModelName row,
         cmo_DisplayName = row_SiteModelDisplayName row, cmo_MatchSource = row_MatchSource row,
         cmo_MatchConfidence = row_MatchConfidence row,
         cmo_SupportedEndpointTypes = row_SupportedEndpointTypes row, cmo_PricingVariants = row_PricingVariants row\<rparr>,
       cand_Health = \<lparr>ch_Status = row_SiteHealthStatus row, ch_RecentSuccessRate = row_SiteHealthSuccessRate row,
         ch_RecentAvgLatencyMS = row_SiteHealthAvgLatencyMS row, ch_ConsecutiveFailures = row_SiteHealthFailures row,
         ch_ModelSuccessRate = row_ModelSuccessRate row, ch_ModelAvgLatencyMS = row_ModelAvgLatencyMS row,
         ch_ModelRequestCount = row_ModelRequestCount row\<rparr>,
       cand_Availability = \<lparr>cav_AvailableAPIKeys = available_keys row, cav_TotalAPIKeys = total_keys row\<rparr>,
       cand_Credential = \<lparr>cc_ID = row_PreferredCredentialID row,
         cc_Name = (case row_PreferredCredentialName row of None \<Rightarrow> [] | Some n \<Rightarrow> n),
         cc_RoutingPriority = row_PreferredCredentialRoutingPriority row,
         cc_GroupName = row_PreferredCredentialGroupName row,
         cc_CacheDomain = row_PreferredCredentialCacheDomain row, cc_UpstreamCostMultiplier = costMultiplier\<rparr>,
       cand_Pricing = \<lparr>cpr_GroupName = row_PricingGroupName row, cpr_Currency = row_PricingCurrency row,
         cpr_BaseInputValue = row_PricingInputValue row, cpr_BaseOutputValue = row_PricingOutputValue row,
         cpr_BasePerRequestValue = row_PricingPerRequestValue row,
         cpr_InputValue = multipliedFloat (row_PricingInputValue row) costMultiplier,
         cpr_OutputValue = multipliedFloat (row_PricingOutputValue row) costMultiplier,
         cpr_ImageRatio = row_PricingImageRatio row,
         cpr_PerRequestValue = multipliedFloat (row_PricingPerRequestValue row) costMultiplier,
         cpr_BillingType = row_PricingBillingType row, cpr_QuotaType = row_PricingQuotaType row,
         cpr_UpstreamCostMultiplier = costMultiplier\<rparr>,
       cand_ScoreBreakdown = None\<rparr>)"

definition price_values :: "candidate list \<Rightarrow> float64 list" where
  "price_values cands = List.map_filter candidatePriceValue cands"

definition price_range :: "candidate list \<Rightarrow> float64 \<times> float64" where
  "price_range cands = (case price_values cands of
      [] \<Rightarrow> (0, 0)
    | v # vs \<Rightarrow> fold (\<lambda>value (lo, hi). (if value < lo then value else lo, if value > hi then value else hi)) vs (v, v))"

definition score_all :: "bool \<Rightarrow> candidate list \<Rightarrow> candidate list" where
  "score_all debug cands =
     (let (minPrice, maxPrice) = price_range cands in
      map (\<lambda>c. let (score, breakdown) = scoreCandidate c minPrice maxPrice in
             c\<lparr>cand_Score := score, cand_ScoreBreakdown := (if debug then Some breakdown else cand_ScoreBreakdown c)\<rparr>) cands)"

definition candidate_before :: "candidate \<Rightarrow> candidate \<Rightarrow> bool" where
  "candidate_before a b =
     (if cand_Cooling a \<noteq> cand_Cooling b then \<not> cand_Cooling a
      else if cs_RoutingPriority (cand_Site a) \<noteq> cs_RoutingPriority (cand_Site b)
        then cs_RoutingPriority (cand_Site a) > cs_RoutingPriority (cand_Site b)
      else if cand_Score a = cand_Score b then cs_Name (cand_Site a) < cs_Name (cand_Site b)
      else cand_Score a > cand_Score b)"

definition rank_all :: "candidate list \<Rightarrow> candidate list" where
  "rank_all cands = map (\<lambda>(i, c). c\<lparr>cand_Rank := int i + 1\<rparr>) (enumerate 0 cands)"

definition resolveCanonicalModel ::
  "(string \<Rightarrow> canonical_model fetch) \<Rightarrow> (string \<Rightarrow> canonical_model fetch) \<Rightarrow> string
     \<Rightarrow> route_error + canonical_model" where
  "resolveCanonicalModel getByKey getByAlias modelKey =
     (let n = CanonicalModelKeyFromUpstream modelKey;
          normalized = (if n = [] then NormalizeModelKey modelKey else n) in
      case getByKey normalized of
        Found c \<Rightarrow> Inr c
      | DbError e \<Rightarrow> Inl (StoreError e)
      | RecordNotFound \<Rightarrow>
          (case getByAlias normalized of Found c \<Rightarrow> Inr c | _ \<Rightarrow> Inl (CanonicalNotFound modelKey)))"

text \<open>The database of the router: the two catalogue queries, the candidate rows of a canonical model, and
  the cooldown table.\<close>

record route_db =
  db_getByKey :: "string \<Rightarrow> canonical_model fetch"
  db_getByAlias :: "string \<Rightarrow> canonical_model fetch"
  db_listRows :: "uuid \<Rightarrow> string + candidate_row list"
  db_cooldowns :: "string + cooldown_table"

definition rank_rows :: "candidate_query \<Rightarrow> cooldown_index \<Rightarrow> candidate_row list \<Rightarrow> candidate list" where
  "rank_rows query ix rows =
     rank_all (stable_sort candidate_before
       (score_all (cq_Debug query) (map (row_candidate ix) (filter (row_eligible query ix) rows))))"

definition limit_items :: "int \<Rightarrow> 'a list \<Rightarrow> 'a list" where
  "limit_items limit items = (if limit > 0 \<and> int (length items) > limit then take (nat limit) items else items)"

definition candidates :: "route_db \<Rightarrow> go_time \<Rightarrow> candidate_query \<Rightarrow> route_error + candidate_list" where
  "candidates db now query =
     (let modelKey = trim_space (cq_ModelKey query) in
      if modelKey = [] then Inl ModelKeyRequired
      else case resolveCanonicalModel (db_getByKey db) (db_getByAlias db) modelKey of
          Inl e \<Rightarrow> Inl e
        | Inr canonicalModel \<Rightarrow>
          (case db_listRows db (cm_ID canonicalModel) of
             Inl e \<Rightarrow> Inl (StoreError e)
           | Inr rows \<Rightarrow>
             (case db_cooldowns db of
                Inl e \<Rightarrow> Inl (StoreError e)
              | Inr tbl \<Rightarrow>
                Inr \<lparr>cl_CanonicalModel = canonicalModel,
                     cl_Items = limit_items (cq_Limit query)
                       (rank_rows query (indexCooldowns (listActive now now tbl)) rows)\<rparr>)))"

definition select :: "route_db \<Rightarrow> go_time \<Rightarrow> candidate_query \<Rightarrow> route_error + selection" where
  "select db now query = (case candidates db now query of
      Inl e \<Rightarrow> Inl e
    | Inr result \<Rightarrow> (case cl_Items result of
          [] \<Rightarrow> Inl NoRouteCandidates
        | c # cs \<Rightarrow> Inr \<lparr>sel_CanonicalModel = cl_CanonicalModel result, sel_Candidate = c\<rparr>))"

fun collect_failover :: "int \<Rightarrow> candidate list \<Rightarrow> candidate list \<Rightarrow> candidate list" where
  "collect_failover limit failover [] = failover"
| "collect_failover limit failover (item # items) =
     (if int (length failover) \<ge> limit then failover
      else collect_failover limit (failover @ [item]) items)"

definition plan :: "route_db \<Rightarrow> go_time \<Rightarrow> candidate_query \<Rightarrow> route_error + selection_plan" where
  "plan db now query = (case candidates db now query of
      Inl e \<Rightarrow> Inl e
    | Inr result \<Rightarrow> (case cl_Items result of
          [] \<Rightarrow> Inl NoRouteCandidates
        | c # cs \<Rightarrow>
            (let failoverLimit = (if cq_FailoverLimit query \<le> 0 then 3 else cq_FailoverLimit query)
             in Inr \<lparr>plan_CanonicalModel = cl_CanonicalModel result, plan_Selected = c,
                     plan_Failover = collect_failover failoverLimit [] cs\<rparr>)))"

section \<open>Cooldown commands\<close>

definition activeCooldowns :: "go_time \<Rightarrow> cooldown_table \<Rightarrow> cooldown_table" where
  "activeCooldowns now tbl = listActive now now tbl"

definition activate_request :: "(float64 \<Rightarrow> string) \<Rightarrow> go_time \<Rightarrow> cooldown_input \<Rightarrow> activate_params" where
  "activate_request fmt now input =
     (let scope = trim_space (coi_Scope input); source = trim_space (coi_Source input);
          reason = trim_space (coi_Reason input) in
      \<lparr>ap_SiteID = coi_SiteID input,
       ap_SiteModelID = (case coi_SiteModelID input of None \<Rightarrow> NoArg | Some m \<Rightarrow> UuidArg m),
       ap_SiteCredentialID = (case coi_SiteCredentialID input of None \<Rightarrow> NoArg | Some m \<Rightarrow> UuidArg m),
       ap_Scope = (if scope = [] then (if coi_SiteModelID input \<noteq> None then ''model'' else ''site'') else scope),
       ap_Source = (if source = [] then ''manual'' else source),
       ap_Reason = (if reason = [] then ''cooldown'' else reason),
       ap_ActiveUntil = now + (if coi_Duration input \<le> 0 then minutes 5 else coi_Duration input),
       ap_Metadata = (case coi_Metadata input of None \<Rightarrow> ''null''
         | Some m \<Rightarrow> (case json_encode fmt (AObj m) of None \<Rightarrow> [] | Some t \<Rightarrow> t))\<rparr>)"

definition activateCooldown ::
  "(float64 \<Rightarrow> string) \<Rightarrow> uuid \<Rightarrow> go_time \<Rightarrow> string option \<Rightarrow> string option \<Rightarrow> cooldown_input \<Rightarrow> cooldown_table
     \<Rightarrow> cooldown_table \<times> (string + route_cooldown)" where
  "activateCooldown fmt newID now clearErr createErr input tbl =
     activate newID now clearErr createErr (activate_request fmt now input) tbl"

definition clearCooldown ::
  "go_time \<Rightarrow> uuid \<Rightarrow> uuid option \<Rightarrow> uuid option \<Rightarrow> string \<Rightarrow> cooldown_table \<Rightarrow> cooldown_table" where
  "clearCooldown now siteID siteModelID siteCredentialID source tbl =
     clearActive now siteID (case siteModelID of None \<Rightarrow> NoArg | Some m \<Rightarrow> UuidArg m)
       (case siteCredentialID of None \<Rightarrow> NoArg | Some m \<Rightarrow> UuidArg m) source tbl"

section \<open>The order of the candidates\<close>

interpretation candidate_order: strict_weak_order candidate_before
proof
  fix x y z
  show "\<not> candidate_before x x" by (simp add: candidate_before_def)
  show "candidate_before x y \<Longrightarrow> candidate_before y z \<Longrightarrow> candidate_before x z"
    by (auto simp: candidate_before_def split: if_splits)
  show "candidate_before x z \<Longrightarrow> candidate_before x y \<or> candidate_before y z"
    by (auto simp: candidate_before_def split: if_splits)
qed

text \<open>The order is a strict weak order whatever the rank of a candidate is.\<close>

lemma candidate_before_rank [simp]:
  "candidate_before (a\<lparr>cand_Rank := i\<rparr>) b = candidate_before a b"
  "candidate_before a (b\<lparr>cand_Rank := i\<rparr>) = candidate_before a b"
  by (simp_all add: candidate_before_def)

lemma rank_all_nth: "i < length cs \<Longrightarrow> rank_all cs ! i = (cs ! i)\<lparr>cand_Rank := int i + 1\<rparr>"
  by (simp add: rank_all_def nth_enumerate_eq)

lemma length_rank_all [simp]: "length (rank_all cs) = length cs"
  by (simp add: rank_all_def)

lemma rank_all_sorted:
  "sorted_wrt (\<lambda>a b. \<not> candidate_before b a) cs \<Longrightarrow> sorted_wrt (\<lambda>a b. \<not> candidate_before b a) (rank_all cs)"
  by (simp add: sorted_wrt_iff_nth_less rank_all_nth)

lemma rank_all_map: "(\<And>c i. f (c\<lparr>cand_Rank := i\<rparr>) = f c) \<Longrightarrow> map f (rank_all cs) = map f cs"
  by (rule nth_equalityI) (simp_all add: rank_all_nth)

lemma score_all_map:
  "(\<And>c s b. f (c\<lparr>cand_Score := s, cand_ScoreBreakdown := b\<rparr>) = f c) \<Longrightarrow> map f (score_all d cs) = map f cs"
  by (simp add: score_all_def split_def Let_def)

definition candidate_target :: "candidate \<Rightarrow> uuid \<times> uuid" where
  "candidate_target c = (cs_ID (cand_Site c), cmo_SiteModelID (cand_Model c))"

definition row_target :: "candidate_row \<Rightarrow> uuid \<times> uuid" where
  "row_target row = (row_SiteID row, row_SiteModelID row)"

lemma rank_rows_mset:
  assumes "\<And>c i. f (c\<lparr>cand_Rank := i\<rparr>) = f c" and "\<And>c s b. f (c\<lparr>cand_Score := s, cand_ScoreBreakdown := b\<rparr>) = f c"
  shows "mset (map f (rank_rows query ix rows)) = mset (map (\<lambda>r. f (row_candidate ix r)) (filter (row_eligible query ix) rows))"
proof -
  have "mset (map f (rank_rows query ix rows)) =
      image_mset f (mset (score_all (cq_Debug query) (map (row_candidate ix) (filter (row_eligible query ix) rows))))"
    unfolding rank_rows_def rank_all_map[OF assms(1)] by (simp only: mset_map mset_stable_sort)
  also have "\<dots> = mset (map f (map (row_candidate ix) (filter (row_eligible query ix) rows)))"
    by (simp only: mset_map[symmetric] score_all_map[OF assms(2)])
  finally show ?thesis by (simp add: comp_def)
qed

lemma rank_rows_sorted: "sorted_wrt (\<lambda>a b. \<not> candidate_before b a) (rank_rows query ix rows)"
  unfolding rank_rows_def by (intro rank_all_sorted candidate_order.sorted_stable_sort)

lemma limit_items_take: "\<exists>n. limit_items l xs = take n xs"
  unfolding limit_items_def by (metis take_all_iff order_refl)

lemma candidates_Inr:
  assumes "candidates db now query = Inr cl"
  obtains rows tbl where "db_listRows db (cm_ID (cl_CanonicalModel cl)) = Inr rows" "db_cooldowns db = Inr tbl"
    "cl_Items cl = limit_items (cq_Limit query) (rank_rows query (indexCooldowns (listActive now now tbl)) rows)"
  using assms by (auto simp: candidates_def Let_def split: if_splits sum.splits)

text \<open>The order the documentation of the router promises, written out.\<close>

definition ranked_before :: "candidate \<Rightarrow> candidate \<Rightarrow> bool" where
  "ranked_before a b \<longleftrightarrow>
     \<not> cand_Cooling a \<and> cand_Cooling b
   \<or> cand_Cooling a = cand_Cooling b \<and>
      (cs_RoutingPriority (cand_Site a) > cs_RoutingPriority (cand_Site b)
       \<or> cs_RoutingPriority (cand_Site a) = cs_RoutingPriority (cand_Site b) \<and>
          (cand_Score a > cand_Score b
           \<or> cand_Score a = cand_Score b \<and> cs_Name (cand_Site a) \<le> cs_Name (cand_Site b)))"

lemma not_before_ranked: "\<not> candidate_before b a \<Longrightarrow> ranked_before a b"
  by (auto simp: candidate_before_def ranked_before_def not_less split: if_splits)

lemma candidates_ranked_sorted:
  assumes ok: "candidates db now query = Inr cl"
  shows "sorted_wrt ranked_before (cl_Items cl)"
proof -
  obtain rows tbl where "cl_Items cl = limit_items (cq_Limit query)
      (rank_rows query (indexCooldowns (listActive now now tbl)) rows)"
    using candidates_Inr[OF ok] by blast
  then obtain n where it: "cl_Items cl = take n (rank_rows query (indexCooldowns (listActive now now tbl)) rows)"
    using limit_items_take by metis
  have "sorted_wrt (\<lambda>a b. \<not> candidate_before b a) (cl_Items cl)"
    unfolding it by (rule sorted_wrt_take[OF rank_rows_sorted])
  then show ?thesis
    by (rule sorted_wrt_mono_rel[rotated]) (blast intro: not_before_ranked)
qed

text \<open>C5. The candidates are ranked: those that are not cooling come first, then a higher routing priority of
  the site, then a higher score, then the name of the site; the ranks count from one.\<close>

theorem candidates_ranked:
  assumes ok: "candidates db now query = Inr cl"
  shows "sorted_wrt ranked_before (cl_Items cl) \<and> map cand_Rank (cl_Items cl) = map (\<lambda>i. int i + 1) [0 ..< length (cl_Items cl)]"
proof
  obtain rows tbl where items: "cl_Items cl = limit_items (cq_Limit query)
      (rank_rows query (indexCooldowns (listActive now now tbl)) rows)"
    using candidates_Inr[OF ok] by blast
  then obtain n where it: "cl_Items cl = take n (rank_rows query (indexCooldowns (listActive now now tbl)) rows)"
    using limit_items_take by metis
  show "sorted_wrt ranked_before (cl_Items cl)" by (rule candidates_ranked_sorted[OF ok])
  show "map cand_Rank (cl_Items cl) = map (\<lambda>i. int i + 1) [0 ..< length (cl_Items cl)]"
    unfolding it rank_rows_def by (rule nth_equalityI) (simp_all add: rank_all_nth)
qed

section \<open>Which rows become candidates\<close>

lemma index_fold:
  "ix_sites (fold index_cooldown items ix) k \<noteq> None \<longleftrightarrow> ix_sites ix k \<noteq> None
     \<or> (\<exists>r \<in> set items. rc_SiteCredentialID r = None \<and> rc_SiteModelID r = None \<and> rc_SiteID r = k)"
  "ix_models (fold index_cooldown items ix) m \<noteq> None \<longleftrightarrow> ix_models ix m \<noteq> None
     \<or> (\<exists>r \<in> set items. rc_SiteCredentialID r = None \<and> rc_SiteModelID r = Some m \<and> \<not> TransientRouteCooldown r)"
  "ix_transientModels (fold index_cooldown items ix) m \<noteq> None \<longleftrightarrow> ix_transientModels ix m \<noteq> None
     \<or> (\<exists>r \<in> set items. rc_SiteCredentialID r = None \<and> rc_SiteModelID r = Some m \<and> TransientRouteCooldown r)"
  by (induction items arbitrary: ix) (auto simp: index_cooldown_def split: option.splits if_splits)

lemma indexCooldowns_iff:
  "ix_sites (indexCooldowns items) k \<noteq> None \<longleftrightarrow>
     (\<exists>r \<in> set items. rc_SiteCredentialID r = None \<and> rc_SiteModelID r = None \<and> rc_SiteID r = k)"
  "ix_models (indexCooldowns items) m \<noteq> None \<longleftrightarrow>
     (\<exists>r \<in> set items. rc_SiteCredentialID r = None \<and> rc_SiteModelID r = Some m \<and> \<not> TransientRouteCooldown r)"
  "ix_transientModels (indexCooldowns items) m \<noteq> None \<longleftrightarrow>
     (\<exists>r \<in> set items. rc_SiteCredentialID r = None \<and> rc_SiteModelID r = Some m \<and> TransientRouteCooldown r)"
  unfolding indexCooldowns_def index_fold by (simp_all add: empty_index_def)

text \<open>The contract of the selection, on the rows and the cooldown table: a site cooldown or a lasting model
  cooldown excludes the row, a transient one does not.\<close>

definition routable :: "candidate_query \<Rightarrow> go_time \<Rightarrow> cooldown_table \<Rightarrow> candidate_row \<Rightarrow> bool" where
  "routable query now tbl row \<longleftrightarrow>
     row_SiteEnabled row \<and> row_SiteStatus row = ''active'' \<and> row_SiteModelStatus row = ''active''
   \<and> routeCandidateSupportsEndpoint row (cq_EndpointType query)
   \<and> (cq_ImageGeneration query \<longrightarrow> \<not> ResponsesToolDisabled (siteGatewayConfig (row_SiteMeta row)) ''image_generation'')
   \<and> available_keys row > 0
   \<and> (cq_AllowedSiteIDs query = [] \<or> row_SiteID row \<in> set (cq_AllowedSiteIDs query))
   \<and> (cq_AllowedSiteModelIDs query = [] \<or> row_SiteModelID row \<in> set (cq_AllowedSiteModelIDs query))
   \<and> row_SiteID row \<notin> set (cq_ExcludeSiteIDs query) \<and> row_SiteModelID row \<notin> set (cq_ExcludeSiteModelIDs query)
   \<and> (\<forall>r \<in> set tbl. is_active now r \<and> rc_SiteCredentialID r = None \<longrightarrow>
        (rc_SiteModelID r = None \<longrightarrow> rc_SiteID r \<noteq> row_SiteID row)
        \<and> (rc_SiteModelID r = Some (row_SiteModelID row) \<longrightarrow> TransientRouteCooldown r))"

lemma eligible_routable:
  "row_eligible query (indexCooldowns (listActive now now tbl)) row \<longleftrightarrow> routable query now tbl row"
proof -
  have ix: "ix_sites (indexCooldowns (listActive now now tbl)) (row_SiteID row) = None \<longleftrightarrow>
      (\<forall>r \<in> set tbl. is_active now r \<and> rc_SiteCredentialID r = None \<longrightarrow> rc_SiteModelID r = None \<longrightarrow> rc_SiteID r \<noteq> row_SiteID row)"
    "ix_models (indexCooldowns (listActive now now tbl)) (row_SiteModelID row) = None \<longleftrightarrow>
      (\<forall>r \<in> set tbl. is_active now r \<and> rc_SiteCredentialID r = None \<longrightarrow>
         rc_SiteModelID r = Some (row_SiteModelID row) \<longrightarrow> TransientRouteCooldown r)"
    using indexCooldowns_iff(1)[of "listActive now now tbl" "row_SiteID row"]
      indexCooldowns_iff(2)[of "listActive now now tbl" "row_SiteModelID row"]
    by (auto simp: set_listActive)
  have sets: "(case uuidSet xs of None \<Rightarrow> False | Some S \<Rightarrow> x \<notin> S) \<longleftrightarrow> \<not> (xs = [] \<or> x \<in> set xs)"
    "(case uuidSet xs of None \<Rightarrow> False | Some S \<Rightarrow> x \<in> S) \<longleftrightarrow> x \<in> set xs" for xs x
    by (simp_all add: uuidSet_def)
  show ?thesis
    unfolding row_eligible_def sets routable_def ResponsesHostedToolImageGeneration_def
    using ix by (auto simp: not_le)
qed

text \<open>C4. Routing offers exactly the routable rows: without a limit the candidates are, with multiplicity, the
  rows of the canonical model whose site and model are active, that support the endpoint family, have
  a usable key, pass the allow and exclude lists and have no active site cooldown and no active
  lasting model cooldown; and a candidate is marked as cooling when it has an active transient one.\<close>

theorem candidates_are_routable_rows:
  assumes ok: "candidates db now query = Inr cl" and nolimit: "cq_Limit query \<le> 0"
    and rows: "db_listRows db (cm_ID (cl_CanonicalModel cl)) = Inr rows" and tbl: "db_cooldowns db = Inr tbl"
  shows "mset (map (\<lambda>c. (candidate_target c, cand_Cooling c)) (cl_Items cl)) =
    mset (map (\<lambda>row. (row_target row, \<exists>r \<in> set tbl. is_active now r \<and> rc_SiteCredentialID r = None
             \<and> rc_SiteModelID r = Some (row_SiteModelID row) \<and> TransientRouteCooldown r))
       (filter (routable query now tbl) rows))"
proof -
  let ?ix = "indexCooldowns (listActive now now tbl)"
  have items: "cl_Items cl = rank_rows query ?ix rows"
    using candidates_Inr[OF ok] rows tbl nolimit by (metis Inr_inject limit_items_def not_le)
  have row: "(candidate_target (row_candidate ?ix r), cand_Cooling (row_candidate ?ix r)) =
      (row_target r, \<exists>x \<in> set tbl. is_active now x \<and> rc_SiteCredentialID x = None
         \<and> rc_SiteModelID x = Some (row_SiteModelID r) \<and> TransientRouteCooldown x)" for r
    using indexCooldowns_iff(3)[of "listActive now now tbl" "row_SiteModelID r"]
    by (auto simp: row_candidate_def Let_def candidate_target_def row_target_def set_listActive)
  have "mset (map (\<lambda>c. (candidate_target c, cand_Cooling c)) (rank_rows query ?ix rows)) =
      mset (map (\<lambda>r. (candidate_target (row_candidate ?ix r), cand_Cooling (row_candidate ?ix r)))
        (filter (row_eligible query ?ix) rows))"
    by (rule rank_rows_mset) (simp_all add: candidate_target_def)
  then show ?thesis
    unfolding items row eligible_routable[abs_def] by simp
qed

section \<open>The plan\<close>

lemma collect_failover_eq:
  "collect_failover limit acc items =
     (if int (length acc) \<ge> limit then acc else acc @ take (nat limit - length acc) items)"
proof (induction items arbitrary: acc)
  case Nil
  then show ?case by simp
next
  case (Cons x xs)
  have "nat limit - length acc = Suc (nat limit - Suc (length acc))" if "int (length acc) < limit" using that by linarith
  with Cons show ?case by auto
qed

text \<open>The failover plan is an initial segment of the ranking: the selected candidate is the first one and the
  failover list holds the next ones, at most the limit of the query (three when it gives none). A cooling
  candidate is selected only if every candidate is cooling.\<close>

lemma plan_follows_ranking:
  assumes "plan db now query = Inr p"
  shows "\<exists>cl. candidates db now query = Inr cl \<and> plan_Selected p # plan_Failover p =
      take (1 + nat (if cq_FailoverLimit query \<le> 0 then 3 else cq_FailoverLimit query)) (cl_Items cl)
    \<and> (cand_Cooling (plan_Selected p) \<longrightarrow> list_all cand_Cooling (cl_Items cl))"
proof -
  obtain cl c cs where cl: "candidates db now query = Inr cl" "cl_Items cl = c # cs" and
    p: "plan_Selected p = c" "plan_Failover p = collect_failover (if cq_FailoverLimit query \<le> 0 then 3 else cq_FailoverLimit query) [] cs"
    using assms by (auto simp: plan_def Let_def split: sum.splits list.splits)
  have "ranked_before c x" if "x \<in> set cs" for x
    using candidates_ranked_sorted[OF cl(1)] cl(2) that by simp
  then have "cand_Cooling c \<longrightarrow> list_all cand_Cooling (c # cs)"
    by (auto simp: list_all_iff ranked_before_def)
  moreover have "plan_Failover p = take (nat (if cq_FailoverLimit query \<le> 0 then 3 else cq_FailoverLimit query)) cs"
    unfolding p(2) collect_failover_eq by simp
  ultimately show ?thesis using cl p(1) by auto
qed

section \<open>Scores\<close>

definition rate_ok :: "float64 option \<Rightarrow> bool" where
  "rate_ok r = (case r of None \<Rightarrow> True | Some v \<Rightarrow> 0 \<le> v \<and> v \<le> 1)"

lemma price_fold:
  "fold (\<lambda>value (lo, hi). (if value < lo then value else lo, if value > hi then value else hi)) vs (a, b) = (lo, hi) \<Longrightarrow>
     lo \<le> a \<and> b \<le> hi \<and> (\<forall>v \<in> set vs. lo \<le> v \<and> v \<le> hi)" for a b lo hi :: float64
proof (induction vs arbitrary: a b)
  case Nil
  then show ?case by simp
next
  case (Cons v vs)
  from Cons.prems have "fold (\<lambda>value (lo, hi). (if value < lo then value else lo, if value > hi then value else hi)) vs
      (if v < a then v else a, if v > b then v else b) = (lo, hi)" by simp
  from Cons.IH[OF this] show ?case by (auto split: if_splits)
qed

lemma price_range_bounds:
  assumes "price_range cs = (lo, hi)" and "c \<in> set cs" and "candidatePriceValue c = Some v"
  shows "lo \<le> v \<and> v \<le> hi"
proof -
  have "v \<in> set (price_values cs)"
    using assms(2,3) by (force simp: price_values_def List.map_filter_def)
  then show ?thesis
    using assms(1) price_fold unfolding price_range_def by (fastforce split: list.splits)
qed

lemma score_parts:
  "0 \<le> healthScore st \<and> healthScore st \<le> 40"
  "rate_ok r \<Longrightarrow> 0 \<le> m \<Longrightarrow> 0 \<le> successRateScore r m \<and> successRateScore r m \<le> m"
  "0 \<le> m \<Longrightarrow> 0 \<le> latencyScore l m \<and> latencyScore l m \<le> m"
  by (auto simp: healthScore_def successRateScore_def rate_ok_def latencyScore_def mult_left_le_one_le split: option.splits)

lemma priceScore_bounds:
  assumes "price_range cs = (lo, hi)" and "c \<in> set cs"
  shows "0 \<le> priceScore c lo hi \<and> priceScore c lo hi \<le> 10"
proof (cases "candidatePriceValue c")
  case None
  then show ?thesis by (simp add: priceScore_def)
next
  case (Some v)
  with price_range_bounds[OF assms Some] show ?thesis
    by (auto simp: priceScore_def divide_le_eq)
qed

lemma score_bounds:
  assumes "price_range cs = (lo, hi)" and "c \<in> set cs" and "0 < cav_AvailableAPIKeys (cand_Availability c)"
    and "rate_ok (ch_RecentSuccessRate (cand_Health c))" "rate_ok (ch_ModelSuccessRate (cand_Health c))"
  shows "0 \<le> fst (scoreCandidate c lo hi) \<and> fst (scoreCandidate c lo hi) \<le> 125"
proof -
  define k :: float64 where "k = of_int (min (cav_AvailableAPIKeys (cand_Availability c)) 5) * 3"
  have k: "0 \<le> k \<and> k \<le> 15"
  proof -
    have "(of_int (min (cav_AvailableAPIKeys (cand_Availability c)) 5) :: float64) \<le> of_int 5"
      by (subst of_int_le_iff) simp
    moreover have "(0 :: float64) \<le> of_int (min (cav_AvailableAPIKeys (cand_Availability c)) 5)"
      using assms(3) by (subst of_int_0_le_iff) simp
    ultimately show ?thesis by (simp add: k_def)
  qed
  have "fst (scoreCandidate c lo hi) = healthScore (ch_Status (cand_Health c)) + successRateScore (ch_RecentSuccessRate (cand_Health c)) 10
      + latencyScore (ch_RecentAvgLatencyMS (cand_Health c)) 5 + successRateScore (ch_ModelSuccessRate (cand_Health c)) 30
      + latencyScore (ch_ModelAvgLatencyMS (cand_Health c)) 15 + k + priceScore c lo hi"
    by (simp add: scoreCandidate_def score_breakdown_def k_def Let_def)
  with k priceScore_bounds[OF assms(1,2)] score_parts(1)[of "ch_Status (cand_Health c)"]
    score_parts(2)[OF assms(4), of 10] score_parts(2)[OF assms(5), of 30]
    score_parts(3)[of 5 "ch_RecentAvgLatencyMS (cand_Health c)"] score_parts(3)[of 15 "ch_ModelAvgLatencyMS (cand_Health c)"]
  show ?thesis by linarith
qed

lemma rank_all_set: "c \<in> set (rank_all cs) \<Longrightarrow> \<exists>c' \<in> set cs. \<exists>i. c = c'\<lparr>cand_Rank := i\<rparr>"
  by (metis in_set_conv_nth length_rank_all nth_mem rank_all_nth)

text \<open>Scores are bounded: when the recorded success rates are between 0 and 1, every candidate has a score
  between 0 and 125, whatever the prices are; so the routing priority of a site, which is compared first,
  is never outweighed by the score.\<close>

lemma candidate_score_bounds:
  assumes ok: "candidates db now query = Inr cl"
    and rates: "\<And>rows r. db_listRows db (cm_ID (cl_CanonicalModel cl)) = Inr rows \<Longrightarrow> r \<in> set rows \<Longrightarrow>
      rate_ok (row_SiteHealthSuccessRate r) \<and> rate_ok (row_ModelSuccessRate r)"
    and c: "c \<in> set (cl_Items cl)"
  shows "0 \<le> cand_Score c \<and> cand_Score c \<le> 125"
proof -
  obtain rows tbl where rows: "db_listRows db (cm_ID (cl_CanonicalModel cl)) = Inr rows"
    and items: "cl_Items cl = limit_items (cq_Limit query) (rank_rows query (indexCooldowns (listActive now now tbl)) rows)"
    using candidates_Inr[OF ok] by metis
  define ix where "ix = indexCooldowns (listActive now now tbl)"
  define cs where "cs = map (row_candidate ix) (filter (row_eligible query ix) rows)"
  obtain lo hi where pr: "price_range cs = (lo, hi)" by fastforce
  have "c \<in> set (rank_rows query ix rows)"
    using c limit_items_take[of "cq_Limit query" "rank_rows query ix rows"] unfolding items ix_def by (metis in_set_takeD)
  then obtain c' where c': "c' \<in> set (score_all (cq_Debug query) cs)" "cand_Score c = cand_Score c'"
    using rank_all_set unfolding rank_rows_def cs_def by fastforce
  then obtain x where x: "x \<in> set cs" "cand_Score c = fst (scoreCandidate x lo hi)"
    by (auto simp: score_all_def pr split_def Let_def)
  then obtain r where r: "r \<in> set rows" "row_eligible query ix r" "x = row_candidate ix r" by (auto simp: cs_def)
  have "0 < cav_AvailableAPIKeys (cand_Availability x)"
    using r by (simp add: row_candidate_def row_eligible_def Let_def split: if_splits)
  moreover have "rate_ok (ch_RecentSuccessRate (cand_Health x))" "rate_ok (ch_ModelSuccessRate (cand_Health x))"
    using rates[OF rows r(1)] r(3) by (simp_all add: row_candidate_def Let_def)
  ultimately show ?thesis using score_bounds[OF pr x(1)] x(2) by simp
qed

section \<open>A run for the witnesses\<close>

definition plain_site :: "uuid \<Rightarrow> string \<Rightarrow> float64 \<Rightarrow> candidate_row" where
  "plain_site i name priority = \<lparr>row_SiteID = i, row_SiteName = name, row_SiteSlug = name, row_SiteType = ''openai'',
     row_SiteBaseURL = [], row_SiteStatus = ''active'', row_SiteEnabled = True, row_SiteRoutingPriority = priority,
     row_SiteMeta = JEmpty, row_SiteModelID = i @ ''-model'', row_UpstreamModelName = ''gpt-5'',
     row_SiteModelDisplayName = ''gpt-5'', row_SiteModelStatus = ''active'', row_MatchSource = [], row_MatchConfidence = 100,
     row_SiteHealthStatus = ''healthy'', row_SiteHealthSuccessRate = Some (9 / 10), row_SiteHealthAvgLatencyMS = Some 400,
     row_SiteHealthFailures = 0, row_ModelSuccessRate = None, row_ModelAvgLatencyMS = None, row_ModelRequestCount = 0,
     row_ModelAPIKeyCount = 2, row_ModelAvailableKeyCount = 2, row_SiteCredentialCount = 2,
     row_PreferredCredentialID = None, row_PreferredCredentialName = None, row_PreferredCredentialRoutingPriority = 0,
     row_PreferredCredentialCostMultiplier = 1, row_PreferredCredentialGroupName = None,
     row_PreferredCredentialCacheDomain = [], row_PricingGroupName = None, row_PricingCurrency = None,
     row_PricingInputValue = Some 2, row_PricingOutputValue = Some 8, row_PricingImageRatio = None,
     row_PricingPerRequestValue = None, row_PricingBillingType = None, row_PricingQuotaType = None,
     row_PricingVariants = JEmpty, row_SupportedEndpointTypes = [''openai'']\<rparr>"

definition demo_query :: candidate_query where
  "demo_query = \<lparr>cq_ModelKey = ''gpt-5'', cq_EndpointType = [], cq_ImageGeneration = False, cq_Debug = False,
     cq_AllowedSiteIDs = [], cq_AllowedSiteModelIDs = [], cq_ExcludeSiteIDs = [], cq_ExcludeSiteModelIDs = [],
     cq_Limit = 0, cq_FailoverLimit = 0\<rparr>"

definition demo_sites :: "candidate_row list" where
  "demo_sites = [plain_site ''s1'' ''alpha'' 1, plain_site ''s2'' ''beta'' 5]"

definition demo_db :: route_db where
  "demo_db = \<lparr>db_getByKey = (\<lambda>_. Found \<lparr>cm_ID = ''c1'', cm_ModelKey = ''gpt-5''\<rparr>), db_getByAlias = (\<lambda>_. RecordNotFound),
     db_listRows = (\<lambda>_. Inr demo_sites), db_cooldowns = Inr []\<rparr>"

definition demo_list :: candidate_list where
  "demo_list = \<lparr>cl_CanonicalModel = \<lparr>cm_ID = ''c1'', cm_ModelKey = ''gpt-5''\<rparr>,
     cl_Items = rank_rows demo_query (indexCooldowns (listActive 7 7 [])) demo_sites\<rparr>"

lemma demo_facts: "cq_Limit demo_query = 0" "cq_FailoverLimit demo_query = 0" "db_cooldowns demo_db = Inr []"
  "db_listRows demo_db i = Inr demo_sites"
  by (simp_all add: demo_query_def demo_db_def)

lemma demo_candidates: "candidates demo_db 7 demo_query = Inr demo_list"
  by (simp add: candidates_def demo_db_def demo_query_def demo_list_def resolveCanonicalModel_def Let_def
      limit_items_def string_defs)

lemma demo_routable: "row \<in> set demo_sites \<Longrightarrow> routable demo_query 7 [] row"
  by (auto simp: demo_sites_def plain_site_def routable_def demo_query_def routeCandidateSupportsEndpoint_def Let_def
      available_keys_def string_defs)

theorem candidates_ranked_witness: "sorted_wrt ranked_before (cl_Items demo_list)"
  using candidates_ranked[OF demo_candidates] by blast

theorem candidates_are_routable_rows_witness:
  "mset (map candidate_target (cl_Items demo_list)) = {#(''s1'', ''s1-model''), (''s2'', ''s2-model'')#}"
proof -
  have f: "filter (routable demo_query 7 []) demo_sites = demo_sites" using demo_routable by (auto intro: filter_True)
  from candidates_are_routable_rows[OF demo_candidates _ demo_facts(4,3), unfolded f]
  have "mset (map (\<lambda>c. (candidate_target c, cand_Cooling c)) (cl_Items demo_list)) = mset (map (\<lambda>row. (row_target row, False)) demo_sites)"
    by (simp add: demo_facts)
  from arg_cong[OF this, of "image_mset fst"]
  have "mset (map candidate_target (cl_Items demo_list)) = mset (map row_target demo_sites)"
    by (simp add: image_mset.compositionality comp_def)
  then show ?thesis by (simp add: demo_sites_def row_target_def plain_site_def)
qed

end
