(* ===== verification/Pricing.thy ===== *)
theory Pricing
  imports Router
begin

text \<open>
  What a request costs, \<open>server/internal/gateway/pricing.go\<close> and \<open>pricing_long_context.go\<close>: the pricing of a
  candidate, the normalisation of the usage an upstream reports, the estimate of the cost, the billing
  adjustments and the breakdown that is logged with the estimate.

  Token counts are \<open>int\<close> and their sums wrap around at 64 bits; prices and costs are rational numbers. Of
  the result of an attempt the fields that billing reads and writes are modelled (\<open>attempt_billing\<close>). The
  pricing row of a site model is a parameter.
\<close>

section \<open>Data\<close>

record long_context_rule =
  lcr_ThresholdTokens :: int
  lcr_InputMultiplier :: float64
  lcr_OutputMultiplier :: float64

record selected_pricing =
  sp_GroupName :: string
  sp_Currency :: string
  sp_InputValue :: "float64 option"
  sp_OutputValue :: "float64 option"
  sp_CacheRatio :: "float64 option"
  sp_CacheWriteRatio :: "float64 option"
  sp_CacheWrite1hRatio :: "float64 option"
  sp_GroupRatio :: "float64 option"
  sp_ModelRatio :: "float64 option"
  sp_CompletionRatio :: "float64 option"
  sp_ImageRatio :: "float64 option"
  sp_AudioRatio :: "float64 option"
  sp_AudioCompletionRatio :: "float64 option"
  sp_ModelPrice :: "float64 option"
  sp_PerRequestValue :: "float64 option"
  sp_BillingType :: string
  sp_QuotaType :: "int option"
  sp_LongContextRule :: "long_context_rule option"
  sp_PricingVariants :: obj
  sp_LongContextApplied :: bool

record billing_adjustment =
  ba_ServiceTier :: string
  ba_Mode :: string
  ba_Multiplier :: float64
  ba_Reason :: string

record gateway_usage =
  gu_PromptTokens :: int
  gu_CompletionTokens :: int
  gu_TotalTokens :: int
  gu_ImageCount :: int
  gu_CachedPromptTokens :: int
  gu_PromptCacheHitTokens :: int
  gu_PromptCacheMissTokens :: int
  gu_CacheWriteTokens :: int
  gu_CacheCreationInputTokens :: int
  gu_CacheCreation5mInputTokens :: int
  gu_CacheCreation1hInputTokens :: int
  gu_ReasoningTokens :: int
  gu_InputTextTokens :: int
  gu_InputImageTokens :: int
  gu_OutputImageTokens :: int
  gu_AudioOutputTokens :: int
  gu_PromptTokensDetail :: "(int \<times> int) option"

text \<open>\<open>PromptTokensDetail\<close> is the pair of its cached tokens and its cache write tokens.\<close>

record attempt_billing =
  ab_pricing :: selected_pricing
  ab_serviceTier :: string
  ab_billingMode :: string
  ab_costMultiplier :: float64
  ab_multiplierReason :: string
  ab_estimatedCost :: "float64 option"
  ab_baseEstimatedCost :: "float64 option"
  ab_credentialCostMultiplier :: float64
  ab_apiKeyBillingMultiplier :: float64

text \<open>The pricing row, \<open>store.SiteModelPricing\<close>.\<close>

record pricing_row =
  pr_GroupName :: "string option"
  pr_Currency :: "string option"
  pr_InputValue :: "float64 option"
  pr_OutputValue :: "float64 option"
  pr_CacheRatio :: "float64 option"
  pr_CreateCacheRatio :: "float64 option"
  pr_CreateCache1hRatio :: "float64 option"
  pr_GroupRatio :: "float64 option"
  pr_ModelRatio :: "float64 option"
  pr_CompletionRatio :: "float64 option"
  pr_ImageRatio :: "float64 option"
  pr_AudioRatio :: "float64 option"
  pr_AudioCompletionRatio :: "float64 option"
  pr_ModelPrice :: "float64 option"
  pr_PerRequestValue :: "float64 option"
  pr_BillingType :: "string option"
  pr_QuotaType :: "int option"

section \<open>Values\<close>

definition stringValue :: "string option \<Rightarrow> string \<Rightarrow> string" where
  "stringValue value fallback = (case value of None \<Rightarrow> fallback
     | Some v \<Rightarrow> if trim_space v = [] then fallback else trim_space v)"

definition emptyToNil :: "string \<Rightarrow> any" where
  "emptyToNil value = (if trim_space value = [] then ANil else AString (trim_space value))"

definition int64PtrValue :: "int option \<Rightarrow> any" where
  "int64PtrValue value = (case value of None \<Rightarrow> ANil | Some n \<Rightarrow> AInt n)"

definition zeroIntToNil :: "int \<Rightarrow> any" where
  "zeroIntToNil value = (if value \<le> 0 then ANil else AInt value)"

definition anyString :: "any \<Rightarrow> string" where
  "anyString value = (case value of AString t \<Rightarrow> trim_space t | _ \<Rightarrow> [])"

definition float64PtrValue :: "float64 option \<Rightarrow> any" where
  "float64PtrValue value = (case value of None \<Rightarrow> ANil | Some v \<Rightarrow> AFloat v)"

definition scaledFloat64Value :: "float64 option \<Rightarrow> float64 option \<Rightarrow> any" where
  "scaledFloat64Value base ratio = (case (base, ratio) of (Some b, Some r) \<Rightarrow> AFloat (b * r) | _ \<Rightarrow> ANil)"

definition firstPricingValue :: "float64 option \<Rightarrow> float64 option \<Rightarrow> float64 option" where
  "firstPricingValue primary fallback = (if primary \<noteq> None then primary else fallback)"

section \<open>Long contexts\<close>

definition float_or_zero :: "any \<Rightarrow> float64" where
  "float_or_zero v = (case v of AFloat r \<Rightarrow> r | _ \<Rightarrow> 0)"

text \<open>The loop over the tiers stops at the first context tier with a numeric size.\<close>

fun context_tier :: "any list \<Rightarrow> (int \<times> obj) option" where
  "context_tier [] = None"
| "context_tier (value # tiers) =
     (let price = as_obj value; tier = as_obj (obj_get price ''tier'') in
      if obj_get tier ''type'' = AString ''context'' then
        (case obj_get tier ''size'' of
           AFloat sz \<Rightarrow> Some (float_to_int64 sz, price)
         | _ \<Rightarrow> context_tier tiers)
      else context_tier tiers)"

definition longContextRuleForVariants :: "obj \<Rightarrow> long_context_rule option" where
  "longContextRuleForVariants raw =
     (let c = as_obj (obj_get raw ''cost'');
          over0 = as_obj (obj_get c ''context_over_200k'');
          (threshold, over) = (case obj_get c ''tiers'' of
             AList tiers \<Rightarrow> (case context_tier tiers of Some t \<Rightarrow> t | None \<Rightarrow> (200000, over0))
           | _ \<Rightarrow> (200000, over0));
          cin = float_or_zero (obj_get c ''input''); cout = float_or_zero (obj_get c ''output'');
          oi = float_or_zero (obj_get over ''input''); oo = float_or_zero (obj_get over ''output'')
      in if cin \<le> 0 \<or> cout \<le> 0 \<or> oi \<le> 0 \<or> oo \<le> 0 then None
         else Some \<lparr>lcr_ThresholdTokens = threshold, lcr_InputMultiplier = oi / cin, lcr_OutputMultiplier = oo / cout\<rparr>)"

section \<open>The pricing of a candidate\<close>

definition candidate_fallback :: "candidate \<Rightarrow> selected_pricing" where
  "candidate_fallback cand =
     (let p = cand_Pricing cand;
          variants = (case cmo_PricingVariants (cand_Model cand) of
             JEmpty \<Rightarrow> [] | raw \<Rightarrow> (case unmarshal_map raw of None \<Rightarrow> [] | Some m \<Rightarrow> m)) in
      \<lparr>sp_GroupName = stringValue (cpr_GroupName p) [], sp_Currency = stringValue (cpr_Currency p) ''USD'',
       sp_InputValue = firstPricingValue (cpr_BaseInputValue p) (cpr_InputValue p),
       sp_OutputValue = firstPricingValue (cpr_BaseOutputValue p) (cpr_OutputValue p),
       sp_CacheRatio = None, sp_CacheWriteRatio = None, sp_CacheWrite1hRatio = None, sp_GroupRatio = None,
       sp_ModelRatio = None, sp_CompletionRatio = None, sp_ImageRatio = None, sp_AudioRatio = None,
       sp_AudioCompletionRatio = None, sp_ModelPrice = None,
       sp_PerRequestValue = firstPricingValue (cpr_BasePerRequestValue p) (cpr_PerRequestValue p),
       sp_BillingType = (case cpr_BillingType p of None \<Rightarrow> [] | Some t \<Rightarrow> t),
       sp_QuotaType = cpr_QuotaType p,
       sp_LongContextRule = longContextRuleForVariants variants,
       sp_PricingVariants = variants, sp_LongContextApplied = False\<rparr>)"

definition gatewayPricing :: "(uuid \<Rightarrow> string \<Rightarrow> pricing_row fetch) \<Rightarrow> candidate \<Rightarrow> string \<Rightarrow> selected_pricing" where
  "gatewayPricing getPricing cand groupName =
     (let fb = candidate_fallback cand in
      case getPricing (cmo_SiteModelID (cand_Model cand)) (trim_space groupName) of
        Found r \<Rightarrow> fb\<lparr>
          sp_GroupName := (case pr_GroupName r of Some g \<Rightarrow> g | None \<Rightarrow> sp_GroupName fb),
          sp_Currency := (case pr_Currency r of
             Some c \<Rightarrow> if trim_space c \<noteq> [] then trim_space c else sp_Currency fb | None \<Rightarrow> sp_Currency fb),
          sp_InputValue := firstPricingValue (pr_InputValue r) (sp_InputValue fb),
          sp_OutputValue := firstPricingValue (pr_OutputValue r) (sp_OutputValue fb),
          sp_CacheRatio := firstPricingValue (pr_CacheRatio r) (sp_CacheRatio fb),
          sp_CacheWriteRatio := firstPricingValue (pr_CreateCacheRatio r) (sp_CacheWriteRatio fb),
          sp_CacheWrite1hRatio := firstPricingValue (pr_CreateCache1hRatio r) (sp_CacheWrite1hRatio fb),
          sp_GroupRatio := firstPricingValue (pr_GroupRatio r) (sp_GroupRatio fb),
          sp_ModelRatio := firstPricingValue (pr_ModelRatio r) (sp_ModelRatio fb),
          sp_CompletionRatio := firstPricingValue (pr_CompletionRatio r) (sp_CompletionRatio fb),
          sp_ImageRatio := firstPricingValue (pr_ImageRatio r) (sp_ImageRatio fb),
          sp_AudioRatio := firstPricingValue (pr_AudioRatio r) (sp_AudioRatio fb),
          sp_AudioCompletionRatio := firstPricingValue (pr_AudioCompletionRatio r) (sp_AudioCompletionRatio fb),
          sp_ModelPrice := firstPricingValue (pr_ModelPrice r) (sp_ModelPrice fb),
          sp_PerRequestValue := firstPricingValue (pr_PerRequestValue r) (sp_PerRequestValue fb),
          sp_BillingType := (case pr_BillingType r of Some t \<Rightarrow> t | None \<Rightarrow> sp_BillingType fb),
          sp_QuotaType := (case pr_QuotaType r of Some q \<Rightarrow> Some q | None \<Rightarrow> sp_QuotaType fb)\<rparr>
      | _ \<Rightarrow> fb)"

section \<open>Usage\<close>

text \<open>\<open>normalized\<close> is a sequence of conditional assignments, grouped here by the field they settle.\<close>

definition settle_prompt :: "gateway_usage \<Rightarrow> gateway_usage" where
  "settle_prompt u0 =
     (let u = (if gu_PromptCacheHitTokens u0 < 0 then u0\<lparr>gu_PromptCacheHitTokens := 0\<rparr> else u0);
          u = (if gu_PromptCacheMissTokens u < 0 then u\<lparr>gu_PromptCacheMissTokens := 0\<rparr> else u)
      in if gu_PromptTokens u = 0 \<and> (gu_PromptCacheHitTokens u > 0 \<or> gu_PromptCacheMissTokens u > 0)
         then u\<lparr>gu_PromptTokens := wrap64 (gu_PromptCacheHitTokens u + gu_PromptCacheMissTokens u)\<rparr> else u)"

definition settle_cached :: "gateway_usage \<Rightarrow> gateway_usage" where
  "settle_cached u0 =
     (let u = (if gu_CachedPromptTokens u0 = 0 \<and> gu_PromptCacheHitTokens u0 > 0
               then u0\<lparr>gu_CachedPromptTokens := gu_PromptCacheHitTokens u0\<rparr> else u0);
          u = (case gu_PromptTokensDetail u of
                 Some (cached, written) \<Rightarrow> if gu_CachedPromptTokens u = 0 then u\<lparr>gu_CachedPromptTokens := cached\<rparr> else u
               | None \<Rightarrow> u)
      in if gu_CachedPromptTokens u < 0 then u\<lparr>gu_CachedPromptTokens := 0\<rparr> else u)"

definition settle_written :: "gateway_usage \<Rightarrow> gateway_usage" where
  "settle_written u0 =
     (let u = (case gu_PromptTokensDetail u0 of
                 Some (cached, written) \<Rightarrow> if gu_CacheWriteTokens u0 = 0 then u0\<lparr>gu_CacheWriteTokens := written\<rparr> else u0
               | None \<Rightarrow> u0)
      in if gu_CacheWriteTokens u < 0 then u\<lparr>gu_CacheWriteTokens := 0\<rparr> else u)"

definition settle_creation :: "gateway_usage \<Rightarrow> gateway_usage" where
  "settle_creation u0 =
     (let u = (if gu_CacheCreationInputTokens u0 = 0
               then u0\<lparr>gu_CacheCreationInputTokens := wrap64 (gu_CacheCreation5mInputTokens u0 + gu_CacheCreation1hInputTokens u0)\<rparr>
               else u0)
      in if gu_CacheCreation5mInputTokens u = 0 \<and> gu_CacheCreation1hInputTokens u = 0 \<and> gu_CacheCreationInputTokens u > 0
         then u\<lparr>gu_CacheCreation5mInputTokens := gu_CacheCreationInputTokens u\<rparr> else u)"

definition clamp_to_prompt :: "gateway_usage \<Rightarrow> gateway_usage" where
  "clamp_to_prompt u0 =
     (let u = (if gu_PromptTokens u0 > 0 \<and> gu_CachedPromptTokens u0 > gu_PromptTokens u0
               then u0\<lparr>gu_CachedPromptTokens := gu_PromptTokens u0\<rparr> else u0)
      in if gu_PromptTokens u > 0 \<and> gu_CacheWriteTokens u > gu_PromptTokens u
         then u\<lparr>gu_CacheWriteTokens := gu_PromptTokens u\<rparr> else u)"

definition settle_total :: "gateway_usage \<Rightarrow> gateway_usage" where
  "settle_total u = (if gu_TotalTokens u = 0
     then u\<lparr>gu_TotalTokens := wrap64 (gu_PromptTokens u + gu_CompletionTokens u)\<rparr> else u)"

definition normalized :: "gateway_usage \<Rightarrow> gateway_usage" where
  "normalized u = settle_total (clamp_to_prompt (settle_creation (settle_written (settle_cached (settle_prompt u)))))"

definition hasCacheCreationBreakdown :: "gateway_usage \<Rightarrow> bool" where
  "hasCacheCreationBreakdown u \<longleftrightarrow> gu_CacheCreation5mInputTokens u > 0 \<or> gu_CacheCreation1hInputTokens u > 0"

definition uncachedPromptTokens :: "gateway_usage \<Rightarrow> int" where
  "uncachedPromptTokens u =
     (let uncached = wrap64 (wrap64 (wrap64 (gu_PromptTokens u - gu_CachedPromptTokens u)
            - gu_CacheCreationInputTokens u) - gu_CacheWriteTokens u)
      in if uncached < 0 then 0 else uncached)"

definition inputTextTokensOrPrompt :: "gateway_usage \<Rightarrow> int" where
  "inputTextTokensOrPrompt u = (if gu_InputTextTokens u > 0 then gu_InputTextTokens u
     else if gu_InputImageTokens u = 0 then gu_PromptTokens u else 0)"

definition outputImageTokensOrCompletion :: "gateway_usage \<Rightarrow> int" where
  "outputImageTokensOrCompletion u = (if gu_OutputImageTokens u > 0 then gu_OutputImageTokens u else gu_CompletionTokens u)"

section \<open>Costs\<close>

text \<open>A Go function that returns \<open>(float64, bool)\<close> is an option here, except for the accumulating ones, which return
  the pair.\<close>

definition cost_of :: "int \<Rightarrow> float64 \<Rightarrow> float64" where
  "cost_of tokens value = of_int tokens * value / 1000000"

definition isPerRequestPricing :: "selected_pricing \<Rightarrow> bool" where
  "isPerRequestPricing p =
     (if sp_QuotaType p = Some 1 then True
      else trim_space (to_lower (sp_BillingType p)) \<in> {''per_request'', ''fixed''})"

definition perRequestCost :: "selected_pricing \<Rightarrow> float64 option" where
  "perRequestCost p = (case sp_PerRequestValue p of
      Some v \<Rightarrow> Some v
    | None \<Rightarrow> (case sp_ModelPrice p of
        None \<Rightarrow> None
      | Some m \<Rightarrow> Some (m * (case sp_GroupRatio p of Some g \<Rightarrow> g | None \<Rightarrow> 1))))"

definition cacheWriteRatioValue :: "float64 option \<Rightarrow> float64" where
  "cacheWriteRatioValue ratio = (case ratio of None \<Rightarrow> 1 | Some r \<Rightarrow> r)"

definition imageUnitCost :: "selected_pricing \<Rightarrow> float64 option" where
  "imageUnitCost p = (case (sp_InputValue p, sp_ImageRatio p) of (Some i, Some r) \<Rightarrow> Some (i * r) | _ \<Rightarrow> None)"

text \<open>One conditional addition to a running total and its \<open>usedPrice\<close> flag.\<close>

definition add_cost :: "bool \<Rightarrow> float64 \<Rightarrow> float64 \<times> bool \<Rightarrow> float64 \<times> bool" where
  "add_cost b cost t = (if b then (fst t + cost, True) else t)"

definition imageTokenCost :: "gateway_usage \<Rightarrow> selected_pricing \<Rightarrow> float64 \<times> bool" where
  "imageTokenCost u p =
     (let t = (case sp_InputValue p of
            Some i \<Rightarrow> add_cost (inputTextTokensOrPrompt u > 0) (cost_of (inputTextTokensOrPrompt u) i) (0, False)
          | None \<Rightarrow> (0, False));
          t = (case (sp_InputValue p, sp_ImageRatio p) of
            (Some i, Some r) \<Rightarrow> add_cost (gu_InputImageTokens u > 0) (cost_of (gu_InputImageTokens u) (i * r)) t
          | _ \<Rightarrow> t)
      in (case sp_OutputValue p of
            Some out \<Rightarrow> add_cost (outputImageTokensOrCompletion u > 0) (cost_of (outputImageTokensOrCompletion u) out) t
          | None \<Rightarrow> t))"

definition cacheWriteTokenCost :: "gateway_usage \<Rightarrow> selected_pricing \<Rightarrow> float64 \<times> bool" where
  "cacheWriteTokenCost u0 p = (case sp_InputValue p of
      None \<Rightarrow> (0, False)
    | Some i \<Rightarrow>
        (let u = normalized u0;
             w = cacheWriteRatioValue (sp_CacheWriteRatio p);
             w1h = cacheWriteRatioValue (if sp_CacheWrite1hRatio p = None then sp_CacheWriteRatio p else sp_CacheWrite1hRatio p);
             t = add_cost (gu_CacheWriteTokens u > 0) (cost_of (gu_CacheWriteTokens u) (i * w)) (0, False)
         in if hasCacheCreationBreakdown u then
              add_cost (gu_CacheCreation1hInputTokens u > 0) (cost_of (gu_CacheCreation1hInputTokens u) (i * w1h))
                (add_cost (gu_CacheCreation5mInputTokens u > 0) (cost_of (gu_CacheCreation5mInputTokens u) (i * w)) t)
            else add_cost (gu_CacheCreationInputTokens u > 0) (cost_of (gu_CacheCreationInputTokens u) (i * w)) t))"

definition audioOutputUnitValue :: "selected_pricing \<Rightarrow> float64 option" where
  "audioOutputUnitValue p = (case (sp_InputValue p, sp_AudioRatio p) of
      (Some i, Some a) \<Rightarrow> Some (case sp_AudioCompletionRatio p of Some c \<Rightarrow> i * a * c | None \<Rightarrow> i * a)
    | _ \<Rightarrow> None)"

definition token_cost :: "gateway_usage \<Rightarrow> selected_pricing \<Rightarrow> float64 \<times> bool" where
  "token_cost u p =
     (let uncached = uncachedPromptTokens u;
          t = (case sp_InputValue p of
            Some i \<Rightarrow> add_cost (uncached > 0) (cost_of uncached i) (0, False) | None \<Rightarrow> (0, False));
          t = (case (sp_InputValue p, sp_CacheRatio p) of
            (Some i, Some r) \<Rightarrow> add_cost (gu_CachedPromptTokens u > 0) (cost_of (gu_CachedPromptTokens u) (i * r)) t
          | _ \<Rightarrow> t);
          t = (case sp_InputValue p of
            Some i \<Rightarrow> (let (cost, has) = cacheWriteTokenCost u p in add_cost has cost t) | None \<Rightarrow> t);
          t = (case sp_OutputValue p of
            Some out \<Rightarrow> add_cost (gu_CompletionTokens u > 0) (cost_of (gu_CompletionTokens u) out) t | None \<Rightarrow> t)
      in (case audioOutputUnitValue p of
            Some a \<Rightarrow> add_cost (gu_AudioOutputTokens u > 0) (cost_of (gu_AudioOutputTokens u) a) t
          | None \<Rightarrow> t))"

definition when_used :: "float64 \<times> bool \<Rightarrow> float64 option" where
  "when_used t = (if snd t then Some (fst t) else None)"

definition estimateCost :: "gateway_usage \<Rightarrow> selected_pricing \<Rightarrow> float64 option" where
  "estimateCost usage p =
     (let u = normalized usage in
      if isPerRequestPricing p then perRequestCost p
      else if gu_ImageCount u > 0 then
        (if snd (imageTokenCost u p) then Some (fst (imageTokenCost u p))
         else map_option (\<lambda>v. of_int (gu_ImageCount u) * v) (imageUnitCost p))
      else when_used (token_cost u p))"

definition applyLongContextPricing :: "gateway_usage \<Rightarrow> selected_pricing \<Rightarrow> selected_pricing" where
  "applyLongContextPricing usage p = (case sp_LongContextRule p of
      None \<Rightarrow> p
    | Some rule \<Rightarrow>
        if sp_LongContextApplied p then p
        else if isPerRequestPricing p then p
        else let u = normalized usage in
          if gu_ImageCount u > 0 \<or> gu_PromptTokens u \<le> lcr_ThresholdTokens rule then p
          else p\<lparr>sp_InputValue := map_option (\<lambda>v. v * lcr_InputMultiplier rule) (sp_InputValue p),
                 sp_OutputValue := map_option (\<lambda>v. v * lcr_OutputMultiplier rule) (sp_OutputValue p),
                 sp_LongContextApplied := True\<rparr>)"

section \<open>Billing adjustments\<close>

definition isFastServiceTier :: "string \<Rightarrow> bool" where
  "isFastServiceTier serviceTier \<longleftrightarrow> trim_space (to_lower serviceTier) \<in> {''fast'', ''priority''}"

definition billingAdjustmentFromPayload :: "obj \<Rightarrow> billing_adjustment" where
  "billingAdjustmentFromPayload payload =
     (let serviceTier = trim_space (to_lower (anyString (obj_get payload ''service_tier''))) in
      \<lparr>ba_ServiceTier = serviceTier,
       ba_Mode = (if serviceTier = ''standard'' then ''standard''
                  else if isFastServiceTier serviceTier then ''fast'' else []),
       ba_Multiplier = 1, ba_Reason = []\<rparr>)"

definition catalog_ratio :: "obj \<Rightarrow> string \<Rightarrow> float64 \<Rightarrow> float64 option \<Rightarrow> float64 option" where
  "catalog_ratio cost key input old = (case obj_get cost key of AFloat v \<Rightarrow> Some (v / input) | _ \<Rightarrow> old)"

definition applyCatalogCost :: "selected_pricing \<Rightarrow> obj \<Rightarrow> selected_pricing" where
  "applyCatalogCost p0 cost =
     (let p = (case obj_get cost ''input'' of AFloat v \<Rightarrow> p0\<lparr>sp_InputValue := Some v\<rparr> | _ \<Rightarrow> p0);
          p = (case obj_get cost ''output'' of AFloat v \<Rightarrow> p\<lparr>sp_OutputValue := Some v\<rparr> | _ \<Rightarrow> p)
      in case sp_InputValue p of
          Some i \<Rightarrow>
            if i > 0 then p\<lparr>sp_CacheRatio := catalog_ratio cost ''cache_read'' i (sp_CacheRatio p),
                            sp_CacheWriteRatio := catalog_ratio cost ''cache_write'' i (sp_CacheWriteRatio p),
                            sp_CacheWrite1hRatio := catalog_ratio cost ''cache_write_1h'' i (sp_CacheWrite1hRatio p)\<rparr>
            else p
        | None \<Rightarrow> p)"

definition fast_mode_cost :: "obj \<Rightarrow> obj" where
  "fast_mode_cost variants =
     as_obj (obj_get (as_obj (obj_get (as_obj (obj_get (as_obj (obj_get variants ''experimental'')) ''modes'')) ''fast'')) ''cost'')"

definition applyUpstreamBillingMetadata :: "attempt_billing \<Rightarrow> obj \<Rightarrow> candidate \<Rightarrow> attempt_billing" where
  "applyUpstreamBillingMetadata result payload cand =
     (let adjustment = billingAdjustmentFromPayload payload;
          r = result\<lparr>ab_serviceTier := ba_ServiceTier adjustment, ab_billingMode := ba_Mode adjustment,
                     ab_costMultiplier := ba_Multiplier adjustment, ab_multiplierReason := ba_Reason adjustment\<rparr>
      in if ba_Mode adjustment = ''fast'' then
          (case unmarshal_map (cmo_PricingVariants (cand_Model cand)) of
             None \<Rightarrow> r
           | Some variants \<Rightarrow>
               (let cost = fast_mode_cost variants;
                    r = r\<lparr>ab_pricing := applyCatalogCost (ab_pricing r) cost\<rparr>
                in if length cost > 0 then r\<lparr>ab_multiplierReason := ''catalog_fast_mode''\<rparr> else r))
         else r)"

definition applyRequestBillingMetadata :: "attempt_billing \<Rightarrow> obj \<Rightarrow> obj \<Rightarrow> candidate \<Rightarrow> attempt_billing" where
  "applyRequestBillingMetadata result upstreamPayload requestPayload cand =
     (let r = applyUpstreamBillingMetadata result upstreamPayload cand;
          requested = billingAdjustmentFromPayload requestPayload
      in if ab_billingMode r = [] \<and> ba_Mode requested = ''standard'' then
          r\<lparr>ab_serviceTier := ba_ServiceTier requested, ab_billingMode := ba_Mode requested,
            ab_costMultiplier := ba_Multiplier requested, ab_multiplierReason := ba_Reason requested\<rparr>
         else r)"

definition gatewayBillingMultiplier :: "attempt_billing \<Rightarrow> float64" where
  "gatewayBillingMultiplier r =
     (let credentialMultiplier = (if ab_credentialCostMultiplier r \<le> 0 then 1 else ab_credentialCostMultiplier r);
          apiKeyMultiplier = (if ab_apiKeyBillingMultiplier r \<le> 0 then 1 else ab_apiKeyBillingMultiplier r);
          serviceMultiplier = (if ab_billingMode r = ''fast'' \<and> ab_costMultiplier r > 1 then ab_costMultiplier r else 1)
      in credentialMultiplier * serviceMultiplier * apiKeyMultiplier)"

definition applyEstimatedCostBillingAdjustment :: "attempt_billing \<Rightarrow> attempt_billing" where
  "applyEstimatedCostBillingAdjustment r = (case ab_estimatedCost r of
      None \<Rightarrow> r
    | Some baseCost \<Rightarrow>
        (let r' = r\<lparr>ab_baseEstimatedCost := Some baseCost\<rparr>; multiplier = gatewayBillingMultiplier r'
         in if multiplier = 1 then r' else r'\<lparr>ab_estimatedCost := Some (baseCost * multiplier)\<rparr>))"

definition cacheWriteCostForAttempt :: "gateway_usage \<Rightarrow> attempt_billing \<Rightarrow> float64 option" where
  "cacheWriteCostForAttempt usage r =
     (let (cost, has) = cacheWriteTokenCost usage (ab_pricing r)
      in if has then Some (cost * gatewayBillingMultiplier r) else None)"

section \<open>Metadata\<close>

definition pricingMetadata :: "selected_pricing \<Rightarrow> obj" where
  "pricingMetadata p =
     [(''group_name'', emptyToNil (sp_GroupName p)), (''currency'', emptyToNil (sp_Currency p)),
      (''input_value'', float64PtrValue (sp_InputValue p)), (''output_value'', float64PtrValue (sp_OutputValue p)),
      (''cache_ratio'', float64PtrValue (sp_CacheRatio p)),
      (''cache_input_value'', scaledFloat64Value (sp_InputValue p) (sp_CacheRatio p)),
      (''cache_write_ratio'', float64PtrValue (sp_CacheWriteRatio p)),
      (''cache_write_input_value'', scaledFloat64Value (sp_InputValue p) (sp_CacheWriteRatio p)),
      (''cache_write_1h_ratio'', float64PtrValue (sp_CacheWrite1hRatio p)),
      (''cache_write_1h_input_value'', scaledFloat64Value (sp_InputValue p) (sp_CacheWrite1hRatio p)),
      (''group_ratio'', float64PtrValue (sp_GroupRatio p)), (''model_ratio'', float64PtrValue (sp_ModelRatio p)),
      (''completion_ratio'', float64PtrValue (sp_CompletionRatio p)), (''image_ratio'', float64PtrValue (sp_ImageRatio p)),
      (''model_price'', float64PtrValue (sp_ModelPrice p)), (''per_request_value'', float64PtrValue (sp_PerRequestValue p)),
      (''billing_type'', emptyToNil (sp_BillingType p)), (''quota_type'', int64PtrValue (sp_QuotaType p))]"

definition withLongContextMetadata :: "obj \<Rightarrow> selected_pricing \<Rightarrow> obj" where
  "withLongContextMetadata meta p = (case sp_LongContextRule p of
      None \<Rightarrow> meta
    | Some rule \<Rightarrow>
        (let m = obj_set ''long_context'' (ABool (sp_LongContextApplied p)) meta in
         if sp_LongContextApplied p then
           obj_set ''long_context_output_multiplier'' (AFloat (lcr_OutputMultiplier rule))
             (obj_set ''long_context_input_multiplier'' (AFloat (lcr_InputMultiplier rule))
               (obj_set ''long_context_threshold_tokens'' (AInt (lcr_ThresholdTokens rule)) m))
         else m))"

definition withBillingAdjustmentMetadata :: "obj \<Rightarrow> billing_adjustment \<Rightarrow> float64 option \<Rightarrow> obj" where
  "withBillingAdjustmentMetadata meta a baseTotal =
     (let m = (if trim_space (ba_ServiceTier a) \<noteq> [] then obj_set ''service_tier'' (AString (ba_ServiceTier a)) meta else meta);
          m = (if trim_space (ba_Mode a) \<noteq> [] then obj_set ''billing_mode'' (AString (ba_Mode a)) m else m)
      in if ba_Multiplier a > 1 then
           obj_set ''cost_multiplier_reason'' (emptyToNil (ba_Reason a))
             (obj_set ''cost_multiplier'' (AFloat (ba_Multiplier a))
               (obj_set ''base_estimated_cost'' (float64PtrValue baseTotal) m))
         else m)"

definition cost_when :: "float64 option \<Rightarrow> bool \<Rightarrow> (float64 \<Rightarrow> float64) \<Rightarrow> any" where
  "cost_when value b f = (case value of Some v \<Rightarrow> if b then AFloat (f v) else ANil | None \<Rightarrow> ANil)"

definition per_request_metadata :: "gateway_usage \<Rightarrow> selected_pricing \<Rightarrow> float64 option \<Rightarrow> obj" where
  "per_request_metadata u p estimate =
     [(''formula'', AString ''per_request_value''), (''billing_type'', emptyToNil (sp_BillingType p)),
      (''quota_type'', int64PtrValue (sp_QuotaType p)), (''model_price'', float64PtrValue (sp_ModelPrice p)),
      (''group_ratio'', float64PtrValue (sp_GroupRatio p)), (''per_request_value'', float64PtrValue (sp_PerRequestValue p)),
      (''per_request_cost'', float64PtrValue (perRequestCost p)), (''prompt_tokens'', AInt (gu_PromptTokens u)),
      (''completion_tokens'', AInt (gu_CompletionTokens u)), (''image_count'', AInt (gu_ImageCount u)),
      (''estimated_cost'', float64PtrValue estimate), (''currency'', emptyToNil (sp_Currency p))]"

definition image_metadata :: "gateway_usage \<Rightarrow> selected_pricing \<Rightarrow> float64 option \<Rightarrow> obj" where
  "image_metadata u p estimate =
     (if snd (imageTokenCost u p) then
        [(''formula'', AString ''input_text_tokens * input_value / 1000000 + input_image_tokens * image_input_value / 1000000 + output_image_tokens * output_value / 1000000''),
         (''image_count'', AInt (gu_ImageCount u)), (''input_text_tokens'', AInt (gu_InputTextTokens u)),
         (''input_image_tokens'', AInt (gu_InputImageTokens u)),
         (''output_image_tokens'', AInt (outputImageTokensOrCompletion u)),
         (''input_value'', float64PtrValue (sp_InputValue p)), (''output_value'', float64PtrValue (sp_OutputValue p)),
         (''image_ratio'', float64PtrValue (sp_ImageRatio p)),
         (''image_input_value'', scaledFloat64Value (sp_InputValue p) (sp_ImageRatio p)),
         (''group_ratio'', float64PtrValue (sp_GroupRatio p)), (''estimated_cost'', float64PtrValue estimate),
         (''currency'', emptyToNil (sp_Currency p))]
      else
        [(''formula'', AString ''image_count * input_value * image_ratio''), (''image_count'', AInt (gu_ImageCount u)),
         (''input_value'', float64PtrValue (sp_InputValue p)), (''image_ratio'', float64PtrValue (sp_ImageRatio p)),
         (''image_unit_cost'', float64PtrValue (imageUnitCost p)), (''group_ratio'', float64PtrValue (sp_GroupRatio p)),
         (''estimated_cost'', float64PtrValue estimate), (''currency'', emptyToNil (sp_Currency p))])"

definition prompt_cost_value :: "gateway_usage \<Rightarrow> selected_pricing \<Rightarrow> any" where
  "prompt_cost_value u p = cost_when (sp_InputValue p) (uncachedPromptTokens u > 0) (cost_of (uncachedPromptTokens u))"

definition completion_cost_value :: "gateway_usage \<Rightarrow> selected_pricing \<Rightarrow> any" where
  "completion_cost_value u p = cost_when (sp_OutputValue p) (gu_CompletionTokens u > 0) (cost_of (gu_CompletionTokens u))"

definition cache_cost_value :: "gateway_usage \<Rightarrow> selected_pricing \<Rightarrow> any" where
  "cache_cost_value u p = (case (sp_InputValue p, sp_CacheRatio p) of
      (Some i, Some r) \<Rightarrow> if gu_CachedPromptTokens u > 0 then AFloat (cost_of (gu_CachedPromptTokens u) (i * r)) else ANil
    | _ \<Rightarrow> ANil)"

definition cache_write_cost_value :: "gateway_usage \<Rightarrow> selected_pricing \<Rightarrow> any" where
  "cache_write_cost_value u p = float64PtrValue (when_used (cacheWriteTokenCost u p))"

definition audio_cost_value :: "gateway_usage \<Rightarrow> selected_pricing \<Rightarrow> any" where
  "audio_cost_value u p = cost_when (audioOutputUnitValue p) (gu_AudioOutputTokens u > 0) (cost_of (gu_AudioOutputTokens u))"

definition token_metadata :: "gateway_usage \<Rightarrow> selected_pricing \<Rightarrow> float64 option \<Rightarrow> obj" where
  "token_metadata u p estimate =
     (let w = cacheWriteRatioValue (sp_CacheWriteRatio p);
          w1h = cacheWriteRatioValue (if sp_CacheWrite1hRatio p = None then sp_CacheWriteRatio p else sp_CacheWrite1hRatio p) in
      [(''formula'', AString ''prompt_tokens * input_value / 1000000 + cache_tokens * cache_input_value / 1000000 + cache_creation_5m_tokens * cache_write_input_value / 1000000 + cache_creation_1h_tokens * cache_write_1h_input_value / 1000000 + completion_tokens * output_value / 1000000 + audio_output_tokens * audio_output_value / 1000000''),
       (''input_tokens'', AInt (gu_PromptTokens u)), (''prompt_tokens'', AInt (uncachedPromptTokens u)),
       (''completion_tokens'', AInt (gu_CompletionTokens u)), (''cache_tokens'', AInt (gu_CachedPromptTokens u)),
       (''cached_tokens'', AInt (gu_CachedPromptTokens u)), (''cache_write_tokens'', AInt (gu_CacheWriteTokens u)),
       (''cache_creation_tokens'', AInt (gu_CacheCreationInputTokens u)),
       (''cache_creation_5m_tokens'', AInt (gu_CacheCreation5mInputTokens u)),
       (''cache_creation_1h_tokens'', AInt (gu_CacheCreation1hInputTokens u)),
       (''input_value'', float64PtrValue (sp_InputValue p)), (''output_value'', float64PtrValue (sp_OutputValue p)),
       (''cache_ratio'', float64PtrValue (sp_CacheRatio p)),
       (''cache_input_value'', scaledFloat64Value (sp_InputValue p) (sp_CacheRatio p)),
       (''cache_write_ratio'', float64PtrValue (sp_CacheWriteRatio p)),
       (''cache_write_input_value'', scaledFloat64Value (sp_InputValue p) (sp_CacheWriteRatio p)),
       (''cache_write_1h_ratio'', float64PtrValue (sp_CacheWrite1hRatio p)),
       (''cache_write_1h_input_value'', scaledFloat64Value (sp_InputValue p) (sp_CacheWrite1hRatio p)),
       (''group_ratio'', float64PtrValue (sp_GroupRatio p)),
       (''prompt_cost'', prompt_cost_value u p), (''completion_cost'', completion_cost_value u p),
       (''cache_cost'', cache_cost_value u p), (''cache_input_cost'', cache_cost_value u p),
       (''cached_cost'', cache_cost_value u p), (''cache_write_cost'', cache_write_cost_value u p),
       (''cache_write_5m_cost'', cost_when (sp_InputValue p) (gu_CacheCreation5mInputTokens u > 0)
          (\<lambda>i. cost_of (gu_CacheCreation5mInputTokens u) (i * w))),
       (''cache_write_1h_cost'', cost_when (sp_InputValue p) (gu_CacheCreation1hInputTokens u > 0)
          (\<lambda>i. cost_of (gu_CacheCreation1hInputTokens u) (i * w1h))),
       (''audio_output_tokens'', zeroIntToNil (gu_AudioOutputTokens u)), (''audio_ratio'', float64PtrValue (sp_AudioRatio p)),
       (''audio_completion_ratio'', float64PtrValue (sp_AudioCompletionRatio p)),
       (''audio_output_value'', float64PtrValue (audioOutputUnitValue p)), (''audio_output_cost'', audio_cost_value u p),
       (''estimated_cost'', float64PtrValue estimate), (''currency'', emptyToNil (sp_Currency p))])"

definition costCalculationMetadata ::
  "gateway_usage \<Rightarrow> selected_pricing \<Rightarrow> float64 option \<Rightarrow> billing_adjustment \<Rightarrow> float64 option \<Rightarrow> obj" where
  "costCalculationMetadata usage p estimate adjustment baseTotal =
     (let u = normalized usage in
      if isPerRequestPricing p then withBillingAdjustmentMetadata (per_request_metadata u p estimate) adjustment baseTotal
      else if gu_ImageCount u > 0 then withBillingAdjustmentMetadata (image_metadata u p estimate) adjustment baseTotal
      else withLongContextMetadata
        (withBillingAdjustmentMetadata (token_metadata u p estimate) adjustment baseTotal) p)"

section \<open>Normal usage\<close>

text \<open>A report of an upstream: counts that are not negative and far from the limits of an integer.\<close>

definition count_ok :: "int \<Rightarrow> bool" where
  "count_ok n \<longleftrightarrow> 0 \<le> n \<and> n < 2 ^ 60"

definition usage_ok :: "gateway_usage \<Rightarrow> bool" where
  "usage_ok u \<longleftrightarrow> count_ok (gu_PromptTokens u) \<and> count_ok (gu_CompletionTokens u) \<and> 0 \<le> gu_TotalTokens u
   \<and> count_ok (gu_CachedPromptTokens u) \<and> count_ok (gu_PromptCacheHitTokens u) \<and> count_ok (gu_PromptCacheMissTokens u)
   \<and> count_ok (gu_CacheWriteTokens u) \<and> count_ok (gu_CacheCreationInputTokens u)
   \<and> count_ok (gu_CacheCreation5mInputTokens u) \<and> count_ok (gu_CacheCreation1hInputTokens u)
   \<and> 0 \<le> gu_AudioOutputTokens u \<and> 0 \<le> gu_ImageCount u \<and> 0 \<le> gu_InputTextTokens u \<and> 0 \<le> gu_InputImageTokens u
   \<and> 0 \<le> gu_OutputImageTokens u
   \<and> (case gu_PromptTokensDetail u of None \<Rightarrow> True | Some (c, w) \<Rightarrow> count_ok c \<and> count_ok w)"

lemma wrap64_sum: "0 \<le> a \<Longrightarrow> a < 2 ^ 62 \<Longrightarrow> 0 \<le> b \<Longrightarrow> b < 2 ^ 62 \<Longrightarrow> wrap64 (a + b) = a + b"
  by (rule wrap64_eqI) auto

lemma settle_prompt_eq:
  "usage_ok u \<Longrightarrow> settle_prompt u = u\<lparr>gu_PromptTokens :=
     (if gu_PromptTokens u = 0 then gu_PromptCacheHitTokens u + gu_PromptCacheMissTokens u else gu_PromptTokens u)\<rparr>"
  by (cases u) (auto simp: settle_prompt_def usage_ok_def count_ok_def wrap64_sum Let_def)

definition detail_cached :: "gateway_usage \<Rightarrow> int" where
  "detail_cached u = (case gu_PromptTokensDetail u of None \<Rightarrow> 0 | Some (c, w) \<Rightarrow> c)"

definition detail_written :: "gateway_usage \<Rightarrow> int" where
  "detail_written u = (case gu_PromptTokensDetail u of None \<Rightarrow> 0 | Some (c, w) \<Rightarrow> w)"

lemma usage_ok_detail: "usage_ok u \<Longrightarrow> count_ok (detail_cached u) \<and> count_ok (detail_written u)"
  by (auto simp: usage_ok_def detail_cached_def detail_written_def count_ok_def split: option.splits)

lemma settle_cached_eq:
  "0 \<le> gu_CachedPromptTokens u \<Longrightarrow> 0 \<le> gu_PromptCacheHitTokens u \<Longrightarrow> 0 \<le> detail_cached u \<Longrightarrow>
   settle_cached u = u\<lparr>gu_CachedPromptTokens :=
     (if gu_CachedPromptTokens u \<noteq> 0 then gu_CachedPromptTokens u
      else if gu_PromptCacheHitTokens u > 0 then gu_PromptCacheHitTokens u else detail_cached u)\<rparr>"
  by (cases u) (auto simp: settle_cached_def detail_cached_def Let_def split: option.splits)

lemma settle_written_eq:
  "0 \<le> gu_CacheWriteTokens u \<Longrightarrow> 0 \<le> detail_written u \<Longrightarrow>
   settle_written u = u\<lparr>gu_CacheWriteTokens :=
     (if gu_CacheWriteTokens u \<noteq> 0 then gu_CacheWriteTokens u else detail_written u)\<rparr>"
  by (cases u) (auto simp: settle_written_def detail_written_def Let_def split: option.splits)

lemma settle_creation_eq:
  assumes "count_ok (gu_CacheCreationInputTokens u)" "count_ok (gu_CacheCreation5mInputTokens u)" "count_ok (gu_CacheCreation1hInputTokens u)"
  shows "settle_creation u = u\<lparr>
     gu_CacheCreationInputTokens := (if gu_CacheCreationInputTokens u = 0
       then gu_CacheCreation5mInputTokens u + gu_CacheCreation1hInputTokens u else gu_CacheCreationInputTokens u),
     gu_CacheCreation5mInputTokens := (if gu_CacheCreation5mInputTokens u = 0 \<and> gu_CacheCreation1hInputTokens u = 0
       then gu_CacheCreationInputTokens u else gu_CacheCreation5mInputTokens u)\<rparr>"
  using assms by (cases u) (auto simp: settle_creation_def count_ok_def wrap64_sum Let_def)

lemma clamp_eq:
  "clamp_to_prompt u = u\<lparr>
     gu_CachedPromptTokens := (if gu_PromptTokens u > 0 then min (gu_CachedPromptTokens u) (gu_PromptTokens u) else gu_CachedPromptTokens u),
     gu_CacheWriteTokens := (if gu_PromptTokens u > 0 then min (gu_CacheWriteTokens u) (gu_PromptTokens u) else gu_CacheWriteTokens u)\<rparr>"
  by (cases u) (auto simp: clamp_to_prompt_def Let_def)

text \<open>The fields of a normalised report.\<close>

definition norm_prompt :: "gateway_usage \<Rightarrow> int" where
  "norm_prompt u = (if gu_PromptTokens u = 0 then gu_PromptCacheHitTokens u + gu_PromptCacheMissTokens u else gu_PromptTokens u)"

definition norm_cached :: "gateway_usage \<Rightarrow> int" where
  "norm_cached u = (let c = (if gu_CachedPromptTokens u \<noteq> 0 then gu_CachedPromptTokens u
      else if gu_PromptCacheHitTokens u > 0 then gu_PromptCacheHitTokens u else detail_cached u)
    in if norm_prompt u > 0 then min c (norm_prompt u) else c)"

definition norm_written :: "gateway_usage \<Rightarrow> int" where
  "norm_written u = (let w = (if gu_CacheWriteTokens u \<noteq> 0 then gu_CacheWriteTokens u else detail_written u)
    in if norm_prompt u > 0 then min w (norm_prompt u) else w)"

definition norm_creation :: "gateway_usage \<Rightarrow> int" where
  "norm_creation u = (if gu_CacheCreationInputTokens u = 0
       then gu_CacheCreation5mInputTokens u + gu_CacheCreation1hInputTokens u else gu_CacheCreationInputTokens u)"

definition norm_5m :: "gateway_usage \<Rightarrow> int" where
  "norm_5m u = (if gu_CacheCreation5mInputTokens u = 0 \<and> gu_CacheCreation1hInputTokens u = 0
       then gu_CacheCreationInputTokens u else gu_CacheCreation5mInputTokens u)"

definition norm_total :: "gateway_usage \<Rightarrow> int" where
  "norm_total u = (if gu_TotalTokens u = 0 then norm_prompt u + gu_CompletionTokens u else gu_TotalTokens u)"

lemma normalized_eq:
  assumes "usage_ok u"
  shows "normalized u = u\<lparr>gu_PromptTokens := norm_prompt u, gu_TotalTokens := norm_total u,
    gu_CachedPromptTokens := norm_cached u, gu_CacheWriteTokens := norm_written u,
    gu_CacheCreationInputTokens := norm_creation u, gu_CacheCreation5mInputTokens := norm_5m u\<rparr>"
proof -
  have c: "count_ok (detail_cached u)" "count_ok (detail_written u)" using usage_ok_detail[OF assms] by simp_all
  define u1 where "u1 = u\<lparr>gu_PromptTokens := norm_prompt u\<rparr>"
  have 1: "settle_prompt u = u1" using settle_prompt_eq[OF assms] by (simp add: u1_def norm_prompt_def)
  have d1: "detail_cached u1 = detail_cached u" "detail_written u1 = detail_written u"
    by (simp_all add: u1_def detail_cached_def detail_written_def)
  define cc where "cc = (if gu_CachedPromptTokens u \<noteq> 0 then gu_CachedPromptTokens u
      else if gu_PromptCacheHitTokens u > 0 then gu_PromptCacheHitTokens u else detail_cached u)"
  define u2 where "u2 = u1\<lparr>gu_CachedPromptTokens := cc\<rparr>"
  have 2: "settle_cached u1 = u2"
    using settle_cached_eq[of u1] assms c d1 by (simp add: u2_def u1_def cc_def usage_ok_def count_ok_def)
  define ww where "ww = (if gu_CacheWriteTokens u \<noteq> 0 then gu_CacheWriteTokens u else detail_written u)"
  define u3 where "u3 = u2\<lparr>gu_CacheWriteTokens := ww\<rparr>"
  have "detail_written u2 = detail_written u" by (simp add: u2_def u1_def detail_written_def)
  then have 3: "settle_written u2 = u3"
    using settle_written_eq[of u2] assms c by (simp add: u3_def u2_def u1_def ww_def usage_ok_def count_ok_def)
  have 4: "settle_creation u3 = u3\<lparr>gu_CacheCreationInputTokens := norm_creation u, gu_CacheCreation5mInputTokens := norm_5m u\<rparr>"
    using settle_creation_eq[of u3] assms by (simp add: u3_def u2_def u1_def norm_creation_def norm_5m_def usage_ok_def)
  have sum: "wrap64 (norm_prompt u + gu_CompletionTokens u) = norm_prompt u + gu_CompletionTokens u"
    using assms by (intro wrap64_sum) (auto simp: norm_prompt_def usage_ok_def count_ok_def)
  show ?thesis
    unfolding normalized_def 1 2 3 4 clamp_eq settle_total_def
    by (rule gateway_usage.equality)
       (simp_all add: u3_def u2_def u1_def norm_total_def norm_cached_def norm_written_def Let_def sum flip: cc_def ww_def)
qed

lemma norm_bounds:
  assumes "usage_ok u"
  shows "0 \<le> norm_prompt u" "norm_prompt u < 2 ^ 61" "count_ok (norm_cached u)" "count_ok (norm_written u)"
    "0 \<le> norm_creation u" "norm_creation u < 2 ^ 61" "count_ok (norm_5m u)" "0 \<le> norm_total u"
    "norm_prompt u > 0 \<Longrightarrow> norm_cached u \<le> norm_prompt u" "norm_prompt u > 0 \<Longrightarrow> norm_written u \<le> norm_prompt u"
proof -
  note c = usage_ok_detail[OF assms]
  have p: "0 \<le> norm_prompt u \<and> norm_prompt u < 2 ^ 61"
    using assms by (auto simp: norm_prompt_def usage_ok_def count_ok_def)
  then show "0 \<le> norm_prompt u" "norm_prompt u < 2 ^ 61" by simp_all
  show "count_ok (norm_cached u)" "norm_prompt u > 0 \<Longrightarrow> norm_cached u \<le> norm_prompt u"
    using assms c p by (auto simp: norm_cached_def usage_ok_def count_ok_def Let_def)
  show "count_ok (norm_written u)" "norm_prompt u > 0 \<Longrightarrow> norm_written u \<le> norm_prompt u"
    using assms c p by (auto simp: norm_written_def usage_ok_def count_ok_def Let_def)
  show "0 \<le> norm_creation u" "norm_creation u < 2 ^ 61" "count_ok (norm_5m u)" "0 \<le> norm_total u"
    using assms p by (auto simp: norm_creation_def norm_5m_def norm_total_def usage_ok_def count_ok_def)
qed

text \<open>The conditions under which normalisation changes nothing.\<close>

lemma settled_fixed:
  assumes "0 \<le> gu_PromptCacheHitTokens u" "0 \<le> gu_PromptCacheMissTokens u" "0 \<le> gu_CachedPromptTokens u" "0 \<le> gu_CacheWriteTokens u"
    and "gu_PromptTokens u = 0 \<Longrightarrow> gu_PromptCacheHitTokens u = 0 \<and> gu_PromptCacheMissTokens u = 0"
    and "gu_CachedPromptTokens u = 0 \<Longrightarrow> gu_PromptCacheHitTokens u = 0 \<and> detail_cached u = 0"
    and "gu_CacheWriteTokens u = 0 \<Longrightarrow> detail_written u = 0"
    and "gu_CacheCreationInputTokens u = 0 \<Longrightarrow> gu_CacheCreation5mInputTokens u = 0 \<and> gu_CacheCreation1hInputTokens u = 0"
    and "gu_CacheCreation5mInputTokens u = 0 \<Longrightarrow> gu_CacheCreation1hInputTokens u = 0 \<Longrightarrow> gu_CacheCreationInputTokens u \<le> 0"
    and "gu_PromptTokens u > 0 \<Longrightarrow> gu_CachedPromptTokens u \<le> gu_PromptTokens u \<and> gu_CacheWriteTokens u \<le> gu_PromptTokens u"
    and "gu_TotalTokens u = 0 \<Longrightarrow> gu_PromptTokens u + gu_CompletionTokens u = 0"
  shows "normalized u = u"
proof -
  have zero: "wrap64 0 = 0" by (simp add: wrap64_def)
  have "settle_prompt u = u" using assms(1,2,5) by (auto simp: settle_prompt_def Let_def)
  moreover have "settle_cached u = u"
    using assms(1,3,6) by (cases u) (auto simp: settle_cached_def detail_cached_def Let_def split: option.splits)
  moreover have "settle_written u = u"
    using assms(4,7) by (cases u) (auto simp: settle_written_def detail_written_def Let_def split: option.splits)
  moreover have "settle_creation u = u"
    using assms(8,9) zero by (cases u) (auto simp: settle_creation_def Let_def)
  moreover have "clamp_to_prompt u = u"
    using assms(10) by (cases u) (auto simp: clamp_to_prompt_def Let_def)
  moreover have "settle_total u = u"
    using assms(11) zero by (cases u) (auto simp: settle_total_def)
  ultimately show ?thesis by (simp add: normalized_def)
qed

lemma normalized_idem:
  assumes "usage_ok u"
  shows "normalized (normalized u) = normalized u"
proof (rule settled_fixed)
  note b = norm_bounds[OF assms]
  note e = normalized_eq[OF assms]
  have d: "detail_cached (normalized u) = detail_cached u" "detail_written (normalized u) = detail_written u"
    by (simp_all add: e detail_cached_def detail_written_def)
  have dc: "0 \<le> detail_cached u" "0 \<le> detail_written u" using usage_ok_detail[OF assms] by (simp_all add: count_ok_def)
  have n: "0 \<le> gu_PromptCacheHitTokens u" "0 \<le> gu_PromptCacheMissTokens u" "0 \<le> gu_CachedPromptTokens u" "0 \<le> gu_CacheWriteTokens u"
    "0 \<le> gu_CacheCreationInputTokens u" "0 \<le> gu_CacheCreation5mInputTokens u" "0 \<le> gu_CacheCreation1hInputTokens u"
    "0 \<le> gu_PromptTokens u" "0 \<le> gu_CompletionTokens u" "0 \<le> gu_TotalTokens u"
    using assms by (simp_all add: usage_ok_def count_ok_def)
  show "0 \<le> gu_PromptCacheHitTokens (normalized u)" "0 \<le> gu_PromptCacheMissTokens (normalized u)"
    "0 \<le> gu_CachedPromptTokens (normalized u)" "0 \<le> gu_CacheWriteTokens (normalized u)"
    using b n by (simp_all add: e count_ok_def)
  show "gu_PromptCacheHitTokens (normalized u) = 0 \<and> gu_PromptCacheMissTokens (normalized u) = 0"
    if "gu_PromptTokens (normalized u) = 0"
    using that n by (auto simp: e norm_prompt_def split: if_splits)
  show "gu_PromptCacheHitTokens (normalized u) = 0 \<and> detail_cached (normalized u) = 0"
    if "gu_CachedPromptTokens (normalized u) = 0"
    using that n dc unfolding d by (auto simp: e norm_cached_def Let_def min_def split: if_splits)
  show "detail_written (normalized u) = 0" if "gu_CacheWriteTokens (normalized u) = 0"
    using that n dc unfolding d by (auto simp: e norm_written_def Let_def min_def split: if_splits)
  show "gu_CacheCreation5mInputTokens (normalized u) = 0 \<and> gu_CacheCreation1hInputTokens (normalized u) = 0"
    if "gu_CacheCreationInputTokens (normalized u) = 0"
    using that n by (auto simp: e norm_creation_def norm_5m_def split: if_splits)
  show "gu_CacheCreationInputTokens (normalized u) \<le> 0"
    if "gu_CacheCreation5mInputTokens (normalized u) = 0" "gu_CacheCreation1hInputTokens (normalized u) = 0"
    using that n by (auto simp: e norm_creation_def norm_5m_def split: if_splits)
  show "gu_CachedPromptTokens (normalized u) \<le> gu_PromptTokens (normalized u) \<and> gu_CacheWriteTokens (normalized u) \<le> gu_PromptTokens (normalized u)"
    if "gu_PromptTokens (normalized u) > 0"
    using that b(9,10) by (simp add: e)
  show "gu_PromptTokens (normalized u) + gu_CompletionTokens (normalized u) = 0" if "gu_TotalTokens (normalized u) = 0"
    using that by (auto simp: e norm_total_def split: if_splits)
qed

text \<open>Normalising the usage an upstream reports is idempotent for non-negative counts, and in a normalised
  report the cached and the written tokens do not exceed a positive prompt; so it does not matter that
  the cost functions normalise again what was normalised before.\<close>

lemma normalized_usage_idempotent:
  assumes "usage_ok u"
  shows "normalized (normalized u) = normalized u
    \<and> 0 \<le> gu_CachedPromptTokens (normalized u) \<and> 0 \<le> gu_CacheWriteTokens (normalized u)
    \<and> (gu_PromptTokens (normalized u) > 0 \<longrightarrow>
        gu_CachedPromptTokens (normalized u) \<le> gu_PromptTokens (normalized u)
        \<and> gu_CacheWriteTokens (normalized u) \<le> gu_PromptTokens (normalized u))"
  using normalized_idem[OF assms] norm_bounds[OF assms] normalized_eq[OF assms] by (simp add: count_ok_def)

section \<open>Costs\<close>

lemma cost_of_0 [simp]: "cost_of 0 v = 0"
  by (simp add: cost_of_def)

lemma fst_add_cost: "0 \<le> n \<Longrightarrow> fst (add_cost (0 < n) (cost_of n v) t) = fst t + cost_of n v"
  by (auto simp: add_cost_def)

lemma snd_add_cost [simp]: "snd (add_cost b c t) \<longleftrightarrow> b \<or> snd t"
  by (simp add: add_cost_def)

lemma cost_of_add: "cost_of a v + cost_of b v = cost_of (a + b) v"
  by (simp add: cost_of_def field_simps)

lemma add_cost_nonneg: "0 \<le> fst t \<Longrightarrow> (b \<Longrightarrow> 0 \<le> c) \<Longrightarrow> 0 \<le> fst (add_cost b c t)"
  by (simp add: add_cost_def)

lemma cost_of_nonneg: "0 < n \<Longrightarrow> 0 \<le> v \<Longrightarrow> 0 \<le> cost_of n v"
  by (simp add: cost_of_def)

definition price_ok :: "float64 option \<Rightarrow> bool" where
  "price_ok v = (case v of None \<Rightarrow> True | Some x \<Rightarrow> 0 \<le> x)"

definition prices_ok :: "selected_pricing \<Rightarrow> bool" where
  "prices_ok p \<longleftrightarrow> price_ok (sp_InputValue p) \<and> price_ok (sp_OutputValue p) \<and> price_ok (sp_CacheRatio p)
   \<and> price_ok (sp_CacheWriteRatio p) \<and> price_ok (sp_CacheWrite1hRatio p) \<and> price_ok (sp_GroupRatio p)
   \<and> price_ok (sp_ImageRatio p) \<and> price_ok (sp_AudioRatio p) \<and> price_ok (sp_AudioCompletionRatio p)
   \<and> price_ok (sp_ModelPrice p) \<and> price_ok (sp_PerRequestValue p)"

lemma cacheWriteTokenCost_nonneg: "prices_ok p \<Longrightarrow> 0 \<le> fst (cacheWriteTokenCost u p)"
  by (cases "sp_InputValue p"; cases "sp_CacheWriteRatio p"; cases "sp_CacheWrite1hRatio p")
     (auto simp: cacheWriteTokenCost_def prices_ok_def price_ok_def cacheWriteRatioValue_def Let_def
       intro!: add_cost_nonneg cost_of_nonneg mult_nonneg_nonneg)

lemma token_cost_nonneg:
  assumes "prices_ok p"
  shows "0 \<le> fst (token_cost u p)"
proof -
  have a: "0 \<le> v" if "audioOutputUnitValue p = Some v" for v
    using assms that by (auto simp: audioOutputUnitValue_def prices_ok_def price_ok_def split: option.splits)
  show ?thesis
    using assms cacheWriteTokenCost_nonneg[OF assms, of u]
    unfolding token_cost_def Let_def prices_ok_def price_ok_def
    by (cases "sp_InputValue p"; cases "sp_CacheRatio p"; cases "sp_OutputValue p"; cases "audioOutputUnitValue p")
       (auto simp: split_def intro!: add_cost_nonneg cost_of_nonneg mult_nonneg_nonneg dest: a)
qed

lemma imageTokenCost_nonneg: "prices_ok p \<Longrightarrow> 0 \<le> fst (imageTokenCost u p)"
  by (cases "sp_InputValue p"; cases "sp_ImageRatio p"; cases "sp_OutputValue p")
     (auto simp: imageTokenCost_def prices_ok_def price_ok_def Let_def
       intro!: add_cost_nonneg cost_of_nonneg mult_nonneg_nonneg)

lemma perRequestCost_nonneg: "prices_ok p \<Longrightarrow> perRequestCost p = Some c \<Longrightarrow> 0 \<le> c"
  by (auto simp: perRequestCost_def prices_ok_def price_ok_def split: option.splits)

text \<open>A cost is never negative: with non-negative prices and ratios the estimate of any usage, however
  malformed the reported counts are, is absent or at least zero, in all three branches (per request,
  images, tokens).\<close>

lemma estimated_cost_nonneg:
  assumes "prices_ok p" and "estimateCost u p = Some c"
  shows "0 \<le> c"
proof -
  have "0 \<le> of_int (gu_ImageCount (normalized u)) * v" if "imageUnitCost p = Some v" "gu_ImageCount (normalized u) > 0" for v
    using assms(1) that by (auto simp: imageUnitCost_def prices_ok_def price_ok_def split: option.splits)
  then show ?thesis
    using assms perRequestCost_nonneg[OF assms(1)] imageTokenCost_nonneg[OF assms(1), of "normalized u"]
      token_cost_nonneg[OF assms(1), of "normalized u"]
    by (auto simp: estimateCost_def when_used_def Let_def split: if_splits)
qed

text \<open>The cache write cost of a normalised report, when a written token costs as much as any other.\<close>

lemma cacheWrite_flat:
  assumes ok: "usage_ok u" and p: "sp_InputValue p = Some i" "sp_CacheWriteRatio p = None" "sp_CacheWrite1hRatio p = None"
  shows "fst (cacheWriteTokenCost (normalized u) p) = cost_of (norm_written u + norm_5m u + gu_CacheCreation1hInputTokens u) i"
    and "snd (cacheWriteTokenCost (normalized u) p) \<longleftrightarrow> 0 < norm_written u + norm_5m u + gu_CacheCreation1hInputTokens u"
proof -
  let ?n = "normalized u"
  have f: "gu_CacheWriteTokens ?n = norm_written u" "gu_CacheCreation5mInputTokens ?n = norm_5m u"
    "gu_CacheCreation1hInputTokens ?n = gu_CacheCreation1hInputTokens u" "gu_CacheCreationInputTokens ?n = norm_creation u"
    by (simp_all add: normalized_eq[OF ok])
  have pos: "0 \<le> norm_written u" "0 \<le> norm_5m u" "0 \<le> gu_CacheCreation1hInputTokens u"
    using norm_bounds[OF ok] ok by (simp_all add: count_ok_def usage_ok_def)
  have none: "norm_creation u = 0" if "norm_5m u = 0" "gu_CacheCreation1hInputTokens u = 0"
    using that ok by (auto simp: norm_creation_def norm_5m_def split: if_splits)
  have add: "cost_of a i + cost_of b i = cost_of (a + b) i" for a b by (rule cost_of_add)
  show "fst (cacheWriteTokenCost ?n p) = cost_of (norm_written u + norm_5m u + gu_CacheCreation1hInputTokens u) i"
    using pos none unfolding cacheWriteTokenCost_def Let_def p normalized_idem[OF ok] hasCacheCreationBreakdown_def f
    by (cases "0 < norm_5m u \<or> 0 < gu_CacheCreation1hInputTokens u") (auto simp: fst_add_cost cacheWriteRatioValue_def add add_cost_def)
  show "snd (cacheWriteTokenCost ?n p) \<longleftrightarrow> 0 < norm_written u + norm_5m u + gu_CacheCreation1hInputTokens u"
    using pos none unfolding cacheWriteTokenCost_def Let_def p normalized_idem[OF ok] hasCacheCreationBreakdown_def f
    by (auto simp: cacheWriteRatioValue_def)
qed

text \<open>C31. Every prompt token is billed once: when cached and written tokens cost the same as other input, the
  split of the prompt into cached, written and remaining tokens does not change the bill. It is the
  prompt at the input price plus the completion at the output price, provided the reported parts fit
  into the prompt and the cache creation counts agree.\<close>

theorem every_prompt_token_billed_once:
  assumes ok: "usage_ok u" and noimg: "gu_ImageCount u = 0" and noreq: "\<not> isPerRequestPricing p"
    and p: "sp_InputValue p = Some i" "sp_OutputValue p = Some out" "sp_CacheRatio p = Some 1"
      "sp_CacheWriteRatio p = None" "sp_CacheWrite1hRatio p = None" "sp_AudioRatio p = None"
    and fits: "norm_cached u + norm_creation u + norm_written u \<le> norm_prompt u"
    and agree: "norm_5m u + gu_CacheCreation1hInputTokens u = norm_creation u"
  shows "estimateCost u p = (if norm_prompt u = 0 \<and> gu_CompletionTokens u = 0 then None
    else Some ((of_int (norm_prompt u) * i + of_int (gu_CompletionTokens u) * out) / 1000000))"
proof -
  let ?n = "normalized u"
  note b = norm_bounds[OF ok]
  have f: "gu_PromptTokens ?n = norm_prompt u" "gu_CachedPromptTokens ?n = norm_cached u"
    "gu_CacheWriteTokens ?n = norm_written u" "gu_CacheCreationInputTokens ?n = norm_creation u"
    "gu_CompletionTokens ?n = gu_CompletionTokens u" "gu_ImageCount ?n = 0"
    using noimg by (simp_all add: normalized_eq[OF ok])
  have un: "uncachedPromptTokens ?n = norm_prompt u - norm_cached u - norm_creation u - norm_written u"
    unfolding uncachedPromptTokens_def f using b fits by (simp add: wrap64_eqI count_ok_def Let_def)
  define a where "a = norm_prompt u - norm_cached u - norm_creation u - norm_written u"
  have pos: "0 \<le> a" "0 \<le> norm_cached u" "0 \<le> gu_CompletionTokens u" "0 \<le> norm_creation u" "0 \<le> norm_written u"
    using b fits ok by (simp_all add: a_def count_ok_def usage_ok_def)
  note w = cacheWrite_flat[OF ok p(1,4,5)]
  have wsum: "norm_written u + norm_5m u + gu_CacheCreation1hInputTokens u = norm_written u + norm_creation u"
    using agree by simp
  have wz: "cost_of (norm_written u + norm_creation u) i = 0" if "\<not> 0 < norm_written u + norm_creation u"
  proof -
    have "norm_written u + norm_creation u = 0" using that pos by linarith
    then show ?thesis by simp
  qed
  have "fst (token_cost ?n p) = cost_of a i + cost_of (norm_cached u) i + cost_of (norm_written u + norm_creation u) i
      + cost_of (gu_CompletionTokens u) out"
    unfolding token_cost_def Let_def p un f audioOutputUnitValue_def a_def[symmetric]
    using pos w wsum wz by (auto simp: fst_add_cost split_def add_cost_def)
  also have "\<dots> = cost_of (norm_prompt u) i + cost_of (gu_CompletionTokens u) out"
    by (simp add: cost_of_add a_def)
  finally have c: "fst (token_cost ?n p) = (of_int (norm_prompt u) * i + of_int (gu_CompletionTokens u) * out) / 1000000"
    by (simp add: cost_of_def add_divide_distrib)
  have "snd (token_cost ?n p) \<longleftrightarrow> 0 < norm_prompt u \<or> 0 < gu_CompletionTokens u"
    unfolding token_cost_def Let_def p un f audioOutputUnitValue_def a_def[symmetric]
    using pos w wsum a_def by (auto simp: split_def)
  with c noreq f(6) pos b(1) show ?thesis
    by (auto simp: estimateCost_def when_used_def Let_def)
qed

lemma adjustment_keeps:
  "k \<notin> {''service_tier'', ''billing_mode'', ''base_estimated_cost'', ''cost_multiplier'', ''cost_multiplier_reason''} \<Longrightarrow>
   obj_get (withBillingAdjustmentMetadata m a b) k = obj_get m k"
  by (simp add: withBillingAdjustmentMetadata_def Let_def)

lemma long_context_keeps:
  "k \<notin> {''long_context'', ''long_context_threshold_tokens'', ''long_context_input_multiplier'', ''long_context_output_multiplier''} \<Longrightarrow>
   obj_get (withLongContextMetadata m p) k = obj_get m k"
  by (simp add: withLongContextMetadata_def Let_def split: option.split)

text \<open>The logged breakdown explains the estimate: for token pricing the five cost entries of the metadata
  (prompt, cache, cache write, completion, audio output) add up to the estimated cost, and the estimate
  is absent exactly when all five are.\<close>

lemma cost_breakdown_adds_up:
  assumes noimg: "\<not> gu_ImageCount (normalized u) > 0" and noreq: "\<not> isPerRequestPricing p"
  shows "let m = costCalculationMetadata u p est adj base;
      parts = map (obj_get m) [''prompt_cost'', ''cache_cost'', ''cache_write_cost'', ''completion_cost'', ''audio_output_cost'']
    in estimateCost u p = (if list_all (\<lambda>v. v = ANil) parts then None else Some (sum_list (map float_or_zero parts)))"
proof -
  let ?n = "normalized u"
  have get: "obj_get (costCalculationMetadata u p est adj base) k = obj_get (token_metadata ?n p est) k"
    if "k \<in> {''prompt_cost'', ''cache_cost'', ''cache_write_cost'', ''completion_cost'', ''audio_output_cost''}" for k
  proof -
    have "costCalculationMetadata u p est adj base =
        withLongContextMetadata (withBillingAdjustmentMetadata (token_metadata ?n p est) adj base) p"
      using noimg noreq by (simp add: costCalculationMetadata_def Let_def)
    moreover have k: "k \<notin> {''long_context'', ''long_context_threshold_tokens'', ''long_context_input_multiplier'', ''long_context_output_multiplier''}"
      "k \<notin> {''service_tier'', ''billing_mode'', ''base_estimated_cost'', ''cost_multiplier'', ''cost_multiplier_reason''}"
      using that by auto
    ultimately show ?thesis using long_context_keeps[OF k(1)] adjustment_keeps[OF k(2)] by metis
  qed
  have parts: "obj_get (token_metadata ?n p est) ''prompt_cost'' = prompt_cost_value ?n p"
    "obj_get (token_metadata ?n p est) ''cache_cost'' = cache_cost_value ?n p"
    "obj_get (token_metadata ?n p est) ''cache_write_cost'' = cache_write_cost_value ?n p"
    "obj_get (token_metadata ?n p est) ''completion_cost'' = completion_cost_value ?n p"
    "obj_get (token_metadata ?n p est) ''audio_output_cost'' = audio_cost_value ?n p"
    by (simp_all add: token_metadata_def obj_get_def Let_def)
  have none: "cacheWriteTokenCost ?n p = (0, False)" if "sp_InputValue p = None"
    using that by (simp add: cacheWriteTokenCost_def)
  obtain cw used where cw: "cacheWriteTokenCost ?n p = (cw, used)" by fastforce
  have c: "fst (token_cost ?n p) = float_or_zero (prompt_cost_value ?n p) + float_or_zero (cache_cost_value ?n p)
      + float_or_zero (cache_write_cost_value ?n p) + float_or_zero (completion_cost_value ?n p) + float_or_zero (audio_cost_value ?n p)"
    using none cw unfolding token_cost_def Let_def prompt_cost_value_def cache_cost_value_def cache_write_cost_value_def
      completion_cost_value_def audio_cost_value_def
    by (cases "sp_InputValue p"; cases "sp_CacheRatio p"; cases "sp_OutputValue p"; cases "audioOutputUnitValue p")
       (simp_all add: add_cost_def cost_when_def float_or_zero_def when_used_def float64PtrValue_def)
  have s: "snd (token_cost ?n p) \<longleftrightarrow> \<not> list_all (\<lambda>v. v = ANil) [prompt_cost_value ?n p, cache_cost_value ?n p,
      cache_write_cost_value ?n p, completion_cost_value ?n p, audio_cost_value ?n p]"
    using none cw unfolding token_cost_def Let_def prompt_cost_value_def cache_cost_value_def cache_write_cost_value_def
      completion_cost_value_def audio_cost_value_def
    by (cases "sp_InputValue p"; cases "sp_CacheRatio p"; cases "sp_OutputValue p"; cases "audioOutputUnitValue p")
       (auto simp: cost_when_def when_used_def float64PtrValue_def)
  show ?thesis
    using noimg noreq c s by (simp add: Let_def get parts estimateCost_def when_used_def add.assoc)
qed

section \<open>Long contexts and multipliers\<close>

lemma rule_positive:
  "longContextRuleForVariants v = Some r \<Longrightarrow> 0 < lcr_InputMultiplier r \<and> 0 < lcr_OutputMultiplier r"
  by (auto simp: longContextRuleForVariants_def Let_def split: if_splits prod.splits)

text \<open>The long-context rate is applied once and only above the threshold: pricing a request whose prompt is
  within the threshold changes nothing, above it both prices are scaled by positive factors, and a
  second application, for whatever usage, changes nothing more.\<close>

lemma long_context_applied_once:
  assumes rule: "sp_LongContextRule p = Some r" "longContextRuleForVariants v = Some r"
    and fresh: "\<not> sp_LongContextApplied p" and tok: "\<not> isPerRequestPricing p" "\<not> gu_ImageCount (normalized u) > 0"
  shows "if gu_PromptTokens (normalized u) \<le> lcr_ThresholdTokens r then applyLongContextPricing u p = p
    else (\<exists>a b. 0 < a \<and> 0 < b \<and> sp_InputValue (applyLongContextPricing u p) = map_option (\<lambda>x. x * a) (sp_InputValue p)
        \<and> sp_OutputValue (applyLongContextPricing u p) = map_option (\<lambda>x. x * b) (sp_OutputValue p))
      \<and> applyLongContextPricing u' (applyLongContextPricing u p) = applyLongContextPricing u p"
proof (cases "gu_PromptTokens (normalized u) \<le> lcr_ThresholdTokens r")
  case True
  then show ?thesis using assms by (simp add: applyLongContextPricing_def Let_def)
next
  case False
  have eq: "applyLongContextPricing u p = p\<lparr>sp_InputValue := map_option (\<lambda>v. v * lcr_InputMultiplier r) (sp_InputValue p),
      sp_OutputValue := map_option (\<lambda>v. v * lcr_OutputMultiplier r) (sp_OutputValue p), sp_LongContextApplied := True\<rparr>"
    using False assms by (simp add: applyLongContextPricing_def Let_def)
  have "applyLongContextPricing u' (applyLongContextPricing u p) = applyLongContextPricing u p"
    unfolding eq by (simp add: applyLongContextPricing_def rule)
  moreover have "sp_InputValue (applyLongContextPricing u p) = map_option (\<lambda>x. x * lcr_InputMultiplier r) (sp_InputValue p)"
    "sp_OutputValue (applyLongContextPricing u p) = map_option (\<lambda>x. x * lcr_OutputMultiplier r) (sp_OutputValue p)"
    by (simp_all add: eq)
  ultimately show ?thesis using False rule_positive[OF rule(2)] by auto
qed

text \<open>The fast service tier is billed by the catalogue alone: after the billing metadata of a request has
  been applied, the multiplier of its cost is the product of the credential's and the API key's
  multipliers (one where they are not positive), whatever service tier was asked for; it is positive,
  and the adjusted estimate is the base estimate times this multiplier.\<close>

lemma billing_multiplier_ignores_tier:
  "let r' = applyRequestBillingMetadata r upstream request cand;
       m = (if ab_credentialCostMultiplier r \<le> 0 then 1 else ab_credentialCostMultiplier r)
         * (if ab_apiKeyBillingMultiplier r \<le> 0 then 1 else ab_apiKeyBillingMultiplier r);
       final = applyEstimatedCostBillingAdjustment r'
   in gatewayBillingMultiplier r' = m \<and> 0 < m
    \<and> ab_estimatedCost final = map_option (\<lambda>c. c * m) (ab_estimatedCost r)
    \<and> (ab_estimatedCost r = None \<or> ab_baseEstimatedCost final = ab_estimatedCost r)"
proof -
  define r' where "r' = applyRequestBillingMetadata r upstream request cand"
  have f: "ab_costMultiplier r' = 1" "ab_credentialCostMultiplier r' = ab_credentialCostMultiplier r"
    "ab_apiKeyBillingMultiplier r' = ab_apiKeyBillingMultiplier r" "ab_estimatedCost r' = ab_estimatedCost r"
    unfolding r'_def applyRequestBillingMetadata_def applyUpstreamBillingMetadata_def billingAdjustmentFromPayload_def Let_def
    by (auto split: option.splits)
  have g: "gatewayBillingMultiplier (r'\<lparr>ab_baseEstimatedCost := x\<rparr>) = gatewayBillingMultiplier r'" for x
    by (simp add: gatewayBillingMultiplier_def)
  have "gatewayBillingMultiplier r' = (if ab_credentialCostMultiplier r \<le> 0 then 1 else ab_credentialCostMultiplier r)
      * (if ab_apiKeyBillingMultiplier r \<le> 0 then 1 else ab_apiKeyBillingMultiplier r)"
    by (simp add: gatewayBillingMultiplier_def f Let_def)
  then show ?thesis
    unfolding Let_def r'_def[symmetric]
    by (auto simp: applyEstimatedCostBillingAdjustment_def f g Let_def split: option.split)
qed

section \<open>A priced request\<close>

definition demo_usage :: gateway_usage where
  "demo_usage = \<lparr>gu_PromptTokens = 250000, gu_CompletionTokens = 1000, gu_TotalTokens = 0, gu_ImageCount = 0,
     gu_CachedPromptTokens = 0, gu_PromptCacheHitTokens = 0, gu_PromptCacheMissTokens = 0, gu_CacheWriteTokens = 0,
     gu_CacheCreationInputTokens = 0, gu_CacheCreation5mInputTokens = 2000, gu_CacheCreation1hInputTokens = 500,
     gu_ReasoningTokens = 0, gu_InputTextTokens = 0, gu_InputImageTokens = 0, gu_OutputImageTokens = 0,
     gu_AudioOutputTokens = 0, gu_PromptTokensDetail = Some (100000, 0)\<rparr>"

definition demo_variants :: obj where
  "demo_variants = [(''cost'', AObj [(''input'', AFloat 2), (''output'', AFloat 8),
     (''context_over_200k'', AObj [(''input'', AFloat 4), (''output'', AFloat 12)])])]"

definition demo_pricing :: selected_pricing where
  "demo_pricing = \<lparr>sp_GroupName = [], sp_Currency = ''USD'', sp_InputValue = Some 2, sp_OutputValue = Some 8,
     sp_CacheRatio = Some 1, sp_CacheWriteRatio = None, sp_CacheWrite1hRatio = None, sp_GroupRatio = None,
     sp_ModelRatio = None, sp_CompletionRatio = None, sp_ImageRatio = None, sp_AudioRatio = None,
     sp_AudioCompletionRatio = None, sp_ModelPrice = None, sp_PerRequestValue = None, sp_BillingType = [],
     sp_QuotaType = None, sp_LongContextRule = longContextRuleForVariants demo_variants,
     sp_PricingVariants = demo_variants, sp_LongContextApplied = False\<rparr>"

lemma demo_usage_ok: "usage_ok demo_usage"
  by (simp add: usage_ok_def demo_usage_def count_ok_def)

lemma demo_norm:
  "norm_prompt demo_usage = 250000" "norm_cached demo_usage = 100000" "norm_creation demo_usage = 2500"
  "norm_written demo_usage = 0" "norm_5m demo_usage = 2000" "gu_CompletionTokens demo_usage = 1000"
  "gu_CacheCreation1hInputTokens demo_usage = 500" "gu_ImageCount demo_usage = 0"
  by (simp_all add: demo_usage_def norm_prompt_def norm_cached_def norm_creation_def norm_written_def norm_5m_def
      detail_cached_def detail_written_def)

lemma demo_normalized: "gu_ImageCount (normalized demo_usage) = 0" "gu_PromptTokens (normalized demo_usage) = 250000"
  by (simp_all add: normalized_eq[OF demo_usage_ok] demo_norm)

lemma demo_prices:
  "sp_InputValue demo_pricing = Some 2" "sp_OutputValue demo_pricing = Some 8" "sp_CacheRatio demo_pricing = Some 1"
  "sp_CacheWriteRatio demo_pricing = None" "sp_CacheWrite1hRatio demo_pricing = None" "sp_AudioRatio demo_pricing = None"
  "\<not> sp_LongContextApplied demo_pricing" "sp_LongContextRule demo_pricing = longContextRuleForVariants demo_variants"
  by (simp_all add: demo_pricing_def)

lemma demo_not_per_request: "\<not> isPerRequestPricing demo_pricing"
  by (simp add: isPerRequestPricing_def demo_pricing_def string_defs)

lemma demo_prices_ok: "prices_ok demo_pricing"
  by (simp add: prices_ok_def price_ok_def demo_pricing_def)

lemma demo_rule: "longContextRuleForVariants demo_variants =
    Some \<lparr>lcr_ThresholdTokens = 200000, lcr_InputMultiplier = 2, lcr_OutputMultiplier = 3 / 2\<rparr>"
  by (simp add: longContextRuleForVariants_def demo_variants_def obj_get_def float_or_zero_def Let_def)

theorem every_prompt_token_billed_once_witness: "estimateCost demo_usage demo_pricing = Some (508 / 1000)"
  using every_prompt_token_billed_once[OF demo_usage_ok demo_norm(8) demo_not_per_request demo_prices(1-6)]
  by (simp add: demo_norm)

text \<open>The tier depends on the catalogue entry alone: a model whose catalogue entry has a price for contexts
  over 200K is billed at it above 200 000 prompt tokens, whatever the model is called; the lists of model
  families and exclusions of the source are not consulted, and the documented threshold of 272K applies
  only to entries that state it.\<close>

lemma long_context_threshold_is_200k:
  "longContextRuleForVariants demo_variants \<noteq> None
   \<and> sp_InputValue (applyLongContextPricing (demo_usage\<lparr>gu_PromptTokens := 200001\<rparr>) demo_pricing) = Some 4"
proof -
  have ok: "usage_ok (demo_usage\<lparr>gu_PromptTokens := 200001\<rparr>)"
    by (simp add: usage_ok_def demo_usage_def count_ok_def)
  have "gu_PromptTokens (normalized (demo_usage\<lparr>gu_PromptTokens := 200001\<rparr>)) = 200001"
    "gu_ImageCount (normalized (demo_usage\<lparr>gu_PromptTokens := 200001\<rparr>)) = 0"
    by (simp_all add: normalized_eq[OF ok]) (simp_all add: norm_prompt_def demo_usage_def)
  then show ?thesis
    by (simp add: applyLongContextPricing_def demo_prices demo_rule demo_not_per_request)
qed

end
