(* ===== verification/Gateway_Cooldown.thy ===== *)
theory Gateway_Cooldown
  imports Pricing
begin

text \<open>
  What the gateway does after an attempt failed, \<open>server/internal/gateway/cooldown.go\<close>: whether the next
  credential is tried, which cooldown the failure causes and for how long, and when a streak of
  failures is long enough; with \<open>upstream_rate_limit_wait.go\<close> and \<open>failover_budget.go\<close>, which bound how long
  a request waits for an upstream.

  Of the result of an attempt the fields that decide something are modelled. The request log query, the
  count of recent activations and the statements of the activation may fail; their errors are arguments.
\<close>

section \<open>Data\<close>

record credential_failover_decision =
  cfd_NextCredentialAvailable :: bool
  cfd_ShouldTryNextCredential :: bool
  cfd_Action :: string

record attempt_result =
  ar_success :: bool
  ar_statusCode :: int
  ar_upstreamStatusCode :: int
  ar_errorType :: string
  ar_errorMessage :: string
  ar_responseStarted :: bool
  ar_credentialID :: uuid
  ar_credentialMasked :: string
  ar_credentialAttempt :: int
  ar_credentialTotal :: int
  ar_cooldownReason :: string
  ar_cooldownScope :: string
  ar_cooldownDuration :: duration
  ar_cooldownMetadata :: obj
  ar_retryAfterSeconds :: int
  ar_credentialDecision :: credential_failover_decision
  ar_credentialDecisionSet :: bool
  ar_contentType :: string
  ar_body :: string
  ar_upstreamErrorCode :: string
  ar_promptTokens :: int
  ar_completionTokens :: int
  ar_cachedPromptTokens :: int
  ar_audioOutputTokens :: int

record request_log =
  rl_Success :: bool
  rl_StatusCode :: int
  rl_ErrorType :: "string option"
  rl_Metadata :: json_raw

definition upstreamNoResponseCooldownDuration :: duration where "upstreamNoResponseCooldownDuration = minutes 2"
definition upstreamNoResponseCooldownThreshold :: int where "upstreamNoResponseCooldownThreshold = 3"
definition transientCooldownBaseDuration :: duration where "transientCooldownBaseDuration = seconds 30"
definition transientCooldownMaxDuration :: duration where "transientCooldownMaxDuration = minutes 5"
definition transientCooldownEscalationWindow :: duration where "transientCooldownEscalationWindow = minutes 30"
definition streamFailureCooldownThreshold :: int where "streamFailureCooldownThreshold = 3"
definition credentialUnauthorizedCooldownDuration :: duration where
  "credentialUnauthorizedCooldownDuration = minutes 5"
definition credentialUnauthorizedRepeatCooldownDuration :: duration where
  "credentialUnauthorizedRepeatCooldownDuration = minutes 30"

section \<open>The next credential\<close>

definition shouldTryNextCredential :: "attempt_result \<Rightarrow> bool" where
  "shouldTryNextCredential r =
     (if ar_success r then False
      else if ar_errorType r \<in> {''upstream_credential_decrypt_failed'', ''credential_concurrency_limited'',
          ''upstream_credential_limited'', ''upstream_subscription_limit_exceeded'', ''upstream_credential_invalid''} then True
      else ar_statusCode r \<in> {401, 403, 404, 429})"

definition credentialFailoverDecisionForAction :: "bool \<Rightarrow> bool \<Rightarrow> credential_failover_decision" where
  "credentialFailoverDecisionForAction nextAvailable shouldRetry0 =
     (let shouldRetry = (shouldRetry0 \<and> nextAvailable) in
      \<lparr>cfd_NextCredentialAvailable = nextAvailable, cfd_ShouldTryNextCredential = shouldRetry,
       cfd_Action = (if shouldRetry then ''try_next_credential'' else ''stop'')\<rparr>)"

definition credentialFailoverDecisionForResult :: "attempt_result \<Rightarrow> bool \<Rightarrow> credential_failover_decision" where
  "credentialFailoverDecisionForResult r nextAvailable =
     credentialFailoverDecisionForAction nextAvailable
       (\<not> ar_success r \<and> \<not> ar_responseStarted r \<and> nextAvailable \<and> shouldTryNextCredential r)"

definition nextCredentialAvailableForResult :: "attempt_result \<Rightarrow> bool" where
  "nextCredentialAvailableForResult r \<longleftrightarrow> ar_credentialAttempt r > 0 \<and> ar_credentialTotal r > ar_credentialAttempt r"

definition credentialFailoverDecisionForAttempt :: "attempt_result \<Rightarrow> credential_failover_decision" where
  "credentialFailoverDecisionForAttempt r =
     (if ar_credentialDecisionSet r then ar_credentialDecision r
      else credentialFailoverDecisionForResult r (nextCredentialAvailableForResult r))"

section \<open>Kinds of failures\<close>

definition stream_error_types :: "string set" where
  "stream_error_types = {''upstream_stream_failed'', ''upstream_stream_incomplete'', ''upstream_stream_eof'',
     ''upstream_stream_error'', ''upstream_stream_read_failed'', ''upstream_stream_empty'', ''upstream_stream_preoutput_too_large''}"

definition upstreamStreamFailure :: "attempt_result \<Rightarrow> bool" where
  "upstreamStreamFailure r = (if ar_success r then False else ar_errorType r \<in> stream_error_types)"

definition upstreamNoResponseFailure :: "attempt_result \<Rightarrow> bool" where
  "upstreamNoResponseFailure r =
     (if ar_success r \<or> ar_upstreamStatusCode r > 0 \<or> ar_responseStarted r then False
      else if ar_errorType r \<in> {''upstream_timeout'', ''upstream_transport_error''} then ar_statusCode r \<ge> 500
      else False)"

definition isCodexSite :: "string \<Rightarrow> bool" where
  "isCodexSite siteType = equal_fold (trim_space siteType) ''codex''"

definition isAntigravitySite :: "string \<Rightarrow> bool" where
  "isAntigravitySite siteType = equal_fold (trim_space siteType) ''antigravity''"

section \<open>Durations\<close>

definition rateLimitedCooldownDuration :: "int \<Rightarrow> duration" where
  "rateLimitedCooldownDuration retryAfterSeconds =
     (if retryAfterSeconds \<le> 0 then transientCooldownBaseDuration
      else let d = wrap64 (retryAfterSeconds * seconds 1) in
        if d < seconds 5 then seconds 5 else if d > minutes 2 then minutes 2 else d)"

definition openCodeGoUsageLimitCooldownDuration :: "attempt_result \<Rightarrow> duration" where
  "openCodeGoUsageLimitCooldownDuration r =
     (if ar_cooldownDuration r > 0 then ar_cooldownDuration r
      else if ar_retryAfterSeconds r > 0 then wrap64 (ar_retryAfterSeconds r * seconds 1)
      else transientCooldownBaseDuration)"

text \<open>The doubling loop; it runs while the duration is below the maximum and activations are left.\<close>

fun double_duration :: "nat \<Rightarrow> duration \<Rightarrow> duration" where
  "double_duration 0 d = d"
| "double_duration (Suc n) d =
     (if d < transientCooldownMaxDuration then double_duration n (wrap64 (d * 2)) else d)"

definition escalateCooldownDuration :: "duration \<Rightarrow> int \<Rightarrow> duration" where
  "escalateCooldownDuration base0 recentActivations =
     (let base = (if base0 \<le> 0 then transientCooldownBaseDuration else base0);
          d = double_duration (nat recentActivations) base
      in if d > transientCooldownMaxDuration then transientCooldownMaxDuration else d)"

section \<open>The cooldown of a failure\<close>

definition failure_metadata :: "candidate \<Rightarrow> attempt_result \<Rightarrow> obj" where
  "failure_metadata cand r =
     (let m = [(''status_code'', AInt (ar_statusCode r)), (''error_type'', AString (ar_errorType r)),
               (''error_message'', AString (ar_errorMessage r)), (''upstream_model'', AString (cmo_UpstreamName (cand_Model cand))),
               (''credential_masked'', emptyToNil (ar_credentialMasked r)),
               (''credential_attempt'', AInt (ar_credentialAttempt r)), (''credential_total'', AInt (ar_credentialTotal r))];
          m = (if ar_upstreamStatusCode r > 0 then obj_set ''upstream_status_code'' (AInt (ar_upstreamStatusCode r)) m else m);
          m = (if ar_retryAfterSeconds r > 0 then obj_set ''retry_after_seconds'' (AInt (ar_retryAfterSeconds r)) m else m);
          m = fold (\<lambda>(k, v). obj_set k v) (ar_cooldownMetadata r) m
      in if upstreamNoResponseFailure r then obj_set ''no_upstream_response'' (ABool True) m else m)"

text \<open>The two shapes of a cooldown: of the model, or of the credential; a forbidden credential is cooled for the
  model only.\<close>

definition model_cooldown :: "candidate \<Rightarrow> string \<Rightarrow> duration \<Rightarrow> cooldown_input \<Rightarrow> cooldown_input" where
  "model_cooldown cand reason d base = base\<lparr>coi_SiteModelID := Some (cmo_SiteModelID (cand_Model cand)),
     coi_Scope := ''model'', coi_Reason := reason, coi_Duration := d\<rparr>"

definition credential_cooldown :: "attempt_result \<Rightarrow> string \<Rightarrow> duration \<Rightarrow> cooldown_input \<Rightarrow> cooldown_input" where
  "credential_cooldown r reason d base = base\<lparr>coi_SiteCredentialID := Some (ar_credentialID r),
     coi_Scope := ''credential'', coi_Reason := reason, coi_Duration := d\<rparr>"

definition base_cooldown :: "candidate \<Rightarrow> attempt_result \<Rightarrow> cooldown_input" where
  "base_cooldown cand r = \<lparr>coi_SiteID = cs_ID (cand_Site cand), coi_SiteModelID = None, coi_SiteCredentialID = None,
     coi_Scope = [], coi_Source = ''gateway'', coi_Reason = ar_cooldownReason r,
     coi_Duration = (if ar_cooldownDuration r > 0 then ar_cooldownDuration r else 0),
     coi_Metadata = Some (failure_metadata cand r)\<rparr>"

definition cooldownInputForFailure :: "candidate \<Rightarrow> attempt_result \<Rightarrow> cooldown_input option" where
  "cooldownInputForFailure cand r =
     (let base = base_cooldown cand r;
          hasCred = (ar_credentialID r \<noteq> uuid_nil);
          account = (isCodexSite (cs_SiteType (cand_Site cand)) \<or> isAntigravitySite (cs_SiteType (cand_Site cand)));
          err = ar_errorType r; status = ar_statusCode r in
      if err = ''opencode_go_usage_limit'' \<and> hasCred then
        Some (credential_cooldown r CooldownReasonOpenCodeGoUsageLimitReached (openCodeGoUsageLimitCooldownDuration r) base)
      else if err = ''upstream_subscription_limit_exceeded'' \<and> hasCred then
        Some (credential_cooldown r CooldownReasonUpstreamSubscriptionLimitExceeded (ar_cooldownDuration r) base)
      else if err = ''upstream_credential_limited'' \<and> hasCred then
        (if ar_cooldownReason r = CooldownReasonUpstreamInsufficientBalance
         then Some (credential_cooldown r (ar_cooldownReason r) (ar_cooldownDuration r) base)
         else Some (credential_cooldown r
           (if coi_Reason base = [] then CooldownReasonUpstreamCredentialLimited else coi_Reason base)
           (rateLimitedCooldownDuration (ar_retryAfterSeconds r)) base))
      else if err = ''upstream_credential_invalid'' \<and> hasCred then
        Some (credential_cooldown r CooldownReasonUpstreamCredentialUnauthorized credentialUnauthorizedCooldownDuration base)
      else if upstreamNoResponseFailure r then
        Some (model_cooldown cand ''upstream_no_response'' upstreamNoResponseCooldownDuration base)
      else if err = ''upstream_response_transform_failed'' then
        Some (model_cooldown cand ''upstream_response_transform_failed''
          (if coi_Duration base \<le> 0 then seconds 30 else coi_Duration base) base)
      else if upstreamStreamFailure r then
        Some (model_cooldown cand CooldownReasonUpstreamStreamUnstable transientCooldownBaseDuration base)
      else if err = ''upstream_credential_unavailable'' then
        Some (model_cooldown cand CooldownReasonUpstreamCredentialsExhausted transientCooldownBaseDuration base)
      else if account \<and> ar_cooldownScope r = ''model'' then
        Some (model_cooldown cand
          (if coi_Reason base = [] then stringValue (Some err) ''upstream_model_unavailable'' else coi_Reason base)
          (if coi_Duration base \<le> 0 then minutes 2 else coi_Duration base) base)
      else if account \<and> ar_cooldownScope r = ''credential'' \<and> hasCred then
        Some (credential_cooldown r
          (if coi_Reason base = [] then stringValue (Some err) ''upstream_credential_unavailable'' else coi_Reason base)
          (if coi_Duration base \<le> 0 then minutes 5 else coi_Duration base) base)
      else if status = 401 \<and> hasCred then
        Some (credential_cooldown r CooldownReasonUpstreamCredentialUnauthorized credentialUnauthorizedCooldownDuration base)
      else if status = 403 \<and> hasCred then
        Some (credential_cooldown r ''upstream_credential_forbidden'' (minutes 30)
          (base\<lparr>coi_SiteModelID := Some (cmo_SiteModelID (cand_Model cand))\<rparr>))
      else if status = 429 \<and> hasCred then
        Some (credential_cooldown r ''upstream_credential_rate_limited'' (rateLimitedCooldownDuration (ar_retryAfterSeconds r)) base)
      else if status = 404 then
        Some (model_cooldown cand CooldownReasonUpstreamModelNotFound (minutes 30) base)
      else if status \<ge> 500 \<and> err \<notin> {''site_concurrency_limited'', ''model_concurrency_limited'',
             ''credential_concurrency_limited'', ''upstream_concurrency_wait_timeout''}
          \<or> err = ''upstream_timeout'' \<or> err = ''upstream_transport_error'' then
        Some (model_cooldown cand (stringValue (Some err) ''upstream_failed'') transientCooldownBaseDuration base)
      else if err = ''upstream_credential_decrypt_failed'' \<and> hasCred then
        Some (credential_cooldown r ''upstream_credential_decrypt_failed'' (minutes 30) base)
      else None)"

section \<open>Streaks\<close>

definition numericMetadataValue :: "any \<Rightarrow> float64" where
  "numericMetadataValue v = (case v of AFloat r \<Rightarrow> r | AInt n \<Rightarrow> of_int n | ANumber s \<Rightarrow> number_value s | _ \<Rightarrow> 0)"

definition boolMetadataValue :: "any \<Rightarrow> bool" where
  "boolMetadataValue v = (case v of ABool b \<Rightarrow> b | _ \<Rightarrow> False)"

definition log_metadata :: "request_log \<Rightarrow> obj" where
  "log_metadata item = (case unmarshal_map (rl_Metadata item) of None \<Rightarrow> [] | Some m \<Rightarrow> m)"

definition requestLogStreamFailure :: "request_log \<Rightarrow> bool" where
  "requestLogStreamFailure item = (case rl_ErrorType item of
      None \<Rightarrow> False
    | Some t \<Rightarrow> if rl_Success item then False else t \<in> stream_error_types)"

definition requestLogNoUpstreamResponseFailure :: "request_log \<Rightarrow> bool" where
  "requestLogNoUpstreamResponseFailure item =
     (if rl_Success item \<or> rl_StatusCode item < 500 then False
      else case rl_ErrorType item of
          None \<Rightarrow> False
        | Some t \<Rightarrow>
            if t \<notin> {''upstream_timeout'', ''upstream_transport_error''} then False
            else (case obj_get (log_metadata item) ''no_upstream_response'' of
                ABool value \<Rightarrow> value
              | _ \<Rightarrow>
                  if numericMetadataValue (obj_get (log_metadata item) ''upstream_status_code'') > 0 then False
                  else if boolMetadataValue (obj_get (log_metadata item) ''stream_started'') then False
                  else True))"

definition requestLogGatewayAttempt :: "request_log \<Rightarrow> bool" where
  "requestLogGatewayAttempt item = (case obj_get (log_metadata item) ''scope'' of
      AString scope \<Rightarrow> scope = [] \<or> scope = ''gateway''
    | _ \<Rightarrow> True)"

fun streak_loop :: "request_log list \<Rightarrow> int \<Rightarrow> int \<Rightarrow> (request_log \<Rightarrow> bool) \<Rightarrow> bool" where
  "streak_loop [] n threshold match = False"
| "streak_loop (item # attempts) n threshold match =
     (if \<not> requestLogGatewayAttempt item then streak_loop attempts n threshold match
      else if \<not> match item then False
      else if n + 1 \<ge> threshold then True
      else streak_loop attempts (n + 1) threshold match)"

definition failureStreakReached :: "request_log list \<Rightarrow> int \<Rightarrow> (request_log \<Rightarrow> bool) \<Rightarrow> bool" where
  "failureStreakReached attempts threshold match = (if threshold \<le> 0 then True else streak_loop attempts 0 threshold match)"

definition failureCooldownThresholdReached ::
  "bool \<Rightarrow> string + request_log list \<Rightarrow> int \<Rightarrow> (request_log \<Rightarrow> bool) \<Rightarrow> bool" where
  "failureCooldownThresholdReached hasDB attempts threshold match =
     (if \<not> hasDB then True else case attempts of Inl e \<Rightarrow> True | Inr items \<Rightarrow> failureStreakReached items threshold match)"

section \<open>Escalation and the handler\<close>

definition escalatableModelCooldown :: "cooldown_input \<Rightarrow> attempt_result \<Rightarrow> bool" where
  "escalatableModelCooldown input r =
     (if coi_Scope input \<noteq> ''model'' \<or> coi_SiteCredentialID input \<noteq> None then False
      else if ar_retryAfterSeconds r > 0 then False
      else coi_Reason input \<notin> {CooldownReasonUpstreamModelNotFound, ''upstream_no_response'', ''codex_model_capacity'',
             ''antigravity_model_rate_limited''})"

definition escalatedCooldownDuration ::
  "bool \<Rightarrow> go_time \<Rightarrow> bool \<Rightarrow> cooldown_table \<Rightarrow> candidate \<Rightarrow> cooldown_input \<Rightarrow> attempt_result \<Rightarrow> duration" where
  "escalatedCooldownDuration hasDB now countFails tbl cand input r =
     (if \<not> hasDB then coi_Duration input
      else let since = now - transientCooldownEscalationWindow in
        if coi_Reason input = CooldownReasonUpstreamCredentialUnauthorized \<and> coi_SiteCredentialID input \<noteq> None then
          (let recent = countRecentActivations \<lparr>cp_SiteID = cs_ID (cand_Site cand), cp_SiteModelID = None,
                 cp_SiteCredentialID = coi_SiteCredentialID input, cp_Source = ''gateway'',
                 cp_Reasons = [CooldownReasonUpstreamCredentialUnauthorized], cp_Since = since\<rparr> tbl
           in if \<not> countFails \<and> recent > 0 then credentialUnauthorizedRepeatCooldownDuration else coi_Duration input)
        else if \<not> escalatableModelCooldown input r then coi_Duration input
        else if countFails then coi_Duration input
        else escalateCooldownDuration (coi_Duration input)
          (int (countRecentActivations \<lparr>cp_SiteID = cs_ID (cand_Site cand),
             cp_SiteModelID = Some (cmo_SiteModelID (cand_Model cand)), cp_SiteCredentialID = None,
             cp_Source = ''gateway'', cp_Reasons = [], cp_Since = since\<rparr> tbl)))"

text \<open>What surrounds the handler: the database handle, the recent attempts, and which statements fail.\<close>

record failure_env =
  fe_fmt :: "float64 \<Rightarrow> string"
  fe_hasDB :: bool
  fe_now :: go_time
  fe_newID :: uuid
  fe_attempts :: "string + request_log list"
  fe_countFails :: bool
  fe_clearErr :: "string option"
  fe_createErr :: "string option"

text \<open>\<open>cooldownAfterFailure\<close>: the new cooldown table, and whether the models cache is invalidated (and the usage
  limit of an OpenCode Go credential stored), which happens after a successful activation.\<close>

definition cooldownAfterFailure ::
  "failure_env \<Rightarrow> candidate \<Rightarrow> attempt_result \<Rightarrow> cooldown_table \<Rightarrow> cooldown_table \<times> bool" where
  "cooldownAfterFailure env cand r tbl =
     (if ar_success r then (tbl, False)
      else case cooldownInputForFailure cand r of
          None \<Rightarrow> (tbl, False)
        | Some input \<Rightarrow>
            if upstreamNoResponseFailure r \<and> \<not> failureCooldownThresholdReached (fe_hasDB env) (fe_attempts env)
                 upstreamNoResponseCooldownThreshold requestLogNoUpstreamResponseFailure then (tbl, False)
            else if upstreamStreamFailure r \<and> \<not> failureCooldownThresholdReached (fe_hasDB env) (fe_attempts env)
                 streamFailureCooldownThreshold requestLogStreamFailure then (tbl, False)
            else let input = input\<lparr>coi_Duration := escalatedCooldownDuration (fe_hasDB env) (fe_now env) (fe_countFails env) tbl cand input r\<rparr>;
                     (tbl', res) = activateCooldown (fe_fmt env) (fe_newID env) (fe_now env) (fe_clearErr env) (fe_createErr env) input tbl
              in (case res of Inl e \<Rightarrow> (tbl', False) | Inr item \<Rightarrow> (tbl', True)))"

definition clearCooldownAfterRecovery :: "go_time \<Rightarrow> candidate \<Rightarrow> cooldown_table \<Rightarrow> cooldown_table" where
  "clearCooldownAfterRecovery now cand tbl =
     (if \<not> cand_Cooling cand then tbl
      else clearCooldown now (cs_ID (cand_Site cand)) (Some (cmo_SiteModelID (cand_Model cand))) None ''gateway'' tbl)"

section \<open>Waiting\<close>

definition upstreamRateLimitWaitable :: "candidate \<Rightarrow> attempt_result \<Rightarrow> bool" where
  "upstreamRateLimitWaitable cand r =
     (if ar_success r \<or> ar_responseStarted r then False
      else if ar_upstreamStatusCode r \<noteq> 429 then False
      else if ar_errorType r = ''upstream_subscription_limit_exceeded'' then False
      else if isCodexSite (cs_SiteType (cand_Site cand)) \<or> isAntigravitySite (cs_SiteType (cand_Site cand)) then False
      else True)"

text \<open>\<open>jitter\<close> is the random number below a second.\<close>

definition upstreamRateLimitWaitDuration :: "duration \<Rightarrow> attempt_result \<Rightarrow> duration" where
  "upstreamRateLimitWaitDuration jitter r =
     (let wait = (if ar_retryAfterSeconds r > 0 then
            (let w = wrap64 (ar_retryAfterSeconds r * seconds 1) in if w > seconds 30 then seconds 30 else w)
          else seconds 5)
      in wrap64 (wait + jitter))"

definition gatewayFailoverBudget :: "bool \<Rightarrow> bool \<Rightarrow> duration" where
  "gatewayFailoverBudget stream imageEndpoint =
     (if stream then (if imageEndpoint then seconds 180 else seconds 90) else seconds 300)"

section \<open>What a failure cools\<close>

lemmas cooldown_shapes = model_cooldown_def credential_cooldown_def base_cooldown_def

text \<open>A failure cools a credential, or the model of the candidate for a reason taken from the result.\<close>

definition failure_input_ok :: "candidate \<Rightarrow> attempt_result \<Rightarrow> cooldown_input \<Rightarrow> bool" where
  "failure_input_ok cand r input \<longleftrightarrow>
     coi_SiteID input = cs_ID (cand_Site cand) \<and> coi_Source input = ''gateway''
   \<and> (coi_Scope input = ''credential'' \<and> coi_SiteCredentialID input = Some (ar_credentialID r) \<and> ar_credentialID r \<noteq> uuid_nil
      \<or> coi_Scope input = ''model'' \<and> coi_SiteCredentialID input = None
        \<and> coi_SiteModelID input = Some (cmo_SiteModelID (cand_Model cand))
        \<and> (coi_Reason input \<in> {ar_cooldownReason r, stringValue (Some (ar_errorType r)) ''upstream_model_unavailable'',
              stringValue (Some (ar_errorType r)) ''upstream_failed'', ''upstream_no_response'', ''upstream_response_transform_failed'',
              ''upstream_stream_unstable'', ''upstream_credentials_exhausted''}
           \<or> ar_statusCode r = 404 \<and> coi_Reason input = ''upstream_model_not_found''))"

lemma ok_credential:
  "ar_credentialID r \<noteq> uuid_nil \<Longrightarrow> failure_input_ok cand r (credential_cooldown r reason d (base_cooldown cand r))"
  "ar_credentialID r \<noteq> uuid_nil \<Longrightarrow> failure_input_ok cand r (credential_cooldown r reason d ((base_cooldown cand r)\<lparr>coi_SiteModelID := m\<rparr>))"
  by (simp_all add: failure_input_ok_def cooldown_shapes)

lemma ok_model:
  "reason \<in> {ar_cooldownReason r, stringValue (Some (ar_errorType r)) ''upstream_model_unavailable'',
       stringValue (Some (ar_errorType r)) ''upstream_failed'', ''upstream_no_response'', ''upstream_response_transform_failed'',
       ''upstream_stream_unstable'', ''upstream_credentials_exhausted''}
     \<or> ar_statusCode r = 404 \<and> reason = ''upstream_model_not_found'' \<Longrightarrow>
   failure_input_ok cand r (model_cooldown cand reason d (base_cooldown cand r))"
  by (simp add: failure_input_ok_def cooldown_shapes)

lemma pred_option_if: "(b \<Longrightarrow> pred_option P x) \<Longrightarrow> (\<not> b \<Longrightarrow> pred_option P y) \<Longrightarrow> pred_option P (if b then x else y)"
  by simp

lemma base_reason [simp]: "coi_Reason (base_cooldown cand r) = ar_cooldownReason r"
  by (simp add: base_cooldown_def)

lemma failure_input_ok: "pred_option (failure_input_ok cand r) (cooldownInputForFailure cand r)"
  unfolding cooldownInputForFailure_def Let_def
  by (intro pred_option_if) (simp_all add: ok_credential ok_model cooldown_reason_defs)

lemma failure_input_okD: "cooldownInputForFailure cand r = Some input \<Longrightarrow> failure_input_ok cand r input"
  using failure_input_ok[of cand r] by simp

text \<open>The row a gateway cooldown becomes.\<close>

definition failure_row :: "failure_env \<Rightarrow> cooldown_input \<Rightarrow> route_cooldown" where
  "failure_row env input = activate_item (fe_newID env) (fe_now env) (activate_request (fe_fmt env) (fe_now env) input)"

lemma activate_rows:
  "set (fst (activate newID now clearErr createErr params tbl)) \<subseteq>
     set tbl \<union> {r. rc_ClearedAt r \<noteq> None} \<union> {activate_item newID now params}"
  by (cases clearErr; cases createErr) (auto simp: activate_eq activate_def[of _ _ "Some _"] activate_def[of _ _ _ "Some _"] Let_def)

lemma cooldownAfterFailure_rows:
  assumes "x \<in> set (fst (cooldownAfterFailure env cand r tbl))"
  obtains "x \<in> set tbl" | "rc_ClearedAt x \<noteq> None"
  | input d where "cooldownInputForFailure cand r = Some input" "x = failure_row env (input\<lparr>coi_Duration := d\<rparr>)"
proof (cases "x \<in> set tbl")
  case False
  then obtain input where i: "\<not> ar_success r" "cooldownInputForFailure cand r = Some input"
    using assms by (auto simp: cooldownAfterFailure_def split: if_splits option.splits)
  then have "x \<in> set (fst (activateCooldown (fe_fmt env) (fe_newID env) (fe_now env) (fe_clearErr env) (fe_createErr env)
      (input\<lparr>coi_Duration := escalatedCooldownDuration (fe_hasDB env) (fe_now env) (fe_countFails env) tbl cand input r\<rparr>) tbl))"
    using assms False by (auto simp: cooldownAfterFailure_def Let_def split: if_splits prod.splits sum.splits)
  with activate_rows False have "rc_ClearedAt x \<noteq> None \<or> x = failure_row env
      (input\<lparr>coi_Duration := escalatedCooldownDuration (fe_hasDB env) (fe_now env) (fe_countFails env) tbl cand input r\<rparr>)"
    unfolding activateCooldown_def failure_row_def by blast
  with that i show ?thesis by blast
qed (use that in blast)

lemma failure_row_fields:
  assumes "failure_input_ok cand r input" and "cmo_SiteModelID (cand_Model cand) \<noteq> uuid_nil"
  shows "rc_SiteID (failure_row env (input\<lparr>coi_Duration := d\<rparr>)) = cs_ID (cand_Site cand)"
    and "rc_Source (failure_row env (input\<lparr>coi_Duration := d\<rparr>)) = ''gateway''"
    and "rc_SiteCredentialID (failure_row env (input\<lparr>coi_Duration := d\<rparr>)) = coi_SiteCredentialID input"
    and "coi_SiteCredentialID input = None \<Longrightarrow>
      rc_SiteModelID (failure_row env (input\<lparr>coi_Duration := d\<rparr>)) = Some (cmo_SiteModelID (cand_Model cand))"
    and "rc_Reason (failure_row env (input\<lparr>coi_Duration := d\<rparr>)) =
      (if trim_space (coi_Reason input) = [] then ''cooldown'' else trim_space (coi_Reason input))"
proof -
  have gw: "trim_space ''gateway'' = ''gateway''" by code_simp
  have i: "coi_SiteID input = cs_ID (cand_Site cand)" "coi_Source input = ''gateway''"
    "coi_SiteCredentialID input \<noteq> Some uuid_nil"
    "coi_SiteCredentialID input = None \<Longrightarrow> coi_SiteModelID input = Some (cmo_SiteModelID (cand_Model cand))"
    using assms(1) by (auto simp: failure_input_ok_def)
  note defs = failure_row_def activate_item_def activate_request_def Let_def
  show "rc_SiteID (failure_row env (input\<lparr>coi_Duration := d\<rparr>)) = cs_ID (cand_Site cand)"
    "rc_Source (failure_row env (input\<lparr>coi_Duration := d\<rparr>)) = ''gateway''"
    "rc_Reason (failure_row env (input\<lparr>coi_Duration := d\<rparr>)) =
      (if trim_space (coi_Reason input) = [] then ''cooldown'' else trim_space (coi_Reason input))"
    using i gw by (simp_all add: defs)
  show "rc_SiteCredentialID (failure_row env (input\<lparr>coi_Duration := d\<rparr>)) = coi_SiteCredentialID input"
    using i(3) by (simp add: defs split: option.split)
  show "rc_SiteModelID (failure_row env (input\<lparr>coi_Duration := d\<rparr>)) = Some (cmo_SiteModelID (cand_Model cand))"
    if "coi_SiteCredentialID input = None"
    using i(4)[OF that] assms(2) by (simp add: defs)
qed

text \<open>The reasons a model is cooled for, of a failure that says nothing about a missing model.\<close>

lemma transient_reason:
  assumes "failure_input_ok cand r input" and "coi_SiteCredentialID input = None" and "ar_statusCode r \<noteq> 404"
    and "trim_space (ar_cooldownReason r) \<noteq> ''upstream_model_not_found''" and "trim_space (ar_errorType r) \<noteq> ''upstream_model_not_found''"
  shows "trim_space (coi_Reason input) \<noteq> ''upstream_model_not_found''"
proof -
  have fixed: "trim_space s \<noteq> ''upstream_model_not_found''"
    if "s \<in> {''upstream_model_unavailable'', ''upstream_failed'', ''upstream_no_response'', ''upstream_response_transform_failed'',
       ''upstream_stream_unstable'', ''upstream_credentials_exhausted''}" for s
  proof -
    have "list_all (\<lambda>s. trim_space s \<noteq> ''upstream_model_not_found'') [''upstream_model_unavailable'', ''upstream_failed'',
      ''upstream_no_response'', ''upstream_response_transform_failed'', ''upstream_stream_unstable'', ''upstream_credentials_exhausted'']"
      by code_simp
    then show ?thesis using that by (auto simp only: list_all_iff list.set)
  qed
  have "stringValue (Some e) f = f \<or> stringValue (Some e) f = trim_space e" for e f
    by (simp add: stringValue_def)
  with assms fixed show ?thesis
    unfolding failure_input_ok_def by (metis (no_types, lifting) insertCI insertE option.distinct(1) singletonD trim_space_idem)
qed


definition demo_candidate :: candidate where
  "demo_candidate = row_candidate empty_index (plain_site ''s1'' ''alpha'' 1)"

definition demo_failure :: "int \<Rightarrow> string \<Rightarrow> attempt_result" where
  "demo_failure status err = \<lparr>ar_success = False, ar_statusCode = status, ar_upstreamStatusCode = status, ar_errorType = err,
     ar_errorMessage = [], ar_responseStarted = False, ar_credentialID = uuid_nil, ar_credentialMasked = [],
     ar_credentialAttempt = 1, ar_credentialTotal = 1, ar_cooldownReason = [], ar_cooldownScope = [], ar_cooldownDuration = 0,
     ar_cooldownMetadata = [], ar_retryAfterSeconds = 0,
     ar_credentialDecision = \<lparr>cfd_NextCredentialAvailable = False, cfd_ShouldTryNextCredential = False, cfd_Action = []\<rparr>,
     ar_credentialDecisionSet = False, ar_contentType = [], ar_body = [], ar_upstreamErrorCode = [], ar_promptTokens = 0,
     ar_completionTokens = 0, ar_cachedPromptTokens = 0, ar_audioOutputTokens = 0\<rparr>"

definition demo_env :: failure_env where
  "demo_env = \<lparr>fe_fmt = (\<lambda>_. ''0''), fe_hasDB = True, fe_now = 7, fe_newID = ''cd1'', fe_attempts = Inr [],
     fe_countFails = False, fe_clearErr = None, fe_createErr = None\<rparr>"

lemma demo_model: "cmo_SiteModelID (cand_Model demo_candidate) = ''s1-model''"
  by (simp add: demo_candidate_def row_candidate_def plain_site_def Let_def)


section \<open>Escalation\<close>

lemma max_duration: "transientCooldownMaxDuration = 300000000000"
  by (simp add: transientCooldownMaxDuration_def seconds_def)

lemma double_duration_pow:
  assumes "0 < d" and "d \<le> 600000000000"
  shows "min transientCooldownMaxDuration (double_duration n d) = min transientCooldownMaxDuration (d * 2 ^ n)"
  using assms
proof (induction n arbitrary: d)
  case 0
  then show ?case by simp
next
  case (Suc n)
  show ?case
  proof (cases "d < transientCooldownMaxDuration")
    case True
    then have w: "wrap64 (d * 2) = d * 2" using Suc.prems by (intro wrap64_id) (simp_all add: max_duration in_int64_def)
    have "min transientCooldownMaxDuration (double_duration n (d * 2)) = min transientCooldownMaxDuration (d * 2 * 2 ^ n)"
      using Suc.prems True by (intro Suc.IH) (simp_all add: max_duration)
    with True w show ?thesis by (simp add: ac_simps)
  next
    case False
    have "d * 1 \<le> d * 2 ^ Suc n" using Suc.prems by (intro mult_left_mono one_le_power) simp_all
    with False show ?thesis by simp
  qed
qed

text \<open>Repeated failures of a model double its cooldown: the duration is the base times two to the number of recent
  activations, never above five minutes; whatever that number is, the computation does not overflow.\<close>

lemma escalated_duration_closed_form:
  assumes "0 < base" and "base \<le> transientCooldownMaxDuration"
  shows "escalateCooldownDuration base n = min transientCooldownMaxDuration (base * 2 ^ nat n)"
proof -
  have "escalateCooldownDuration base n = min transientCooldownMaxDuration (double_duration (nat n) base)"
    using assms(1) by (simp add: escalateCooldownDuration_def Let_def min_def)
  also have "\<dots> = min transientCooldownMaxDuration (base * 2 ^ nat n)"
    using assms by (intro double_duration_pow) (simp_all add: max_duration)
  finally show ?thesis .
qed

section \<open>Streaks of failures\<close>

lemma streak_loop_eq:
  assumes "n < threshold"
  shows "streak_loop items n threshold matches \<longleftrightarrow>
    (let gs = filter requestLogGatewayAttempt items; k = nat (threshold - n)
     in k \<le> length gs \<and> list_all matches (take k gs))"
  using assms
proof (induction items arbitrary: n)
  case Nil
  then show ?case by simp
next
  case (Cons item items)
  show ?case
  proof (cases "requestLogGatewayAttempt item")
    case False
    with Cons show ?thesis by simp
  next
    case True
    have k: "nat (threshold - n) = Suc (nat (threshold - (n + 1)))" using Cons.prems by linarith
    show ?thesis
    proof (cases "n + 1 \<ge> threshold")
      case True
      then have "threshold = n + 1" using Cons.prems by linarith
      with \<open>requestLogGatewayAttempt item\<close> show ?thesis by (auto simp: Let_def)
    next
      case False
      with Cons.IH[of "n + 1"] True show ?thesis unfolding Let_def k by auto
    qed
  qed
qed

text \<open>A model is cooled for missing responses or broken streams only after a streak: the threshold is reached exactly
  when there are that many gateway attempts and the most recent ones all failed in this way; attempts of
  other scopes are not counted, and one attempt of another outcome ends the streak.\<close>

lemma streak_needs_consecutive_failures:
  assumes "0 < threshold"
  shows "failureStreakReached items threshold matches \<longleftrightarrow>
    (\<exists>streak rest. filter requestLogGatewayAttempt items = streak @ rest \<and> int (length streak) = threshold \<and> list_all matches streak)"
proof -
  let ?gs = "filter requestLogGatewayAttempt items"
  have "failureStreakReached items threshold matches \<longleftrightarrow> nat threshold \<le> length ?gs \<and> list_all matches (take (nat threshold) ?gs)"
    using streak_loop_eq[of 0 threshold items matches] assms by (simp add: failureStreakReached_def Let_def)
  also have "\<dots> \<longleftrightarrow> (\<exists>streak rest. ?gs = streak @ rest \<and> int (length streak) = threshold \<and> list_all matches streak)"
  proof
    assume "nat threshold \<le> length ?gs \<and> list_all matches (take (nat threshold) ?gs)"
    then show "\<exists>streak rest. ?gs = streak @ rest \<and> int (length streak) = threshold \<and> list_all matches streak"
      using assms by (intro exI[of _ "take (nat threshold) ?gs"] exI[of _ "drop (nat threshold) ?gs"]) simp
  qed auto
  finally show ?thesis .
qed

end
