(* ===== verification/Image_Policy.thy ===== *)
theory Image_Policy
  imports Gateway_Cooldown
begin

text \<open>
  Requests of the gateway and what is decided about image generation: \<open>gateway/codex_image_policy.go\<close>, the tests of
  \<open>gateway/protocol_codex_images.go\<close> and the conditions of the image bridge in \<open>gateway/bridge_session.go\<close>.

  Of the canonical form of a request only whether it asks for an image is kept; the functions that compute it from a
  payload are the argument \<open>canonical\<close>.
\<close>

section \<open>Requests\<close>

definition gatewayEndpointResponses :: string where "gatewayEndpointResponses = ''/v1/responses''"
definition gatewayEndpointMessages :: string where "gatewayEndpointMessages = ''/v1/messages''"
definition gatewayEndpointChatCompletions :: string where "gatewayEndpointChatCompletions = ''/v1/chat/completions''"
definition gatewayEndpointImagesGenerations :: string where "gatewayEndpointImagesGenerations = ''/v1/images/generations''"
definition gatewayEndpointImagesEdits :: string where "gatewayEndpointImagesEdits = ''/v1/images/edits''"

record canonical_request =
  cn_Image :: bool

record gw_request =
  gq_DownstreamPath :: string
  gq_RequestedModel :: string
  gq_OriginalModel :: string
  gq_Stream :: bool
  gq_Diagnostic :: bool
  gq_Payload :: obj
  gq_Canonical :: "canonical_request option"

type_synonym canonicalizer = "string \<Rightarrow> obj \<Rightarrow> string \<Rightarrow> string + canonical_request"

section \<open>Tests on the payload\<close>

definition codexToolChoiceIsImageGeneration :: "any \<Rightarrow> bool" where
  "codexToolChoiceIsImageGeneration value \<longleftrightarrow> equal_fold (trim_space (anyString (obj_get (as_obj value) ''type''))) ''image_generation''"

definition image_tool :: "any \<Rightarrow> bool" where
  "image_tool item \<longleftrightarrow> equal_fold (trim_space (anyString (obj_get (as_obj item) ''type''))) ''image_generation''"

definition codexPayloadHasImageGenerationTool :: "obj \<Rightarrow> bool" where
  "codexPayloadHasImageGenerationTool payload \<longleftrightarrow>
     codexToolChoiceIsImageGeneration (obj_get payload ''tool_choice'')
     \<or> list_ex image_tool (case as_list (obj_get payload ''tools'') of None \<Rightarrow> [] | Some tools \<Rightarrow> tools)"

definition codexImageModelID :: "string \<Rightarrow> bool" where
  "codexImageModelID model \<longleftrightarrow> has_prefix (to_lower (trim_space model)) ''gpt-image''"

definition stringFromPayloadModel :: "obj \<Rightarrow> string" where
  "stringFromPayloadModel payload = trim_space (anyString (obj_get payload ''model''))"

fun requestPayloadContainsImagegenDirective :: "any \<Rightarrow> bool" where
  "requestPayloadContainsImagegenDirective (AString s) \<longleftrightarrow> str_contains (to_lower s) ''$imagegen''"
| "requestPayloadContainsImagegenDirective (AObj m) \<longleftrightarrow> list_ex (\<lambda>(k, child). requestPayloadContainsImagegenDirective child) m"
| "requestPayloadContainsImagegenDirective (AList vs) \<longleftrightarrow> list_ex requestPayloadContainsImagegenDirective vs"
| "requestPayloadContainsImagegenDirective v \<longleftrightarrow> False"

section \<open>Intent and policy\<close>

datatype image_intent = IntentNone | IntentModelEndpoint | IntentToolAdvertised | IntentExplicit

definition canonical_image :: "gw_request \<Rightarrow> bool" where
  "canonical_image request \<longleftrightarrow> (case gq_Canonical request of None \<Rightarrow> False | Some c \<Rightarrow> cn_Image c)"

definition codexImageIntentForRequest :: "gw_request \<Rightarrow> image_intent" where
  "codexImageIntentForRequest request =
     (if canonical_image request then IntentModelEndpoint
      else if gq_DownstreamPath request \<in> {gatewayEndpointImagesGenerations, gatewayEndpointImagesEdits} then IntentModelEndpoint
      else if codexToolChoiceIsImageGeneration (obj_get (gq_Payload request) ''tool_choice'') then IntentExplicit
      else if codexImageModelID (gq_RequestedModel request) \<or> codexImageModelID (stringFromPayloadModel (gq_Payload request))
        then IntentModelEndpoint
      else if requestPayloadContainsImagegenDirective (AObj (gq_Payload request)) then IntentExplicit
      else if codexPayloadHasImageGenerationTool (gq_Payload request) then IntentToolAdvertised
      else IntentNone)"

definition strip_tools :: "obj \<Rightarrow> obj" where
  "strip_tools payload = (case as_list (obj_get payload ''tools'') of
      None \<Rightarrow> payload
    | Some tools \<Rightarrow>
        let filtered = filter (\<lambda>item. \<not> image_tool item) tools in
        if filtered = [] then AList.delete ''tools'' payload else obj_set ''tools'' (AList filtered) payload)"

definition strip_payload :: "obj \<Rightarrow> obj" where
  "strip_payload payload0 =
     (let payload = strip_tools payload0 in
      if codexToolChoiceIsImageGeneration (obj_get payload ''tool_choice'') then obj_set ''tool_choice'' (AString ''auto'') payload
      else payload)"

definition stripImageGenerationToolFromRequest :: "canonicalizer \<Rightarrow> gw_request \<Rightarrow> gw_request" where
  "stripImageGenerationToolFromRequest canonical request =
     (if \<not> codexPayloadHasImageGenerationTool (gq_Payload request) then request
      else let payload = strip_payload (gq_Payload request); request = request\<lparr>gq_Payload := payload\<rparr> in
        if gq_DownstreamPath request \<in> {gatewayEndpointResponses, gatewayEndpointChatCompletions, gatewayEndpointMessages} then
          (case canonical (gq_DownstreamPath request) payload (gq_RequestedModel request) of
             Inl e \<Rightarrow> request
           | Inr c \<Rightarrow> request\<lparr>gq_Canonical := Some c\<rparr>)
        else request)"

definition site_tool_config :: "candidate \<Rightarrow> gateway_config" where
  "site_tool_config cand = zero_config\<lparr>gc_ResponsesToolPolicy := cs_ResponsesToolPolicy (cand_Site cand),
     gc_DisabledResponsesTools := cs_DisabledResponsesTools (cand_Site cand)\<rparr>"

definition image_tool_disabled :: "candidate \<Rightarrow> bool" where
  "image_tool_disabled cand = ResponsesToolDisabled (Some (site_tool_config cand)) ''image_generation''"

definition requestForCodexImagePolicy :: "canonicalizer \<Rightarrow> gw_request \<Rightarrow> candidate \<Rightarrow> image_intent \<Rightarrow> gw_request \<times> bool" where
  "requestForCodexImagePolicy canonical request cand intent =
     (if isCodexSite (cs_SiteType (cand_Site cand)) \<and> gq_DownstreamPath request = gatewayEndpointImagesEdits then (request, False)
      else if \<not> image_tool_disabled cand then (request, True)
      else if intent = IntentExplicit then (request, False)
      else if intent = IntentToolAdvertised then (stripImageGenerationToolFromRequest canonical request, True)
      else (request, True))"

section \<open>The image bridge\<close>

text \<open>The configuration of the API key (\<open>ImageBridge\<close>), decoded; \<open>None\<close> when the bridge is off.\<close>

record image_bridge =
  ib_Model :: string
  ib_SiteID :: "uuid option"
  ib_MaxCalls :: int

definition bridgeContextForRequest :: "image_bridge option \<Rightarrow> gw_request \<Rightarrow> image_intent \<Rightarrow> string + image_bridge" where
  "bridgeContextForRequest cfg request intent =
     (if gq_DownstreamPath request \<noteq> gatewayEndpointResponses then Inl ''non_responses_endpoint''
      else if \<not> gq_Stream request then Inl ''non_streaming_request''
      else if intent \<noteq> IntentToolAdvertised \<and> intent \<noteq> IntentExplicit then Inl ''no_image_intent''
      else if \<not> codexPayloadHasImageGenerationTool (gq_Payload request) then Inl ''no_image_generation_tool''
      else if trim_space (anyString (obj_get (gq_Payload request) ''previous_response_id'')) \<noteq> [] then Inl ''stateful_previous_response_id''
      else case cfg of None \<Rightarrow> Inl ''key_bridge_not_configured'' | Some c \<Rightarrow> Inr c)"

definition bridgeRescueEligible :: "attempt_result \<Rightarrow> bool" where
  "bridgeRescueEligible r =
     (if ar_success r \<or> ar_responseStarted r then False
      else let haystack = to_lower (ar_errorMessage r @ '' '' @ ar_body r) in
        list_ex (str_contains haystack)
          [''image generation is not enabled'', ''image generation is not supported'', ''images api is not supported''])"

text \<open>The protocol of an upstream, as far as the gateway looks at it: its name, whether it is one of the Codex and OpenAI Responses
  adapters, whether it is the Codex adapter for images, its endpoint types when it declares them, and the parameters it cannot
  carry when it is the Grok adapter.\<close>

record protocol =
  pr_Name :: string
  pr_Responses :: bool
  pr_CodexImages :: bool
  pr_Capabilities :: "string list option"
  pr_GrokIncompatible :: "(gw_request \<Rightarrow> string list) option"

definition candidateRequiresImageBridge :: "candidate \<Rightarrow> protocol \<Rightarrow> bool" where
  "candidateRequiresImageBridge cand p = (if pr_Responses p then image_tool_disabled cand else True)"

section \<open>What a site receives\<close>

lemma obj_get_delete: "obj_get (AList.delete k m) j = (if j = k then ANil else obj_get m j)"
  by (simp add: obj_get_def delete_conv')

lemma strip_tools_get: "j \<noteq> ''tools'' \<Longrightarrow> obj_get (strip_tools p) j = obj_get p j"
  by (simp add: strip_tools_def obj_get_delete Let_def split: option.split)

lemma strip_tools_clean:
  "\<not> list_ex image_tool (case as_list (obj_get (strip_tools p) ''tools'') of None \<Rightarrow> [] | Some tools \<Rightarrow> tools)"
  by (auto simp: strip_tools_def obj_get_delete list_ex_iff Let_def split: option.split)

lemma strip_payload_clean: "\<not> codexPayloadHasImageGenerationTool (strip_payload p)"
proof -
  have auto: "\<not> codexToolChoiceIsImageGeneration (AString ''auto'')"
    by (simp add: codexToolChoiceIsImageGeneration_def obj_get_def anyString_def equal_fold_def to_lower_def)
  show ?thesis
    using strip_tools_clean[of p] auto
    by (auto simp: strip_payload_def codexPayloadHasImageGenerationTool_def strip_tools_get Let_def)
qed

lemma strip_payload_get: "j \<notin> {''tools'', ''tool_choice''} \<Longrightarrow> obj_get (strip_payload p) j = obj_get p j"
  by (simp add: strip_payload_def strip_tools_get Let_def)

lemma strip_request:
  "codexPayloadHasImageGenerationTool (gq_Payload request) \<Longrightarrow>
     gq_Payload (stripImageGenerationToolFromRequest canonical request) = strip_payload (gq_Payload request)"
  "\<not> codexPayloadHasImageGenerationTool (gq_Payload request) \<Longrightarrow> stripImageGenerationToolFromRequest canonical request = request"
  by (auto simp: stripImageGenerationToolFromRequest_def Let_def split: sum.split)

text \<open>C28. A site that does not take the hosted image tool never receives it from a conversation: when the policy lets a request
  through to such a site, the payload that is sent neither offers the tool nor forces it (unless the request is for an image
  model or endpoint, which has no conversation), and every other field of the payload is as the client sent it. A
  request that depends on the tool is not let through.\<close>

theorem image_tool_withheld:
  assumes "image_tool_disabled cand" and "intent = codexImageIntentForRequest request" and "intent \<noteq> IntentModelEndpoint"
    and "requestForCodexImagePolicy canonical request cand intent = (sent, True)"
  shows "intent \<noteq> IntentExplicit
    \<and> \<not> codexPayloadHasImageGenerationTool (gq_Payload sent)
    \<and> (\<forall>field. field \<notin> {''tools'', ''tool_choice''} \<longrightarrow> obj_get (gq_Payload sent) field = obj_get (gq_Payload request) field)"
proof -
  have ne: "intent \<noteq> IntentExplicit" using assms(1,4) by (auto simp: requestForCodexImagePolicy_def split: if_splits)
  then consider (none) "intent = IntentNone" | (adv) "intent = IntentToolAdvertised" using assms(3) by (cases intent) auto
  then show ?thesis
  proof cases
    case none
    then have "\<not> codexPayloadHasImageGenerationTool (gq_Payload request)"
      using assms(2) by (auto simp: codexImageIntentForRequest_def split: if_splits)
    moreover have "sent = request" using assms(1,4) none by (auto simp: requestForCodexImagePolicy_def split: if_splits)
    ultimately show ?thesis using ne by simp
  next
    case adv
    then have has: "codexPayloadHasImageGenerationTool (gq_Payload request)"
      using assms(2) by (auto simp: codexImageIntentForRequest_def split: if_splits)
    moreover have "sent = stripImageGenerationToolFromRequest canonical request"
      using assms(1,4) adv by (auto simp: requestForCodexImagePolicy_def split: if_splits)
    ultimately have "gq_Payload sent = strip_payload (gq_Payload request)" by (simp add: strip_request)
    then show ?thesis using ne by (simp add: strip_payload_clean strip_payload_get)
  qed
qed

definition tool_request :: gw_request where
  "tool_request = \<lparr>gq_DownstreamPath = gatewayEndpointResponses, gq_RequestedModel = ''gpt-5'', gq_OriginalModel = ''gpt-5'', gq_Stream = True,
     gq_Diagnostic = False, gq_Payload = [(''tools'', AList [AObj [(''type'', AString ''image_generation'')]]), (''input'', AString ''hi'')],
     gq_Canonical = None\<rparr>"

definition toolless_candidate :: candidate where
  "toolless_candidate = demo_candidate\<lparr>cand_Site := (cand_Site demo_candidate)\<lparr>cs_ResponsesToolPolicy := ''compatibility'',
     cs_DisabledResponsesTools := Some [''image_generation'']\<rparr>\<rparr>"

theorem image_tool_withheld_witness:
  "requestForCodexImagePolicy (\<lambda>_ _ _. Inl ''x'') tool_request toolless_candidate (codexImageIntentForRequest tool_request) =
     (tool_request\<lparr>gq_Payload := [(''input'', AString ''hi'')]\<rparr>, True)
   \<and> \<not> codexPayloadHasImageGenerationTool [(''input'', AString ''hi'')]"
proof -
  have dis: "image_tool_disabled toolless_candidate" by code_simp
  have intent: "codexImageIntentForRequest tool_request = IntentToolAdvertised" by code_simp
  have codex: "\<not> isCodexSite (cs_SiteType (cand_Site toolless_candidate))" by code_simp
  have res: "requestForCodexImagePolicy (\<lambda>_ _ _. Inl ''x'') tool_request toolless_candidate (codexImageIntentForRequest tool_request) =
     (tool_request\<lparr>gq_Payload := [(''input'', AString ''hi'')]\<rparr>, True)"
    using dis codex unfolding requestForCodexImagePolicy_def intent
    by (simp add: stripImageGenerationToolFromRequest_def tool_request_def codexPayloadHasImageGenerationTool_def strip_payload_def
        strip_tools_def image_tool_def codexToolChoiceIsImageGeneration_def obj_get_def anyString_def equal_fold_def to_lower_def
        trim_space_def is_space_def lower_char_def Let_def)
  from image_tool_withheld[OF dis refl _ this] intent res show ?thesis by simp
qed

end
