(* ===== verification/Concurrency.thy ===== *)
theory Concurrency
  imports Router Slot_Pool
begin

text \<open>
  Concurrency limits towards the upstreams, \<open>server/internal/gateway/concurrency.go\<close>: one limiter per site,
  model and credential, a buffered channel whose tokens are the requests in flight.

  Channels live in a store, because a request that got a slot keeps its channel while the map of limiters
  may already hold another one. An acquisition is one step: the section under the lock and the attempt to
  send that follows it. The clock, the error of the context and the choice \<open>select\<close> makes when
  both of its cases are ready are parameters. The handler always has a cache, so the receiver is not nil.
\<close>

section \<open>Data\<close>

definition concurrencySweepInterval :: duration where "concurrencySweepInterval = minutes 1"
definition concurrencyIdleTTL :: duration where "concurrencyIdleTTL = minutes 10"

datatype concurrency_scope = ScopeSite | ScopeModel | ScopeCredential

datatype concurrency_error = SiteConcurrencyLimited | ModelConcurrencyLimited | CredentialConcurrencyLimited
  | ContextDone string

record chan =
  ch_len :: nat
  ch_cap :: int

record concurrency_limiter =
  li_ch :: nat
  li_limit :: int
  li_lastUsed :: go_time

record upstream_cache =
  uc_limiters :: "string \<rightharpoonup> concurrency_limiter"
  uc_lastSweep :: go_time
  uc_chans :: "nat \<rightharpoonup> chan"
  uc_nextChan :: nat

definition newUpstreamConcurrencyCache :: upstream_cache where
  "newUpstreamConcurrencyCache = \<lparr>uc_limiters = Map.empty, uc_lastSweep = 0, uc_chans = Map.empty, uc_nextChan = 0\<rparr>"

fun scope_text :: "concurrency_scope \<Rightarrow> string" where
  "scope_text ScopeSite = ''site''"
| "scope_text ScopeModel = ''site_model''"
| "scope_text ScopeCredential = ''credential''"

definition limiterKey :: "concurrency_scope \<Rightarrow> uuid \<Rightarrow> string" where
  "limiterKey scope i = scope_text scope @ '':'' @ i"

fun limiterScopeError :: "concurrency_scope \<Rightarrow> concurrency_error" where
  "limiterScopeError ScopeModel = ModelConcurrencyLimited"
| "limiterScopeError ScopeCredential = CredentialConcurrencyLimited"
| "limiterScopeError ScopeSite = SiteConcurrencyLimited"

definition chan_len :: "upstream_cache \<Rightarrow> nat \<Rightarrow> nat" where
  "chan_len c ch = (case uc_chans c ch of None \<Rightarrow> 0 | Some x \<Rightarrow> ch_len x)"

section \<open>Operations\<close>

definition evictIdleLocked :: "go_time \<Rightarrow> upstream_cache \<Rightarrow> upstream_cache" where
  "evictIdleLocked now c = c\<lparr>uc_limiters := (\<lambda>key. case uc_limiters c key of
      None \<Rightarrow> None
    | Some entry \<Rightarrow> if chan_len c (li_ch entry) = 0 \<and> now - li_lastUsed entry > concurrencyIdleTTL
        then None else Some entry)\<rparr>"

definition sweep_limiters :: "go_time \<Rightarrow> upstream_cache \<Rightarrow> upstream_cache" where
  "sweep_limiters now c = (if now - uc_lastSweep c \<ge> concurrencySweepInterval
     then (evictIdleLocked now c)\<lparr>uc_lastSweep := now\<rparr> else c)"

definition new_limiter :: "string \<Rightarrow> int \<Rightarrow> go_time \<Rightarrow> upstream_cache \<Rightarrow> upstream_cache \<times> nat" where
  "new_limiter key limit now c =
     (c\<lparr>uc_limiters := (uc_limiters c)(key \<mapsto> \<lparr>li_ch = uc_nextChan c, li_limit = limit, li_lastUsed = now\<rparr>),
        uc_chans := (uc_chans c)(uc_nextChan c \<mapsto> \<lparr>ch_len = 0, ch_cap = limit\<rparr>),
        uc_nextChan := uc_nextChan c + 1\<rparr>, uc_nextChan c)"

definition limiter_for :: "go_time \<Rightarrow> string \<Rightarrow> int \<Rightarrow> upstream_cache \<Rightarrow> upstream_cache \<times> nat" where
  "limiter_for now key limit c0 =
     (let c = sweep_limiters now c0 in
      case uc_limiters c key of
        None \<Rightarrow> new_limiter key limit now c
      | Some entry \<Rightarrow> if li_limit entry \<noteq> limit then new_limiter key limit now c
          else (c\<lparr>uc_limiters := (uc_limiters c)(key \<mapsto> entry\<lparr>li_lastUsed := now\<rparr>)\<rparr>, li_ch entry))"

definition set_len :: "nat \<Rightarrow> nat \<Rightarrow> upstream_cache \<Rightarrow> upstream_cache" where
  "set_len ch n c = (case uc_chans c ch of None \<Rightarrow> c
     | Some x \<Rightarrow> c\<lparr>uc_chans := (uc_chans c)(ch \<mapsto> x\<lparr>ch_len := n\<rparr>)\<rparr>)"

definition has_room :: "upstream_cache \<Rightarrow> nat \<Rightarrow> bool" where
  "has_room c ch = (case uc_chans c ch of None \<Rightarrow> False | Some x \<Rightarrow> int (ch_len x) < ch_cap x)"

text \<open>What surrounds one acquisition.\<close>

record acquire_env =
  ae_now :: go_time
  ae_ctxErr :: "string option"
  ae_pickDone :: bool

definition acquire_slot ::
  "acquire_env \<Rightarrow> concurrency_scope \<Rightarrow> uuid \<Rightarrow> int \<Rightarrow> upstream_cache \<Rightarrow> upstream_cache \<times> (concurrency_error + nat option)" where
  "acquire_slot env scope i limit c0 =
     (if limit \<le> 0 then (c0, Inr None)
      else let (c, ch) = limiter_for (ae_now env) (limiterKey scope i) limit c0 in
        case ae_ctxErr env of
          Some e \<Rightarrow> if ae_pickDone env \<or> \<not> has_room c ch then (c, Inl (ContextDone e))
            else (set_len ch (chan_len c ch + 1) c, Inr (Some ch))
        | None \<Rightarrow> if has_room c ch then (set_len ch (chan_len c ch + 1) c, Inr (Some ch))
            else (c, Inl (limiterScopeError scope)))"

text \<open>The function an acquisition returns: it takes one token of the captured channel, if there is one.\<close>

fun release_slot :: "nat option \<Rightarrow> upstream_cache \<Rightarrow> upstream_cache" where
  "release_slot None c = c"
| "release_slot (Some ch) c = (if chan_len c ch > 0 then set_len ch (chan_len c ch - 1) c else c)"

definition releaseAll :: "nat option list \<Rightarrow> upstream_cache \<Rightarrow> upstream_cache" where
  "releaseAll releases c = fold release_slot (rev releases) c"

fun acquire_scopes ::
  "(concurrency_scope \<Rightarrow> acquire_env) \<Rightarrow> (concurrency_scope \<times> uuid \<times> int option) list \<Rightarrow> nat option list \<Rightarrow> upstream_cache
     \<Rightarrow> upstream_cache \<times> (concurrency_error + nat option list)" where
  "acquire_scopes env [] releases c = (c, Inr releases)"
| "acquire_scopes env ((scope, i, limit) # rest) releases c =
     (case limit of
        None \<Rightarrow> acquire_scopes env rest releases c
      | Some n \<Rightarrow>
          if n \<le> 0 \<or> i = uuid_nil then acquire_scopes env rest releases c
          else (case acquire_slot (env scope) scope i n c of
              (c', Inl e) \<Rightarrow> (releaseAll releases c', Inl e)
            | (c', Inr release) \<Rightarrow> acquire_scopes env rest (releases @ [release]) c'))"

definition acquireUpstreamConcurrency ::
  "(concurrency_scope \<Rightarrow> acquire_env) \<Rightarrow> candidate \<Rightarrow> uuid \<Rightarrow> gateway_config option \<Rightarrow> upstream_cache
     \<Rightarrow> upstream_cache \<times> (concurrency_error + nat option list)" where
  "acquireUpstreamConcurrency env cand credentialID cfg c =
     (case cfg of
        None \<Rightarrow> (c, Inr [])
      | Some g \<Rightarrow> acquire_scopes env
          [(ScopeSite, cs_ID (cand_Site cand), gc_MaxConcurrency g),
           (ScopeModel, cmo_SiteModelID (cand_Model cand), gc_MaxModelConcurrency g),
           (ScopeCredential, credentialID, gc_MaxCredentialConcurrency g)] [] c)"

section \<open>Well-formed caches\<close>

definition cache_wf :: "upstream_cache \<Rightarrow> bool" where
  "cache_wf c \<longleftrightarrow> (\<forall>ch \<ge> uc_nextChan c. uc_chans c ch = None)
     \<and> (\<forall>key e. uc_limiters c key = Some e \<longrightarrow> (\<exists>x. uc_chans c (li_ch e) = Some x \<and> ch_cap x = li_limit e))
     \<and> (\<forall>ch x. uc_chans c ch = Some x \<longrightarrow> int (ch_len x) \<le> ch_cap x)
     \<and> (\<forall>k k' e e'. uc_limiters c k = Some e \<and> uc_limiters c k' = Some e' \<and> li_ch e = li_ch e' \<longrightarrow> k = k')"

lemma cache_wfD:
  assumes "cache_wf c"
  shows "uc_nextChan c \<le> ch \<Longrightarrow> uc_chans c ch = None"
    and "uc_limiters c key = Some e \<Longrightarrow> \<exists>x. uc_chans c (li_ch e) = Some x \<and> ch_cap x = li_limit e"
    and "uc_chans c ch = Some x \<Longrightarrow> int (ch_len x) \<le> ch_cap x"
    and "uc_limiters c k = Some e \<Longrightarrow> uc_limiters c k' = Some e' \<Longrightarrow> li_ch e = li_ch e' \<Longrightarrow> k = k'"
  using assms unfolding cache_wf_def by blast+

lemma wf_new: "cache_wf newUpstreamConcurrencyCache"
  by (simp add: cache_wf_def newUpstreamConcurrencyCache_def)

lemma sweep_frame [simp]:
  "uc_chans (sweep_limiters now c) = uc_chans c" "uc_nextChan (sweep_limiters now c) = uc_nextChan c"
  "chan_len (sweep_limiters now c) = chan_len c"
  by (simp_all add: sweep_limiters_def evictIdleLocked_def chan_len_def[abs_def])

lemma sweep_limitersD:
  assumes "uc_limiters c key = Some e" and "uc_limiters (sweep_limiters now c) key \<noteq> Some e"
  shows "chan_len c (li_ch e) = 0"
  using assms by (auto simp: sweep_limiters_def evictIdleLocked_def split: if_splits)

lemma sweep_sub: "uc_limiters (sweep_limiters now c) key = Some e \<Longrightarrow> uc_limiters c key = Some e"
  by (auto simp: sweep_limiters_def evictIdleLocked_def split: if_splits option.splits)

lemma wf_sweep: "cache_wf c \<Longrightarrow> cache_wf (sweep_limiters now c)"
  unfolding cache_wf_def by (auto dest!: sweep_sub)

text \<open>After the locked section the key has a limiter of the requested limit, no count has changed, and a limiter that
  disappeared was empty.\<close>

definition limiter_ready :: "string \<Rightarrow> int \<Rightarrow> upstream_cache \<Rightarrow> upstream_cache \<Rightarrow> nat \<Rightarrow> bool" where
  "limiter_ready key limit c c' ch \<longleftrightarrow> cache_wf c' \<and> chan_len c' = chan_len c
     \<and> (\<exists>e. uc_limiters c' key = Some e \<and> li_ch e = ch \<and> li_limit e = limit)
     \<and> (\<forall>e. uc_limiters c key = Some e \<and> li_limit e = limit \<and> chan_len c (li_ch e) \<noteq> 0 \<longrightarrow> li_ch e = ch)
     \<and> (\<forall>k. k \<noteq> key \<longrightarrow> uc_limiters c' k = uc_limiters c k \<or>
          (\<exists>e. uc_limiters c k = Some e \<and> chan_len c (li_ch e) = 0 \<and> uc_limiters c' k = None))"

lemma sweep_others:
  "uc_limiters (sweep_limiters now c) k = uc_limiters c k \<or>
     (\<exists>e. uc_limiters c k = Some e \<and> chan_len c (li_ch e) = 0 \<and> uc_limiters (sweep_limiters now c) k = None)"
  by (auto simp: sweep_limiters_def evictIdleLocked_def split: option.splits)

lemma new_limiter_wf:
  assumes "cache_wf c" and "0 < limit" and "new_limiter key limit now c = (c', ch)"
  shows "cache_wf c'" and "chan_len c' = chan_len c"
proof -
  have fresh: "uc_chans c (uc_nextChan c) = None" using cache_wfD(1)[OF assms(1)] by simp
  have old: "li_ch e \<noteq> uc_nextChan c" if "uc_limiters c k = Some e" for k e
    using cache_wfD(2)[OF assms(1) that] fresh by force
  have c': "c' = c\<lparr>uc_limiters := (uc_limiters c)(key \<mapsto> \<lparr>li_ch = uc_nextChan c, li_limit = limit, li_lastUsed = now\<rparr>),
        uc_chans := (uc_chans c)(uc_nextChan c \<mapsto> \<lparr>ch_len = 0, ch_cap = limit\<rparr>), uc_nextChan := uc_nextChan c + 1\<rparr>"
    using assms(3) by (auto simp: new_limiter_def)
  show "chan_len c' = chan_len c" unfolding c' by (rule ext) (simp add: chan_len_def fresh)
  have inj: "k = k'" if "uc_limiters c' k = Some e" "uc_limiters c' k' = Some e'" "li_ch e = li_ch e'" for k k' e e'
    using that old[of k e] old[of k' e'] cache_wfD(4)[OF assms(1), of k e k' e'] unfolding c'
    by (cases "k = key"; cases "k' = key") auto
  have ent: "\<exists>x. uc_chans c' (li_ch e) = Some x \<and> ch_cap x = li_limit e" if "uc_limiters c' k = Some e" for k e
    using that old cache_wfD(2)[OF assms(1), of k e] unfolding c' by (auto split: if_splits)
  show "cache_wf c'"
    unfolding cache_wf_def
  proof (intro conjI allI impI)
    show "uc_chans c' ch = None" if "uc_nextChan c' \<le> ch" for ch
      using that cache_wfD(1)[OF assms(1), of ch] unfolding c' by simp
    show "int (ch_len x) \<le> ch_cap x" if "uc_chans c' ch = Some x" for ch x
      using that assms(2) cache_wfD(3)[OF assms(1), of ch x] unfolding c' by (auto split: if_splits)
  qed (use ent inj in blast)+
qed

lemma limiter_for_ready:
  assumes wf: "cache_wf c" and pos: "0 < limit" and eq: "limiter_for now key limit c = (c', ch)"
  shows "limiter_ready key limit c c' ch"
proof -
  let ?s = "sweep_limiters now c"
  note wfs = wf_sweep[OF wf, of now]
  show ?thesis
  proof (cases "\<exists>e. uc_limiters ?s key = Some e \<and> li_limit e = limit")
    case True
    then obtain e where e: "uc_limiters ?s key = Some e" "li_limit e = limit" by blast
    then have c': "c' = ?s\<lparr>uc_limiters := (uc_limiters ?s)(key \<mapsto> e\<lparr>li_lastUsed := now\<rparr>)\<rparr>" and ch: "ch = li_ch e"
      using eq by (auto simp: limiter_for_def Let_def)
    have same: "\<exists>y0. uc_limiters ?s k = Some y0 \<and> li_ch y0 = li_ch y \<and> li_limit y0 = li_limit y"
      if "uc_limiters c' k = Some y" for k y
      using that e(1) unfolding c' by (cases "k = key") auto
    have ent: "\<exists>x. uc_chans c' (li_ch y) = Some x \<and> ch_cap x = li_limit y" if "uc_limiters c' k = Some y" for k y
    proof -
      from same[OF that] obtain y0 where "uc_limiters ?s k = Some y0" "li_ch y0 = li_ch y" "li_limit y0 = li_limit y" by blast
      then show ?thesis using cache_wfD(2)[OF wfs, of k y0] unfolding c' by simp
    qed
    have inj: "k = k'" if "uc_limiters c' k = Some y" "uc_limiters c' k' = Some y'" "li_ch y = li_ch y'" for k k' y y'
      using same[OF that(1)] same[OF that(2)] that(3) cache_wfD(4)[OF wfs] by metis
    have "cache_wf c'"
      unfolding cache_wf_def
    proof (intro conjI allI impI)
      show "uc_chans c' x = None" if "uc_nextChan c' \<le> x" for x
        using that cache_wfD(1)[OF wfs, of x] unfolding c' by simp
      show "int (ch_len x) \<le> ch_cap x" if "uc_chans c' y = Some x" for y x
        using that cache_wfD(3)[OF wfs, of y x] unfolding c' by simp
    qed (use ent inj in blast)+
    moreover have "chan_len c' = chan_len c"
      using sweep_frame(3)[of now c] unfolding c' by (simp add: chan_len_def[abs_def])
    ultimately show ?thesis
      using e ch sweep_others[of now c] sweep_sub[OF e(1)] unfolding limiter_ready_def c' by simp
  next
    case False
    then have "new_limiter key limit now ?s = (c', ch)"
      using eq by (auto simp: limiter_for_def Let_def split: option.splits if_splits)
    note new = this
    have "uc_limiters c' = (uc_limiters ?s)(key \<mapsto> \<lparr>li_ch = ch, li_limit = limit, li_lastUsed = now\<rparr>)"
      using new by (auto simp: new_limiter_def)
    moreover have "chan_len c' = chan_len c" using new_limiter_wf(2)[OF wfs pos new] by simp
    moreover have "\<forall>e. uc_limiters c key = Some e \<and> li_limit e = limit \<longrightarrow> chan_len c (li_ch e) = 0"
      using sweep_limitersD[of c key _ now] False by blast
    ultimately show ?thesis
      using new_limiter_wf(1)[OF wfs pos new] sweep_others[of now c] unfolding limiter_ready_def by auto
  qed
qed

lemma set_len_frame [simp]:
  "uc_limiters (set_len ch n c) = uc_limiters c" "uc_nextChan (set_len ch n c) = uc_nextChan c"
  by (simp_all add: set_len_def split: option.split)

lemma chan_len_set_len:
  "uc_chans c ch \<noteq> None \<Longrightarrow> chan_len (set_len ch n c) = (chan_len c)(ch := n)"
  by (rule ext) (auto simp: set_len_def chan_len_def split: option.split)

lemma wf_set_len:
  assumes "cache_wf c" and "\<And>x. uc_chans c ch = Some x \<Longrightarrow> int n \<le> ch_cap x"
  shows "cache_wf (set_len ch n c)"
proof (cases "uc_chans c ch")
  case None
  then show ?thesis using assms(1) by (simp add: set_len_def)
next
  case (Some y)
  then show ?thesis
    using assms unfolding cache_wf_def set_len_def
    by (auto split: if_splits) (metis option.sel)+
qed

lemma wf_release: "cache_wf c \<Longrightarrow> cache_wf (release_slot r c)"
proof (cases r)
  case (Some ch)
  assume wf: "cache_wf c"
  show ?thesis
    unfolding Some using cache_wfD(3)[OF wf, of ch] wf
    by (auto simp: chan_len_def intro!: wf_set_len split: option.splits)
qed simp

text \<open>What an acquisition does to the counts.\<close>

lemma acquire_slot_cases:
  assumes wf: "cache_wf c" and eq: "acquire_slot env scope i limit c = (c', res)"
  obtains (unlimited) "limit \<le> 0" "c' = c" "res = Inr None"
  | (refused) e ch where "0 < limit" "res = Inl e" "limiter_ready (limiterKey scope i) limit c c' ch"
  | (taken) ch c1 where "0 < limit" "res = Inr (Some ch)" "limiter_ready (limiterKey scope i) limit c c1 ch"
      "c' = set_len ch (chan_len c ch + 1) c1" "int (chan_len c ch) < limit" "cache_wf c'"
      "chan_len c' = (chan_len c)(ch := chan_len c ch + 1)"
proof (cases "limit \<le> 0")
  case True
  then show ?thesis using eq unlimited by (simp add: acquire_slot_def)
next
  case False
  obtain c1 ch where l: "limiter_for (ae_now env) (limiterKey scope i) limit c = (c1, ch)" by fastforce
  have ready: "limiter_ready (limiterKey scope i) limit c c1 ch"
    using limiter_for_ready[OF wf _ l] False by simp
  then have wf1: "cache_wf c1" and len: "chan_len c1 = chan_len c" by (simp_all add: limiter_ready_def)
  obtain e where e: "uc_limiters c1 (limiterKey scope i) = Some e" "li_ch e = ch" "li_limit e = limit"
    using ready by (auto simp: limiter_ready_def)
  obtain x where x: "uc_chans c1 ch = Some x" "ch_cap x = limit" using cache_wfD(2)[OF wf1 e(1)] e by auto
  consider "res = Inr (Some ch)" "c' = set_len ch (chan_len c1 ch + 1) c1" "has_room c1 ch" | err where "res = Inl err" "c' = c1"
  proof -
    have "(c', res) = (case ae_ctxErr env of
          Some e \<Rightarrow> if ae_pickDone env \<or> \<not> has_room c1 ch then (c1, Inl (ContextDone e))
            else (set_len ch (chan_len c1 ch + 1) c1, Inr (Some ch))
        | None \<Rightarrow> if has_room c1 ch then (set_len ch (chan_len c1 ch + 1) c1, Inr (Some ch))
            else (c1, Inl (limiterScopeError scope)))"
      using eq False unfolding acquire_slot_def l Let_def by simp
    then show thesis using that by (cases "ae_ctxErr env"; cases "has_room c1 ch"; cases "ae_pickDone env") simp_all
  qed
  then show ?thesis
  proof cases
    case 1
    have "int (chan_len c1 ch) < limit" using 1(3) x by (simp add: has_room_def chan_len_def)
    then have room: "int (chan_len c ch) < limit" by (simp only: len)
    have wf': "cache_wf c'" unfolding 1(2) using room x len by (intro wf_set_len[OF wf1]) auto
    have len': "chan_len c' = (chan_len c)(ch := chan_len c ch + 1)"
      unfolding 1(2) using x by (simp add: chan_len_set_len len)
    show ?thesis by (rule taken[OF _ 1(1) ready _ room wf' len']) (use False 1(2) len in simp_all)
  next
    case 2
    then show ?thesis using refused ready False by auto
  qed
qed

section \<open>All scopes or none\<close>

text \<open>How often a list of release functions returns a token to a channel.\<close>

definition tokens_of :: "nat option list \<Rightarrow> nat \<Rightarrow> nat" where
  "tokens_of releases ch = length (filter (\<lambda>r. r = Some ch) releases)"

lemma chan_len_release: "chan_len (release_slot r c) ch = (if r = Some ch then chan_len c ch - 1 else chan_len c ch)"
proof (cases r)
  case (Some ch')
  have "uc_chans c ch' \<noteq> None" if "chan_len c ch' > 0" using that by (auto simp: chan_len_def split: option.splits)
  then show ?thesis by (auto simp: Some chan_len_set_len)
qed simp

lemma release_fold:
  "cache_wf c \<Longrightarrow> cache_wf (fold release_slot rs c) \<and> chan_len (fold release_slot rs c) ch = chan_len c ch - tokens_of rs ch"
proof (induction rs arbitrary: c)
  case Nil
  then show ?case by (simp add: tokens_of_def)
next
  case (Cons r rs)
  then show ?case using Cons.IH[OF wf_release[OF Cons.prems, of r]] by (simp add: chan_len_release tokens_of_def)
qed

lemma releaseAll_len:
  assumes "cache_wf c"
  shows "cache_wf (releaseAll rs c)" "chan_len (releaseAll rs c) ch = chan_len c ch - tokens_of rs ch"
  using release_fold[OF assms, of "rev rs" ch] by (simp_all add: releaseAll_def tokens_of_def rev_filter[symmetric])

lemma tokens_of_snoc: "tokens_of (rs @ [r]) ch = tokens_of rs ch + (if r = Some ch then 1 else 0)"
  by (simp add: tokens_of_def)

lemma acquire_slot_counts:
  assumes "cache_wf c" and "acquire_slot env scope i limit c = (c', res)"
  shows "cache_wf c'" and "chan_len c' ch = chan_len c ch + (if res = Inr (Some ch) then 1 else 0)"
proof -
  have "cache_wf c' \<and> chan_len c' ch = chan_len c ch + (if res = Inr (Some ch) then 1 else 0)"
    using assms
  proof (cases rule: acquire_slot_cases)
    case unlimited
    then show ?thesis using assms(1) by simp
  next
    case (refused e ch)
    then show ?thesis by (simp add: limiter_ready_def)
  next
    case (taken ch' c1)
    show ?thesis unfolding taken(2,7) using taken(6) by simp
  qed
  then show "cache_wf c'" "chan_len c' ch = chan_len c ch + (if res = Inr (Some ch) then 1 else 0)" by blast+
qed

lemma acquire_scopes_counts:
  assumes "cache_wf c" and "\<And>ch. chan_len c ch = b ch + tokens_of releases ch"
    and "acquire_scopes env scopes releases c = (c', res)"
  shows "cache_wf c' \<and> (\<forall>ch. chan_len c' ch = (case res of Inl e \<Rightarrow> b ch | Inr rs \<Rightarrow> b ch + tokens_of rs ch))"
  using assms
proof (induction scopes arbitrary: releases c)
  case Nil
  then show ?case by auto
next
  case (Cons x scopes)
  obtain scope i limit where x: "x = (scope, i, limit)" by (cases x)
  show ?case
  proof (cases "\<exists>n. limit = Some n \<and> \<not> (n \<le> 0 \<or> i = uuid_nil)")
    case False
    then have "acquire_scopes env scopes releases c = (c', res)" using Cons.prems(3) by (auto simp: x split: option.splits)
    with Cons.IH[OF Cons.prems(1,2)] show ?thesis by blast
  next
    case True
    then obtain n where n: "limit = Some n" "\<not> (n \<le> 0 \<or> i = uuid_nil)" by blast
    obtain c1 res1 where a: "acquire_slot (env scope) scope i n c = (c1, res1)" by fastforce
    note counts = acquire_slot_counts[OF Cons.prems(1) a]
    show ?thesis
    proof (cases res1)
      case (Inl e)
      then have "c' = releaseAll releases c1" "res = Inl e" using Cons.prems(3) a n by (auto simp: x)
      then show ?thesis using releaseAll_len[OF counts(1)] counts(2) Inl Cons.prems(2) by simp
    next
      case (Inr r)
      then have "acquire_scopes env scopes (releases @ [r]) c1 = (c', res)" using Cons.prems(3) a n by (auto simp: x)
      moreover have "chan_len c1 ch = b ch + tokens_of (releases @ [r]) ch" for ch
        using counts(2)[of ch] Inr Cons.prems(2)[of ch] by (simp add: tokens_of_snoc)
      ultimately show ?thesis using Cons.IH[OF counts(1)] by blast
    qed
  qed
qed

lemma acquireUpstream_counts:
  assumes "cache_wf c" and "acquireUpstreamConcurrency env cand cred cfg c = (c', res)"
  shows "cache_wf c' \<and> (case res of
      Inl e \<Rightarrow> chan_len c' = chan_len c
    | Inr rs \<Rightarrow> (\<forall>ch. chan_len c' ch = chan_len c ch + tokens_of rs ch) \<and> chan_len (releaseAll rs c') = chan_len c)"
proof (cases cfg)
  case None
  with assms have "c' = c" "res = Inr []" by (simp_all add: acquireUpstreamConcurrency_def)
  with assms(1) show ?thesis by (simp add: tokens_of_def releaseAll_def)
next
  case (Some g)
  obtain scopes where "acquire_scopes env scopes [] c = (c', res)"
    using assms(2) unfolding Some acquireUpstreamConcurrency_def option.case by (rule that)
  from acquire_scopes_counts[OF assms(1) _ this, of "chan_len c"]
  have "cache_wf c'" "\<forall>ch. chan_len c' ch = (case res of Inl e \<Rightarrow> chan_len c ch | Inr rs \<Rightarrow> chan_len c ch + tokens_of rs ch)"
    by (simp_all add: tokens_of_def)
  then show ?thesis by (auto simp: releaseAll_len(2) fun_eq_iff split: sum.splits)
qed

text \<open>C29. An attempt gets the slots of its site, its model and its credential together or not at all: if one of them is
  refused, the slots taken before are returned and every channel holds what it held; if all are granted, exactly
  the captured channels hold one token more, and releasing restores all of them.\<close>

theorem upstream_slots_all_or_nothing:
  assumes "cache_wf c" and "acquireUpstreamConcurrency env cand cred cfg c = (c', res)"
  shows "cache_wf c' \<and> (case res of
      Inl e \<Rightarrow> chan_len c' = chan_len c
    | Inr rs \<Rightarrow> (\<forall>ch. chan_len c' ch = chan_len c ch + tokens_of rs ch) \<and> chan_len (releaseAll rs c') = chan_len c)"
  using assms by (rule acquireUpstream_counts)

section \<open>Requests in flight\<close>

text \<open>The cache together with the requests that hold a slot, each with its key and its captured channel. The
  configured limit of a key does not change (\<open>cap_of\<close>); a change replaces the channel and starts a new count.\<close>

record conc_sys =
  sy_cache :: upstream_cache
  sy_held :: "(string \<times> nat) list"

inductive conc_step :: "(string \<Rightarrow> int) \<Rightarrow> conc_sys \<Rightarrow> conc_sys \<Rightarrow> bool" for cap_of where
  granted: "acquire_slot env scope i (cap_of (limiterKey scope i)) c = (c', Inr (Some ch)) \<Longrightarrow>
    conc_step cap_of \<lparr>sy_cache = c, sy_held = held\<rparr> \<lparr>sy_cache = c', sy_held = (limiterKey scope i, ch) # held\<rparr>"
| refused: "acquire_slot env scope i (cap_of (limiterKey scope i)) c = (c', Inl e) \<Longrightarrow>
    conc_step cap_of \<lparr>sy_cache = c, sy_held = held\<rparr> \<lparr>sy_cache = c', sy_held = held\<rparr>"
| released: "conc_step cap_of \<lparr>sy_cache = c, sy_held = xs @ (key, ch) # ys\<rparr>
    \<lparr>sy_cache = release_slot (Some ch) c, sy_held = xs @ ys\<rparr>"

inductive conc_reach :: "(string \<Rightarrow> int) \<Rightarrow> conc_sys \<Rightarrow> bool" for cap_of where
  start: "conc_reach cap_of \<lparr>sy_cache = newUpstreamConcurrencyCache, sy_held = []\<rparr>"
| step: "conc_reach cap_of s \<Longrightarrow> conc_step cap_of s s' \<Longrightarrow> conc_reach cap_of s'"

inductive_simps conc_step_simps: "conc_step cap_of \<lparr>sy_cache = c, sy_held = held\<rparr> \<lparr>sy_cache = c', sy_held = held'\<rparr>"

definition holders :: "string \<Rightarrow> conc_sys \<Rightarrow> nat" where
  "holders key s = length (filter (\<lambda>h. fst h = key) (sy_held s))"

definition chan_holders :: "(string \<times> nat) list \<Rightarrow> nat \<Rightarrow> nat" where
  "chan_holders held ch = length (filter (\<lambda>h. snd h = ch) held)"

definition key_slots :: "string \<Rightarrow> conc_sys \<Rightarrow> nat" where
  "key_slots key s = (case uc_limiters (sy_cache s) key of None \<Rightarrow> 0 | Some e \<Rightarrow> chan_len (sy_cache s) (li_ch e))"

text \<open>The invariant: a request holds the current channel of its key, and every channel counts its requests.\<close>

definition conc_inv :: "(string \<Rightarrow> int) \<Rightarrow> conc_sys \<Rightarrow> bool" where
  "conc_inv cap_of s \<longleftrightarrow> cache_wf (sy_cache s)
     \<and> (\<forall>key ch. (key, ch) \<in> set (sy_held s) \<longrightarrow> (\<exists>e. uc_limiters (sy_cache s) key = Some e \<and> li_ch e = ch))
     \<and> (\<forall>key e. uc_limiters (sy_cache s) key = Some e \<longrightarrow> li_limit e = cap_of key)
     \<and> (\<forall>ch. chan_len (sy_cache s) ch = chan_holders (sy_held s) ch)"

lemma conc_invD:
  assumes "conc_inv cap_of s"
  shows "cache_wf (sy_cache s)" and "(key, ch) \<in> set (sy_held s) \<Longrightarrow> \<exists>e. uc_limiters (sy_cache s) key = Some e \<and> li_ch e = ch"
    and "uc_limiters (sy_cache s) key = Some e \<Longrightarrow> li_limit e = cap_of key"
    and "chan_len (sy_cache s) ch = chan_holders (sy_held s) ch"
  using assms unfolding conc_inv_def by blast+

text \<open>The current channel of a key is held by the requests of that key and by no other.\<close>

lemma key_slots_holders:
  assumes "conc_inv cap_of s"
  shows "key_slots key s = holders key s"
proof (cases "uc_limiters (sy_cache s) key")
  case None
  then have "filter (\<lambda>h. fst h = key) (sy_held s) = []"
    using conc_invD(2)[OF assms, of key] by (force simp: filter_empty_conv)
  with None show ?thesis by (simp add: key_slots_def holders_def)
next
  case (Some e)
  have "snd h = li_ch e \<longleftrightarrow> fst h = key" if h: "h \<in> set (sy_held s)" for h
  proof -
    obtain e' where e': "uc_limiters (sy_cache s) (fst h) = Some e'" "li_ch e' = snd h"
      using conc_invD(2)[OF assms, of "fst h" "snd h"] h unfolding prod.collapse by blast
    with Some cache_wfD(4)[OF conc_invD(1)[OF assms] e'(1) Some] show ?thesis by auto
  qed
  then have "filter (\<lambda>h. snd h = li_ch e) (sy_held s) = filter (\<lambda>h. fst h = key) (sy_held s)"
    by (rule filter_cong[OF refl])
  with Some show ?thesis by (simp add: key_slots_def holders_def conc_invD(4)[OF assms] chan_holders_def)
qed

text \<open>Replacing the cache keeps the invariant if no held channel was dropped.\<close>

lemma conc_inv_ready:
  assumes inv: "conc_inv cap_of \<lparr>sy_cache = c, sy_held = held\<rparr>" and ready: "limiter_ready key (cap_of key) c c' ch"
  shows "conc_inv cap_of \<lparr>sy_cache = c', sy_held = held\<rparr>" and "\<exists>e. uc_limiters c' key = Some e \<and> li_ch e = ch"
proof -
  note D = conc_invD[OF inv, simplified]
  from ready obtain e where e: "uc_limiters c' key = Some e" "li_ch e = ch" "li_limit e = cap_of key"
    and wf: "cache_wf c'" and len: "chan_len c' = chan_len c"
    and oth: "\<And>k. k \<noteq> key \<Longrightarrow> uc_limiters c' k = uc_limiters c k \<or>
          (\<exists>e. uc_limiters c k = Some e \<and> chan_len c (li_ch e) = 0 \<and> uc_limiters c' k = None)"
    by (auto simp: limiter_ready_def)
  from e show "\<exists>e. uc_limiters c' key = Some e \<and> li_ch e = ch" by blast
  have held: "\<exists>e. uc_limiters c' k = Some e \<and> li_ch e = x" if kx: "(k, x) \<in> set held" for k x
  proof -
    obtain e0 where e0: "uc_limiters c k = Some e0" "li_ch e0 = x" using D(2)[OF kx] by blast
    have "chan_holders held x \<noteq> 0" using kx by (force simp: chan_holders_def filter_empty_conv)
    then have pos: "chan_len c x \<noteq> 0" using D(4)[of x] by simp
    show ?thesis
    proof (cases "k = key")
      case False
      then show ?thesis using oth[OF False] e0 pos by auto
    next
      case True
      have "li_ch e0 = ch" using ready e0 pos D(3)[OF e0(1)] True by (simp add: limiter_ready_def)
      then have "li_ch e = x" using e(2) e0(2) by simp
      with e True show ?thesis by blast
    qed
  qed
  show "conc_inv cap_of \<lparr>sy_cache = c', sy_held = held\<rparr>"
    using wf held e oth D(3) len D(4) unfolding conc_inv_def by (simp; metis option.distinct(1) option.sel)
qed

lemma conc_inv_start: "conc_inv cap_of \<lparr>sy_cache = newUpstreamConcurrencyCache, sy_held = []\<rparr>"
  by (simp add: conc_inv_def wf_new chan_holders_def) (simp add: newUpstreamConcurrencyCache_def chan_len_def)

lemma conc_inv_granted:
  assumes inv: "conc_inv cap_of \<lparr>sy_cache = c, sy_held = held\<rparr>"
    and acq: "acquire_slot env scope i (cap_of (limiterKey scope i)) c = (c', Inr (Some ch))"
  shows "conc_inv cap_of \<lparr>sy_cache = c', sy_held = (limiterKey scope i, ch) # held\<rparr>"
    and "int (chan_len c ch) < cap_of (limiterKey scope i)"
    and "chan_len c' = (chan_len c)(ch := chan_len c ch + 1)"
proof -
  have wf: "cache_wf c" using conc_invD(1)[OF inv] by simp
  obtain c1 where t: "0 < cap_of (limiterKey scope i)" "limiter_ready (limiterKey scope i) (cap_of (limiterKey scope i)) c c1 ch"
      "c' = set_len ch (chan_len c ch + 1) c1" "int (chan_len c ch) < cap_of (limiterKey scope i)" "cache_wf c'"
      "chan_len c' = (chan_len c)(ch := chan_len c ch + 1)"
    using acquire_slot_cases[OF wf acq] by (metis Inl_Inr_False Inr_inject option.distinct(1) option.sel)
  from t(4,6) show "int (chan_len c ch) < cap_of (limiterKey scope i)" "chan_len c' = (chan_len c)(ch := chan_len c ch + 1)"
    by blast+
  note D1 = conc_invD[OF conc_inv_ready(1)[OF inv t(2)], simplified]
  have lims: "uc_limiters c' = uc_limiters c1" unfolding t(3) by simp
  have cnt: "chan_len c' x = chan_holders ((limiterKey scope i, ch) # held) x" for x
    using t(6) conc_invD(4)[OF inv, of x] by (cases "x = ch") (simp_all add: chan_holders_def)
  have held: "\<exists>e. uc_limiters c' k = Some e \<and> li_ch e = x" if "(k, x) \<in> set ((limiterKey scope i, ch) # held)" for k x
    using that conc_inv_ready(2)[OF inv t(2)] D1(2) unfolding lims by auto
  show "conc_inv cap_of \<lparr>sy_cache = c', sy_held = (limiterKey scope i, ch) # held\<rparr>"
    unfolding conc_inv_def using t(5) held cnt D1(3) lims by simp
qed

lemma conc_inv_refused:
  assumes inv: "conc_inv cap_of \<lparr>sy_cache = c, sy_held = held\<rparr>"
    and acq: "acquire_slot env scope i (cap_of (limiterKey scope i)) c = (c', Inl e)"
  shows "conc_inv cap_of \<lparr>sy_cache = c', sy_held = held\<rparr>"
proof -
  have wf: "cache_wf c" using conc_invD(1)[OF inv] by simp
  from acquire_slot_cases[OF wf acq] obtain ch where "limiter_ready (limiterKey scope i) (cap_of (limiterKey scope i)) c c' ch"
    by (metis Inl_Inr_False)
  then show ?thesis by (rule conc_inv_ready(1)[OF inv])
qed

lemma conc_inv_released:
  assumes inv: "conc_inv cap_of \<lparr>sy_cache = c, sy_held = xs @ (key, ch) # ys\<rparr>"
  shows "conc_inv cap_of \<lparr>sy_cache = release_slot (Some ch) c, sy_held = xs @ ys\<rparr>"
proof -
  note D = conc_invD[OF inv, simplified]
  have lims: "uc_limiters (release_slot (Some ch) c) = uc_limiters c" by simp
  have "chan_len (release_slot (Some ch) c) x = chan_holders (xs @ ys) x" for x
    unfolding chan_len_release D(4) by (simp add: chan_holders_def)
  then show ?thesis
    unfolding conc_inv_def using wf_release[OF D(1)] D(2,3) lims by (simp del: release_slot.simps)
qed

lemma conc_inv_step: "conc_step cap_of s s' \<Longrightarrow> conc_inv cap_of s \<Longrightarrow> conc_inv cap_of s'"
  by (induction rule: conc_step.induct) (blast intro: conc_inv_granted(1) conc_inv_refused conc_inv_released)+

lemma conc_inv_reach: "conc_reach cap_of s \<Longrightarrow> conc_inv cap_of s"
  by (induction rule: conc_reach.induct) (blast intro: conc_inv_start conc_inv_step)+

text \<open>The steps seen from one key, as a slot pool.\<close>

definition key_takes :: "(string \<Rightarrow> int) \<Rightarrow> string \<Rightarrow> conc_sys \<Rightarrow> conc_sys \<Rightarrow> bool" where
  "key_takes cap_of key s s' \<longleftrightarrow> conc_inv cap_of s \<and> conc_step cap_of s s' \<and> (\<exists>ch. sy_held s' = (key, ch) # sy_held s)"

definition key_gives :: "(string \<Rightarrow> int) \<Rightarrow> string \<Rightarrow> conc_sys \<Rightarrow> conc_sys \<Rightarrow> bool" where
  "key_gives cap_of key s s' \<longleftrightarrow> conc_inv cap_of s \<and> conc_step cap_of s s' \<and> holders key s = holders key s' + 1"

definition key_other :: "(string \<Rightarrow> int) \<Rightarrow> string \<Rightarrow> conc_sys \<Rightarrow> conc_sys \<Rightarrow> bool" where
  "key_other cap_of key s s' \<longleftrightarrow> conc_inv cap_of s \<and> conc_step cap_of s s' \<and> holders key s = holders key s'"

lemma granted_bound:
  assumes "conc_step cap_of s s'" and "conc_inv cap_of s" and "sy_held s' = (key, ch) # sy_held s"
  shows "int (key_slots key s') \<le> cap_of key"
  using assms
proof (induction rule: conc_step.induct)
  case (granted env scope i c c' x held)
  then have k: "key = limiterKey scope i" "x = ch" by simp_all
  note g = conc_inv_granted[OF granted(2) granted(1)]
  obtain e where "uc_limiters c' key = Some e" "li_ch e = ch" using conc_invD(2)[OF g(1), of key ch] k by auto
  with g(2,3) k show ?case by (simp add: key_slots_def)
next
  case (refused env scope i c c' e held)
  then show ?case by simp
next
  case (released c xs key' ch' ys)
  then have "length (xs @ ys) = length ((key, ch) # xs @ (key', ch') # ys)" by simp
  then show ?case by simp
qed

text \<open>A limit of zero means no limit and no slot, so the bound is read as at least zero.\<close>

interpretation key_slots: slot_pool "\<lambda>s. conc_inv cap_of s \<and> sy_held s = []" "key_takes cap_of key" "key_gives cap_of key" "key_other cap_of key"
    "\<lambda>s. int (key_slots key s)" "max 0 (cap_of key)" for cap_of :: "string \<Rightarrow> int" and key :: string
proof unfold_locales
  fix s s'
  show "int (key_slots key s) = 0" if "conc_inv cap_of s \<and> sy_held s = []"
    using that key_slots_holders[of cap_of s key] by (simp add: holders_def)
  show "int (key_slots key s') = int (key_slots key s) + 1 \<and> int (key_slots key s') \<le> max 0 (cap_of key)"
    if t: "key_takes cap_of key s s'"
  proof -
    obtain ch where s: "conc_inv cap_of s" "conc_step cap_of s s'" "sy_held s' = (key, ch) # sy_held s"
      using t by (auto simp: key_takes_def)
    have "holders key s' = holders key s + 1" using s(3) by (simp add: holders_def)
    then show ?thesis
      using key_slots_holders[OF s(1)] key_slots_holders[OF conc_inv_step[OF s(2,1)]] granted_bound[OF s(2,1,3)] by simp
  qed
  show "int (key_slots key s') = int (key_slots key s) - 1" if "key_gives cap_of key s s'"
    using that key_slots_holders[of cap_of _ key] conc_inv_step[of cap_of s s'] by (simp add: key_gives_def)
  show "int (key_slots key s') = int (key_slots key s)" if "key_other cap_of key s s'"
    using that key_slots_holders[of cap_of _ key] conc_inv_step[of cap_of s s'] by (simp add: key_other_def)
qed simp

lemma step_effect:
  assumes "conc_step cap_of s s'"
  obtains (takes) ch where "sy_held s' = (key, ch) # sy_held s"
  | (gives) "holders key s = holders key s' + 1" | (other) "holders key s = holders key s'"
  using assms
proof cases
  case (granted env scope i c c' ch held)
  then show ?thesis using takes other by (cases "limiterKey scope i = key") (simp_all add: holders_def)
next
  case (refused env scope i c c' e held)
  then show ?thesis using other by (simp add: holders_def)
next
  case (released c xs key' ch ys)
  then show ?thesis using gives other by (cases "key' = key") (simp_all add: holders_def)
qed

lemma reach_slot_run:
  assumes "conc_reach cap_of s"
  shows "slot_run (\<lambda>s. conc_inv cap_of s \<and> sy_held s = []) (key_takes cap_of key) (key_gives cap_of key) (key_other cap_of key)
    s (holders key s)"
  using assms
proof (induction rule: conc_reach.induct)
  case start
  show ?case using conc_inv_start by (auto simp: holders_def intro: slot_run.init)
next
  case (step s s')
  note inv = conc_inv_reach[OF step(1)]
  consider ch where "sy_held s' = (key, ch) # sy_held s" | "holders key s = holders key s' + 1" | "holders key s = holders key s'"
    using step(2) by (rule step_effect)
  then show ?case
  proof cases
    case 1
    then have "holders key s' = Suc (holders key s)" by (simp add: holders_def)
    then show ?thesis using slot_run.acquire[OF step(3)] inv step(2) 1 by (auto simp: key_takes_def)
  next
    case 2
    then show ?thesis using slot_run.release[of _ _ _ _ s "holders key s'" s'] step(3) inv step(2) by (simp add: key_gives_def)
  next
    case 3
    then show ?thesis using slot_run.unrelated[OF step(3), of s'] inv step(2) by (simp add: key_other_def)
  qed
qed

text \<open>C3. Upstream limits hold: in every interleaving of acquisitions, refusals, sweeps of idle limiters and releases, the number
  of requests that hold a slot of a site, model or credential is what its current channel counts and never exceeds
  the configured limit; the sweep never loses a slot in use.\<close>

theorem upstream_concurrency_bounded:
  assumes "conc_reach cap_of s" and "0 < cap_of key"
  shows "holders key s = key_slots key s \<and> int (holders key s) \<le> cap_of key"
  using key_slots.slots_held[OF reach_slot_run[OF assms(1), of key]] assms(2) by simp

definition demo_acquire :: "concurrency_scope \<Rightarrow> acquire_env" where
  "demo_acquire _ = \<lparr>ae_now = seconds 100, ae_ctxErr = None, ae_pickDone = False\<rparr>"

definition two_limits :: gateway_config where
  "two_limits = zero_config\<lparr>gc_MaxConcurrency := Some 1, gc_MaxModelConcurrency := Some 2\<rparr>"

definition demo_target :: candidate where
  "demo_target = row_candidate empty_index (plain_site ''s1'' ''alpha'' 1)"

lemma demo_target_ids: "cs_ID (cand_Site demo_target) = ''s1''" "cmo_SiteModelID (cand_Model demo_target) = ''s1-model''"
  by (simp_all add: demo_target_def row_candidate_def plain_site_def Let_def)

theorem upstream_slots_all_or_nothing_witness:
  "\<exists>c' rs. acquireUpstreamConcurrency demo_acquire demo_target ''k1'' (Some two_limits) newUpstreamConcurrencyCache = (c', Inr rs)
     \<and> rs = [Some 0, Some 1] \<and> chan_len c' 0 = 1 \<and> chan_len (releaseAll rs c') 0 = 0"
proof -
  obtain c' where a: "acquireUpstreamConcurrency demo_acquire demo_target ''k1'' (Some two_limits) newUpstreamConcurrencyCache
      = (c', Inr [Some 0, Some 1])"
    by (simp add: acquireUpstreamConcurrency_def two_limits_def zero_config_def demo_target_ids uuid_nil_def acquire_slot_def
        limiter_for_def sweep_limiters_def evictIdleLocked_def new_limiter_def newUpstreamConcurrencyCache_def demo_acquire_def
        has_room_def set_len_def chan_len_def limiterKey_def Let_def seconds_def concurrencySweepInterval_def)
  from upstream_slots_all_or_nothing[OF wf_new a]
  have "chan_len c' 0 = 1" "chan_len (releaseAll [Some 0, Some 1] c') 0 = 0"
    by (simp_all add: tokens_of_def) (simp_all add: newUpstreamConcurrencyCache_def chan_len_def)
  with a show ?thesis by blast
qed

theorem upstream_concurrency_bounded_witness:
  "\<exists>s. conc_reach (\<lambda>_. 1) s \<and> holders ''site:s1'' s = 1 \<and> key_slots ''site:s1'' s = 1"
proof -
  obtain c' where a: "acquire_slot (demo_acquire ScopeSite) ScopeSite ''s1'' 1 newUpstreamConcurrencyCache = (c', Inr (Some 0))"
    by (simp add: acquire_slot_def limiter_for_def sweep_limiters_def evictIdleLocked_def new_limiter_def
        newUpstreamConcurrencyCache_def demo_acquire_def has_room_def set_len_def chan_len_def limiterKey_def Let_def seconds_def
        concurrencySweepInterval_def)
  have k: "limiterKey ScopeSite ''s1'' = ''site:s1''" by (simp add: limiterKey_def)
  let ?s = "\<lparr>sy_cache = c', sy_held = [(''site:s1'', 0)]\<rparr>"
  have "conc_step (\<lambda>_. 1) \<lparr>sy_cache = newUpstreamConcurrencyCache, sy_held = []\<rparr> ?s"
    using conc_step.granted[of "demo_acquire ScopeSite" ScopeSite "''s1''" "\<lambda>_. 1", OF a] unfolding k .
  then have r: "conc_reach (\<lambda>_. 1) ?s" by (rule conc_reach.step[OF conc_reach.start])
  moreover have "holders ''site:s1'' ?s = 1" by (simp add: holders_def)
  ultimately show ?thesis using upstream_concurrency_bounded[OF r, of "''site:s1''"] by auto
qed

end
