(* ===== verification/Credential_Window.thy ===== *)
theory Credential_Window
  imports Go_Prelude "HOL-Library.Product_Lexorder"
begin

text \<open>
  The choice between the accounts of a Grok site, \<open>gateway/grok_credential_selector.go\<close>: the accounts that may be used, and
  \<open>credentialWindowSelector\<close>, which spreads the requests over them by counting the attempts in a sliding window and the
  requests that are still running. An operation is its section under the lock. The map of states is an association list.
\<close>

section \<open>Accounts\<close>

record gateway_credential =
  gcr_ID :: uuid
  gcr_CredentialType :: string
  gcr_MaskedSecret :: string
  gcr_SupportedEndpointTypes :: "string list"

record key_state =
  ks_SiteCredentialID :: uuid
  ks_Enabled :: bool
  ks_SyncStatus :: string
  ks_UnlimitedQuota :: bool
  ks_RemainQuota :: "int option"

record grok_candidate =
  gk_Credential :: gateway_credential
  gk_RemainingQuota :: int

definition isGrokSite :: "string \<Rightarrow> bool" where
  "isGrokSite siteType = equal_fold (trim_space siteType) ''grok''"

text \<open>\<open>usable\<close> is \<open>store.CredentialUsable\<close>, which reads the settings of the credential.\<close>

definition grokCredentialUsable :: "(gateway_credential \<Rightarrow> bool) \<Rightarrow> gateway_credential \<Rightarrow> key_state option \<Rightarrow> bool" where
  "grokCredentialUsable usable credential state =
     (if \<not> usable credential then False
      else case state of
          None \<Rightarrow> True
        | Some st \<Rightarrow> let status = to_lower (trim_space (ks_SyncStatus st)) in
            \<not> (\<not> ks_Enabled st \<or> status = ''failed'' \<or> status = ''reauth_required''))"

text \<open>The state of a credential: the last of the rows for it.\<close>

definition state_by_credential :: "key_state list \<Rightarrow> uuid \<Rightarrow> key_state option" where
  "state_by_credential states = map_of (map (\<lambda>st. (ks_SiteCredentialID st, st)) (rev states))"

definition remaining_quota :: "key_state option \<Rightarrow> int" where
  "remaining_quota state = (case state of
      None \<Rightarrow> 0
    | Some st \<Rightarrow> if ks_UnlimitedQuota st then 2 ^ 63 - 1 else case ks_RemainQuota st of Some q \<Rightarrow> q | None \<Rightarrow> 0)"

definition grokCredentialCandidates ::
  "(gateway_credential \<Rightarrow> bool) \<Rightarrow> gateway_credential list \<Rightarrow> key_state list \<Rightarrow> grok_candidate list" where
  "grokCredentialCandidates usable credentials states =
     map (\<lambda>c. \<lparr>gk_Credential = c, gk_RemainingQuota = remaining_quota (state_by_credential states (gcr_ID c))\<rparr>)
       (filter (\<lambda>c. has_prefix (gcr_CredentialType c) ''grok_sso:''
          \<and> grokCredentialUsable usable c (state_by_credential states (gcr_ID c))) credentials)"

section \<open>The selector\<close>

record window_state =
  ws_attempts :: "go_time list"
  ws_inflight :: int
  ws_lastSelected :: go_time

record window_selector =
  sel_window :: duration
  sel_states :: "(uuid \<times> window_state) list"

definition newCredentialWindowSelector :: "duration \<Rightarrow> window_selector" where
  "newCredentialWindowSelector window = \<lparr>sel_window = window, sel_states = []\<rparr>"

definition new_state :: window_state where
  "new_state = \<lparr>ws_attempts = [], ws_inflight = 0, ws_lastSelected = 0\<rparr>"

text \<open>\<open>state\<close> returns the state of a credential and creates it when it is absent.\<close>

definition state_of :: "window_selector \<Rightarrow> uuid \<Rightarrow> window_state" where
  "state_of s i = (case map_of (sel_states s) i of None \<Rightarrow> new_state | Some st \<Rightarrow> st)"

definition touch :: "uuid \<Rightarrow> window_selector \<Rightarrow> window_selector" where
  "touch i s = (if map_of (sel_states s) i = None then s\<lparr>sel_states := AList.update i new_state (sel_states s)\<rparr> else s)"

definition recentCredentialAttempts :: "go_time list \<Rightarrow> go_time \<Rightarrow> go_time list" where
  "recentCredentialAttempts attempts cutoff = dropWhile (\<lambda>t. \<not> t > cutoff) attempts"

definition sweep_states :: "go_time \<Rightarrow> window_selector \<Rightarrow> window_selector" where
  "sweep_states cutoff s = s\<lparr>sel_states :=
     filter (\<lambda>(i, st). \<not> (ws_attempts st = [] \<and> ws_inflight st = 0 \<and> ws_lastSelected st \<noteq> 0 \<and> \<not> ws_lastSelected st > cutoff))
       (map (\<lambda>(i, st). (i, st\<lparr>ws_attempts := recentCredentialAttempts (ws_attempts st) cutoff\<rparr>)) (sel_states s))\<rparr>"

definition prefer_credential :: "window_selector \<Rightarrow> grok_candidate \<Rightarrow> grok_candidate \<Rightarrow> bool" where
  "prefer_credential s left right =
     (let l = state_of s (gcr_ID (gk_Credential left)); r = state_of s (gcr_ID (gk_Credential right)) in
      if length (ws_attempts l) \<noteq> length (ws_attempts r) then length (ws_attempts l) < length (ws_attempts r)
      else if ws_inflight l \<noteq> ws_inflight r then ws_inflight l < ws_inflight r
      else if gk_RemainingQuota left \<noteq> gk_RemainingQuota right then gk_RemainingQuota left > gk_RemainingQuota right
      else if ws_lastSelected l \<noteq> ws_lastSelected r then ws_lastSelected l < ws_lastSelected r
      else gcr_ID (gk_Credential left) < gcr_ID (gk_Credential right))"

fun pick_best :: "grok_candidate list \<Rightarrow> grok_candidate \<Rightarrow> window_selector \<Rightarrow> grok_candidate \<times> window_selector" where
  "pick_best [] best s = (best, s)"
| "pick_best (c # cs) best s =
     pick_best cs (if prefer_credential s c best then c else best)
       (touch (gcr_ID (gk_Credential best)) (touch (gcr_ID (gk_Credential c)) s))"

definition selectCredential :: "go_time \<Rightarrow> grok_candidate list \<Rightarrow> window_selector \<Rightarrow> window_selector \<times> grok_candidate option" where
  "selectCredential now candidates s =
     (case candidates of
        [] \<Rightarrow> (s, None)
      | c # cs \<Rightarrow>
          let (best, s1) = pick_best cs c (sweep_states (now - sel_window s) s);
              i = gcr_ID (gk_Credential best); st = state_of s1 i
          in (s1\<lparr>sel_states := AList.update i
                (st\<lparr>ws_attempts := ws_attempts st @ [now], ws_inflight := wrap64 (ws_inflight st + 1), ws_lastSelected := now\<rparr>)
                (sel_states s1)\<rparr>, Some best))"

text \<open>The function returned with a selection; its first call has this effect and the others none.\<close>

definition release_selection :: "uuid \<Rightarrow> window_selector \<Rightarrow> window_selector" where
  "release_selection i s =
     (case map_of (sel_states s) i of
        None \<Rightarrow> s
      | Some st \<Rightarrow> if ws_inflight st > 0 then s\<lparr>sel_states := AList.update i (st\<lparr>ws_inflight := wrap64 (ws_inflight st - 1)\<rparr>) (sel_states s)\<rparr>
          else s)"

section \<open>The choice\<close>

lemma state_of_touch [simp]: "state_of (touch i s) j = state_of s j"
  by (simp add: state_of_def touch_def update_conv')

lemma prefer_credential_touch [simp]: "prefer_credential (touch i s) a b = prefer_credential s a b"
  by (simp add: prefer_credential_def)

text \<open>The preference in a given state compares tuples, so a minimum can be taken.\<close>

definition preference_key :: "window_selector \<Rightarrow> grok_candidate \<Rightarrow> nat \<times> int \<times> int \<times> int \<times> string" where
  "preference_key s c =
     (let i = gcr_ID (gk_Credential c); st = state_of s i in
      (length (ws_attempts st), ws_inflight st, - gk_RemainingQuota c, ws_lastSelected st, i))"

lemma prefer_key: "prefer_credential s a b \<longleftrightarrow> preference_key s a < preference_key s b"
  unfolding prefer_credential_def preference_key_def Let_def less_prod_def by auto

interpretation preference: strict_weak_order "prefer_credential s" for s
  by unfold_locales (auto simp: prefer_key)

lemma pick_best_spec:
  "pick_best cs best s = (b, s') \<Longrightarrow>
     (\<forall>i. state_of s' i = state_of s i) \<and> b \<in> set (best # cs) \<and> (\<forall>c \<in> set (best # cs). \<not> prefer_credential s c b)"
proof (induction cs arbitrary: best s)
  case Nil
  then show ?case by (simp add: preference.irrefl)
next
  case (Cons c cs)
  let ?s = "touch (gcr_ID (gk_Credential best)) (touch (gcr_ID (gk_Credential c)) s)"
  let ?b = "if prefer_credential s c best then c else best"
  have IH: "\<forall>i. state_of s' i = state_of ?s i" "b \<in> set (?b # cs)" "\<forall>c \<in> set (?b # cs). \<not> prefer_credential s c b"
    using Cons.IH[of ?b ?s] Cons.prems by auto
  have "\<not> prefer_credential s (if prefer_credential s c best then best else c) b"
  proof
    let ?o = "if prefer_credential s c best then best else c"
    assume "prefer_credential s ?o b"
    then have "prefer_credential s ?o ?b \<or> prefer_credential s ?b b" by (rule preference.neg_trans)
    moreover have "\<not> prefer_credential s ?o ?b" using preference.asym by auto
    moreover have "\<not> prefer_credential s ?b b" using IH(3) by simp
    ultimately show False by blast
  qed
  with IH show ?case by (auto split: if_splits)
qed

text \<open>A selector whose map has one state per credential.\<close>

definition sel_wf :: "window_selector \<Rightarrow> bool" where
  "sel_wf s \<longleftrightarrow> distinct (map fst (sel_states s))"

definition inflight_of :: "window_selector \<Rightarrow> uuid \<Rightarrow> int" where
  "inflight_of s i = ws_inflight (state_of s i)"

definition attempts_in_window :: "window_selector \<Rightarrow> go_time \<Rightarrow> uuid \<Rightarrow> nat" where
  "attempts_in_window s cutoff i = length (recentCredentialAttempts (ws_attempts (state_of s i)) cutoff)"

lemma map_of_map_filter:
  "distinct (map fst xs) \<Longrightarrow>
     map_of (filter P (map (\<lambda>(i, v). (i, f v)) xs)) k =
       (case map_of xs k of None \<Rightarrow> None | Some v \<Rightarrow> if P (k, f v) then Some (f v) else None)"
proof (induction xs)
  case (Cons x xs)
  obtain i v where x: "x = (i, v)" by (cases x)
  have none: "map_of xs i = None" using Cons.prems by (simp add: x map_of_eq_None_iff)
  show ?case
    using Cons.IH Cons.prems none by (cases "k = i") (simp_all add: x)
qed simp

lemma state_of_sweep:
  assumes "sel_wf s"
  shows "length (ws_attempts (state_of (sweep_states cutoff s) i)) = attempts_in_window s cutoff i"
    and "ws_inflight (state_of (sweep_states cutoff s) i) = ws_inflight (state_of s i)"
  using assms
  by (auto simp: state_of_def sweep_states_def sel_wf_def attempts_in_window_def new_state_def recentCredentialAttempts_def
      map_of_map_filter split: option.split)

lemma sel_wf_sweep: "sel_wf s \<Longrightarrow> sel_wf (sweep_states cutoff s)"
  unfolding sel_wf_def sweep_states_def by (simp add: distinct_map_filter o_def case_prod_unfold)

lemma sel_wf_touch: "sel_wf s \<Longrightarrow> sel_wf (touch i s)"
  by (simp add: sel_wf_def touch_def distinct_update)

lemma sel_wf_pick: "sel_wf s \<Longrightarrow> pick_best cs best s = (b, s') \<Longrightarrow> sel_wf s'"
proof (induction cs arbitrary: best s)
  case (Cons c cs)
  show ?case by (rule Cons.IH[OF _ Cons.prems(2)[simplified]]) (simp add: sel_wf_touch Cons.prems(1))
qed simp

lemma select_spec:
  assumes wf: "sel_wf s" and sel: "selectCredential now cands s = (s', Some best)"
  shows "sel_wf s'" and "best \<in> set cands"
    and "\<forall>c \<in> set cands. \<not> prefer_credential (sweep_states (now - sel_window s) s) c best"
    and "inflight_of s' i = (if i = gcr_ID (gk_Credential best) then wrap64 (inflight_of s i + 1) else inflight_of s i)"
proof -
  obtain c cs where cands: "cands = c # cs" using sel by (cases cands) (auto simp: selectCredential_def)
  let ?s = "sweep_states (now - sel_window s) s"
  obtain b s1 where p: "pick_best cs c ?s = (b, s1)" by fastforce
  let ?st = "state_of s1 (gcr_ID (gk_Credential b))"
  have eq: "b = best" "s' = s1\<lparr>sel_states := AList.update (gcr_ID (gk_Credential b))
      (?st\<lparr>ws_attempts := ws_attempts ?st @ [now], ws_inflight := wrap64 (ws_inflight ?st + 1), ws_lastSelected := now\<rparr>) (sel_states s1)\<rparr>"
    using sel p by (auto simp: cands selectCredential_def Let_def)
  note spec = pick_best_spec[OF p]
  show "best \<in> set cands" "\<forall>c \<in> set cands. \<not> prefer_credential ?s c best" using spec eq(1) by (auto simp: cands)
  show "sel_wf s'" using sel_wf_pick[OF sel_wf_sweep[OF wf] p] by (simp add: eq(2) sel_wf_def distinct_update)
  have st: "state_of s' i = (if i = gcr_ID (gk_Credential best) then
      ?st\<lparr>ws_attempts := ws_attempts ?st @ [now], ws_inflight := wrap64 (ws_inflight ?st + 1), ws_lastSelected := now\<rparr> else state_of s1 i)"
    by (simp add: eq state_of_def update_conv')
  have "inflight_of s1 i = inflight_of s i" using spec state_of_sweep(2)[OF wf] by (simp add: inflight_of_def)
  then show "inflight_of s' i = (if i = gcr_ID (gk_Credential best) then wrap64 (inflight_of s i + 1) else inflight_of s i)"
    using st eq(1) by (auto simp: inflight_of_def)
qed

lemma select_window: "sel_window (fst (selectCredential now cands s)) = sel_window s"
proof -
  have "pick_best cs c s = (b, s') \<Longrightarrow> sel_window s' = sel_window s" for cs c s b s'
    by (induction cs arbitrary: c s) (auto simp: touch_def)
  then show ?thesis
    by (auto simp: selectCredential_def sweep_states_def Let_def split: list.split prod.split)
qed

lemma release_spec:
  assumes "sel_wf s"
  shows "sel_wf (release_selection i s)"
    and "inflight_of (release_selection i s) j = (if j = i \<and> inflight_of s i > 0 then wrap64 (inflight_of s i - 1) else inflight_of s j)"
proof -
  show "sel_wf (release_selection i s)"
    using assms by (simp add: release_selection_def sel_wf_def distinct_update split: option.split)
  show "inflight_of (release_selection i s) j = (if j = i \<and> inflight_of s i > 0 then wrap64 (inflight_of s i - 1) else inflight_of s j)"
    by (cases "map_of (sel_states s) i") (simp_all add: release_selection_def inflight_of_def state_of_def new_state_def update_conv')
qed

text \<open>A request to a Grok site goes to the account that has been used least: the selected account is one of those offered,
  no offered account has fewer attempts in the window, and none with as many attempts has fewer running requests. The selection
  counts as one more running request of this account and of no other.\<close>

lemma least_used_credential_selected:
  assumes wf: "sel_wf s" and sel: "selectCredential now cands s = (s', Some best)"
  shows "best \<in> set cands
    \<and> (\<forall>c \<in> set cands. let cutoff = now - sel_window s; b = gcr_ID (gk_Credential best); i = gcr_ID (gk_Credential c) in
        attempts_in_window s cutoff b < attempts_in_window s cutoff i
        \<or> attempts_in_window s cutoff b = attempts_in_window s cutoff i \<and> inflight_of s b \<le> inflight_of s i)
    \<and> inflight_of s' = (inflight_of s)(gcr_ID (gk_Credential best) := wrap64 (inflight_of s (gcr_ID (gk_Credential best)) + 1))"
proof -
  let ?s = "sweep_states (now - sel_window s) s" and ?b = "gcr_ID (gk_Credential best)"
  note spec = select_spec[OF wf sel]
  have "attempts_in_window s (now - sel_window s) ?b < attempts_in_window s (now - sel_window s) (gcr_ID (gk_Credential c))
      \<or> attempts_in_window s (now - sel_window s) ?b = attempts_in_window s (now - sel_window s) (gcr_ID (gk_Credential c))
        \<and> inflight_of s ?b \<le> inflight_of s (gcr_ID (gk_Credential c))" if "c \<in> set cands" for c
  proof -
    have "\<not> prefer_credential ?s c best" using spec(3) that by blast
    then show ?thesis
      unfolding prefer_credential_def Let_def state_of_sweep[OF wf] inflight_of_def by (auto split: if_splits)
  qed
  then show ?thesis using spec(2,4) by (simp add: Let_def fun_eq_iff)
qed

end
