(* ===== verification/Inflight.thy ===== *)
theory Inflight
  imports Go_Prelude
begin

text \<open>
  The registry of requests in flight, \<open>server/internal/inflight/inflight.go\<close>: the live view of the console. It
  keeps the phase of every request and the tokens used per API key, per site and per combination of API key,
  site and model, and sends an event for every change.

  Go maps are association lists (their order is the iteration order). Every operation is its section under the lock, which
  returns the event, followed by \<open>publish\<close>, which takes the lock again; the two are separate here, so that other
  operations may come in between. A channel of a subscriber is the list of its buffered events.
\<close>

section \<open>Data\<close>

definition defaultTerminalRetention :: duration where "defaultTerminalRetention = seconds 3"

datatype phase = PhaseAccepted | PhaseRouted | PhaseResponding | PhaseCompleted | PhaseFailed | PhaseCancelled

record in_request =
  iq_RequestID :: string
  iq_APIKeyID :: string
  iq_APIKeyName :: string
  iq_ModelKey :: string
  iq_ModelProvider :: string
  iq_SiteID :: string
  iq_SiteName :: string
  iq_SiteType :: string
  iq_Attempt :: int
  iq_Stream :: bool
  iq_Phase :: phase
  iq_StartedAt :: go_time
  iq_UpdatedAt :: go_time

record in_route =
  irt_SiteID :: string
  irt_SiteName :: string
  irt_SiteType :: string
  irt_Attempt :: int

record token_amount =
  ta_Total :: int
  ta_Input :: int
  ta_Output :: int
  ta_Cached :: int

record usage_total =
  ut_ID :: string
  ut_Name :: string
  ut_TotalTokens :: int

record usage_cell =
  uc_APIKeyID :: string
  uc_APIKeyName :: string
  uc_SiteID :: string
  uc_SiteName :: string
  uc_ModelKey :: string
  uc_ModelProvider :: string
  uc_TotalTokens :: int
  uc_InputTokens :: int
  uc_OutputTokens :: int
  uc_CachedTokens :: int

type_synonym cell_key = "string \<times> string \<times> string"

record event =
  ev_Sequence :: int
  ev_Type :: string
  ev_Request :: "in_request option"
  ev_RequestID :: string
  ev_Tokens :: int
  ev_TotalTokens :: int
  ev_DownstreamUsage :: "usage_total option"
  ev_UpstreamUsage :: "usage_total option"
  ev_UsageCell :: "usage_cell option"

record snapshot =
  sn_Sequence :: int
  sn_Requests :: "in_request list"
  sn_TotalTokens :: int
  sn_DownstreamUsage :: "usage_total list"
  sn_UpstreamUsage :: "usage_total list"
  sn_UsageCells :: "usage_cell list"

record registry =
  rg_requests :: "(string \<times> in_request) list"
  rg_subscribers :: "(int \<times> event list) list"
  rg_nextID :: int
  rg_sequence :: int
  rg_totalTokens :: int
  rg_downstreamUsage :: "(string \<times> usage_total) list"
  rg_upstreamUsage :: "(string \<times> usage_total) list"
  rg_usageCells :: "(cell_key \<times> usage_cell) list"
  rg_terminalRetention :: duration

definition newRegistry :: registry where
  "newRegistry = \<lparr>rg_requests = [], rg_subscribers = [], rg_nextID = 0, rg_sequence = 0, rg_totalTokens = 0,
     rg_downstreamUsage = [], rg_upstreamUsage = [], rg_usageCells = [], rg_terminalRetention = defaultTerminalRetention\<rparr>"

fun isTerminalPhase :: "phase \<Rightarrow> bool" where
  "isTerminalPhase p = (p = PhaseCompleted \<or> p = PhaseFailed \<or> p = PhaseCancelled)"

definition token_normalized :: "token_amount \<Rightarrow> token_amount" where
  "token_normalized a0 =
     (let a = (if ta_Input a0 < 0 then a0\<lparr>ta_Input := 0\<rparr> else a0);
          a = (if ta_Output a < 0 then a\<lparr>ta_Output := 0\<rparr> else a);
          a = (if ta_Cached a < 0 then a\<lparr>ta_Cached := 0\<rparr> else a)
      in if ta_Total a \<le> 0 then a\<lparr>ta_Total := wrap64 (ta_Input a + ta_Output a)\<rparr> else a)"

section \<open>Operations\<close>

text \<open>The counter of events is an unsigned 64-bit integer.\<close>

definition newEventLocked :: "string \<Rightarrow> in_request option \<Rightarrow> string \<Rightarrow> registry \<Rightarrow> registry \<times> event" where
  "newEventLocked eventType request requestID r =
     (let n = (rg_sequence r + 1) mod 2 ^ 64 in
      (r\<lparr>rg_sequence := n\<rparr>,
       \<lparr>ev_Sequence = n, ev_Type = eventType, ev_Request = request,
        ev_RequestID = (case request of Some q \<Rightarrow> iq_RequestID q | None \<Rightarrow> requestID),
        ev_Tokens = 0, ev_TotalTokens = 0, ev_DownstreamUsage = None, ev_UpstreamUsage = None, ev_UsageCell = None\<rparr>))"

definition publish :: "event \<Rightarrow> registry \<Rightarrow> registry" where
  "publish e r = r\<lparr>rg_subscribers := map (\<lambda>(i, events). (i, if length events < 128 then events @ [e] else events)) (rg_subscribers r)\<rparr>"

definition put_request :: "in_request \<Rightarrow> registry \<Rightarrow> registry \<times> event option" where
  "put_request q r =
     (let (r', e) = newEventLocked ''upsert'' (Some q) [] (r\<lparr>rg_requests := AList.update (iq_RequestID q) q (rg_requests r)\<rparr>)
      in (r', Some e))"

definition start_request :: "go_time \<Rightarrow> in_request \<Rightarrow> registry \<Rightarrow> registry \<times> event option" where
  "start_request now request r =
     (if iq_RequestID request = [] then (r, None)
      else put_request (request\<lparr>iq_Phase := PhaseAccepted, iq_StartedAt := now, iq_UpdatedAt := now\<rparr>) r)"

text \<open>The callers of \<open>update\<close> do not change the identifier.\<close>

definition update_request :: "go_time \<Rightarrow> string \<Rightarrow> (in_request \<Rightarrow> in_request) \<Rightarrow> registry \<Rightarrow> registry \<times> event option" where
  "update_request now requestID change r =
     (if requestID = [] then (r, None)
      else case map_of (rg_requests r) requestID of
          None \<Rightarrow> (r, None)
        | Some request \<Rightarrow> if isTerminalPhase (iq_Phase request) then (r, None)
            else put_request ((change request)\<lparr>iq_UpdatedAt := now\<rparr>) r)"

definition route_request :: "go_time \<Rightarrow> string \<Rightarrow> in_route \<Rightarrow> registry \<Rightarrow> registry \<times> event option" where
  "route_request now requestID route =
     update_request now requestID (\<lambda>q. q\<lparr>iq_SiteID := irt_SiteID route, iq_SiteName := irt_SiteName route,
       iq_SiteType := irt_SiteType route, iq_Attempt := irt_Attempt route, iq_Phase := PhaseRouted\<rparr>)"

definition model_request :: "go_time \<Rightarrow> string \<Rightarrow> string \<Rightarrow> string \<Rightarrow> registry \<Rightarrow> registry \<times> event option" where
  "model_request now requestID modelKey provider =
     update_request now requestID (\<lambda>q. q\<lparr>iq_ModelKey := modelKey, iq_ModelProvider := provider\<rparr>)"

definition responding_request :: "go_time \<Rightarrow> string \<Rightarrow> registry \<Rightarrow> registry \<times> event option" where
  "responding_request now requestID = update_request now requestID (\<lambda>q. q\<lparr>iq_Phase := PhaseResponding\<rparr>)"

definition finish_request :: "go_time \<Rightarrow> string \<Rightarrow> phase \<Rightarrow> registry \<Rightarrow> registry \<times> event option" where
  "finish_request now requestID phase0 =
     update_request now requestID (\<lambda>q. q\<lparr>iq_Phase := (if isTerminalPhase phase0 then phase0 else PhaseFailed)\<rparr>)"

text \<open>The timer that \<open>Finish\<close> starts calls \<open>remove\<close> after the retention.\<close>

definition finish_retention :: "registry \<Rightarrow> duration" where
  "finish_retention r = (if rg_terminalRetention r \<le> 0 then defaultTerminalRetention else rg_terminalRetention r)"

definition remove_request :: "string \<Rightarrow> go_time \<Rightarrow> registry \<Rightarrow> registry \<times> event option" where
  "remove_request requestID finishedAt r =
     (case map_of (rg_requests r) requestID of
        None \<Rightarrow> (r, None)
      | Some request \<Rightarrow>
          if iq_UpdatedAt request \<noteq> finishedAt \<or> \<not> isTerminalPhase (iq_Phase request) then (r, None)
          else let (r', e) = newEventLocked ''remove'' None requestID (r\<lparr>rg_requests := AList.delete requestID (rg_requests r)\<rparr>)
            in (r', Some e))"

section \<open>Tokens\<close>

definition total_of :: "string \<Rightarrow> (string \<times> usage_total) list \<Rightarrow> usage_total" where
  "total_of k m = (case map_of m k of Some u \<Rightarrow> u | None \<Rightarrow> \<lparr>ut_ID = [], ut_Name = [], ut_TotalTokens = 0\<rparr>)"

definition add_total :: "string \<Rightarrow> string \<Rightarrow> int \<Rightarrow> (string \<times> usage_total) list \<Rightarrow> usage_total" where
  "add_total k name n m = (total_of k m)\<lparr>ut_ID := k, ut_Name := name, ut_TotalTokens := wrap64 (ut_TotalTokens (total_of k m) + n)\<rparr>"

definition cell_of :: "cell_key \<Rightarrow> (cell_key \<times> usage_cell) list \<Rightarrow> usage_cell" where
  "cell_of k m = (case map_of m k of Some u \<Rightarrow> u
     | None \<Rightarrow> \<lparr>uc_APIKeyID = [], uc_APIKeyName = [], uc_SiteID = [], uc_SiteName = [], uc_ModelKey = [], uc_ModelProvider = [],
          uc_TotalTokens = 0, uc_InputTokens = 0, uc_OutputTokens = 0, uc_CachedTokens = 0\<rparr>)"

definition request_cell :: "in_request \<Rightarrow> cell_key" where
  "request_cell q = (iq_APIKeyID q, iq_SiteID q, iq_ModelKey q)"

definition add_cell :: "in_request \<Rightarrow> token_amount \<Rightarrow> (cell_key \<times> usage_cell) list \<Rightarrow> usage_cell" where
  "add_cell q a m =
     (let c = cell_of (request_cell q) m in
      c\<lparr>uc_APIKeyID := iq_APIKeyID q, uc_APIKeyName := iq_APIKeyName q, uc_SiteID := iq_SiteID q, uc_SiteName := iq_SiteName q,
        uc_ModelKey := iq_ModelKey q, uc_ModelProvider := iq_ModelProvider q,
        uc_TotalTokens := wrap64 (uc_TotalTokens c + ta_Total a), uc_InputTokens := wrap64 (uc_InputTokens c + ta_Input a),
        uc_OutputTokens := wrap64 (uc_OutputTokens c + ta_Output a), uc_CachedTokens := wrap64 (uc_CachedTokens c + ta_Cached a)\<rparr>)"

text \<open>The two blocks of \<open>AddTokens\<close>: what is credited to the API key and its cell, and to the site.\<close>

definition credit_key :: "in_request \<Rightarrow> token_amount \<Rightarrow> registry \<Rightarrow> registry \<times> usage_total option \<times> usage_cell option" where
  "credit_key q a r =
     (if iq_APIKeyID q = [] then (r, None, None)
      else let u = add_total (iq_APIKeyID q) (iq_APIKeyName q) (ta_Total a) (rg_downstreamUsage r);
               c = add_cell q a (rg_usageCells r)
        in (r\<lparr>rg_downstreamUsage := AList.update (iq_APIKeyID q) u (rg_downstreamUsage r),
              rg_usageCells := AList.update (request_cell q) c (rg_usageCells r)\<rparr>, Some u, Some c))"

definition credit_site :: "in_request \<Rightarrow> token_amount \<Rightarrow> registry \<Rightarrow> registry \<times> usage_total option" where
  "credit_site q a r =
     (if iq_SiteID q = [] then (r, None)
      else let u = add_total (iq_SiteID q) (iq_SiteName q) (ta_Total a) (rg_upstreamUsage r)
        in (r\<lparr>rg_upstreamUsage := AList.update (iq_SiteID q) u (rg_upstreamUsage r)\<rparr>, Some u))"

definition credit_request ::
  "in_request option \<Rightarrow> token_amount \<Rightarrow> registry \<Rightarrow> registry \<times> usage_total option \<times> usage_total option \<times> usage_cell option" where
  "credit_request q0 a r = (case q0 of
      None \<Rightarrow> (r, None, None, None)
    | Some q \<Rightarrow> let (r1, d, c) = credit_key q a r; (r2, u) = credit_site q a r1 in (r2, d, u, c))"

definition addTokens :: "string \<Rightarrow> token_amount \<Rightarrow> registry \<Rightarrow> registry \<times> event option" where
  "addTokens requestID amount0 r0 =
     (let a = token_normalized amount0 in
      if ta_Total a \<le> 0 then (r0, None)
      else let r = r0\<lparr>rg_totalTokens := wrap64 (rg_totalTokens r0 + ta_Total a)\<rparr>;
               (r1, d, u, c) = credit_request (map_of (rg_requests r) requestID) a r;
               (r2, e) = newEventLocked ''usage'' None requestID r1
        in (r2, Some (e\<lparr>ev_Tokens := ta_Total a, ev_TotalTokens := rg_totalTokens r2, ev_DownstreamUsage := d,
                        ev_UpstreamUsage := u, ev_UsageCell := c\<rparr>)))"

section \<open>Snapshots and subscribers\<close>

definition request_before :: "in_request \<Rightarrow> in_request \<Rightarrow> bool" where
  "request_before a b = (if iq_StartedAt a = iq_StartedAt b then iq_RequestID a < iq_RequestID b else iq_StartedAt a < iq_StartedAt b)"

definition total_before :: "usage_total \<Rightarrow> usage_total \<Rightarrow> bool" where
  "total_before a b = (if ut_TotalTokens a \<noteq> ut_TotalTokens b then ut_TotalTokens a > ut_TotalTokens b else ut_Name a < ut_Name b)"

definition cell_before :: "usage_cell \<Rightarrow> usage_cell \<Rightarrow> bool" where
  "cell_before a b =
     (if uc_TotalTokens a \<noteq> uc_TotalTokens b then uc_TotalTokens a > uc_TotalTokens b
      else if uc_APIKeyName a \<noteq> uc_APIKeyName b then uc_APIKeyName a < uc_APIKeyName b
      else if uc_SiteName a \<noteq> uc_SiteName b then uc_SiteName a < uc_SiteName b
      else uc_ModelKey a < uc_ModelKey b)"

definition usageTotals :: "(string \<times> usage_total) list \<Rightarrow> usage_total list" where
  "usageTotals items = stable_sort total_before (map snd items)"

definition usageCells :: "(cell_key \<times> usage_cell) list \<Rightarrow> usage_cell list" where
  "usageCells items = stable_sort cell_before (map snd items)"

definition snapshot_of :: "registry \<Rightarrow> snapshot" where
  "snapshot_of r = \<lparr>sn_Sequence = rg_sequence r, sn_Requests = stable_sort request_before (map snd (rg_requests r)),
     sn_TotalTokens = rg_totalTokens r, sn_DownstreamUsage = usageTotals (rg_downstreamUsage r),
     sn_UpstreamUsage = usageTotals (rg_upstreamUsage r), sn_UsageCells = usageCells (rg_usageCells r)\<rparr>"

definition subscribe :: "registry \<Rightarrow> registry \<times> int" where
  "subscribe r = (r\<lparr>rg_nextID := (rg_nextID r + 1) mod 2 ^ 64,
     rg_subscribers := AList.update (rg_nextID r) [] (rg_subscribers r)\<rparr>, rg_nextID r)"

definition unsubscribe :: "int \<Rightarrow> registry \<Rightarrow> registry" where
  "unsubscribe i r = (if map_of (rg_subscribers r) i = None then r
     else r\<lparr>rg_subscribers := AList.delete i (rg_subscribers r)\<rparr>)"

text \<open>The gauge of requests, and the function \<open>Enter\<close> returns, which counts down once.\<close>

definition enter_gauge :: "int \<Rightarrow> int" where
  "enter_gauge n = wrap64 (n + 1)"

definition leave_gauge :: "bool \<Rightarrow> int \<Rightarrow> bool \<times> int" where
  "leave_gauge done n = (if done then (True, n) else (True, wrap64 (n - 1)))"

section \<open>Runs\<close>

datatype reg_op =
    OpStart go_time in_request
  | OpRoute go_time string in_route
  | OpModel go_time string string string
  | OpResponding go_time string
  | OpFinish go_time string phase
  | OpRemove string go_time
  | OpTokens string token_amount
  | OpPublish event
  | OpSubscribe
  | OpUnsubscribe int

fun apply_op :: "reg_op \<Rightarrow> registry \<Rightarrow> registry \<times> event option" where
  "apply_op (OpStart now q) r = start_request now q r"
| "apply_op (OpRoute now i rt) r = route_request now i rt r"
| "apply_op (OpModel now i m p) r = model_request now i m p r"
| "apply_op (OpResponding now i) r = responding_request now i r"
| "apply_op (OpFinish now i p) r = finish_request now i p r"
| "apply_op (OpRemove i t) r = remove_request i t r"
| "apply_op (OpTokens i a) r = addTokens i a r"
| "apply_op (OpPublish e) r = (publish e r, None)"
| "apply_op OpSubscribe r = (fst (subscribe r), None)"
| "apply_op (OpUnsubscribe i) r = (unsubscribe i r, None)"

fun run_ops :: "reg_op list \<Rightarrow> registry \<Rightarrow> registry \<times> event list" where
  "run_ops [] r = (r, [])"
| "run_ops (op # ops) r =
     (let (r1, e) = apply_op op r; (r2, es) = run_ops ops r1
      in (r2, (case e of None \<Rightarrow> es | Some ev \<Rightarrow> ev # es)))"

section \<open>What a subscriber reconstructs\<close>

text \<open>The state the console shows, and the specification of a subscriber: how it changes by an event.\<close>

record live_view =
  vw_sequence :: int
  vw_requests :: "string \<rightharpoonup> in_request"
  vw_totalTokens :: int
  vw_downstream :: "string \<rightharpoonup> usage_total"
  vw_upstream :: "string \<rightharpoonup> usage_total"
  vw_cells :: "cell_key \<rightharpoonup> usage_cell"

definition view_of :: "registry \<Rightarrow> live_view" where
  "view_of r = \<lparr>vw_sequence = rg_sequence r, vw_requests = map_of (rg_requests r), vw_totalTokens = rg_totalTokens r,
     vw_downstream = map_of (rg_downstreamUsage r), vw_upstream = map_of (rg_upstreamUsage r), vw_cells = map_of (rg_usageCells r)\<rparr>"

definition put_usage :: "usage_total option \<Rightarrow> (string \<rightharpoonup> usage_total) \<Rightarrow> (string \<rightharpoonup> usage_total)" where
  "put_usage u m = (case u of None \<Rightarrow> m | Some t \<Rightarrow> m(ut_ID t \<mapsto> t))"

definition put_cell :: "usage_cell option \<Rightarrow> (cell_key \<rightharpoonup> usage_cell) \<Rightarrow> (cell_key \<rightharpoonup> usage_cell)" where
  "put_cell c m = (case c of None \<Rightarrow> m | Some t \<Rightarrow> m((uc_APIKeyID t, uc_SiteID t, uc_ModelKey t) \<mapsto> t))"

definition apply_event :: "event \<Rightarrow> live_view \<Rightarrow> live_view" where
  "apply_event e v =
     (let v = v\<lparr>vw_sequence := ev_Sequence e\<rparr> in
      if ev_Type e = ''upsert'' then
        (case ev_Request e of None \<Rightarrow> v | Some q \<Rightarrow> v\<lparr>vw_requests := (vw_requests v)(iq_RequestID q \<mapsto> q)\<rparr>)
      else if ev_Type e = ''remove'' then v\<lparr>vw_requests := (vw_requests v)(ev_RequestID e := None)\<rparr>
      else if ev_Type e = ''usage'' then
        v\<lparr>vw_totalTokens := ev_TotalTokens e, vw_downstream := put_usage (ev_DownstreamUsage e) (vw_downstream v),
          vw_upstream := put_usage (ev_UpstreamUsage e) (vw_upstream v), vw_cells := put_cell (ev_UsageCell e) (vw_cells v)\<rparr>
      else v)"

definition apply_opt :: "event option \<Rightarrow> live_view \<Rightarrow> live_view" where
  "apply_opt e v = (case e of None \<Rightarrow> v | Some ev \<Rightarrow> apply_event ev v)"

lemma view_put: "view_of (fst (put_request q r)) = apply_opt (snd (put_request q r)) (view_of r)"
  by (simp add: put_request_def newEventLocked_def view_of_def apply_opt_def apply_event_def update_conv' Let_def)

lemma view_update: "view_of (fst (update_request now i f r)) = apply_opt (snd (update_request now i f r)) (view_of r)"
  by (auto simp: update_request_def view_put apply_opt_def split: option.split)

lemma view_remove: "view_of (fst (remove_request i t r)) = apply_opt (snd (remove_request i t r)) (view_of r)"
  by (auto simp: remove_request_def newEventLocked_def view_of_def apply_opt_def apply_event_def delete_conv' Let_def split: option.split)

lemma total_id [simp]: "ut_ID (add_total k n t m) = k"
  by (simp add: add_total_def)

lemma cell_id [simp]: "(uc_APIKeyID (add_cell q a m), uc_SiteID (add_cell q a m), uc_ModelKey (add_cell q a m)) = request_cell q"
  by (simp add: add_cell_def request_cell_def Let_def)

text \<open>A credit changes the usage maps by what it returns and nothing else.\<close>

lemma credit_request_maps:
  assumes "credit_request q a r = (r', d, u, c)"
  shows "map_of (rg_downstreamUsage r') = put_usage d (map_of (rg_downstreamUsage r))"
    and "map_of (rg_upstreamUsage r') = put_usage u (map_of (rg_upstreamUsage r))"
    and "map_of (rg_usageCells r') = put_cell c (map_of (rg_usageCells r))"
    and "rg_requests r' = rg_requests r" "rg_sequence r' = rg_sequence r" "rg_totalTokens r' = rg_totalTokens r"
  using assms unfolding atomize_conj
  by (cases q) (auto simp: credit_request_def credit_key_def credit_site_def put_usage_def put_cell_def update_conv' Let_def split: if_splits)

lemma view_tokens: "view_of (fst (addTokens i a r)) = apply_opt (snd (addTokens i a r)) (view_of r)"
proof (cases "ta_Total (token_normalized a) \<le> 0")
  case True
  then show ?thesis by (simp add: addTokens_def apply_opt_def)
next
  case False
  let ?r = "r\<lparr>rg_totalTokens := wrap64 (rg_totalTokens r + ta_Total (token_normalized a))\<rparr>"
  obtain r1 d u c where cr: "credit_request (map_of (rg_requests ?r) i) (token_normalized a) ?r = (r1, d, u, c)"
    using prod_cases4 by blast
  note m = credit_request_maps[OF cr]
  show ?thesis
    using False cr m by (simp add: addTokens_def newEventLocked_def view_of_def apply_opt_def apply_event_def Let_def)
qed

lemma view_subscribers [simp]: "view_of (r\<lparr>rg_subscribers := x\<rparr>) = view_of r" "view_of (r\<lparr>rg_nextID := n\<rparr>) = view_of r"
  by (simp_all add: view_of_def)

lemma view_op: "view_of (fst (apply_op op r)) = apply_opt (snd (apply_op op r)) (view_of r)"
proof (cases op)
  case (OpStart now q)
  then show ?thesis by (simp add: start_request_def view_put) (simp add: apply_opt_def)
qed (simp_all add: view_update view_remove view_tokens route_request_def model_request_def responding_request_def finish_request_def
      publish_def subscribe_def unsubscribe_def apply_opt_def)

text \<open>An event carries the next number, and an operation without an event leaves the number alone.\<close>

lemma sequence_put:
  "rg_sequence (fst (put_request q r)) = (rg_sequence r + 1) mod 2 ^ 64"
  "snd (put_request q r) = Some e \<Longrightarrow> ev_Sequence e = (rg_sequence r + 1) mod 2 ^ 64"
  by (auto simp: put_request_def newEventLocked_def Let_def)

definition numbered :: "registry \<Rightarrow> registry \<times> event option \<Rightarrow> bool" where
  "numbered r res = (case snd res of
      None \<Rightarrow> rg_sequence (fst res) = rg_sequence r
    | Some e \<Rightarrow> rg_sequence (fst res) = (rg_sequence r + 1) mod 2 ^ 64 \<and> ev_Sequence e = (rg_sequence r + 1) mod 2 ^ 64)"

lemma numbered_put: "numbered r (put_request q r)"
  by (simp add: numbered_def put_request_def newEventLocked_def Let_def)

lemma numbered_none: "rg_sequence r' = rg_sequence r \<Longrightarrow> numbered r (r', None)"
  by (simp add: numbered_def)

lemma numbered_update: "numbered r (update_request now i f r)"
  by (auto simp: update_request_def intro: numbered_put numbered_none split: option.split)

lemma numbered_tokens: "numbered r (addTokens i a r)"
proof (cases "ta_Total (token_normalized a) \<le> 0")
  case True
  then show ?thesis by (simp add: addTokens_def numbered_none)
next
  case False
  let ?r = "r\<lparr>rg_totalTokens := wrap64 (rg_totalTokens r + ta_Total (token_normalized a))\<rparr>"
  obtain r1 d u c where cr: "credit_request (map_of (rg_requests ?r) i) (token_normalized a) ?r = (r1, d, u, c)"
    using prod_cases4 by blast
  show ?thesis using False cr credit_request_maps(5)[OF cr] by (simp add: addTokens_def newEventLocked_def numbered_def Let_def)
qed

lemma numbered_op: "numbered r (apply_op op r)"
proof (cases op)
  case (OpStart now q)
  then show ?thesis by (simp add: start_request_def numbered_put numbered_none)
next
  case (OpRemove i t)
  then show ?thesis by (auto simp: remove_request_def newEventLocked_def numbered_def Let_def split: option.split)
qed (simp_all add: numbered_update numbered_tokens numbered_none route_request_def model_request_def responding_request_def
      finish_request_def publish_def subscribe_def unsubscribe_def)

lemma run_view: "run_ops ops r = (r', es) \<Longrightarrow> view_of r' = fold apply_event es (view_of r)"
proof (induction ops arbitrary: r es)
  case Nil
  then show ?case by simp
next
  case (Cons op ops)
  obtain r1 e where a: "apply_op op r = (r1, e)" by fastforce
  obtain es1 where b: "run_ops ops r1 = (r', es1)" and es: "es = (case e of None \<Rightarrow> es1 | Some ev \<Rightarrow> ev # es1)"
    using Cons.prems a by (cases "run_ops ops r1") auto
  show ?case
    using Cons.IH[OF b] view_op[of op r] a by (cases e) (simp_all add: es apply_opt_def)
qed

lemma run_numbers:
  "run_ops ops r = (r', es) \<Longrightarrow> 0 \<le> rg_sequence r \<Longrightarrow> rg_sequence r < 2 ^ 64 \<Longrightarrow>
     map ev_Sequence es = map (\<lambda>i. (rg_sequence r + int i + 1) mod 2 ^ 64) [0 ..< length es]
     \<and> rg_sequence r' = (rg_sequence r + int (length es)) mod 2 ^ 64"
proof (induction ops arbitrary: r es)
  case Nil
  then show ?case by simp
next
  case (Cons op ops)
  obtain r1 e where a: "apply_op op r = (r1, e)" by fastforce
  obtain es1 where b: "run_ops ops r1 = (r', es1)" and es: "es = (case e of None \<Rightarrow> es1 | Some ev \<Rightarrow> ev # es1)"
    using Cons.prems(1) a by (cases "run_ops ops r1") auto
  have num: "numbered r (r1, e)" using numbered_op[of r op] a by simp
  show ?case
  proof (cases e)
    case None
    then show ?thesis using num Cons.IH[OF b] Cons.prems es by (simp add: numbered_def)
  next
    case (Some ev)
    have n: "rg_sequence r1 = (rg_sequence r + 1) mod 2 ^ 64" "ev_Sequence ev = (rg_sequence r + 1) mod 2 ^ 64"
      using num Some by (simp_all add: numbered_def)
    have IH: "map ev_Sequence es1 = map (\<lambda>i. (rg_sequence r1 + int i + 1) mod 2 ^ 64) [0 ..< length es1]"
      "rg_sequence r' = (rg_sequence r1 + int (length es1)) mod 2 ^ 64"
      using Cons.IH[OF b] by (simp_all add: n)
    have sh: "(rg_sequence r1 + x) mod 2 ^ 64 = (rg_sequence r + 1 + x) mod 2 ^ 64" for x
      unfolding n(1) by (rule mod_add_left_eq)
    have "map (\<lambda>i. (rg_sequence r1 + int i + 1) mod 2 ^ 64) [0 ..< length es1] =
        map (\<lambda>i. (rg_sequence r + int i + 1) mod 2 ^ 64) [1 ..< Suc (length es1)]"
      using sh[of "int _ + 1"] by (intro nth_equalityI) (simp_all add: ac_simps del: upt_Suc)
    moreover have "[0 ..< Suc (length es1)] = 0 # [1 ..< Suc (length es1)]" by (simp add: upt_conv_Cons del: upt_Suc)
    ultimately show ?thesis
      using IH n(2) sh[of "int (length es1)"] by (simp add: es Some ac_simps del: upt_Suc)
  qed
qed

section \<open>Well-formed registries\<close>

definition reg_wf :: "registry \<Rightarrow> bool" where
  "reg_wf r \<longleftrightarrow> distinct (map fst (rg_requests r)) \<and> distinct (map fst (rg_downstreamUsage r))
     \<and> distinct (map fst (rg_upstreamUsage r)) \<and> distinct (map fst (rg_usageCells r))"

lemma wf_put: "reg_wf r \<Longrightarrow> reg_wf (fst (put_request q r))"
  by (simp add: put_request_def newEventLocked_def reg_wf_def distinct_update Let_def)

lemma wf_update: "reg_wf r \<Longrightarrow> reg_wf (fst (update_request now i f r))"
  by (auto simp: update_request_def intro: wf_put split: option.split)

lemma wf_credit: "reg_wf r \<Longrightarrow> credit_request q a r = (r', d, u, c) \<Longrightarrow> reg_wf r'"
  by (cases q) (auto simp: credit_request_def credit_key_def credit_site_def reg_wf_def distinct_update Let_def split: if_splits)

lemma wf_frame [simp]:
  "reg_wf (r\<lparr>rg_subscribers := x\<rparr>) = reg_wf r" "reg_wf (r\<lparr>rg_nextID := n\<rparr>) = reg_wf r"
  "reg_wf (r\<lparr>rg_sequence := n\<rparr>) = reg_wf r" "reg_wf (r\<lparr>rg_totalTokens := n\<rparr>) = reg_wf r"
  by (simp_all add: reg_wf_def)

lemma wf_op: "reg_wf r \<Longrightarrow> reg_wf (fst (apply_op op r))"
proof (cases op)
  case (OpStart now q)
  then show ?thesis if "reg_wf r" using that by (simp add: start_request_def wf_put)
next
  case (OpRemove i t)
  then show ?thesis if "reg_wf r"
    using that by (auto simp: remove_request_def newEventLocked_def reg_wf_def distinct_delete Let_def split: option.split)
next
  case (OpTokens i a)
  assume wf: "reg_wf r"
  let ?r = "r\<lparr>rg_totalTokens := wrap64 (rg_totalTokens r + ta_Total (token_normalized a))\<rparr>"
  obtain r1 d u c where cr: "credit_request (map_of (rg_requests ?r) i) (token_normalized a) ?r = (r1, d, u, c)"
    using prod_cases4 by blast
  have "reg_wf r1" by (rule wf_credit[OF _ cr]) (use wf in simp)
  then show ?thesis using cr wf by (simp add: OpTokens addTokens_def newEventLocked_def Let_def)
qed (simp_all add: wf_update route_request_def model_request_def responding_request_def finish_request_def
      publish_def subscribe_def unsubscribe_def)

lemma wf_run: "run_ops ops r = (r', es) \<Longrightarrow> reg_wf r \<Longrightarrow> reg_wf r'"
proof (induction ops arbitrary: r es)
  case Nil
  then show ?case by simp
next
  case (Cons op ops)
  obtain r1 e where a: "apply_op op r = (r1, e)" by fastforce
  then obtain es1 where "run_ops ops r1 = (r', es1)" using Cons.prems(1) by (cases "run_ops ops r1") auto
  with Cons.IH wf_op[OF Cons.prems(2), of op] a show ?case by simp
qed

lemma ran_values: "distinct (map fst m) \<Longrightarrow> set (map snd m) = ran (map_of m)"
  by (simp add: ran_distinct)

lemma snapshot_shows_view:
  assumes "reg_wf r"
  shows "set (sn_Requests (snapshot_of r)) = ran (vw_requests (view_of r))"
    and "set (sn_DownstreamUsage (snapshot_of r)) = ran (vw_downstream (view_of r))"
    and "set (sn_UpstreamUsage (snapshot_of r)) = ran (vw_upstream (view_of r))"
    and "set (sn_UsageCells (snapshot_of r)) = ran (vw_cells (view_of r))"
  using assms ran_values unfolding reg_wf_def snapshot_of_def view_of_def usageTotals_def usageCells_def
  by (auto simp del: set_map)

interpretation request_sort: strict_weak_order request_before
  by unfold_locales (auto simp: request_before_def split: if_splits)

interpretation total_sort: strict_weak_order total_before
  by unfold_locales (auto simp: total_before_def split: if_splits)

interpretation cell_sort: strict_weak_order cell_before
proof
  fix x y z
  show "\<not> cell_before x x" by (simp add: cell_before_def)
  show "cell_before x y \<Longrightarrow> cell_before y z \<Longrightarrow> cell_before x z"
    by (auto simp: cell_before_def split: if_splits)
  show "cell_before x z \<Longrightarrow> cell_before x y \<or> cell_before y z"
    by (auto simp: cell_before_def split: if_splits)
qed

text \<open>C25. The live view can be rebuilt from a snapshot and the events that follow it: whatever operations run between two
  snapshots, applying their events in the order of their numbers to the first gives the second, requests, token totals and
  usage cells alike; the events are numbered consecutively from the number of the first snapshot.\<close>

theorem events_rebuild_snapshot:
  assumes before: "run_ops ops0 newRegistry = (r, es0)" and after: "run_ops ops r = (r', es)"
  shows "let v = fold apply_event es (view_of r) in
    map ev_Sequence es = map (\<lambda>i. (sn_Sequence (snapshot_of r) + int i + 1) mod 2 ^ 64) [0 ..< length es]
    \<and> sn_Sequence (snapshot_of r') = (sn_Sequence (snapshot_of r) + int (length es)) mod 2 ^ 64
    \<and> sn_TotalTokens (snapshot_of r') = vw_totalTokens v
    \<and> set (sn_Requests (snapshot_of r')) = ran (vw_requests v)
    \<and> set (sn_DownstreamUsage (snapshot_of r')) = ran (vw_downstream v)
    \<and> set (sn_UpstreamUsage (snapshot_of r')) = ran (vw_upstream v)
    \<and> set (sn_UsageCells (snapshot_of r')) = ran (vw_cells v)"
proof -
  have "0 \<le> rg_sequence r \<and> rg_sequence r < 2 ^ 64"
    using run_numbers[OF before] by (simp add: newRegistry_def)
  then have num: "map ev_Sequence es = map (\<lambda>i. (rg_sequence r + int i + 1) mod 2 ^ 64) [0 ..< length es]"
    "rg_sequence r' = (rg_sequence r + int (length es)) mod 2 ^ 64"
    using run_numbers[OF after] by blast+
  have "reg_wf newRegistry" by (simp add: reg_wf_def newRegistry_def)
  then have "reg_wf r'" using wf_run[OF before] wf_run[OF after] by blast
  note snap = snapshot_shows_view[OF this]
  have v: "view_of r' = fold apply_event es (view_of r)" by (rule run_view[OF after])
  have tot: "sn_TotalTokens (snapshot_of r') = vw_totalTokens (view_of r')" by (simp add: snapshot_of_def view_of_def)
  have seq: "sn_Sequence (snapshot_of r) = rg_sequence r" "sn_Sequence (snapshot_of r') = rg_sequence r'"
    by (simp_all add: snapshot_of_def)
  show ?thesis unfolding seq Let_def using num snap tot unfolding v by blast
qed

section \<open>Token accounts\<close>

definition cell_sum :: "(cell_key \<Rightarrow> bool) \<Rightarrow> (cell_key \<times> usage_cell) list \<Rightarrow> int" where
  "cell_sum P m = sum_list (map (\<lambda>(k, c). if P k then uc_TotalTokens c else 0) m)"

lemma cell_sum_update:
  assumes "distinct (map fst m)"
  shows "cell_sum P (AList.update k c m) = cell_sum P m + (if P k then uc_TotalTokens c - uc_TotalTokens (cell_of k m) else 0)"
  using assms
proof (induction m)
  case Nil
  then show ?case by (simp add: cell_sum_def cell_of_def)
next
  case (Cons x m)
  obtain k' c' where x: "x = (k', c')" by (cases x)
  show ?case
  proof (cases "k' = k")
    case True
    then show ?thesis by (simp add: x cell_sum_def cell_of_def)
  next
    case False
    then have "cell_of k (x # m) = cell_of k m" by (simp add: x cell_of_def)
    with False Cons show ?thesis by (simp add: x cell_sum_def)
  qed
qed

text \<open>The accounts agree: the total of an API key and of a site is the sum of their cells, in 64-bit arithmetic.
  Every request names its API key, as the gateway does.\<close>

definition key_account :: "registry \<Rightarrow> bool" where
  "key_account r \<longleftrightarrow> (\<forall>k. ut_TotalTokens (total_of k (rg_downstreamUsage r)) = wrap64 (cell_sum (\<lambda>(a, s, m). a = k) (rg_usageCells r)))"

definition site_account :: "registry \<Rightarrow> bool" where
  "site_account r \<longleftrightarrow> (\<forall>k. k \<noteq> [] \<longrightarrow>
     ut_TotalTokens (total_of k (rg_upstreamUsage r)) = wrap64 (cell_sum (\<lambda>(a, s, m). s = k) (rg_usageCells r)))"

definition requests_keyed :: "registry \<Rightarrow> bool" where
  "requests_keyed r \<longleftrightarrow> (\<forall>(i, q) \<in> set (rg_requests r). iq_APIKeyID q \<noteq> [])"

lemma total_of_update: "total_of k (AList.update k' u m) = (if k = k' then u else total_of k m)"
  by (simp add: total_of_def update_conv')

lemma add_cell_tokens: "uc_TotalTokens (add_cell q a m) = wrap64 (uc_TotalTokens (cell_of (request_cell q) m) + ta_Total a)"
  by (simp add: add_cell_def Let_def)

lemma wrap64_replace: "wrap64 (s + (wrap64 (c + n) - c)) = wrap64 (s + n)"
proof -
  have "wrap64 (s + (wrap64 (c + n) - c)) = wrap64 (wrap64 (c + n) + (s - c))" by (rule arg_cong[of _ _ wrap64]) simp
  also have "\<dots> = wrap64 (c + n + (s - c))" by (simp only: wrap64_add_wrap)
  also have "\<dots> = wrap64 (s + n)" by (rule arg_cong[of _ _ wrap64]) simp
  finally show ?thesis .
qed

text \<open>The credit of a request to the cells changes the sum of its API key, and of its site, by the amount.\<close>

lemma cell_sum_credit:
  assumes "distinct (map fst m)"
  shows "wrap64 (cell_sum P (AList.update (request_cell q) (add_cell q a m) m)) =
    wrap64 (cell_sum P m + (if P (request_cell q) then ta_Total a else 0))"
  using wrap64_replace[of "cell_sum P m" "uc_TotalTokens (cell_of (request_cell q) m)" "ta_Total a"]
  by (simp add: cell_sum_update[OF assms] add_cell_tokens)

lemma accounts_credit:
  assumes wf: "reg_wf r" and acc: "key_account r" "site_account r" and key: "iq_APIKeyID q \<noteq> []"
    and cr: "credit_request (Some q) a r = (r', d, u, c)"
  shows "key_account r' \<and> site_account r'"
proof -
  have dist: "distinct (map fst (rg_usageCells r))" using wf by (simp add: reg_wf_def)
  have cells: "rg_usageCells r' = AList.update (request_cell q) (add_cell q a (rg_usageCells r)) (rg_usageCells r)"
    and down: "rg_downstreamUsage r' =
      AList.update (iq_APIKeyID q) (add_total (iq_APIKeyID q) (iq_APIKeyName q) (ta_Total a) (rg_downstreamUsage r)) (rg_downstreamUsage r)"
    and up: "rg_upstreamUsage r' = (if iq_SiteID q = [] then rg_upstreamUsage r
      else AList.update (iq_SiteID q) (add_total (iq_SiteID q) (iq_SiteName q) (ta_Total a) (rg_upstreamUsage r)) (rg_upstreamUsage r))"
    using cr key by (auto simp: credit_request_def credit_key_def credit_site_def Let_def split: if_splits)
  have tot: "ut_TotalTokens (add_total k n t m) = wrap64 (ut_TotalTokens (total_of k m) + t)" for k n t m
    by (simp add: add_total_def)
  have "key_account r'"
    using acc(1) unfolding key_account_def cells cell_sum_credit[OF dist] down total_of_update
    by (auto simp: tot request_cell_def)
  moreover have "site_account r'"
    using acc(2) unfolding site_account_def cells cell_sum_credit[OF dist] up total_of_update
    by (auto simp: tot request_cell_def total_of_update)
  ultimately show ?thesis ..
qed

definition accounts_ok :: "registry \<Rightarrow> bool" where
  "accounts_ok r \<longleftrightarrow> reg_wf r \<and> key_account r \<and> site_account r \<and> requests_keyed r"

lemma accounts_frame:
  assumes "accounts_ok r" and "reg_wf r'" and "rg_usageCells r' = rg_usageCells r" "rg_downstreamUsage r' = rg_downstreamUsage r"
    "rg_upstreamUsage r' = rg_upstreamUsage r" and "requests_keyed r'"
  shows "accounts_ok r'"
  using assms by (simp add: accounts_ok_def key_account_def site_account_def)

lemma alist_update_entries: "x \<in> set (AList.update k v xs) \<Longrightarrow> x = (k, v) \<or> x \<in> set xs"
  by (induction xs) (auto split: if_splits)

lemma keyed_put:
  "requests_keyed r \<Longrightarrow> iq_APIKeyID q \<noteq> [] \<Longrightarrow> requests_keyed (fst (put_request q r))"
  using alist_update_entries[of _ "iq_RequestID q" q "rg_requests r"]
  by (auto simp: requests_keyed_def put_request_def newEventLocked_def Let_def)

lemma put_frame: "rg_usageCells (fst (put_request q r)) = rg_usageCells r"
  "rg_downstreamUsage (fst (put_request q r)) = rg_downstreamUsage r" "rg_upstreamUsage (fst (put_request q r)) = rg_upstreamUsage r"
  by (simp_all add: put_request_def newEventLocked_def Let_def)

lemma accounts_put: "accounts_ok r \<Longrightarrow> iq_APIKeyID q \<noteq> [] \<Longrightarrow> accounts_ok (fst (put_request q r))"
  using keyed_put wf_put put_frame by (rule_tac accounts_frame) (auto simp: accounts_ok_def)

lemma accounts_update:
  assumes "accounts_ok r" and "\<And>q. iq_APIKeyID (f q) = iq_APIKeyID q"
  shows "accounts_ok (fst (update_request now i f r))"
proof -
  have "iq_APIKeyID q \<noteq> []" if "map_of (rg_requests r) i = Some q" for q
    using assms(1) map_of_SomeD[OF that] by (auto simp: accounts_ok_def requests_keyed_def)
  with assms show ?thesis by (auto simp: update_request_def intro!: accounts_put split: option.split)
qed

definition op_keyed :: "reg_op \<Rightarrow> bool" where
  "op_keyed op = (case op of OpStart now q \<Rightarrow> iq_APIKeyID q \<noteq> [] | _ \<Rightarrow> True)"

lemma keyed_lookup: "accounts_ok r \<Longrightarrow> map_of (rg_requests r) i = Some q \<Longrightarrow> iq_APIKeyID q \<noteq> []"
  using map_of_SomeD by (fastforce simp: accounts_ok_def requests_keyed_def)

lemma accounts_tokens:
  assumes ok: "accounts_ok r"
  shows "accounts_ok (fst (addTokens i a r))"
proof (cases "ta_Total (token_normalized a) \<le> 0")
  case True
  then show ?thesis using ok by (simp add: addTokens_def)
next
  case False
  let ?r = "r\<lparr>rg_totalTokens := wrap64 (rg_totalTokens r + ta_Total (token_normalized a))\<rparr>"
  obtain r1 d u c where cr: "credit_request (map_of (rg_requests ?r) i) (token_normalized a) ?r = (r1, d, u, c)"
    using prod_cases4 by blast
  have frame: "accounts_ok ?r" using ok by (rule accounts_frame) (use ok in \<open>simp_all add: accounts_ok_def requests_keyed_def\<close>)
  have "accounts_ok r1"
  proof (cases "map_of (rg_requests ?r) i")
    case None
    then show ?thesis using frame cr by (simp add: credit_request_def)
  next
    case (Some q)
    have "key_account r1 \<and> site_account r1"
      by (rule accounts_credit[of ?r]) (use frame cr Some keyed_lookup[OF frame Some] in \<open>simp_all add: accounts_ok_def\<close>)
    moreover have "reg_wf r1" by (rule wf_credit[OF _ cr]) (use frame in \<open>simp add: accounts_ok_def\<close>)
    moreover have "requests_keyed r1" using credit_request_maps(4)[OF cr] frame by (simp add: accounts_ok_def requests_keyed_def)
    ultimately show ?thesis by (simp add: accounts_ok_def)
  qed
  moreover have "accounts_ok (r1\<lparr>rg_sequence := n\<rparr>) = accounts_ok r1" for n
    by (simp add: accounts_ok_def key_account_def site_account_def requests_keyed_def)
  ultimately show ?thesis using False cr by (simp add: addTokens_def newEventLocked_def Let_def)
qed

lemma delete_entries: "x \<in> set (AList.delete k xs) \<Longrightarrow> x \<in> set xs"
  by (auto simp: AList.delete_eq)

lemma accounts_remove: "accounts_ok r \<Longrightarrow> accounts_ok (fst (remove_request i t r))"
  by (rule accounts_frame[of r])
    (auto simp: remove_request_def newEventLocked_def accounts_ok_def reg_wf_def requests_keyed_def distinct_delete Let_def
      dest: delete_entries split: option.split)

lemma accounts_op: "accounts_ok r \<Longrightarrow> op_keyed op \<Longrightarrow> accounts_ok (fst (apply_op op r))"
proof (cases op)
  case (OpStart now q)
  assume "accounts_ok r" "op_keyed op"
  then show ?thesis using OpStart by (simp add: start_request_def op_keyed_def accounts_put)
next
  case (OpTokens i a)
  assume "accounts_ok r"
  then show ?thesis using OpTokens by (simp add: accounts_tokens)
next
  case (OpRemove i t)
  assume "accounts_ok r"
  then show ?thesis using OpRemove by (simp add: accounts_remove)
qed (simp_all add: accounts_update route_request_def model_request_def responding_request_def finish_request_def,
     simp_all add: publish_def subscribe_def unsubscribe_def accounts_ok_def key_account_def site_account_def requests_keyed_def)

lemma accounts_run: "run_ops ops r = (r', es) \<Longrightarrow> list_all op_keyed ops \<Longrightarrow> accounts_ok r \<Longrightarrow> accounts_ok r'"
proof (induction ops arbitrary: r es)
  case Nil
  then show ?case by simp
next
  case (Cons op ops)
  obtain r1 e where a: "apply_op op r = (r1, e)" by fastforce
  then obtain es1 where "run_ops ops r1 = (r', es1)" using Cons.prems(1) by (cases "run_ops ops r1") auto
  with Cons.IH accounts_op[OF Cons.prems(3), of op] Cons.prems(2) a show ?case by simp
qed

text \<open>C26. The token accounts of the live view agree. After any operations, provided every request that starts names an
  API key, the total shown for an API key is the sum of its cells over all sites and models, and the total shown for a site is
  the sum of its cells over all API keys and models, in the 64-bit arithmetic of the counters: tokens of a request that failed
  over are counted once, for the site it had when they were reported.\<close>

theorem inflight_accounts_agree:
  assumes run: "run_ops ops newRegistry = (r, es)" and keyed: "list_all op_keyed ops"
  shows "(\<forall>key. ut_TotalTokens (total_of key (rg_downstreamUsage r)) =
      wrap64 (\<Sum>((a, s, m), c) \<leftarrow> rg_usageCells r. if a = key then uc_TotalTokens c else 0))
    \<and> (\<forall>site. site \<noteq> [] \<longrightarrow> ut_TotalTokens (total_of site (rg_upstreamUsage r)) =
      wrap64 (\<Sum>((a, s, m), c) \<leftarrow> rg_usageCells r. if s = site then uc_TotalTokens c else 0))"
proof -
  have "accounts_ok newRegistry"
    by (simp add: accounts_ok_def reg_wf_def key_account_def site_account_def requests_keyed_def newRegistry_def
        total_of_def cell_sum_def wrap64_def)
  from accounts_run[OF run keyed this]
  have "key_account r" "site_account r" by (simp_all add: accounts_ok_def)
  then show ?thesis
    by (simp add: key_account_def site_account_def cell_sum_def split_def)
qed

text \<open>A request in flight, as the witnesses use it.\<close>

definition sample_request :: in_request where
  "sample_request = \<lparr>iq_RequestID = ''r1'', iq_APIKeyID = ''key'', iq_APIKeyName = ''Key'', iq_ModelKey = ''m'', iq_ModelProvider = ''p'',
     iq_SiteID = [], iq_SiteName = [], iq_SiteType = [], iq_Attempt = 0, iq_Stream = False, iq_Phase = PhaseAccepted, iq_StartedAt = 0,
     iq_UpdatedAt = 0\<rparr>"

definition sample_ops :: "reg_op list" where
  "sample_ops = [OpStart 5 sample_request,
     OpRoute 6 ''r1'' \<lparr>irt_SiteID = ''s1'', irt_SiteName = ''S'', irt_SiteType = ''t'', irt_Attempt = 1\<rparr>,
     OpTokens ''r1'' \<lparr>ta_Total = 0, ta_Input = 7, ta_Output = 4, ta_Cached = -1\<rparr>, OpFinish 8 ''r1'' PhaseCompleted]"

lemmas run_eval = newRegistry_def sample_ops_def sample_request_def start_request_def put_request_def newEventLocked_def
  route_request_def update_request_def addTokens_def token_normalized_def credit_request_def credit_key_def credit_site_def
  add_total_def total_of_def add_cell_def cell_of_def request_cell_def finish_request_def remove_request_def
  defaultTerminalRetention_def wrap64_def Let_def

theorem inflight_accounts_agree_witness:
  "let r = fst (run_ops sample_ops newRegistry) in
    ut_TotalTokens (total_of ''key'' (rg_downstreamUsage r)) = 11
    \<and> ut_TotalTokens (total_of ''key'' (rg_downstreamUsage r)) =
        wrap64 (\<Sum>((a, s, m), c) \<leftarrow> rg_usageCells r. if a = ''key'' then uc_TotalTokens c else 0)
    \<and> ut_TotalTokens (total_of ''s1'' (rg_upstreamUsage r)) =
        wrap64 (\<Sum>((a, s, m), c) \<leftarrow> rg_usageCells r. if s = ''s1'' then uc_TotalTokens c else 0)"
proof -
  let ?r = "fst (run_ops sample_ops newRegistry)"
  have run: "run_ops sample_ops newRegistry = (?r, snd (run_ops sample_ops newRegistry))" by simp
  have keyed: "list_all op_keyed sample_ops" by (simp add: sample_ops_def sample_request_def op_keyed_def)
  have "ut_TotalTokens (total_of ''key'' (rg_downstreamUsage ?r)) = 11"
    by (simp add: run_eval)
  then show ?thesis using inflight_accounts_agree[OF run keyed] by simp
qed

theorem events_rebuild_snapshot_witness:
  "let r' = fst (run_ops sample_ops newRegistry); es = snd (run_ops sample_ops newRegistry); v = fold apply_event es (view_of newRegistry) in
    map ev_Sequence es = [1, 2, 3, 4] \<and> sn_Sequence (snapshot_of r') = 4 \<and> sn_TotalTokens (snapshot_of r') = 11
    \<and> sn_TotalTokens (snapshot_of r') = vw_totalTokens v \<and> set (sn_Requests (snapshot_of r')) = ran (vw_requests v)"
proof -
  let ?r = "fst (run_ops sample_ops newRegistry)" and ?es = "snd (run_ops sample_ops newRegistry)"
  have start: "run_ops [] newRegistry = (newRegistry, [])" by simp
  have run: "run_ops sample_ops newRegistry = (?r, ?es)" by simp
  have "map ev_Sequence ?es = [1, 2, 3, 4]" "rg_sequence ?r = 4" "rg_totalTokens ?r = 11"
    by (simp_all add: run_eval)
  then show ?thesis
    using events_rebuild_snapshot[OF start run] by (simp add: snapshot_of_def Let_def)
qed

section \<open>Finished requests\<close>

text \<open>The operations that may still touch a finished request: a new request under its identifier and its removal.\<close>

definition op_reuses :: "string \<Rightarrow> go_time \<Rightarrow> reg_op \<Rightarrow> bool" where
  "op_reuses i finishedAt op = (case op of OpStart now q \<Rightarrow> iq_RequestID q = i | OpRemove j t \<Rightarrow> j = i \<and> t = finishedAt | _ \<Rightarrow> False)"

definition ids_ok :: "registry \<Rightarrow> bool" where
  "ids_ok r \<longleftrightarrow> (\<forall>i q. map_of (rg_requests r) i = Some q \<longrightarrow> iq_RequestID q = i)"

lemma ids_put: "ids_ok r \<Longrightarrow> ids_ok (fst (put_request q r))"
  by (simp add: ids_ok_def put_request_def newEventLocked_def update_conv' Let_def)

lemma ids_update: "ids_ok r \<Longrightarrow> ids_ok (fst (update_request now i f r))"
  by (auto simp: update_request_def intro: ids_put split: option.split)

lemma requests_tokens: "rg_requests (fst (addTokens i a r)) = rg_requests r"
proof (cases "ta_Total (token_normalized a) \<le> 0")
  case True
  then show ?thesis by (simp add: addTokens_def)
next
  case False
  let ?r = "r\<lparr>rg_totalTokens := wrap64 (rg_totalTokens r + ta_Total (token_normalized a))\<rparr>"
  obtain r1 d u c where cr: "credit_request (map_of (rg_requests ?r) i) (token_normalized a) ?r = (r1, d, u, c)"
    using prod_cases4 by blast
  show ?thesis using False cr credit_request_maps(4)[OF cr] by (simp add: addTokens_def newEventLocked_def Let_def)
qed

lemma ids_op: "ids_ok r \<Longrightarrow> ids_ok (fst (apply_op op r))"
proof (cases op)
  case (OpRemove i t)
  assume "ids_ok r"
  then show ?thesis
    using OpRemove by (auto simp: remove_request_def newEventLocked_def ids_ok_def delete_conv' Let_def split: option.split)
qed (simp_all add: ids_update route_request_def model_request_def responding_request_def finish_request_def start_request_def ids_put,
     simp_all add: publish_def subscribe_def unsubscribe_def ids_ok_def requests_tokens)

text \<open>An update of another request, and one of a finished request, leaves the entry alone.\<close>

lemma finished_update:
  assumes "ids_ok r" and "map_of (rg_requests r) i = Some q" "isTerminalPhase (iq_Phase q)" and "\<And>q. iq_RequestID (f q) = iq_RequestID q"
  shows "map_of (rg_requests (fst (update_request now j f r))) i = Some q"
proof (cases "j = i")
  case True
  then show ?thesis using assms by (auto simp: update_request_def)
next
  case False
  then show ?thesis
    using assms by (auto simp: update_request_def put_request_def newEventLocked_def update_conv' ids_ok_def Let_def split: option.split)
qed

lemma finished_op:
  assumes ids: "ids_ok r" and q: "map_of (rg_requests r) i = Some q" "isTerminalPhase (iq_Phase q)"
    and op: "\<not> op_reuses i (iq_UpdatedAt q) op"
  shows "map_of (rg_requests (fst (apply_op op r))) i = Some q"
proof (cases op)
  case (OpStart now p)
  then show ?thesis
    using op q by (auto simp: start_request_def put_request_def newEventLocked_def update_conv' op_reuses_def Let_def)
next
  case (OpRemove j t)
  then show ?thesis
    using op q by (auto simp: remove_request_def newEventLocked_def delete_conv' op_reuses_def Let_def split: option.split)
qed (simp_all add: finished_update[OF ids q] route_request_def model_request_def responding_request_def finish_request_def requests_tokens,
     simp_all add: publish_def subscribe_def unsubscribe_def q)

lemma ids_run: "run_ops ops r = (r', es) \<Longrightarrow> ids_ok r \<Longrightarrow> ids_ok r'"
proof (induction ops arbitrary: r es)
  case Nil
  then show ?case by simp
next
  case (Cons op ops)
  obtain r1 e where a: "apply_op op r = (r1, e)" by fastforce
  then obtain es1 where "run_ops ops r1 = (r', es1)" using Cons.prems(1) by (cases "run_ops ops r1") auto
  with Cons.IH ids_op[OF Cons.prems(2), of op] a show ?case by simp
qed

lemma finished_run:
  "run_ops ops r = (r', es) \<Longrightarrow> ids_ok r \<Longrightarrow> map_of (rg_requests r) i = Some q \<Longrightarrow> isTerminalPhase (iq_Phase q) \<Longrightarrow>
     list_all (\<lambda>op. \<not> op_reuses i (iq_UpdatedAt q) op) ops \<Longrightarrow> map_of (rg_requests r') i = Some q"
proof (induction ops arbitrary: r es)
  case Nil
  then show ?case by simp
next
  case (Cons op ops)
  obtain r1 e where a: "apply_op op r = (r1, e)" by fastforce
  then obtain es1 where "run_ops ops r1 = (r', es1)" using Cons.prems(1) by (cases "run_ops ops r1") auto
  with Cons.IH ids_op[OF Cons.prems(2), of op] finished_op[OF Cons.prems(2-4), of op] Cons.prems a show ?case by simp
qed

text \<open>A finished request stays as it ended. Once a request is completed, failed or cancelled, no later call, of
  whatever kind and in whatever order, changes its phase, its site or anything else of its entry; only a new request under the same
  identifier replaces it, and only the timer of this very finish removes it (the timer of an earlier request under the identifier
  does not).\<close>

lemma finished_request_is_final:
  assumes "run_ops ops0 newRegistry = (r, es0)" and "map_of (rg_requests r) i = Some q" and "isTerminalPhase (iq_Phase q)"
    and "run_ops ops r = (r', es)" and "list_all (\<lambda>op. \<not> op_reuses i (iq_UpdatedAt q) op) ops"
  shows "map_of (rg_requests r') i = Some q"
proof -
  have "ids_ok r" by (rule ids_run[OF assms(1)]) (simp add: ids_ok_def newRegistry_def)
  from finished_run[OF assms(4) this assms(2,3,5)] show ?thesis .
qed

section \<open>Running requests\<close>

text \<open>A request that has started and has not finished. The operations of its handler keep it so until it is finished.\<close>

definition live :: "string \<Rightarrow> registry \<Rightarrow> bool" where
  "live i r \<longleftrightarrow> i \<noteq> [] \<and> (\<exists>q. map_of (rg_requests r) i = Some q \<and> iq_RequestID q = i \<and> \<not> isTerminalPhase (iq_Phase q))"

lemma live_start: "iq_RequestID q \<noteq> [] \<Longrightarrow> live (iq_RequestID q) (fst (start_request now q r))"
  by (simp add: live_def start_request_def put_request_def newEventLocked_def update_conv' Let_def)

lemma live_update:
  assumes "live i r" and "\<And>q. iq_RequestID (f q) = iq_RequestID q" and "\<And>q. \<not> isTerminalPhase (iq_Phase q) \<Longrightarrow> \<not> isTerminalPhase (iq_Phase (f q))"
  shows "live i (fst (update_request now i f r))"
proof -
  obtain q where q: "i \<noteq> []" "map_of (rg_requests r) i = Some q" "iq_RequestID q = i" "\<not> isTerminalPhase (iq_Phase q)"
    using assms(1) by (auto simp: live_def)
  then have "fst (update_request now i f r) = fst (put_request ((f q)\<lparr>iq_UpdatedAt := now\<rparr>) r)" by (simp add: update_request_def)
  then show ?thesis
    using q assms(2)[of q] assms(3)[of q] by (auto simp: live_def put_request_def newEventLocked_def update_conv' Let_def)
qed

lemma live_ops:
  assumes "live i r"
  shows "live i (fst (route_request now i rt r))" "live i (fst (model_request now i m p r))" "live i (fst (responding_request now i r))"
    "live i (fst (addTokens i a r))"
  using assms live_update[OF assms]
  by (simp_all add: route_request_def model_request_def responding_request_def) (simp add: live_def requests_tokens)

lemma finish_live:
  assumes "live i r"
  shows "map_option iq_Phase (map_of (rg_requests (fst (finish_request now i p r))) i) = Some (if isTerminalPhase p then p else PhaseFailed)"
proof -
  obtain q where q: "i \<noteq> []" "map_of (rg_requests r) i = Some q" "iq_RequestID q = i" "\<not> isTerminalPhase (iq_Phase q)"
    using assms by (auto simp: live_def)
  then show ?thesis
    by (simp add: finish_request_def update_request_def put_request_def newEventLocked_def update_conv' Let_def)
qed

end
