(* ===== verification/Execution.thy ===== *)
theory Execution
  imports Image_Policy Concurrency Credential_Window Inflight
begin

text \<open>
  One attempt at a candidate, \<open>forwardGatewayRequest\<close> of \<open>server/internal/gateway/execution.go\<close>: the credentials of the
  site are tried one after the other until one of them serves the request or the failure is not one another credential can mend.
  For each credential the slots of \<open>Concurrency\<close> are taken, the request is sent, and the slots are returned.

  What the code obtains from outside is given by \<open>exec_env\<close>: the rows of the database, the errors of decryption, OAuth, encoding
  and signing, the response of the upstream and what the reading of it makes of the result (\<open>ca_handle\<close>, the functions
  \<open>handleStreamResponse\<close> and \<open>handleBufferedResponse\<close>). Each credential that is tried gets the next set of answers, which may
  all differ. The rows written to the request log and the marks on credentials are left out.
\<close>

section \<open>State and answers\<close>

text \<open>A request sent to an upstream, with what became of it.\<close>

record send =
  sd_At :: go_time
  sd_Site :: uuid
  sd_Credential :: uuid
  sd_Result :: attempt_result

record world =
  wd_now :: go_time
  wd_tick :: nat
  wd_cache :: upstream_cache
  wd_selector :: window_selector
  wd_cooldowns :: cooldown_table
  wd_registry :: registry
  wd_sends :: "send list"

datatype transport_error = TransportCanceled string | TransportTimeout string | TransportOther string

text \<open>The answers for one credential: errors are \<open>Some\<close> message; \<open>ca_elapsed\<close> is the time the attempt takes.\<close>

record cred_answers =
  ca_decrypt :: "string option"
  ca_oauth :: "string option"
  ca_payload :: "string option"
  ca_validate :: "string option"
  ca_client :: "string option"
  ca_config :: "gateway_config option"
  ca_encode :: "string option"
  ca_build :: "string option"
  ca_sign :: "string option"
  ca_acquire :: "concurrency_scope \<Rightarrow> acquire_env"
  ca_response :: "transport_error + int \<times> string"
  ca_handle :: "attempt_result \<Rightarrow> attempt_result"
  ca_elapsed :: nat

record cred_rows =
  cr_list :: "string + gateway_credential list"
  cr_hasBindings :: "string + bool"
  cr_fallback :: "string + gateway_credential"
  cr_states :: "string + key_state list"

record exec_env =
  xe_rows :: "nat \<Rightarrow> cred_rows"
  xe_usable :: "gateway_credential \<Rightarrow> bool"
  xe_hasResolver :: bool
  xe_resolve :: "gw_request \<Rightarrow> candidate \<Rightarrow> string + protocol"
  xe_answers :: "nat \<Rightarrow> cred_answers"
  xe_failure :: "nat \<Rightarrow> failure_env"

section \<open>Credentials of a candidate\<close>

definition isClaudeCodeSite :: "string \<Rightarrow> bool" where
  "isClaudeCodeSite siteType = equal_fold (trim_space siteType) ''claude_code''"

definition record_not_found :: string where "record_not_found = ''record not found''"

definition gatewayCredentials :: "cred_rows \<Rightarrow> candidate \<Rightarrow> string + gateway_credential list" where
  "gatewayCredentials rows cand =
     (case cr_list rows of
        Inl e \<Rightarrow> Inl e
      | Inr credentials \<Rightarrow>
          if credentials \<noteq> [] then Inr credentials
          else if cs_SiteType (cand_Site cand) = ''newapi'' then Inl record_not_found
          else (case cr_hasBindings rows of
              Inl e \<Rightarrow> Inl e
            | Inr True \<Rightarrow> Inl record_not_found
            | Inr False \<Rightarrow> (case cr_fallback rows of Inl e \<Rightarrow> Inl e | Inr c \<Rightarrow> Inr [c])))"

definition attempt_credentials ::
  "(gateway_credential \<Rightarrow> bool) \<Rightarrow> cred_rows \<Rightarrow> candidate \<Rightarrow> string + gateway_credential list \<times> grok_candidate list" where
  "attempt_credentials usable rows cand =
     (case gatewayCredentials rows cand of
        Inl e \<Rightarrow> Inl e
      | Inr credentials \<Rightarrow>
          if \<not> isGrokSite (cs_SiteType (cand_Site cand)) then Inr (credentials, [])
          else (case cr_states rows of
              Inl e \<Rightarrow> Inl e
            | Inr states \<Rightarrow>
                let grok = grokCredentialCandidates usable credentials states in
                if grok = [] then Inl record_not_found else Inr (map gk_Credential grok, grok)))"

definition normalizeEndpointType :: "string \<Rightarrow> string" where
  "normalizeEndpointType value =
     (let normalized = trim_space (to_lower value) in if normalized = ''systemone'' then ''typesafe-systemone'' else normalized)"

definition containsEndpointType :: "string list \<Rightarrow> string \<Rightarrow> bool" where
  "containsEndpointType types target \<longleftrightarrow> list_ex (\<lambda>item. normalizeEndpointType item = normalizeEndpointType target) types"

definition accepted_endpoint :: "string \<Rightarrow> string" where
  "accepted_endpoint p =
     (if has_prefix p ''openai_chat'' then ''openai''
      else if has_prefix p ''openai_responses'' \<or> has_prefix p ''codex_responses'' then ''openai-response''
      else if has_prefix p ''openai_images'' then ''openai-image''
      else if has_prefix p ''openai_embeddings'' then ''openai-embedding''
      else if has_prefix p ''openai_audio_speech'' \<or> has_prefix p ''mimo_audio_speech'' then ''openai-audio-speech''
      else if has_prefix p ''anthropic_messages'' then ''anthropic-messages''
      else if has_prefix p ''google_'' then ''google-gemini''
      else [])"

definition plain_endpoint :: "string \<Rightarrow> string" where
  "plain_endpoint p =
     (if p \<in> {''openai_chat'', ''openai-chat'', ''openai''} then ''openai''
      else if p \<in> {''openai_responses'', ''openai-responses'', ''responses''} then ''openai-response''
      else if p \<in> {''anthropic_messages'', ''anthropic-messages'', ''messages''} then ''anthropic-messages''
      else if p \<in> {''google_gemini'', ''google-gemini'', ''gemini''} then ''google-gemini''
      else p)"

definition credentialSupportsProtocol :: "string list \<Rightarrow> string \<Rightarrow> bool" where
  "credentialSupportsProtocol endpointTypes name =
     (let p = to_lower (trim_space name); accepted = accepted_endpoint p in
      if accepted \<noteq> [] then list_ex (\<lambda>t. equal_fold (trim_space t) accepted) endpointTypes
      else list_ex (\<lambda>t. to_lower (trim_space t) = plain_endpoint p) endpointTypes)"

definition credentialSupportsAdapter :: "string list \<Rightarrow> protocol \<Rightarrow> bool" where
  "credentialSupportsAdapter endpointTypes p =
     (if pr_CodexImages p then containsEndpointType endpointTypes ''openai-image''
      else case pr_Capabilities p of
          Some types \<Rightarrow> list_ex (containsEndpointType endpointTypes) types
        | None \<Rightarrow> credentialSupportsProtocol endpointTypes (pr_Name p))"

section \<open>One credential\<close>

definition no_decision :: credential_failover_decision where
  "no_decision = \<lparr>cfd_NextCredentialAvailable = False, cfd_ShouldTryNextCredential = False, cfd_Action = []\<rparr>"

definition zero_result :: attempt_result where
  "zero_result = \<lparr>ar_success = False, ar_statusCode = 0, ar_upstreamStatusCode = 0, ar_errorType = [], ar_errorMessage = [],
     ar_responseStarted = False, ar_credentialID = uuid_nil, ar_credentialMasked = [], ar_credentialAttempt = 0,
     ar_credentialTotal = 0, ar_cooldownReason = [], ar_cooldownScope = [], ar_cooldownDuration = 0, ar_cooldownMetadata = [],
     ar_retryAfterSeconds = 0, ar_credentialDecision = no_decision, ar_credentialDecisionSet = False, ar_contentType = [], ar_body = [],
     ar_upstreamErrorCode = [], ar_promptTokens = 0, ar_completionTokens = 0, ar_cachedPromptTokens = 0, ar_audioOutputTokens = 0\<rparr>"

definition start_result :: "gateway_credential \<Rightarrow> nat \<Rightarrow> nat \<Rightarrow> attempt_result" where
  "start_result cred index credTotal = zero_result\<lparr>ar_credentialID := gcr_ID cred, ar_credentialMasked := gcr_MaskedSecret cred,
     ar_credentialAttempt := int index + 1, ar_credentialTotal := int credTotal\<rparr>"

definition recordCredentialAttempt :: "bool \<Rightarrow> bool \<Rightarrow> attempt_result \<Rightarrow> attempt_result" where
  "recordCredentialAttempt nextAvailable tryNext r =
     r\<lparr>ar_credentialDecision := credentialFailoverDecisionForAction nextAvailable tryNext, ar_credentialDecisionSet := True\<rparr>"

definition gatewayRequestFailureBody :: "string \<Rightarrow> string \<Rightarrow> string \<Rightarrow> string" where
  "gatewayRequestFailureBody code message requestID =
     (case json_encode (\<lambda>_. []) (AObj [(''error'', AObj [(''code'', AString code), (''message'', AString message),
          (''request_id'', AString requestID)])]) of None \<Rightarrow> [] | Some s \<Rightarrow> s)"

definition failed_with :: "int \<Rightarrow> string \<Rightarrow> string \<Rightarrow> attempt_result \<Rightarrow> attempt_result" where
  "failed_with status errorType message r = r\<lparr>ar_statusCode := status, ar_errorType := errorType, ar_errorMessage := message\<rparr>"

text \<open>The steps before the slots are taken, in their order: the key of the upstream, the request, its signature. The first that
  fails determines the result and whether another credential may help.\<close>

definition preflight_key :: "candidate \<Rightarrow> cred_answers \<Rightarrow> attempt_result \<Rightarrow> (attempt_result \<times> bool) option" where
  "preflight_key cand a r =
     (let siteType = cs_SiteType (cand_Site cand) in
      case ca_decrypt a of
        Some e \<Rightarrow> Some (failed_with 502 ''upstream_credential_decrypt_failed'' e r, True)
      | None \<Rightarrow>
          (case ca_oauth a of
             None \<Rightarrow> None
           | Some e \<Rightarrow>
               if isCodexSite siteType then Some (failed_with 502 ''codex_oauth_refresh_failed'' e r, False)
               else if isAntigravitySite siteType then Some (failed_with 502 ''antigravity_oauth_refresh_failed'' e r, False)
               else if isClaudeCodeSite siteType then Some (failed_with 502 ''claude_code_oauth_refresh_failed'' e r, False)
               else if isGrokSite siteType then Some (failed_with 502 ''grok_oauth_refresh_failed'' e r, True)
               else None))"

definition preflight_request :: "string \<Rightarrow> cred_answers \<Rightarrow> attempt_result \<Rightarrow> (attempt_result \<times> bool) option" where
  "preflight_request requestID a r =
     (case ca_payload a of
        Some e \<Rightarrow> Some (failed_with 400 ''request_encode_failed'' e
          (r\<lparr>ar_contentType := ''application/json'', ar_body := gatewayRequestFailureBody ''request_encode_failed'' e requestID\<rparr>), False)
      | None \<Rightarrow>
          (case ca_validate a of Some e \<Rightarrow> Some (failed_with 400 ''request_param_validation_failed'' e r, False)
           | None \<Rightarrow>
               (case ca_client a of Some e \<Rightarrow> Some (failed_with 502 ''upstream_client_unavailable'' e r, False)
                | None \<Rightarrow>
                    (case ca_encode a of Some e \<Rightarrow> Some (failed_with 400 ''request_encode_failed'' e r, False)
                     | None \<Rightarrow> map_option (\<lambda>e. (failed_with 502 ''upstream_request_build_failed'' e r, False)) (ca_build a)))))"

definition preflight :: "string \<Rightarrow> candidate \<Rightarrow> cred_answers \<Rightarrow> attempt_result \<Rightarrow> (attempt_result \<times> bool) option" where
  "preflight requestID cand a r =
     (case preflight_key cand a r of
        Some failed \<Rightarrow> Some failed
      | None \<Rightarrow>
          (case preflight_request requestID a r of
             Some failed \<Rightarrow> Some failed
           | None \<Rightarrow> map_option (\<lambda>e. (failed_with 502 ''upstream_sign_failed'' e r, False)) (ca_sign a)))"

fun transportErrorType :: "transport_error \<Rightarrow> string" where
  "transportErrorType (TransportCanceled e) = ''downstream_client_cancelled''"
| "transportErrorType (TransportTimeout e) = ''upstream_timeout''"
| "transportErrorType (TransportOther e) = ''upstream_transport_error''"

fun transportFailureStatusCode :: "transport_error \<Rightarrow> int" where
  "transportFailureStatusCode (TransportCanceled e) = 499"
| "transportFailureStatusCode _ = 502"

fun transport_message :: "transport_error \<Rightarrow> string" where
  "transport_message (TransportCanceled e) = e"
| "transport_message (TransportTimeout e) = e"
| "transport_message (TransportOther e) = e"

fun acquire_failure :: "concurrency_error \<Rightarrow> attempt_result \<Rightarrow> attempt_result" where
  "acquire_failure SiteConcurrencyLimited r = failed_with 503 ''site_concurrency_limited'' ''site concurrency limit reached'' r"
| "acquire_failure ModelConcurrencyLimited r = failed_with 503 ''model_concurrency_limited'' ''model concurrency limit reached'' r"
| "acquire_failure CredentialConcurrencyLimited r =
     failed_with 503 ''credential_concurrency_limited'' ''credential concurrency limit reached'' r"
| "acquire_failure (ContextDone e) r =
     (if e = ''context canceled'' then failed_with 499 ''downstream_client_cancelled'' e r
      else if e = ''context deadline exceeded'' then failed_with 503 ''upstream_concurrency_wait_timeout'' e r
      else failed_with 503 ''upstream_concurrency_acquire_failed'' e r)"

text \<open>How a credential ended: the result is returned, or the next credential is tried.\<close>

datatype cred_outcome = CredDone attempt_result | CredNext attempt_result

definition after_recorded :: "attempt_result \<Rightarrow> cred_outcome" where
  "after_recorded r = (if cfd_ShouldTryNextCredential (ar_credentialDecision r) then CredNext r else CredDone r)"

definition failure_env_at :: "exec_env \<Rightarrow> world \<Rightarrow> failure_env" where
  "failure_env_at env w = (xe_failure env (wd_tick w))\<lparr>fe_now := wd_now w\<rparr>"

definition cool_down :: "exec_env \<Rightarrow> candidate \<Rightarrow> attempt_result \<Rightarrow> world \<Rightarrow> world" where
  "cool_down env cand r w = w\<lparr>wd_cooldowns := fst (cooldownAfterFailure (failure_env_at env w) cand r (wd_cooldowns w))\<rparr>"

definition log_send :: "go_time \<Rightarrow> candidate \<Rightarrow> gateway_credential \<Rightarrow> attempt_result \<Rightarrow> world \<Rightarrow> world" where
  "log_send sentAt cand cred r w =
     w\<lparr>wd_sends := wd_sends w @ [\<lparr>sd_At = sentAt, sd_Site = cs_ID (cand_Site cand), sd_Credential = gcr_ID cred, sd_Result = r\<rparr>]\<rparr>"

text \<open>The request is sent with the slots held; \<open>w\<close> is the state after it, with the slots still taken.\<close>

definition send_upstream ::
  "exec_env \<Rightarrow> string \<Rightarrow> candidate \<Rightarrow> gw_request \<Rightarrow> bool \<Rightarrow> gateway_credential \<Rightarrow> cred_answers \<Rightarrow> nat option list \<Rightarrow> attempt_result
     \<Rightarrow> go_time \<Rightarrow> world \<Rightarrow> cred_outcome \<times> world" where
  "send_upstream env requestID cand request nextAvailable cred a slots r sentAt w0 =
     (let w = w0\<lparr>wd_cache := releaseAll slots (wd_cache w0)\<rparr> in
      case ca_response a of
        Inl e \<Rightarrow>
          let r1 = recordCredentialAttempt nextAvailable (isGrokSite (cs_SiteType (cand_Site cand)))
                (failed_with (transportFailureStatusCode e) (transportErrorType e) (transport_message e) r)
          in (after_recorded r1, log_send sentAt cand cred r1 w)
      | Inr (status, contentType) \<Rightarrow>
          let r1 = ca_handle a (r\<lparr>ar_statusCode := status, ar_upstreamStatusCode := status, ar_contentType := contentType\<rparr>);
              w1 = log_send sentAt cand cred r1 (w\<lparr>wd_registry := fst (responding_request (wd_now w) requestID (wd_registry w))\<rparr>)
          in if cfd_ShouldTryNextCredential (credentialFailoverDecisionForResult r1 nextAvailable)
             then (CredNext r1, if \<not> gq_Diagnostic request \<and> ar_statusCode r1 \<noteq> 404 then cool_down env cand r1 w1 else w1)
             else (CredDone r1, w1))"

definition credential_attempt ::
  "exec_env \<Rightarrow> string \<Rightarrow> candidate \<Rightarrow> gw_request \<Rightarrow> nat \<Rightarrow> nat \<Rightarrow> gateway_credential \<Rightarrow> world \<Rightarrow> cred_outcome \<times> world" where
  "credential_attempt env requestID cand request index credTotal cred w0 =
     (let a = xe_answers env (wd_tick w0); r = start_result cred index credTotal; nextAvailable = (index + 1 < credTotal);
          w = w0\<lparr>wd_tick := Suc (wd_tick w0), wd_now := wd_now w0 + int (ca_elapsed a)\<rparr>
      in case preflight requestID cand a r of
          Some (failed, tryNext) \<Rightarrow> (after_recorded (recordCredentialAttempt nextAvailable tryNext failed), w)
        | None \<Rightarrow>
            (case acquireUpstreamConcurrency (\<lambda>scope. (ca_acquire a scope)\<lparr>ae_now := wd_now w0\<rparr>) cand (gcr_ID cred) (ca_config a) (wd_cache w) of
               (cache, Inl e) \<Rightarrow>
                 (after_recorded (recordCredentialAttempt nextAvailable (e = CredentialConcurrencyLimited) (acquire_failure e r)),
                  w\<lparr>wd_cache := cache\<rparr>)
             | (cache, Inr slots) \<Rightarrow>
                 send_upstream env requestID cand request nextAvailable cred a slots r (wd_now w0) (w\<lparr>wd_cache := cache\<rparr>)))"

section \<open>The credentials of a candidate\<close>

text \<open>The variables of the loop: the protocol, the Grok accounts left, the accounts selected and not yet released, and the last
  result. A deferred release happens when the function returns.\<close>

record cred_loop_state =
  cl_protocol :: protocol
  cl_grok :: "grok_candidate list"
  cl_held :: "uuid list"
  cl_last :: attempt_result

definition release_held :: "uuid list \<Rightarrow> world \<Rightarrow> world" where
  "release_held held w = w\<lparr>wd_selector := fold release_selection (rev held) (wd_selector w)\<rparr>"

fun remove_grok :: "uuid \<Rightarrow> grok_candidate list \<Rightarrow> grok_candidate list" where
  "remove_grok i [] = []"
| "remove_grok i (g # gs) = (if gcr_ID (gk_Credential g) = i then gs else g # remove_grok i gs)"

definition choose_credential ::
  "candidate \<Rightarrow> gateway_credential \<Rightarrow> cred_loop_state \<Rightarrow> world \<Rightarrow> (gateway_credential \<times> cred_loop_state \<times> world) option" where
  "choose_credential cand cred ls w =
     (if \<not> isGrokSite (cs_SiteType (cand_Site cand)) then Some (cred, ls, w)
      else case selectCredential (wd_now w) (cl_grok ls) (wd_selector w) of
          (s, None) \<Rightarrow> None
        | (s, Some g) \<Rightarrow>
            Some (gk_Credential g,
              ls\<lparr>cl_grok := remove_grok (gcr_ID (gk_Credential g)) (cl_grok ls), cl_held := cl_held ls @ [gcr_ID (gk_Credential g)]\<rparr>,
              w\<lparr>wd_selector := s\<rparr>))"

definition release_current :: "candidate \<Rightarrow> cred_loop_state \<Rightarrow> world \<Rightarrow> cred_loop_state \<times> world" where
  "release_current cand ls w =
     (if isGrokSite (cs_SiteType (cand_Site cand)) \<and> cl_held ls \<noteq> [] then
        (ls\<lparr>cl_held := butlast (cl_held ls)\<rparr>, w\<lparr>wd_selector := release_selection (last (cl_held ls)) (wd_selector w)\<rparr>)
      else (ls, w))"

text \<open>The protocol for a credential that lists its endpoint types, and whether the credential can be used. The protocol stays in
  force for the credentials after it, also when this one is passed over.\<close>

definition protocol_for :: "exec_env \<Rightarrow> gw_request \<Rightarrow> candidate \<Rightarrow> gateway_credential \<Rightarrow> protocol \<Rightarrow> protocol \<times> bool" where
  "protocol_for env request cand cred p =
     (let types = gcr_SupportedEndpointTypes cred in
      if types = [] then (p, True)
      else case (if xe_hasResolver env
                 then xe_resolve env request (cand\<lparr>cand_Model := (cand_Model cand)\<lparr>cmo_SupportedEndpointTypes := types\<rparr>\<rparr>)
                 else Inr p) of
          Inl e \<Rightarrow> (p, False)
        | Inr p' \<Rightarrow> (p', credentialSupportsAdapter types p'))"

fun credential_loop ::
  "exec_env \<Rightarrow> string \<Rightarrow> candidate \<Rightarrow> gw_request \<Rightarrow> nat \<Rightarrow> nat \<Rightarrow> gateway_credential list \<Rightarrow> cred_loop_state \<Rightarrow> world
     \<Rightarrow> attempt_result \<times> world" where
  "credential_loop env requestID cand request credTotal index [] ls w = (cl_last ls, release_held (cl_held ls) w)"
| "credential_loop env requestID cand request credTotal index (cred0 # creds) ls0 w0 =
     (case choose_credential cand cred0 ls0 w0 of
        None \<Rightarrow> (cl_last ls0, release_held (cl_held ls0) w0)
      | Some (cred, ls, w) \<Rightarrow>
          (case protocol_for env request cand cred (cl_protocol ls) of
             (p, False) \<Rightarrow> credential_loop env requestID cand request credTotal (Suc index) creds (ls\<lparr>cl_protocol := p\<rparr>) w
           | (p, True) \<Rightarrow>
               (case credential_attempt env requestID cand request index credTotal cred w of
                  (CredDone r, w1) \<Rightarrow> (r, release_held (cl_held ls) w1)
                | (CredNext r, w1) \<Rightarrow>
                    let (ls1, w2) = release_current cand (ls\<lparr>cl_protocol := p, cl_last := r\<rparr>) w1
                    in credential_loop env requestID cand request credTotal (Suc index) creds ls1 w2)))"

definition forwardGatewayRequest ::
  "exec_env \<Rightarrow> string \<Rightarrow> int \<Rightarrow> candidate \<Rightarrow> gw_request \<Rightarrow> protocol \<Rightarrow> world \<Rightarrow> attempt_result \<times> world" where
  "forwardGatewayRequest env requestID attempt cand request p w0 =
     (let w = w0\<lparr>wd_registry := fst (route_request (wd_now w0) requestID
            \<lparr>irt_SiteID = cs_ID (cand_Site cand), irt_SiteName = cs_Name (cand_Site cand), irt_SiteType = cs_SiteType (cand_Site cand),
             irt_Attempt = attempt\<rparr> (wd_registry w0))\<rparr>
      in case attempt_credentials (xe_usable env) (xe_rows env (wd_tick w)) cand of
          Inl e \<Rightarrow> (failed_with 502 ''upstream_credential_unavailable'' e zero_result, w\<lparr>wd_tick := Suc (wd_tick w)\<rparr>)
        | Inr (creds, grok) \<Rightarrow>
            credential_loop env requestID cand request (length creds) 0 creds
              \<lparr>cl_protocol = p, cl_grok = grok, cl_held = [], cl_last = zero_result\<rparr> w)"

section \<open>What an attempt leaves behind\<close>

definition served :: "attempt_result \<Rightarrow> bool" where
  "served r \<longleftrightarrow> ar_success r \<or> ar_responseStarted r"

fun outcome_result :: "cred_outcome \<Rightarrow> attempt_result" where
  "outcome_result (CredDone r) = r"
| "outcome_result (CredNext r) = r"

lemma unserved_start [simp]: "\<not> served zero_result" "\<not> served (start_result cred i n)"
  "served (failed_with st t m r) = served r" "served (recordCredentialAttempt x y r) = served r" "served (acquire_failure e r) = served r"
  by (simp_all add: served_def zero_result_def start_result_def failed_with_def recordCredentialAttempt_def)
    (cases e; simp add: failed_with_def)

lemma unserved_preflight: "preflight i cand a r = Some (failed, n) \<Longrightarrow> served failed = served r"
  by (auto simp: preflight_def preflight_key_def preflight_request_def Let_def split: option.splits if_splits)
    (simp_all add: served_def failed_with_def)

lemma after_recorded_result [simp]: "outcome_result (after_recorded r) = r"
  by (simp add: after_recorded_def)

lemma world_frames [simp]:
  "wd_cache (cool_down env cand r w) = wd_cache w" "wd_selector (cool_down env cand r w) = wd_selector w"
  "wd_sends (cool_down env cand r w) = wd_sends w" "wd_now (cool_down env cand r w) = wd_now w"
  "wd_registry (cool_down env cand r w) = wd_registry w"
  "wd_cache (log_send sentAt cand cred r w) = wd_cache w" "wd_selector (log_send sentAt cand cred r w) = wd_selector w"
  "wd_now (log_send sentAt cand cred r w) = wd_now w" "wd_registry (log_send sentAt cand cred r w) = wd_registry w"
  by (simp_all add: cool_down_def log_send_def)

text \<open>A request that was sent is recorded with its result; when another credential is tried, nothing has been served.\<close>

lemma send_upstream_frame:
  assumes "send_upstream env i cand request nextAvailable cred a slots r sentAt w = (out, w')" and "\<not> served r"
  shows "wd_cache w' = releaseAll slots (wd_cache w) \<and> wd_selector w' = wd_selector w \<and> wd_now w' = wd_now w
    \<and> wd_sends w' = wd_sends w @ [\<lparr>sd_At = sentAt, sd_Site = cs_ID (cand_Site cand), sd_Credential = gcr_ID cred, sd_Result = outcome_result out\<rparr>]
    \<and> (\<forall>r'. out = CredNext r' \<longrightarrow> \<not> served r')"
proof (cases "ca_response a")
  case (Inl e)
  let ?r = "recordCredentialAttempt nextAvailable (isGrokSite (cs_SiteType (cand_Site cand)))
      (failed_with (transportFailureStatusCode e) (transportErrorType e) (transport_message e) r)"
  have "out = after_recorded ?r" "w' = log_send sentAt cand cred ?r (w\<lparr>wd_cache := releaseAll slots (wd_cache w)\<rparr>)"
    using assms(1) by (simp_all add: send_upstream_def Inl Let_def)
  then show ?thesis using assms(2) by (auto simp: log_send_def after_recorded_def split: if_splits)
next
  case (Inr x)
  obtain st ct where x: "x = (st, ct)" by (cases x)
  have "\<not> served r'" if "cfd_ShouldTryNextCredential (credentialFailoverDecisionForResult r' nextAvailable)" for r'
    using that by (simp add: credentialFailoverDecisionForResult_def credentialFailoverDecisionForAction_def served_def Let_def)
  then show ?thesis using assms(1) by (auto simp: send_upstream_def Inr x Let_def log_send_def split: if_splits)
qed

text \<open>A credential leaves the slots as they were. It sends at most one request; without one nothing is served.\<close>

lemma credential_attempt_frame:
  assumes wf: "cache_wf (wd_cache w)" and att: "credential_attempt env i cand request index credTotal cred w = (out, w')"
  shows "cache_wf (wd_cache w') \<and> chan_len (wd_cache w') = chan_len (wd_cache w) \<and> wd_selector w' = wd_selector w
    \<and> (\<forall>r. out = CredNext r \<longrightarrow> \<not> served r)
    \<and> (wd_sends w' = wd_sends w \<and> \<not> served (outcome_result out)
       \<or> wd_sends w' = wd_sends w @ [\<lparr>sd_At = wd_now w, sd_Site = cs_ID (cand_Site cand), sd_Credential = gcr_ID cred,
            sd_Result = outcome_result out\<rparr>])"
proof -
  let ?a = "xe_answers env (wd_tick w)" and ?r = "start_result cred index credTotal"
  let ?w = "w\<lparr>wd_tick := Suc (wd_tick w), wd_now := wd_now w + int (ca_elapsed ?a)\<rparr>"
  have next_unserved: "\<not> served r'" if "after_recorded x = CredNext r'" "\<not> served x" for x r'
    using that by (auto simp: after_recorded_def split: if_splits)
  show ?thesis
  proof (cases "preflight i cand ?a ?r")
    case (Some p)
    obtain failed tryNext where p: "p = (failed, tryNext)" by (cases p)
    have "\<not> served failed" using unserved_preflight[of i cand ?a ?r failed tryNext] Some p by simp
    then show ?thesis using att wf Some p next_unserved by (auto simp: credential_attempt_def Let_def)
  next
    case None
    obtain cache res where acq: "acquireUpstreamConcurrency (\<lambda>scope. (ca_acquire ?a scope)\<lparr>ae_now := wd_now w\<rparr>) cand (gcr_ID cred)
        (ca_config ?a) (wd_cache w) = (cache, res)" by fastforce
    note counts = acquireUpstream_counts[OF wf acq]
    show ?thesis
    proof (cases res)
      case (Inl e)
      then show ?thesis using att None acq counts next_unserved by (auto simp: credential_attempt_def Let_def)
    next
      case (Inr slots)
      then have snd: "send_upstream env i cand request (index + 1 < credTotal) cred ?a slots ?r (wd_now w) (?w\<lparr>wd_cache := cache\<rparr>) = (out, w')"
        using att None acq by (simp add: credential_attempt_def Let_def)
      note fr = send_upstream_frame[OF snd unserved_start(2)]
      have "cache_wf (releaseAll slots cache)" using counts releaseAll_len(1) by blast
      then show ?thesis using fr counts Inr by simp
    qed
  qed
qed

section \<open>The accounts held\<close>

text \<open>\<open>held_over\<close>: the counters of the selector are those before the request plus the selections still held.\<close>

definition held_over :: "(uuid \<Rightarrow> int) \<Rightarrow> uuid list \<Rightarrow> window_selector \<Rightarrow> bool" where
  "held_over base held s \<longleftrightarrow> sel_wf s \<and> (\<forall>i. inflight_of s i = base i + int (count_list held i))"

definition base_ok :: "(uuid \<Rightarrow> int) \<Rightarrow> nat \<Rightarrow> bool" where
  "base_ok base n \<longleftrightarrow> (\<forall>i. 0 \<le> base i \<and> base i + int n < 2 ^ 63)"

lemma base_ok_bound: "base_ok base n \<Longrightarrow> m \<le> n \<Longrightarrow> 0 \<le> base i \<and> base i + int m < 2 ^ 63"
  unfolding base_ok_def by (metis add_left_mono le_less_trans of_nat_mono)

lemma base_ok_mono: "base_ok base n \<Longrightarrow> m \<le> n \<Longrightarrow> base_ok base m"
  unfolding base_ok_def[of base m] using base_ok_bound by blast

lemma count_list_le: "count_list xs x \<le> length xs"
  by (induction xs) auto

lemma count_list_rev [simp]: "count_list (rev xs) x = count_list xs x"
  by (induction xs) auto

lemma held_release:
  assumes "held_over base (held @ [i]) s" and "base_ok base (Suc (length held))"
  shows "held_over base held (release_selection i s)"
proof -
  have wf: "sel_wf s" and eq: "inflight_of s j = base j + int (count_list held j) + (if j = i then 1 else 0)" for j
    using assms(1) by (auto simp: held_over_def)
  have b: "0 \<le> base j" "base j + int (count_list held j) + 1 < 2 ^ 63" for j
    using base_ok_bound[OF assms(2), of "Suc (count_list held j)" j] count_list_le[of held j] by simp_all
  have "wrap64 (base i + int (count_list held i)) = base i + int (count_list held i)"
    using b[of i] by (intro wrap64_eqI) auto
  then have "inflight_of (release_selection i s) j = base j + int (count_list held j)" for j
    using eq[of i] eq[of j] b(1)[of i] by (simp add: release_spec(2)[OF wf])
  then show ?thesis using release_spec(1)[OF wf] by (simp add: held_over_def)
qed

lemma held_release_all:
  "held_over base held s \<Longrightarrow> base_ok base (length held) \<Longrightarrow> held_over base [] (fold release_selection (rev held) s)"
proof (induction held arbitrary: s rule: rev_induct)
  case (snoc i held)
  have "held_over base held (release_selection i s)" by (rule held_release) (use snoc.prems in simp_all)
  then show ?case using snoc.IH base_ok_mono[OF snoc.prems(2), of "length held"] by simp
qed simp

lemma held_select:
  assumes "held_over base held s" and "base_ok base (Suc (length held))" and sel: "selectCredential now cands s = (s', Some g)"
  shows "held_over base (held @ [gcr_ID (gk_Credential g)]) s'"
proof -
  let ?i = "gcr_ID (gk_Credential g)"
  have wf: "sel_wf s" and eq: "inflight_of s j = base j + int (count_list held j)" for j
    using assms(1) by (auto simp: held_over_def)
  have "wrap64 (inflight_of s ?i + 1) = inflight_of s ?i + 1"
    using base_ok_bound[OF assms(2), of "Suc (count_list held ?i)" ?i] count_list_le[of held ?i] eq[of ?i] by (intro wrap64_eqI) simp_all
  then show ?thesis using select_spec(1,4)[OF wf sel] eq by (simp add: held_over_def)
qed

lemma choose_held:
  assumes "choose_credential cand cred0 ls0 w0 = Some (cred, ls, w)" and "held_over base (cl_held ls0) (wd_selector w0)"
    and "base_ok base (Suc (length (cl_held ls0)))"
  shows "held_over base (cl_held ls) (wd_selector w) \<and> length (cl_held ls) \<le> Suc (length (cl_held ls0))
    \<and> wd_cache w = wd_cache w0 \<and> wd_sends w = wd_sends w0 \<and> cl_last ls = cl_last ls0
    \<and> (isGrokSite (cs_SiteType (cand_Site cand)) \<longrightarrow> length (cl_held ls) = Suc (length (cl_held ls0)))
    \<and> (\<not> isGrokSite (cs_SiteType (cand_Site cand)) \<longrightarrow> ls = ls0)"
  using assms held_select[OF assms(2,3)]
  by (auto simp: choose_credential_def split: if_splits prod.splits option.splits)

lemma release_current_held:
  assumes "held_over base (cl_held ls) (wd_selector w)" and "base_ok base (length (cl_held ls))" and "release_current cand ls w = (ls', w')"
  shows "held_over base (cl_held ls') (wd_selector w') \<and> wd_cache w' = wd_cache w \<and> wd_sends w' = wd_sends w \<and> cl_last ls' = cl_last ls
    \<and> cl_grok ls' = cl_grok ls \<and> length (cl_held ls') \<le> length (cl_held ls)
    \<and> (isGrokSite (cs_SiteType (cand_Site cand)) \<longrightarrow> length (cl_held ls') = length (cl_held ls) - 1)"
proof (cases "isGrokSite (cs_SiteType (cand_Site cand)) \<and> cl_held ls \<noteq> []")
  case True
  then have snoc: "butlast (cl_held ls) @ [last (cl_held ls)] = cl_held ls" by simp
  have "held_over base (butlast (cl_held ls)) (release_selection (last (cl_held ls)) (wd_selector w))"
    by (rule held_release) (use assms(1,2) snoc True in \<open>simp_all add: Suc_diff_Suc\<close>)
  then show ?thesis using True assms(3) by (auto simp: release_current_def)
next
  case False
  then show ?thesis using assms by (auto simp: release_current_def split: if_splits)
qed

text \<open>The whole loop, every way out of it included.\<close>

lemma credential_loop_frame:
  assumes "credential_loop env i cand request credTotal index creds ls w = (r, w')" and "cache_wf (wd_cache w)"
    and "held_over base (cl_held ls) (wd_selector w)" and "base_ok base (length (cl_held ls) + length creds)"
  shows "cache_wf (wd_cache w') \<and> chan_len (wd_cache w') = chan_len (wd_cache w) \<and> held_over base [] (wd_selector w')"
  using assms
proof (induction creds arbitrary: index ls w)
  case Nil
  then show ?case by (auto simp: release_held_def intro: held_release_all)
next
  case (Cons cred0 creds index ls0 w0)
  have b: "base_ok base (Suc (length (cl_held ls0)))" "base_ok base (length (cl_held ls0))"
    by (rule base_ok_mono[OF Cons.prems(4)]; simp)+
  show ?case
  proof (cases "choose_credential cand cred0 ls0 w0")
    case None
    then show ?thesis using Cons.prems held_release_all[OF Cons.prems(3) b(2)] by (auto simp: release_held_def)
  next
    case (Some x)
    obtain cred ls w where x: "x = (cred, ls, w)" by (cases x)
    note ch = choose_held[OF Some[unfolded x] Cons.prems(3) b(1)]
    obtain p ok where prot: "protocol_for env request cand cred (cl_protocol ls) = (p, ok)" by fastforce
    show ?thesis
    proof (cases ok)
      case False
      then have loop: "credential_loop env i cand request credTotal (Suc index) creds (ls\<lparr>cl_protocol := p\<rparr>) w = (r, w')"
        using Cons.prems(1) Some x prot by simp
      have "base_ok base (length (cl_held ls) + length creds)" by (rule base_ok_mono[OF Cons.prems(4)]) (use ch in auto)
      then show ?thesis using Cons.IH[OF loop] ch Cons.prems(2) by simp
    next
      case True
      obtain out w1 where att: "credential_attempt env i cand request index credTotal cred w = (out, w1)" by fastforce
      have wf: "cache_wf (wd_cache w)" using ch Cons.prems(2) by simp
      note fr = credential_attempt_frame[OF wf att]
      have bl: "base_ok base (length (cl_held ls))" by (rule base_ok_mono[OF Cons.prems(4)]) (use ch in auto)
      show ?thesis
      proof (cases out)
        case (CredDone r1)
        then have "w' = release_held (cl_held ls) w1" using Cons.prems(1) Some x prot True att by simp
        then show ?thesis using fr ch held_release_all[OF _ bl, of "wd_selector w1"] by (simp add: release_held_def)
      next
        case (CredNext r1)
        obtain ls1 w2 where rc: "release_current cand (ls\<lparr>cl_protocol := p, cl_last := r1\<rparr>) w1 = (ls1, w2)" by fastforce
        have loop: "credential_loop env i cand request credTotal (Suc index) creds ls1 w2 = (r, w')"
          using Cons.prems(1) Some x prot True att CredNext rc by simp
        have h: "held_over base (cl_held (ls\<lparr>cl_protocol := p, cl_last := r1\<rparr>)) (wd_selector w1)" using fr ch by simp
        note rel = release_current_held[OF h _ rc]
        have "base_ok base (length (cl_held ls1) + length creds)"
          by (rule base_ok_mono[OF Cons.prems(4)]) (use rel ch bl in auto)
        then show ?thesis using Cons.IH[OF loop] rel fr ch bl by simp
      qed
    qed
  qed
qed

section \<open>The requests sent\<close>

definition grok_ids :: "grok_candidate list \<Rightarrow> uuid multiset" where
  "grok_ids gs = mset (map (gcr_ID \<circ> gk_Credential) gs)"

lemma remove_grok_ids: "g \<in> set gs \<Longrightarrow> grok_ids gs = add_mset (gcr_ID (gk_Credential g)) (grok_ids (remove_grok (gcr_ID (gk_Credential g)) gs))"
  by (induction gs) (auto simp: grok_ids_def)

text \<open>The identifiers that may still be used: for a Grok site those of the accounts left, otherwise those of the
  credentials left.\<close>

definition ids_left :: "candidate \<Rightarrow> gateway_credential list \<Rightarrow> cred_loop_state \<Rightarrow> uuid multiset" where
  "ids_left cand creds ls =
     (if isGrokSite (cs_SiteType (cand_Site cand)) then grok_ids (cl_grok ls) else mset (map gcr_ID creds))"

lemma choose_ids:
  assumes "choose_credential cand cred0 ls0 w0 = Some (cred, ls, w)" and "sel_wf (wd_selector w0)"
  shows "add_mset (gcr_ID cred) (ids_left cand creds ls) = ids_left cand (cred0 # creds) ls0
    \<and> sel_wf (wd_selector w) \<and> wd_sends w = wd_sends w0 \<and> wd_cache w = wd_cache w0 \<and> cl_last ls = cl_last ls0"
proof (cases "isGrokSite (cs_SiteType (cand_Site cand))")
  case True
  then obtain s g where sel: "selectCredential (wd_now w0) (cl_grok ls0) (wd_selector w0) = (s, Some g)" and
    eq: "cred = gk_Credential g" "ls = ls0\<lparr>cl_grok := remove_grok (gcr_ID (gk_Credential g)) (cl_grok ls0), cl_held := cl_held ls0 @ [gcr_ID (gk_Credential g)]\<rparr>"
      "w = w0\<lparr>wd_selector := s\<rparr>"
    using assms(1) by (auto simp: choose_credential_def split: prod.splits option.splits)
  show ?thesis
    using True eq remove_grok_ids[OF select_spec(2)[OF assms(2) sel]] select_spec(1)[OF assms(2) sel] by (simp add: ids_left_def)
next
  case False
  then show ?thesis using assms by (simp add: choose_credential_def ids_left_def)
qed

lemma release_current_ids:
  assumes "release_current cand ls w = (ls', w')" and "sel_wf (wd_selector w)"
  shows "ids_left cand creds ls' = ids_left cand creds ls \<and> sel_wf (wd_selector w') \<and> wd_sends w' = wd_sends w \<and> wd_cache w' = wd_cache w
    \<and> cl_last ls' = cl_last ls"
  using assms release_spec(1)[OF assms(2)] by (auto simp: release_current_def ids_left_def split: if_splits)

text \<open>What the loop sends: every send but the last left the client unserved, no credential is used twice, and a result that
  served the client is the one of the last send.\<close>

definition sends_ok :: "send list \<Rightarrow> uuid multiset \<Rightarrow> attempt_result \<Rightarrow> bool" where
  "sends_ok sends ids r \<longleftrightarrow> list_all (\<lambda>s. \<not> served (sd_Result s)) (butlast sends)
     \<and> mset (map sd_Credential sends) \<subseteq># ids
     \<and> (sends \<noteq> [] \<and> served (sd_Result (last sends)) \<or> served r \<longrightarrow> sends \<noteq> [] \<and> r = sd_Result (last sends))"

lemma sends_ok_Cons:
  assumes "sends_ok sends ids r" and "\<not> served (sd_Result s)"
  shows "sends_ok (s # sends) (add_mset (sd_Credential s) ids) r"
proof -
  have "mset (map sd_Credential sends) \<subseteq># ids" using assms(1) by (simp add: sends_ok_def)
  then have sub: "mset (map sd_Credential (s # sends)) \<subseteq># add_mset (sd_Credential s) ids" by simp
  have bl: "list_all (\<lambda>s. \<not> served (sd_Result s)) (butlast sends)"
    and res: "sends \<noteq> [] \<and> served (sd_Result (last sends)) \<or> served r \<longrightarrow> sends \<noteq> [] \<and> r = sd_Result (last sends)"
    using assms(1) unfolding sends_ok_def by blast+
  show ?thesis
  proof (cases sends)
    case Nil
    then have "\<not> served r" using res by blast
    then show ?thesis using assms(2) sub unfolding sends_ok_def Nil by simp
  next
    case (Cons a as)
    then have eq: "butlast (s # sends) = s # butlast sends" "last (s # sends) = last sends" and ne: "sends \<noteq> []" by simp_all
    have "list_all (\<lambda>s. \<not> served (sd_Result s)) (s # butlast sends)" using bl assms(2) by simp
    then show ?thesis unfolding sends_ok_def eq using sub res ne by blast
  qed
qed

lemma sends_ok_mono: "sends_ok sends ids r \<Longrightarrow> ids \<subseteq># ids' \<Longrightarrow> sends_ok sends ids' r"
  unfolding sends_ok_def using subset_mset.order_trans by blast

lemma credential_loop_sends:
  assumes "credential_loop env i cand request credTotal index creds ls w = (r, w')" and "cache_wf (wd_cache w)" "sel_wf (wd_selector w)"
    and "\<not> served (cl_last ls)"
  shows "\<exists>sends. wd_sends w' = wd_sends w @ sends \<and> sends_ok sends (ids_left cand creds ls) r"
  using assms
proof (induction creds arbitrary: index ls w)
  case Nil
  then show ?case by (auto simp: release_held_def sends_ok_def)
next
  case (Cons cred0 creds index ls0 w0)
  show ?case
  proof (cases "choose_credential cand cred0 ls0 w0")
    case None
    then show ?thesis using Cons.prems by (auto simp: release_held_def sends_ok_def)
  next
    case (Some x)
    obtain cred ls w where x: "x = (cred, ls, w)" by (cases x)
    note ch = choose_ids[OF Some[unfolded x] Cons.prems(3), of creds]
    obtain p ok where prot: "protocol_for env request cand cred (cl_protocol ls) = (p, ok)" by fastforce
    have sub: "ids_left cand creds ls \<subseteq># ids_left cand (cred0 # creds) ls0"
      using ch mset_subset_eq_add_right[of "ids_left cand creds ls" "{#gcr_ID cred#}"] by simp
    show ?thesis
    proof (cases ok)
      case False
      then have "credential_loop env i cand request credTotal (Suc index) creds (ls\<lparr>cl_protocol := p\<rparr>) w = (r, w')"
        using Cons.prems(1) Some x prot by simp
      then obtain sends where "wd_sends w' = wd_sends w @ sends" "sends_ok sends (ids_left cand creds (ls\<lparr>cl_protocol := p\<rparr>)) r"
        using Cons.IH[of "Suc index" "ls\<lparr>cl_protocol := p\<rparr>" w] ch Cons.prems(2-4) by auto
      moreover have "ids_left cand creds (ls\<lparr>cl_protocol := p\<rparr>) = ids_left cand creds ls" by (simp add: ids_left_def)
      ultimately show ?thesis using ch sends_ok_mono[OF _ sub] by metis
    next
      case True
      obtain out w1 where att: "credential_attempt env i cand request index credTotal cred w = (out, w1)" by fastforce
      have wf: "cache_wf (wd_cache w)" using ch Cons.prems(2) by simp
      note fr = credential_attempt_frame[OF wf att]
      show ?thesis
      proof (cases out)
        case (CredDone r1)
        then have "w' = release_held (cl_held ls) w1" "r = r1" using Cons.prems(1) Some x prot True att by simp_all
        moreover have "gcr_ID cred \<in># ids_left cand (cred0 # creds) ls0" using ch by (metis union_single_eq_member)
        ultimately show ?thesis using fr ch CredDone by (auto simp: release_held_def sends_ok_def)
      next
        case (CredNext r1)
        obtain ls1 w2 where rc: "release_current cand (ls\<lparr>cl_protocol := p, cl_last := r1\<rparr>) w1 = (ls1, w2)" by fastforce
        have loop: "credential_loop env i cand request credTotal (Suc index) creds ls1 w2 = (r, w')"
          using Cons.prems(1) Some x prot True att CredNext rc by simp
        have "sel_wf (wd_selector w1)" using fr ch by simp
        note rel = release_current_ids[OF rc this, of creds]
        have un: "\<not> served r1" using fr CredNext by blast
        have last: "\<not> served (cl_last ls1)" and wf2: "cache_wf (wd_cache w2)" "sel_wf (wd_selector w2)" using rel un fr by simp_all
        have ids: "ids_left cand creds ls1 = ids_left cand creds ls" using rel by (simp add: ids_left_def)
        obtain sends where s: "wd_sends w' = wd_sends w2 @ sends" "sends_ok sends (ids_left cand creds ls) r"
          using Cons.IH[OF loop wf2 last] unfolding ids by blast
        from fr CredNext consider "wd_sends w1 = wd_sends w"
          | "wd_sends w1 = wd_sends w @ [\<lparr>sd_At = wd_now w, sd_Site = cs_ID (cand_Site cand), sd_Credential = gcr_ID cred, sd_Result = r1\<rparr>]"
          by auto
        then show ?thesis
        proof cases
          case 1
          then show ?thesis using s rel ch sub sends_ok_mono by auto
        next
          case 2
          let ?s = "\<lparr>sd_At = wd_now w, sd_Site = cs_ID (cand_Site cand), sd_Credential = gcr_ID cred, sd_Result = r1\<rparr>"
          have "sends_ok (?s # sends) (ids_left cand (cred0 # creds) ls0) r"
            using sends_ok_Cons[OF s(2), of ?s] un ch by simp
          then show ?thesis using 2 s(1) rel ch by auto
        qed
      qed
    qed
  qed
qed

section \<open>An attempt at a candidate\<close>

definition candidate_credentials :: "exec_env \<Rightarrow> candidate \<Rightarrow> world \<Rightarrow> gateway_credential list" where
  "candidate_credentials env cand w =
     (case attempt_credentials (xe_usable env) (xe_rows env (wd_tick w)) cand of Inl e \<Rightarrow> [] | Inr (creds, grok) \<Rightarrow> creds)"

lemma attempt_credentials_grok:
  "attempt_credentials usable rows cand = Inr (creds, grok) \<Longrightarrow>
     (if isGrokSite (cs_SiteType (cand_Site cand)) then creds = map gk_Credential grok else grok = [])"
  by (auto simp: attempt_credentials_def Let_def split: sum.splits if_splits)

text \<open>The two ways through \<open>forwardGatewayRequest\<close>.\<close>

lemma forward_cases:
  assumes "forwardGatewayRequest env i attempt cand request p w = (r, w')"
  obtains (none) e reg where "r = failed_with 502 ''upstream_credential_unavailable'' e zero_result"
      "w' = w\<lparr>wd_registry := reg, wd_tick := Suc (wd_tick w)\<rparr>"
  | (loop) creds grok reg where "attempt_credentials (xe_usable env) (xe_rows env (wd_tick w)) cand = Inr (creds, grok)"
      "candidate_credentials env cand w = creds"
      "credential_loop env i cand request (length creds) 0 creds \<lparr>cl_protocol = p, cl_grok = grok, cl_held = [], cl_last = zero_result\<rparr>
         (w\<lparr>wd_registry := reg\<rparr>) = (r, w')"
  using assms
  by (cases "attempt_credentials (xe_usable env) (xe_rows env (wd_tick w)) cand")
    (auto simp: forwardGatewayRequest_def candidate_credentials_def Let_def)

lemma forward_slots:
  assumes fwd: "forwardGatewayRequest env i attempt cand request p w = (r, w')"
    and wf: "cache_wf (wd_cache w)" "sel_wf (wd_selector w)"
    and small: "\<And>i. 0 \<le> inflight_of (wd_selector w) i \<and> inflight_of (wd_selector w) i + int (length (candidate_credentials env cand w)) < 2 ^ 63"
  shows "cache_wf (wd_cache w') \<and> chan_len (wd_cache w') = chan_len (wd_cache w) \<and> sel_wf (wd_selector w')
    \<and> inflight_of (wd_selector w') = inflight_of (wd_selector w)"
  using fwd
proof (cases rule: forward_cases)
  case none
  then show ?thesis using wf by simp
next
  case (loop creds grok reg)
  have "held_over (inflight_of (wd_selector w)) [] (wd_selector w)" using wf(2) by (simp add: held_over_def)
  then show ?thesis
    using credential_loop_frame[OF loop(3), of "inflight_of (wd_selector w)"] wf(1) small loop(2)
    by (auto simp: base_ok_def held_over_def)
qed

lemma forward_sends:
  assumes fwd: "forwardGatewayRequest env i attempt cand request p w = (r, w')"
    and wf: "cache_wf (wd_cache w)" "sel_wf (wd_selector w)"
  shows "\<exists>sends. wd_sends w' = wd_sends w @ sends \<and> sends_ok sends (mset (map gcr_ID (candidate_credentials env cand w))) r"
  using fwd
proof (cases rule: forward_cases)
  case (none e reg)
  then show ?thesis by (intro exI[of _ "[]"]) (simp add: sends_ok_def)
next
  case (loop creds grok reg)
  let ?ls = "\<lparr>cl_protocol = p, cl_grok = grok, cl_held = [], cl_last = zero_result\<rparr>"
  have "ids_left cand creds ?ls = mset (map gcr_ID creds)"
    using attempt_credentials_grok[OF loop(1)] by (auto simp: ids_left_def grok_ids_def multiset.map_comp o_def split: if_splits)
  then show ?thesis
    using credential_loop_sends[OF loop(3)] wf loop(2) by auto
qed

lemma distinct_submset:
  assumes "mset xs \<subseteq># mset ys" and "distinct ys"
  shows "distinct xs"
  unfolding distinct_count_atmost_1
proof
  fix a
  have "count (mset xs) a \<le> count (mset ys) a" using assms(1) by (rule mset_subset_eq_count)
  also have "\<dots> \<le> 1" using assms(2) by (simp add: distinct_count_atmost_1)
  finally have "count (mset xs) a \<le> 1" .
  moreover have "count (mset xs) a > 0 \<longleftrightarrow> a \<in> set xs" by (metis count_greater_zero_iff set_mset_mset)
  ultimately have "a \<in> set xs \<Longrightarrow> count (mset xs) a = 1" "a \<notin> set xs \<Longrightarrow> count (mset xs) a = 0" by linarith+
  then show "count (mset xs) a = (if a \<in> set xs then 1 else 0)" by metis
qed

text \<open>C10. An attempt at a candidate returns everything it took. Whatever the credentials, the OAuth providers, the encoders and the
  upstream answer, and wherever the attempt ends, every concurrency slot is free again that was free before, and every Grok account
  has as many running requests as before.\<close>

theorem attempt_returns_slots:
  assumes "forwardGatewayRequest env i attempt cand request p w = (r, w')"
    and "cache_wf (wd_cache w)" "sel_wf (wd_selector w)"
    and "\<And>i. 0 \<le> inflight_of (wd_selector w) i \<and> inflight_of (wd_selector w) i + int (length (candidate_credentials env cand w)) < 2 ^ 63"
  shows "chan_len (wd_cache w') = chan_len (wd_cache w) \<and> inflight_of (wd_selector w') = inflight_of (wd_selector w)"
  using forward_slots[OF assms] by blast

text \<open>C11. No client is served twice and no credential is used twice by an attempt: among the requests sent to the site no two use
  the same credential, every one but the last left the client without an answer, and if an answer was begun the attempt ends with the
  result of the request that began it.\<close>

theorem credentials_tried_once:
  assumes "forwardGatewayRequest env i attempt cand request p w = (r, w')"
    and "cache_wf (wd_cache w)" "sel_wf (wd_selector w)"
    and "distinct (map gcr_ID (candidate_credentials env cand w))"
  shows "\<exists>sends. wd_sends w' = wd_sends w @ sends
    \<and> distinct (map sd_Credential sends) \<and> sd_Credential ` set sends \<subseteq> gcr_ID ` set (candidate_credentials env cand w)
    \<and> list_all (\<lambda>s. \<not> ar_success (sd_Result s) \<and> \<not> ar_responseStarted (sd_Result s)) (butlast sends)
    \<and> (ar_success r \<or> ar_responseStarted r \<longrightarrow> sends \<noteq> [] \<and> r = sd_Result (last sends))"
proof -
  obtain sends where s: "wd_sends w' = wd_sends w @ sends" "sends_ok sends (mset (map gcr_ID (candidate_credentials env cand w))) r"
    using forward_sends[OF assms(1-3)] by blast
  then have sub: "mset (map sd_Credential sends) \<subseteq># mset (map gcr_ID (candidate_credentials env cand w))" by (simp add: sends_ok_def)
  have "distinct (map sd_Credential sends)" by (rule distinct_submset[OF sub assms(4)])
  moreover have "sd_Credential ` set sends \<subseteq> gcr_ID ` set (candidate_credentials env cand w)"
    using set_mset_mono[OF sub] by simp
  moreover have "list_all (\<lambda>s. \<not> ar_success (sd_Result s) \<and> \<not> ar_responseStarted (sd_Result s)) (butlast sends)"
    using s(2) by (simp add: sends_ok_def served_def)
  moreover have "ar_success r \<or> ar_responseStarted r \<longrightarrow> sends \<noteq> [] \<and> r = sd_Result (last sends)"
    using s(2) unfolding sends_ok_def served_def by blast
  ultimately show ?thesis using s(1) by blast
qed

section \<open>The clock, the registry and the delay\<close>

text \<open>The clock does not go back, and a running request stays in the registry.\<close>

definition carries :: "string \<Rightarrow> world \<Rightarrow> world \<Rightarrow> bool" where
  "carries i w w' \<longleftrightarrow> wd_now w \<le> wd_now w' \<and> (live i (wd_registry w) \<longrightarrow> live i (wd_registry w'))"

lemma carries_refl [simp]: "carries i w w"
  by (simp add: carries_def)

lemma carries_trans: "carries i w w' \<Longrightarrow> carries i w' w'' \<Longrightarrow> carries i w w''"
  by (auto simp: carries_def)

lemma carries_frames [simp]:
  "carries i w (w'\<lparr>wd_cache := c\<rparr>) = carries i w w'" "carries i w (w'\<lparr>wd_selector := s\<rparr>) = carries i w w'"
  "carries i w (w'\<lparr>wd_tick := n\<rparr>) = carries i w w'" "carries i w (w'\<lparr>wd_cooldowns := t\<rparr>) = carries i w w'"
  "carries i w (cool_down env cand r w') = carries i w w'" "carries i w (log_send sentAt cand cred r w') = carries i w w'"
  "carries i w (release_held held w') = carries i w w'"
  by (simp_all add: carries_def cool_down_def log_send_def release_held_def)

text \<open>The delays an upstream names are below the number of seconds a duration can hold.\<close>

definition delay_ok :: "attempt_result \<Rightarrow> bool" where
  "delay_ok r \<longleftrightarrow> ar_retryAfterSeconds r \<le> 9223372036"

definition delays_ok :: "exec_env \<Rightarrow> bool" where
  "delays_ok env \<longleftrightarrow> (\<forall>n r. delay_ok r \<longrightarrow> delay_ok (ca_handle (xe_answers env n) r))"

lemma delay_ok_frames [simp]: "delay_ok zero_result" "delay_ok (start_result cred i n)"
  "delay_ok (failed_with st t m r) = delay_ok r" "delay_ok (recordCredentialAttempt x y r) = delay_ok r" "delay_ok (acquire_failure e r) = delay_ok r"
  by (simp_all add: delay_ok_def zero_result_def start_result_def failed_with_def recordCredentialAttempt_def)
    (cases e; simp add: failed_with_def)

lemma delay_ok_preflight: "preflight i cand a r = Some (failed, n) \<Longrightarrow> delay_ok failed = delay_ok r"
  by (auto simp: preflight_def preflight_key_def preflight_request_def Let_def split: option.splits if_splits)
    (simp_all add: delay_ok_def failed_with_def)

lemma send_upstream_carries:
  assumes "send_upstream env i cand request nextAvailable cred (xe_answers env k) slots r sentAt w = (out, w')"
  shows "carries i w w' \<and> (delays_ok env \<longrightarrow> delay_ok r \<longrightarrow> delay_ok (outcome_result out))"
proof (cases "ca_response (xe_answers env k)")
  case (Inl e)
  then show ?thesis using assms by (auto simp: send_upstream_def Let_def)
next
  case (Inr x)
  obtain st ct where x: "x = (st, ct)" by (cases x)
  have reg: "carries i w (w\<lparr>wd_cache := c, wd_registry := fst (responding_request t i (wd_registry w))\<rparr>)" for c t
    using live_ops(3) by (simp add: carries_def)
  have "delay_ok r \<Longrightarrow> delay_ok (r\<lparr>ar_statusCode := st, ar_upstreamStatusCode := st, ar_contentType := ct\<rparr>)" by (simp add: delay_ok_def)
  then show ?thesis
    using assms reg by (auto simp: send_upstream_def Inr x Let_def delays_ok_def split: if_splits)
qed

lemma credential_attempt_carries:
  assumes "credential_attempt env i cand request index credTotal cred w = (out, w')"
  shows "carries i w w' \<and> (delays_ok env \<longrightarrow> delay_ok (outcome_result out))"
proof -
  let ?a = "xe_answers env (wd_tick w)" and ?r = "start_result cred index credTotal"
  let ?w = "w\<lparr>wd_tick := Suc (wd_tick w), wd_now := wd_now w + int (ca_elapsed ?a)\<rparr>"
  have tick: "carries i w ?w" by (simp add: carries_def)
  show ?thesis
  proof (cases "preflight i cand ?a ?r")
    case (Some p)
    obtain failed tryNext where p: "p = (failed, tryNext)" by (cases p)
    have "delay_ok failed" using delay_ok_preflight[of i cand ?a ?r failed tryNext] Some p by simp
    then show ?thesis using assms Some p tick by (auto simp: credential_attempt_def Let_def)
  next
    case None
    obtain cache res where acq: "acquireUpstreamConcurrency (\<lambda>scope. (ca_acquire ?a scope)\<lparr>ae_now := wd_now w\<rparr>) cand (gcr_ID cred)
        (ca_config ?a) (wd_cache w) = (cache, res)" by fastforce
    show ?thesis
    proof (cases res)
      case (Inl e)
      then show ?thesis using assms None acq tick by (auto simp: credential_attempt_def Let_def)
    next
      case (Inr slots)
      then have snd: "send_upstream env i cand request (index + 1 < credTotal) cred ?a slots ?r (wd_now w) (?w\<lparr>wd_cache := cache\<rparr>) = (out, w')"
        using assms None acq by (simp add: credential_attempt_def Let_def)
      have w: "carries i w (?w\<lparr>wd_cache := cache\<rparr>)" using tick by simp
      note sent = send_upstream_carries[OF snd]
      have "carries i w w'" by (rule carries_trans[OF w]) (use sent in blast)
      then show ?thesis using sent by simp
    qed
  qed
qed

lemma credential_loop_carries:
  assumes "credential_loop env i cand request credTotal index creds ls w = (r, w')" and "delays_ok env \<longrightarrow> delay_ok (cl_last ls)"
  shows "carries i w w' \<and> (delays_ok env \<longrightarrow> delay_ok r)"
  using assms
proof (induction creds arbitrary: index ls w)
  case Nil
  then show ?case by auto
next
  case (Cons cred0 creds index ls0 w0)
  show ?case
  proof (cases "choose_credential cand cred0 ls0 w0")
    case None
    then show ?thesis using Cons.prems by auto
  next
    case (Some x)
    obtain cred ls w where x: "x = (cred, ls, w)" by (cases x)
    have ch: "carries i w0 w" "cl_last ls = cl_last ls0"
      using Some x by (auto simp: choose_credential_def split: if_splits prod.splits option.splits)
    obtain p ok where prot: "protocol_for env request cand cred (cl_protocol ls) = (p, ok)" by fastforce
    obtain out w1 where att: "credential_attempt env i cand request index credTotal cred w = (out, w1)" by fastforce
    note fr = credential_attempt_carries[OF att]
    consider (skip) "\<not> ok" | (finished) r1 where ok "out = CredDone r1" | (another) r1 where ok "out = CredNext r1"
      by (cases ok; cases out) auto
    then show ?thesis
    proof cases
      case skip
      then have "credential_loop env i cand request credTotal (Suc index) creds (ls\<lparr>cl_protocol := p\<rparr>) w = (r, w')"
        using Cons.prems(1) Some x prot by simp
      from Cons.IH[OF this] show ?thesis using ch Cons.prems(2) carries_trans by auto
    next
      case (finished r1)
      then have "w' = release_held (cl_held ls) w1" "r = r1" using Cons.prems(1) Some x prot att by simp_all
      then show ?thesis using fr ch carries_trans finished by auto
    next
      case (another r1)
      obtain ls1 w2 where rc: "release_current cand (ls\<lparr>cl_protocol := p, cl_last := r1\<rparr>) w1 = (ls1, w2)" by fastforce
      have "carries i w1 w2" "cl_last ls1 = r1" using rc by (auto simp: release_current_def split: if_splits)
      moreover have loop: "credential_loop env i cand request credTotal (Suc index) creds ls1 w2 = (r, w')"
        using Cons.prems(1) Some x prot att another rc by simp
      ultimately show ?thesis using Cons.IH[OF loop] fr ch another carries_trans by (metis outcome_result.simps(2))
    qed
  qed
qed

lemma forward_carries:
  assumes "forwardGatewayRequest env i attempt cand request p w = (r, w')"
  shows "carries i w w' \<and> (delays_ok env \<longrightarrow> delay_ok r)"
proof -
  have reg: "carries i w (w\<lparr>wd_registry := fst (route_request (wd_now w) i rt (wd_registry w))\<rparr>)" for rt
    using live_ops(1) by (simp add: carries_def)
  show ?thesis
  proof (cases "attempt_credentials (xe_usable env) (xe_rows env (wd_tick w)) cand")
    case (Inl e)
    then show ?thesis using assms reg by (auto simp: forwardGatewayRequest_def Let_def)
  next
    case (Inr x)
    obtain creds grok where x: "x = (creds, grok)" by (cases x)
    from assms Inr x have "credential_loop env i cand request (length creds) 0 creds
        \<lparr>cl_protocol = p, cl_grok = grok, cl_held = [], cl_last = zero_result\<rparr>
        (w\<lparr>wd_registry := fst (route_request (wd_now w) i \<lparr>irt_SiteID = cs_ID (cand_Site cand), irt_SiteName = cs_Name (cand_Site cand),
           irt_SiteType = cs_SiteType (cand_Site cand), irt_Attempt = attempt\<rparr> (wd_registry w))\<rparr>) = (r, w')"
      by (simp add: forwardGatewayRequest_def Let_def)
    then have loop: "carries i (w\<lparr>wd_registry := fst (route_request (wd_now w) i \<lparr>irt_SiteID = cs_ID (cand_Site cand), irt_SiteName = cs_Name (cand_Site cand),
           irt_SiteType = cs_SiteType (cand_Site cand), irt_Attempt = attempt\<rparr> (wd_registry w))\<rparr>) w' \<and> (delays_ok env \<longrightarrow> delay_ok r)"
      by (rule credential_loop_carries) simp
    have "carries i w w'" by (rule carries_trans[OF reg loop[THEN conjunct1]])
    then show ?thesis using loop by simp
  qed
qed

text \<open>A site with two keys: the first is rejected with status 401, the second serves the request.\<close>

definition two_keys :: "gateway_credential list" where
  "two_keys = map (\<lambda>i. \<lparr>gcr_ID = i, gcr_CredentialType = ''api_key'', gcr_MaskedSecret = i, gcr_SupportedEndpointTypes = []\<rparr>) [''k1'', ''k2'']"

definition demo_answers :: "nat \<Rightarrow> cred_answers" where
  "demo_answers n = \<lparr>ca_decrypt = None, ca_oauth = None, ca_payload = None, ca_validate = None, ca_client = None, ca_config = Some two_limits,
     ca_encode = None, ca_build = None, ca_sign = None, ca_acquire = demo_acquire, ca_response = Inr (if n = 0 then 401 else 200, ''application/json''),
     ca_handle = (\<lambda>r. if ar_statusCode r = 200 then r\<lparr>ar_success := True, ar_promptTokens := 7, ar_completionTokens := 4\<rparr>
        else r\<lparr>ar_errorType := ''upstream_http_error''\<rparr>), ca_elapsed = 5\<rparr>"

definition demo_exec :: exec_env where
  "demo_exec = \<lparr>xe_rows = (\<lambda>_. \<lparr>cr_list = Inr two_keys, cr_hasBindings = Inr False, cr_fallback = Inl [], cr_states = Inr []\<rparr>),
     xe_usable = (\<lambda>_. True), xe_hasResolver = True, xe_resolve = (\<lambda>_ _. Inl []), xe_answers = demo_answers, xe_failure = (\<lambda>_. demo_env)\<rparr>"

definition demo_protocol :: protocol where
  "demo_protocol = \<lparr>pr_Name = ''openai_chat'', pr_Responses = False, pr_CodexImages = False, pr_Capabilities = None, pr_GrokIncompatible = None\<rparr>"

definition demo_world :: world where
  "demo_world = \<lparr>wd_now = 0, wd_tick = 0, wd_cache = newUpstreamConcurrencyCache, wd_selector = newCredentialWindowSelector (minutes 1),
     wd_cooldowns = [], wd_registry = newRegistry, wd_sends = []\<rparr>"

lemma demo_world_ok: "cache_wf (wd_cache demo_world)" "sel_wf (wd_selector demo_world)" "inflight_of (wd_selector demo_world) i = 0"
  by (simp_all add: demo_world_def wf_new sel_wf_def newCredentialWindowSelector_def inflight_of_def state_of_def new_state_def)

lemma demo_credentials: "candidate_credentials demo_exec demo_target demo_world = two_keys"
  by code_simp

lemma demo_forward_sends:
  "map (\<lambda>s. (sd_Credential s, ar_statusCode (sd_Result s))) (wd_sends (snd (forwardGatewayRequest demo_exec ''r1'' 1 demo_target tool_request demo_protocol demo_world)))
     = [(''k1'', 401), (''k2'', 200)]
   \<and> ar_success (fst (forwardGatewayRequest demo_exec ''r1'' 1 demo_target tool_request demo_protocol demo_world))"
  by code_simp

theorem attempt_returns_slots_witness:
  "let (r, w') = forwardGatewayRequest demo_exec ''r1'' 1 demo_target tool_request demo_protocol demo_world in
    ar_success r \<and> chan_len (wd_cache w') = chan_len newUpstreamConcurrencyCache \<and> inflight_of (wd_selector w') ''k1'' = 0"
proof -
  obtain r w' where f: "forwardGatewayRequest demo_exec ''r1'' 1 demo_target tool_request demo_protocol demo_world = (r, w')" by fastforce
  have "0 \<le> inflight_of (wd_selector demo_world) i
      \<and> inflight_of (wd_selector demo_world) i + int (length (candidate_credentials demo_exec demo_target demo_world)) < 2 ^ 63" for i
    by (simp add: demo_world_ok demo_credentials two_keys_def)
  from attempt_returns_slots[OF f demo_world_ok(1,2) this] demo_forward_sends f demo_world_ok(3)
  show ?thesis by (simp add: demo_world_def)
qed

theorem credentials_tried_once_witness:
  "let (r, w') = forwardGatewayRequest demo_exec ''r1'' 1 demo_target tool_request demo_protocol demo_world in
    map sd_Credential (wd_sends w') = [''k1'', ''k2''] \<and> \<not> ar_success (sd_Result (hd (wd_sends w'))) \<and> r = sd_Result (last (wd_sends w'))"
proof -
  obtain r w' where f: "forwardGatewayRequest demo_exec ''r1'' 1 demo_target tool_request demo_protocol demo_world = (r, w')" by fastforce
  have "distinct (map gcr_ID (candidate_credentials demo_exec demo_target demo_world))" by (simp add: demo_credentials two_keys_def)
  from credentials_tried_once[OF f demo_world_ok(1,2) this] obtain sends where s: "wd_sends w' = wd_sends demo_world @ sends"
    "list_all (\<lambda>s. \<not> ar_success (sd_Result s) \<and> \<not> ar_responseStarted (sd_Result s)) (butlast sends)"
    "ar_success r \<or> ar_responseStarted r \<longrightarrow> sends \<noteq> [] \<and> r = sd_Result (last sends)" by blast
  have d: "map (\<lambda>s. (sd_Credential s, ar_statusCode (sd_Result s))) (wd_sends w') = [(''k1'', 401), (''k2'', 200)]" "ar_success r"
    using demo_forward_sends f by simp_all
  have w: "wd_sends w' = sends" using s(1) by (simp add: demo_world_def)
  obtain a b where ab: "sends = [a, b]" "sd_Credential a = ''k1''" "sd_Credential b = ''k2''" using d(1) unfolding w by auto
  have "r = sd_Result b" using s(3) d(2) ab by simp
  then show ?thesis using f w ab s(2) by simp
qed

end
