(* ===== verification/Model_Rules.thy ===== *)
theory Model_Rules
  imports Model_Key Gateway_Config
begin

text \<open>
  The model rules of an API key: \<open>store/api_key_model_rules.go\<close> (the stored form), \<open>gateway/model_rules.go\<close> (which rule
  applies to a requested model), \<open>resolveModelMapping\<close> of \<open>gateway/handler_chat.go\<close> and the validation in
  \<open>auth/service.go\<close>. A rule names a model, a prefix of models (\<open>gpt-4*\<close>) or all models (\<open>*\<close>).
\<close>

section \<open>Rules\<close>

definition APIKeyModelRuleModeHard :: string where "APIKeyModelRuleModeHard = ''hard''"
definition APIKeyModelRuleModeSoft :: string where "APIKeyModelRuleModeSoft = ''soft''"
definition APIKeyModelRuleCatchAll :: string where "APIKeyModelRuleCatchAll = ''*''"

record model_rule =
  mr_Pattern :: string
  mr_Target :: string
  mr_Mode :: string

definition IsCatchAll :: "model_rule \<Rightarrow> bool" where
  "IsCatchAll r \<longleftrightarrow> trim_space (mr_Pattern r) = APIKeyModelRuleCatchAll"

definition IsWildcard :: "model_rule \<Rightarrow> bool" where
  "IsWildcard r \<longleftrightarrow> (let pattern = trim_space (mr_Pattern r) in length pattern > 1 \<and> has_suffix pattern ''*'')"

definition IsExact :: "model_rule \<Rightarrow> bool" where
  "IsExact r \<longleftrightarrow> \<not> IsCatchAll r \<and> \<not> IsWildcard r"

definition NormalizeAPIKeyModelRuleMode :: "string \<Rightarrow> string" where
  "NormalizeAPIKeyModelRuleMode mode =
     (if equal_fold (trim_space mode) APIKeyModelRuleModeSoft then APIKeyModelRuleModeSoft else APIKeyModelRuleModeHard)"

definition normalize_rule :: "model_rule \<Rightarrow> model_rule option" where
  "normalize_rule rule =
     (let pattern = trim_space (mr_Pattern rule); target = trim_space (mr_Target rule) in
      if pattern = [] \<or> target = [] then None
      else Some \<lparr>mr_Pattern = pattern, mr_Target = target, mr_Mode = NormalizeAPIKeyModelRuleMode (mr_Mode rule)\<rparr>)"

definition NormalizeAPIKeyModelRules :: "model_rule list \<Rightarrow> model_rule list" where
  "NormalizeAPIKeyModelRules rules = List.map_filter normalize_rule rules"

section \<open>The stored document\<close>

text \<open>The decoder for a rule: keys match without regard to case, \<open>null\<close> leaves a field as it is, another type is an error.\<close>

definition decode_rule_field :: "string \<Rightarrow> any \<Rightarrow> model_rule \<Rightarrow> model_rule option" where
  "decode_rule_field key v r =
     (if equal_fold key ''pattern'' then map_option (\<lambda>t. r\<lparr>mr_Pattern := t\<rparr>) (decode_text (mr_Pattern r) v)
      else if equal_fold key ''target'' then map_option (\<lambda>t. r\<lparr>mr_Target := t\<rparr>) (decode_text (mr_Target r) v)
      else if equal_fold key ''mode'' then map_option (\<lambda>t. r\<lparr>mr_Mode := t\<rparr>) (decode_text (mr_Mode r) v)
      else Some r)"

fun decode_rule_fields :: "obj \<Rightarrow> model_rule \<Rightarrow> model_rule option" where
  "decode_rule_fields [] r = Some r"
| "decode_rule_fields ((k, v) # m) r = (case decode_rule_field k v r of None \<Rightarrow> None | Some r' \<Rightarrow> decode_rule_fields m r')"

fun decode_rule :: "any \<Rightarrow> model_rule option" where
  "decode_rule ANil = Some \<lparr>mr_Pattern = [], mr_Target = [], mr_Mode = []\<rparr>"
| "decode_rule (AObj m) = decode_rule_fields m \<lparr>mr_Pattern = [], mr_Target = [], mr_Mode = []\<rparr>"
| "decode_rule _ = None"

definition LegacyAPIKeyModelRules :: "(string \<times> string) list \<Rightarrow> model_rule list" where
  "LegacyAPIKeyModelRules mappings =
     NormalizeAPIKeyModelRules (map (\<lambda>(pattern, target). \<lparr>mr_Pattern = pattern, mr_Target = target, mr_Mode = APIKeyModelRuleModeHard\<rparr>)
       (stable_sort (\<lambda>a b. fst a < fst b) mappings))"

definition ParseAPIKeyModelRules :: "json_raw \<Rightarrow> model_rule list" where
  "ParseAPIKeyModelRules data = (case data of
      JDoc (AList items) \<Rightarrow> (case opt_list (map decode_rule items) of None \<Rightarrow> [] | Some rules \<Rightarrow> NormalizeAPIKeyModelRules rules)
    | JDoc doc \<Rightarrow> (case decode_text_map doc of Some (Some legacy) \<Rightarrow> LegacyAPIKeyModelRules legacy | _ \<Rightarrow> [])
    | _ \<Rightarrow> [])"

section \<open>The rule for a model\<close>

definition wildcard_prefix :: "model_rule \<Rightarrow> string option" where
  "wildcard_prefix rule =
     (let rawPrefix = trim_suffix (trim_space (mr_Pattern rule)) ''*'' in
      if CHR ''*'' \<in> set rawPrefix then None
      else let prefix = NormalizeModelKeyPrefix rawPrefix in if prefix = [] then None else Some prefix)"

text \<open>The loop: the best wildcard so far with the length of its prefix, and the first rule for all models.\<close>

fun match_loop :: "string \<Rightarrow> model_rule list \<Rightarrow> model_rule option \<Rightarrow> int \<Rightarrow> model_rule option \<Rightarrow> model_rule option" where
  "match_loop normalized [] wildcardMatch wildcardLen catchAll = (if wildcardLen \<ge> 0 then wildcardMatch else catchAll)"
| "match_loop normalized (rule # rules) wildcardMatch wildcardLen catchAll =
     (if IsCatchAll rule then
        match_loop normalized rules wildcardMatch wildcardLen (if catchAll = None then Some rule else catchAll)
      else if IsWildcard rule then
        (case wildcard_prefix rule of
           None \<Rightarrow> match_loop normalized rules wildcardMatch wildcardLen catchAll
         | Some prefix \<Rightarrow>
             if \<not> has_prefix normalized prefix then match_loop normalized rules wildcardMatch wildcardLen catchAll
             else if int (length prefix) > wildcardLen then match_loop normalized rules (Some rule) (int (length prefix)) catchAll
             else match_loop normalized rules wildcardMatch wildcardLen catchAll)
      else if NormalizeModelKey (mr_Pattern rule) = normalized then Some rule
      else match_loop normalized rules wildcardMatch wildcardLen catchAll)"

definition matchModelRule :: "model_rule list \<Rightarrow> string \<Rightarrow> model_rule option" where
  "matchModelRule rules requestedModel =
     (let normalized = NormalizeModelKey requestedModel in
      if normalized = [] then None else match_loop normalized rules None (- 1) None)"

definition resolveModelMapping :: "json_raw \<Rightarrow> string \<Rightarrow> model_rule option" where
  "resolveModelMapping mappings requestedModel =
     (case matchModelRule (ParseAPIKeyModelRules mappings) requestedModel of
        None \<Rightarrow> None
      | Some rule \<Rightarrow> if NormalizeModelKey (mr_Target rule) = NormalizeModelKey requestedModel then None else Some rule)"

section \<open>Validation\<close>

definition modelRulePatternIdentity :: "string \<Rightarrow> string" where
  "modelRulePatternIdentity pattern =
     (if pattern = APIKeyModelRuleCatchAll then ''*''
      else if has_suffix pattern ''*'' then
        (let rawPrefix = trim_suffix pattern ''*'' in
         if CHR ''*'' \<in> set rawPrefix then []
         else let prefix = NormalizeModelKeyPrefix rawPrefix in
           if prefix = [] then [] else ''wildcard:'' @ prefix)
      else if CHR ''*'' \<in> set pattern then []
      else let normalized = NormalizeModelKey pattern in
        if normalized = [] then [] else ''exact:'' @ normalized)"

datatype rule_error =
    RuleEmpty
  | RuleInvalid string
  | RuleDuplicate string
  | RuleTargetUnknown string
  | RuleTargetNotAllowed string
  | RuleLookup string

fun validate_shapes :: "string list \<Rightarrow> model_rule list \<Rightarrow> rule_error option" where
  "validate_shapes seen [] = None"
| "validate_shapes seen (rule # rules) =
     (let pattern = trim_space (mr_Pattern rule); target = trim_space (mr_Target rule) in
      if pattern = [] \<or> target = [] then Some RuleEmpty
      else let identity = modelRulePatternIdentity pattern in
        if identity = [] then Some (RuleInvalid pattern)
        else if identity \<in> set seen then Some (RuleDuplicate pattern)
        else validate_shapes (identity # seen) rules)"

definition validateModelRuleShapes :: "model_rule list \<Rightarrow> rule_error option" where
  "validateModelRuleShapes rules = validate_shapes [] rules"

text \<open>The catalogue lookup \<open>getByKey\<close> gives the key of the canonical model; \<open>allowed\<close> is the set of allowed keys when the
  key has an allow list, or the error of its query.\<close>

fun validate_targets :: "(string \<Rightarrow> string option) \<Rightarrow> string set option \<Rightarrow> model_rule list \<Rightarrow> rule_error + model_rule list" where
  "validate_targets getByKey allowed [] = Inr []"
| "validate_targets getByKey allowed (rule # rules) =
     (let pattern = trim_space (mr_Pattern rule); target = trim_space (mr_Target rule) in
      case getByKey target of
        None \<Rightarrow> Inl (RuleTargetUnknown target)
      | Some key \<Rightarrow>
          if (case allowed of None \<Rightarrow> False | Some keys \<Rightarrow> key \<notin> keys) then Inl (RuleTargetNotAllowed target)
          else (case validate_targets getByKey allowed rules of
              Inl e \<Rightarrow> Inl e
            | Inr rest \<Rightarrow> Inr (\<lparr>mr_Pattern = pattern, mr_Target = key, mr_Mode = NormalizeAPIKeyModelRuleMode (mr_Mode rule)\<rparr> # rest)))"

definition validateModelRules ::
  "(string \<Rightarrow> string option) \<Rightarrow> string + string set option \<Rightarrow> model_rule list \<Rightarrow> rule_error + model_rule list" where
  "validateModelRules getByKey allowedTargets rules =
     (if rules = [] then Inr []
      else case validateModelRuleShapes rules of
          Some e \<Rightarrow> Inl e
        | None \<Rightarrow> (case allowedTargets of Inl e \<Rightarrow> Inl (RuleLookup e) | Inr allowed \<Rightarrow> validate_targets getByKey allowed rules))"

section \<open>Precedence\<close>

text \<open>The reference: an exact rule first, then the first of the wildcards with the longest prefix, then the first rule
  for all models. \<open>wildcard_len\<close> is the length of the prefix of a wildcard that matches and -1 for any other rule.\<close>

definition exact_for :: "string \<Rightarrow> model_rule \<Rightarrow> bool" where
  "exact_for normalized r \<longleftrightarrow> IsExact r \<and> NormalizeModelKey (mr_Pattern r) = normalized"

definition wildcard_len :: "string \<Rightarrow> model_rule \<Rightarrow> int" where
  "wildcard_len normalized r =
     (if IsCatchAll r \<or> \<not> IsWildcard r then - 1
      else case wildcard_prefix r of
          None \<Rightarrow> - 1
        | Some p \<Rightarrow> if has_prefix normalized p then int (length p) else - 1)"

definition longest_after :: "string \<Rightarrow> int \<Rightarrow> model_rule list \<Rightarrow> model_rule option" where
  "longest_after n l rules =
     find (\<lambda>r. l < wildcard_len n r \<and> list_all (\<lambda>r'. wildcard_len n r' \<le> wildcard_len n r) rules) rules"

definition reference_match :: "string \<Rightarrow> model_rule list \<Rightarrow> model_rule option" where
  "reference_match n rules =
     (case find (exact_for n) rules of
        Some r \<Rightarrow> Some r
      | None \<Rightarrow> (case longest_after n (- 1) rules of Some r \<Rightarrow> Some r | None \<Rightarrow> find IsCatchAll rules))"

lemma longest_after_None: "longest_after n l rules = None \<longleftrightarrow> (\<forall>r \<in> set rules. wildcard_len n r \<le> l)"
proof
  assume none: "longest_after n l rules = None"
  show "\<forall>r \<in> set rules. wildcard_len n r \<le> l"
  proof (rule ccontr)
    assume "\<not> (\<forall>r \<in> set rules. wildcard_len n r \<le> l)"
    then obtain r where r: "r \<in> set rules" "l < wildcard_len n r" by fastforce
    let ?m = "Max (wildcard_len n ` set rules)"
    have "?m \<in> wildcard_len n ` set rules" using r by (intro Max_in) auto
    then obtain b where b: "b \<in> set rules" "wildcard_len n b = ?m" by auto
    then have top: "list_all (\<lambda>r'. wildcard_len n r' \<le> wildcard_len n b) rules" by (simp add: list_all_iff)
    then have "l < wildcard_len n b" using r by (auto simp: list_all_iff)
    with b(1) top none show False by (auto simp: longest_after_def find_None_iff)
  qed
qed (auto simp: longest_after_def find_None_iff not_less)

lemma find_cong_set: "(\<And>x. x \<in> set xs \<Longrightarrow> P x = Q x) \<Longrightarrow> find P xs = find Q xs"
  by (induction xs) auto

lemma longest_after_Cons:
  "longest_after n l (r # rules) =
     (if l < wildcard_len n r then (case longest_after n (wildcard_len n r) rules of Some b \<Rightarrow> Some b | None \<Rightarrow> Some r)
      else longest_after n l rules)"
proof -
  have skip: "find (\<lambda>b. l < wildcard_len n b \<and> list_all (\<lambda>r'. wildcard_len n r' \<le> wildcard_len n b) (r # rules)) rules =
      longest_after n (max l (wildcard_len n r)) rules" if "\<exists>b \<in> set rules. wildcard_len n r < wildcard_len n b \<or> wildcard_len n r \<le> l"
    unfolding longest_after_def
    by (rule find_cong_set) (use that in \<open>auto simp: list_all_iff\<close>)
  have empty: "find (\<lambda>b. l < wildcard_len n b \<and> list_all (\<lambda>r'. wildcard_len n r' \<le> wildcard_len n b) (r # rules)) rules = None"
    if "wildcard_len n r \<le> l" "\<forall>b \<in> set rules. wildcard_len n b \<le> l"
    using that by (auto simp: find_None_iff not_less)
  show ?thesis
  proof (cases "l < wildcard_len n r")
    case True
    show ?thesis
    proof (cases "\<forall>b \<in> set rules. wildcard_len n b \<le> wildcard_len n r")
      case max: True
      then have "longest_after n (wildcard_len n r) rules = None" by (simp add: longest_after_None)
      with True max show ?thesis by (simp add: longest_after_def list_all_iff)
    next
      case False
      then obtain b where b: "b \<in> set rules" "wildcard_len n r < wildcard_len n b" by fastforce
      then have "longest_after n l (r # rules) = longest_after n (wildcard_len n r) rules"
        using skip True by (fastforce simp: longest_after_def list_all_iff max_def)
      moreover have "longest_after n (wildcard_len n r) rules \<noteq> None" using b by (auto simp: longest_after_None not_le)
      ultimately show ?thesis using True by auto
    qed
  next
    case False
    then have "longest_after n l (r # rules) =
        find (\<lambda>b. l < wildcard_len n b \<and> list_all (\<lambda>r'. wildcard_len n r' \<le> wildcard_len n b) (r # rules)) rules"
      by (simp add: longest_after_def)
    also have "\<dots> = longest_after n l rules"
      unfolding longest_after_def by (rule find_cong_set) (use False in auto)
    finally show ?thesis using False by simp
  qed
qed

lemma match_loop_reference:
  "match_loop n rules wm wl ca =
     (case find (exact_for n) rules of
        Some r \<Rightarrow> Some r
      | None \<Rightarrow> (case longest_after n wl rules of
            Some r \<Rightarrow> Some r
          | None \<Rightarrow> if wl \<ge> 0 then wm else (case ca of Some c \<Rightarrow> Some c | None \<Rightarrow> find IsCatchAll rules)))"
  if "wl \<ge> - 1"
  using that
proof (induction rules arbitrary: wm wl ca)
  case Nil
  then show ?case by (simp add: longest_after_def split: option.split)
next
  case (Cons r rules)
  consider (all) "IsCatchAll r" | (wild) "\<not> IsCatchAll r" "IsWildcard r" | (exact) "\<not> IsCatchAll r" "\<not> IsWildcard r" by blast
  then show ?case
  proof cases
    case all
    then have "wildcard_len n r = - 1" "\<not> exact_for n r" by (simp_all add: wildcard_len_def exact_for_def IsExact_def)
    with all Cons show ?thesis by (auto simp: longest_after_Cons split: option.split)
  next
    case wild
    then have ne: "\<not> exact_for n r" by (simp add: exact_for_def IsExact_def)
    have step: "match_loop n (r # rules) wm wl ca =
        (if wl < wildcard_len n r then match_loop n rules (Some r) (wildcard_len n r) ca else match_loop n rules wm wl ca)"
      using wild Cons.prems by (auto simp: wildcard_len_def split: option.split)
    show ?thesis
      unfolding step using wild ne Cons.prems Cons.IH
      by (auto simp: longest_after_Cons split: option.split)
  next
    case exact
    then have "wildcard_len n r = - 1" "exact_for n r \<longleftrightarrow> NormalizeModelKey (mr_Pattern r) = n"
      by (simp_all add: wildcard_len_def exact_for_def IsExact_def)
    with exact Cons show ?thesis by (auto simp: longest_after_Cons split: option.split)
  qed
qed

lemma matchModelRule_reference:
  "matchModelRule rules m = (if NormalizeModelKey m = [] then None else reference_match (NormalizeModelKey m) rules)"
  by (simp add: matchModelRule_def match_loop_reference reference_match_def Let_def split: option.split)

text \<open>C27. The single pass over the rules of an API key finds the rule of the documented precedence: a rule that names the
  model wins over every wildcard wherever it stands, otherwise the first of the wildcards with the longest matching prefix
  applies, otherwise the first rule for all models; a model whose normal form is empty has no rule.\<close>

theorem match_rule_precedence:
  "matchModelRule rules model =
     (let n = NormalizeModelKey model in
      if n = [] then None
      else case find (exact_for n) rules of
          Some r \<Rightarrow> Some r
        | None \<Rightarrow>
            (case find (\<lambda>r. 0 \<le> wildcard_len n r \<and> list_all (\<lambda>r'. wildcard_len n r' \<le> wildcard_len n r) rules) rules of
               Some r \<Rightarrow> Some r
             | None \<Rightarrow> find IsCatchAll rules))"
proof -
  have k: "(- 1 < k) = (0 \<le> k)" for k :: int by auto
  show ?thesis
    unfolding matchModelRule_reference reference_match_def longest_after_def Let_def k ..
qed

section \<open>Validated rules\<close>

definition rule_identity :: "model_rule \<Rightarrow> string" where
  "rule_identity r = modelRulePatternIdentity (trim_space (mr_Pattern r))"

lemma validate_shapes_ok:
  "validate_shapes seen rules = None \<Longrightarrow>
     distinct (map rule_identity rules) \<and> set (map rule_identity rules) \<inter> set seen = {}
     \<and> (\<forall>r \<in> set rules. rule_identity r \<noteq> [] \<and> trim_space (mr_Pattern r) \<noteq> [] \<and> trim_space (mr_Target r) \<noteq> [])"
proof (induction rules arbitrary: seen)
  case (Cons r rules)
  from Cons.prems have r: "trim_space (mr_Pattern r) \<noteq> []" "trim_space (mr_Target r) \<noteq> []" "rule_identity r \<noteq> []"
      "rule_identity r \<notin> set seen" "validate_shapes (rule_identity r # seen) rules = None"
    by (auto simp: rule_identity_def Let_def split: if_splits)
  from Cons.IH[OF r(5)] r show ?case by auto
qed simp

lemma has_suffix_star: "has_suffix p ''*'' \<longleftrightarrow> p \<noteq> [] \<and> last p = CHR ''*''"
  by (cases p rule: rev_cases) (auto simp: has_suffix_def has_prefix_def)

lemma exact_identity:
  assumes "exact_for n r" and "rule_identity r \<noteq> []" and "trim_space (mr_Pattern r) \<noteq> []"
  shows "rule_identity r = ''exact:'' @ n"
proof -
  let ?p = "trim_space (mr_Pattern r)"
  have p: "?p \<noteq> APIKeyModelRuleCatchAll" "\<not> (1 < length ?p \<and> has_suffix ?p ''*'')" "NormalizeModelKey (mr_Pattern r) = n"
    using assms(1) by (auto simp: exact_for_def IsExact_def IsCatchAll_def IsWildcard_def Let_def)
  have "\<not> has_suffix ?p ''*''"
  proof
    assume s: "has_suffix ?p ''*''"
    with p(2) assms(3) have "length ?p = 1" by (cases ?p) auto
    then obtain c where "?p = [c]" by (auto simp: length_Suc_conv)
    with s p(1) show False by (simp add: has_suffix_star APIKeyModelRuleCatchAll_def)
  qed
  moreover have "NormalizeModelKey ?p = n" using p(3) by (simp add: NormalizeModelKey_def strip_key_def)
  ultimately show ?thesis using assms(2) p(1) by (auto simp: rule_identity_def modelRulePatternIdentity_def Let_def split: if_splits)
qed

lemma wildcard_identity:
  assumes "0 \<le> wildcard_len n r"
  shows "\<exists>p. rule_identity r = ''wildcard:'' @ p \<and> take (length p) n = p \<and> wildcard_len n r = int (length p)"
proof -
  from assms have w: "\<not> IsCatchAll r" "IsWildcard r" by (auto simp: wildcard_len_def split: if_splits)
  from assms w obtain p where p: "wildcard_prefix r = Some p" "has_prefix n p" "wildcard_len n r = int (length p)"
    by (auto simp: wildcard_len_def split: option.splits if_splits)
  from w p(1) have "rule_identity r = ''wildcard:'' @ p"
    by (auto simp: rule_identity_def modelRulePatternIdentity_def IsCatchAll_def IsWildcard_def wildcard_prefix_def Let_def split: if_splits)
  with p show ?thesis by (auto simp: has_prefix_def)
qed

lemma catch_all_identity: "IsCatchAll r \<Longrightarrow> rule_identity r = ''*''"
  by (simp add: IsCatchAll_def rule_identity_def modelRulePatternIdentity_def)

text \<open>A search that at most one element can satisfy does not depend on the order.\<close>

lemma find_unique_perm:
  assumes "mset xs = mset ys" and uniq: "\<And>x y. x \<in> set xs \<Longrightarrow> y \<in> set xs \<Longrightarrow> P x \<Longrightarrow> P y \<Longrightarrow> x = y"
  shows "find P xs = find P ys"
proof (cases "find P xs")
  case None
  have "set xs = set ys" using assms(1) by (metis set_mset_mset)
  with None have "find P ys = None" by (simp add: find_None_iff)
  with None show ?thesis by simp
next
  case (Some x)
  have s: "set xs = set ys" using assms(1) by (metis set_mset_mset)
  have x: "x \<in> set xs" "P x" using Some by (auto simp: find_Some_iff)
  with s have "find P ys \<noteq> None" by (auto simp: find_None_iff)
  then obtain y where y: "find P ys = Some y" by blast
  then have "y \<in> set xs" "P y" using s by (auto simp: find_Some_iff)
  with x uniq y Some show ?thesis by metis
qed

text \<open>Rules that were accepted do not depend on their order: when the shapes of a list of rules are valid, every
  arrangement of them selects the same rule for every model. No two accepted rules can compete for a model on equal
  terms.\<close>

lemma validated_rules_order_independent:
  assumes valid: "validateModelRuleShapes rules = None" and perm: "mset rules' = mset rules"
  shows "matchModelRule rules' model = matchModelRule rules model"
proof -
  let ?n = "NormalizeModelKey model"
  have ok: "distinct (map rule_identity rules)"
    "\<And>r. r \<in> set rules \<Longrightarrow> rule_identity r \<noteq> [] \<and> trim_space (mr_Pattern r) \<noteq> []"
    using validate_shapes_ok[of "[]" rules] valid by (auto simp: validateModelRuleShapes_def)
  have set: "set rules' = set rules" using perm by (metis set_mset_mset)
  have inj: "x = y" if "x \<in> set rules'" "y \<in> set rules'" "rule_identity x = rule_identity y" for x y
    using ok(1) that set by (auto simp: distinct_map inj_on_def)
  have "find (exact_for ?n) rules' = find (exact_for ?n) rules"
    by (rule find_unique_perm[OF perm]) (metis inj exact_identity ok(2) set)
  moreover have "longest_after ?n (- 1) rules' = longest_after ?n (- 1) rules"
  proof -
    have "longest_after ?n (- 1) rules = find (\<lambda>r. - 1 < wildcard_len ?n r \<and> list_all (\<lambda>r'. wildcard_len ?n r' \<le> wildcard_len ?n r) rules') rules"
      by (simp add: longest_after_def list_all_iff set)
    moreover have "longest_after ?n (- 1) rules' = \<dots>"
      unfolding longest_after_def
    proof (rule find_unique_perm[OF perm])
      fix x y
      assume m: "x \<in> set rules'" "y \<in> set rules'"
        and x: "- 1 < wildcard_len ?n x \<and> list_all (\<lambda>r'. wildcard_len ?n r' \<le> wildcard_len ?n x) rules'"
        and y: "- 1 < wildcard_len ?n y \<and> list_all (\<lambda>r'. wildcard_len ?n r' \<le> wildcard_len ?n y) rules'"
      then have "wildcard_len ?n x \<le> wildcard_len ?n y" "wildcard_len ?n y \<le> wildcard_len ?n x" by (simp_all add: list_all_iff)
      then have eq: "wildcard_len ?n x = wildcard_len ?n y" by simp
      have nn: "0 \<le> wildcard_len ?n x" "0 \<le> wildcard_len ?n y" using x y by simp_all
      obtain p q where "rule_identity x = ''wildcard:'' @ p" "take (length p) ?n = p" "wildcard_len ?n x = int (length p)"
        "rule_identity y = ''wildcard:'' @ q" "take (length q) ?n = q" "wildcard_len ?n y = int (length q)"
        using wildcard_identity[OF nn(1)] wildcard_identity[OF nn(2)] by blast
      with eq inj[OF m] show "x = y" by (metis of_nat_eq_iff)
    qed
    ultimately show ?thesis by simp
  qed
  moreover have "find IsCatchAll rules' = find IsCatchAll rules"
    by (rule find_unique_perm[OF perm]) (metis inj catch_all_identity)
  ultimately show ?thesis unfolding matchModelRule_reference reference_match_def by (simp only:)
qed

text \<open>C33. What is read from the database is well formed whatever the document holds, the present form or the old one: every
  rule has a pattern and a target without surrounding blanks, and its mode is one of the two the gateway distinguishes.\<close>

theorem parsed_rules_well_formed:
  "list_all (\<lambda>r. mr_Pattern r \<noteq> [] \<and> trim_space (mr_Pattern r) = mr_Pattern r
     \<and> mr_Target r \<noteq> [] \<and> trim_space (mr_Target r) = mr_Target r
     \<and> mr_Mode r \<in> {APIKeyModelRuleModeHard, APIKeyModelRuleModeSoft}) (ParseAPIKeyModelRules data)"
proof -
  have norm: "list_all (\<lambda>r. mr_Pattern r \<noteq> [] \<and> trim_space (mr_Pattern r) = mr_Pattern r
     \<and> mr_Target r \<noteq> [] \<and> trim_space (mr_Target r) = mr_Target r
     \<and> mr_Mode r \<in> {APIKeyModelRuleModeHard, APIKeyModelRuleModeSoft}) (NormalizeAPIKeyModelRules rules)" for rules
    by (auto simp: NormalizeAPIKeyModelRules_def List.map_filter_def normalize_rule_def NormalizeAPIKeyModelRuleMode_def list_all_iff
        Let_def split: if_splits)
  then show ?thesis
    by (auto simp: ParseAPIKeyModelRules_def LegacyAPIKeyModelRules_def split: json_raw.split any.split option.split)
qed

end
