(* ===== verification/No_Route.thy ===== *)
theory No_Route
  imports Router
begin

text \<open>
  The suppression of requests that have no route, \<open>server/internal/gateway/no_route_suppression.go\<close>: a refusal
  is remembered for at most a minute, and the delay a client is told is the time until the first cooldown
  that concerns it ends.

  The cache is an association list, its mutex makes every operation one step; the clock is an argument.
\<close>

section \<open>Data\<close>

definition noRouteSuppressionDefaultTTL :: duration where "noRouteSuppressionDefaultTTL = seconds 30"
definition noRouteSuppressionMaxTTL :: duration where "noRouteSuppressionMaxTTL = seconds 60"

record no_route_access =
  nra_ModelKey :: string
  nra_AllowedSiteIDs :: "uuid list"
  nra_AllowedSiteModelIDs :: "uuid list"

record no_route_key =
  nrk_APIKeyID :: uuid
  nrk_Endpoint :: string
  nrk_ModelKey :: string
  nrk_AllowedSiteIDs :: "uuid list"
  nrk_AllowedSiteModelIDs :: "uuid list"
  nrk_Code :: string

record no_route_entry =
  nre_ExpiresAt :: go_time
  nre_RetryAfter :: int

type_synonym no_route_cache = "(string \<times> no_route_entry) list"

definition newNoRouteSuppressionCache :: no_route_cache where
  "newNoRouteSuppressionCache = []"

section \<open>Operations\<close>

definition joinSortedUUIDs :: "uuid list \<Rightarrow> string" where
  "joinSortedUUIDs items = (if items = [] then [] else join_strings (sort items) '','')"

definition cacheKey :: "no_route_key \<Rightarrow> string" where
  "cacheKey k = join_strings [nrk_APIKeyID k, trim_space (nrk_Endpoint k), trim_space (nrk_ModelKey k),
     joinSortedUUIDs (nrk_AllowedSiteIDs k), joinSortedUUIDs (nrk_AllowedSiteModelIDs k), trim_space (nrk_Code k)] ''|''"

definition deleteExpired :: "go_time \<Rightarrow> no_route_cache \<Rightarrow> no_route_cache" where
  "deleteExpired now entries = filter (\<lambda>(k, e). nre_ExpiresAt e > now) entries"

definition retryAfter :: "no_route_key \<Rightarrow> go_time \<Rightarrow> no_route_cache \<Rightarrow> no_route_cache \<times> int option" where
  "retryAfter key now c0 =
     (let c = deleteExpired now c0 in
      (c, case map_of c (cacheKey key) of
            None \<Rightarrow> None
          | Some e \<Rightarrow> if nre_ExpiresAt e > now then Some (nre_RetryAfter e) else None))"

definition clamp_ttl :: "duration \<Rightarrow> duration" where
  "clamp_ttl ttl0 = (let ttl = (if ttl0 \<le> 0 then noRouteSuppressionDefaultTTL else ttl0)
     in if ttl > noRouteSuppressionMaxTTL then noRouteSuppressionMaxTTL else ttl)"

definition remember :: "no_route_key \<Rightarrow> duration \<Rightarrow> int \<Rightarrow> go_time \<Rightarrow> no_route_cache \<Rightarrow> no_route_cache" where
  "remember key ttl retryAfterSeconds now c =
     AList.update (cacheKey key)
       \<lparr>nre_ExpiresAt = now + clamp_ttl ttl, nre_RetryAfter = (if retryAfterSeconds < 1 then 1 else retryAfterSeconds)\<rparr>
       (deleteExpired now c)"

definition rememberNoRoute :: "no_route_key \<Rightarrow> int \<Rightarrow> go_time \<Rightarrow> no_route_cache \<Rightarrow> no_route_cache" where
  "rememberNoRoute key seconds_after now c = remember key (wrap64 (seconds_after * seconds 1)) seconds_after now c"

definition uuidSetForNoRoute :: "uuid list \<Rightarrow> uuid set option" where
  "uuidSetForNoRoute items = (if items = [] then None else Some (set items))"

definition concerns :: "no_route_access \<Rightarrow> go_time \<Rightarrow> route_cooldown \<Rightarrow> bool" where
  "concerns access now item =
     (if rc_Source item = ''site_health'' \<or> rc_SiteCredentialID item \<noteq> None \<or> \<not> rc_ActiveUntil item > now then False
      else if (case uuidSetForNoRoute (nra_AllowedSiteIDs access) of None \<Rightarrow> False | Some S \<Rightarrow> rc_SiteID item \<notin> S) then False
      else if (case (rc_SiteModelID item, uuidSetForNoRoute (nra_AllowedSiteModelIDs access)) of
                 (Some m, Some S) \<Rightarrow> m \<notin> S | _ \<Rightarrow> False) then False
      else \<not> rc_ActiveUntil item - now \<le> 0)"

fun best_remaining :: "route_cooldown list \<Rightarrow> no_route_access \<Rightarrow> go_time \<Rightarrow> duration \<Rightarrow> duration" where
  "best_remaining [] access now best = best"
| "best_remaining (item # items) access now best =
     (if \<not> concerns access now item then best_remaining items access now best
      else let remaining = rc_ActiveUntil item - now in
        best_remaining items access now (if best = 0 \<or> remaining < best then remaining else best))"

definition noRouteRetryAfterFromCooldowns :: "route_cooldown list \<Rightarrow> no_route_access \<Rightarrow> go_time \<Rightarrow> duration" where
  "noRouteRetryAfterFromCooldowns cooldowns access now =
     (let best = best_remaining cooldowns access now 0 in if best \<le> 0 then noRouteSuppressionDefaultTTL else best)"

text \<open>The cooldowns are those the router lists, or the error of the query.\<close>

definition noRouteRetryAfter :: "string + cooldown_table \<Rightarrow> no_route_access \<Rightarrow> go_time \<Rightarrow> duration" where
  "noRouteRetryAfter cooldowns access now = (case cooldowns of
      Inl e \<Rightarrow> noRouteSuppressionDefaultTTL
    | Inr tbl \<Rightarrow> noRouteRetryAfterFromCooldowns (activeCooldowns now tbl) access now)"

definition noRouteRetryAfterSeconds :: "string + cooldown_table \<Rightarrow> no_route_access \<Rightarrow> go_time \<Rightarrow> int" where
  "noRouteRetryAfterSeconds cooldowns access now =
     (let s = clamp_ttl (noRouteRetryAfter cooldowns access now) div seconds 1 in if s < 1 then 1 else s)"

section \<open>The key\<close>

lemma joinSortedUUIDs_perm: "mset xs = mset ys \<Longrightarrow> joinSortedUUIDs xs = joinSortedUUIDs ys"
proof -
  assume m: "mset xs = mset ys"
  then have "xs = [] \<longleftrightarrow> ys = []" by (metis mset_zero_iff)
  moreover have "sort xs = sort ys" using m by (intro properties_for_sort) simp_all
  ultimately show ?thesis by (simp add: joinSortedUUIDs_def)
qed

lemma clamp_ttl_bounds: "0 < clamp_ttl ttl \<and> clamp_ttl ttl \<le> seconds 60"
  by (simp add: clamp_ttl_def noRouteSuppressionDefaultTTL_def noRouteSuppressionMaxTTL_def seconds_def Let_def)

section \<open>The cache\<close>

definition cache_distinct :: "no_route_cache \<Rightarrow> bool" where
  "cache_distinct c \<longleftrightarrow> distinct (map fst c)"

lemma distinct_deleteExpired: "cache_distinct c \<Longrightarrow> cache_distinct (deleteExpired now c)"
  by (simp add: cache_distinct_def deleteExpired_def distinct_map_filter)

lemma distinct_remember: "cache_distinct c \<Longrightarrow> cache_distinct (remember key ttl s now c)"
  using distinct_deleteExpired[of c now] by (simp add: cache_distinct_def remember_def distinct_update)

lemma map_of_deleteExpired:
  assumes "cache_distinct c"
  shows "map_of (deleteExpired now c) k = (case map_of c k of None \<Rightarrow> None | Some e \<Rightarrow> if nre_ExpiresAt e > now then Some e else None)"
  using assms
proof (induction c)
  case Nil
  then show ?case by (simp add: deleteExpired_def)
next
  case (Cons x c)
  obtain k' e where x: "x = (k', e)" by (cases x)
  from Cons.prems have d: "cache_distinct c" and new: "map_of c k' = None"
    by (auto simp: cache_distinct_def x map_of_eq_None_iff)
  show ?case
    using Cons.IH[OF d] new by (auto simp: deleteExpired_def x split: option.splits)
qed

lemma retryAfter_result:
  assumes "cache_distinct c"
  shows "snd (retryAfter key t c) = (case map_of c (cacheKey key) of None \<Rightarrow> None
     | Some e \<Rightarrow> if nre_ExpiresAt e > t then Some (nre_RetryAfter e) else None)"
  using assms by (auto simp: retryAfter_def Let_def map_of_deleteExpired split: option.splits)

text \<open>A remembered refusal is brief and precise: from the moment it is remembered until its lifetime ends, which is
  positive and at most a minute whatever delay is asked for, exactly the requests with the same API key, endpoint,
  model, error and sets of allowed sites and models are refused without a search, with a delay of at least one second;
  the order in which the sets are listed does not matter, and the answer for every other key is unchanged.\<close>

lemma no_route_refusal_is_brief:
  assumes "cache_distinct c" and "now \<le> t" and "c' = rememberNoRoute key s now c" and "ttl = clamp_ttl (wrap64 (s * seconds 1))"
  shows "cache_distinct c' \<and> 0 < ttl \<and> ttl \<le> seconds 60
    \<and> snd (retryAfter key' t c') =
        (if cacheKey key' = cacheKey key then (if t < now + ttl then Some (max 1 s) else None) else snd (retryAfter key' t c))
    \<and> (mset sites = mset (nrk_AllowedSiteIDs key) \<and> mset models = mset (nrk_AllowedSiteModelIDs key) \<longrightarrow>
        cacheKey (key\<lparr>nrk_AllowedSiteIDs := sites, nrk_AllowedSiteModelIDs := models\<rparr>) = cacheKey key)"
proof -
  have c': "c' = remember key (wrap64 (s * seconds 1)) s now c" using assms(3) by (simp add: rememberNoRoute_def)
  have d: "cache_distinct c'" unfolding c' by (rule distinct_remember[OF assms(1)])
  have "snd (retryAfter key' t c') =
      (if cacheKey key' = cacheKey key then (if t < now + ttl then Some (max 1 s) else None) else snd (retryAfter key' t c))"
    using assms(2) unfolding retryAfter_result[OF d] retryAfter_result[OF assms(1)]
    by (auto simp: c' remember_def assms(4) update_conv' map_of_deleteExpired[OF assms(1)] split: option.splits)
  moreover have "cacheKey (key\<lparr>nrk_AllowedSiteIDs := sites, nrk_AllowedSiteModelIDs := models\<rparr>) = cacheKey key"
    if "mset sites = mset (nrk_AllowedSiteIDs key)" "mset models = mset (nrk_AllowedSiteModelIDs key)"
    using joinSortedUUIDs_perm[OF that(1)] joinSortedUUIDs_perm[OF that(2)] by (simp add: cacheKey_def)
  ultimately show ?thesis using d clamp_ttl_bounds[of "wrap64 (s * seconds 1)"] assms(4) by blast
qed

section \<open>The delay\<close>

definition concerning :: "route_cooldown list \<Rightarrow> no_route_access \<Rightarrow> go_time \<Rightarrow> duration list" where
  "concerning items access now = map (\<lambda>r. rc_ActiveUntil r - now) (filter (concerns access now) items)"

lemma concerns_pos: "concerns access now item \<Longrightarrow> 0 < rc_ActiveUntil item - now"
  by (auto simp: concerns_def split: if_splits)

lemma best_remaining_Min:
  assumes "0 \<le> best"
  shows "best_remaining items access now best =
    (let ds = (if best = 0 then [] else [best]) @ concerning items access now in if ds = [] then 0 else Min (set ds))"
  using assms
proof (induction items arbitrary: best)
  case Nil
  then show ?case by (simp add: concerning_def)
next
  case (Cons item items)
  show ?case
  proof (cases "concerns access now item")
    case False
    with Cons show ?thesis by (simp add: concerning_def)
  next
    case True
    define d where "d = rc_ActiveUntil item - now"
    have d: "0 < d" using concerns_pos[OF True] by (simp add: d_def)
    define b where "b = (if best = 0 \<or> d < best then d else best)"
    have b: "0 < b" using d Cons.prems by (simp add: b_def)
    have "Min (insert b (set (concerning items access now))) =
        Min (set ((if best = 0 then [] else [best]) @ d # concerning items access now))"
      using d Cons.prems by (cases "concerning items access now = []") (auto simp: b_def min_def Min_insert)
    moreover have "best_remaining (item # items) access now best = best_remaining items access now b"
      using True by (simp add: b_def d_def Let_def)
    moreover have "concerning (item # items) access now = d # concerning items access now"
      using True by (simp add: concerning_def d_def)
    ultimately show ?thesis using Cons.IH[of b] b by (simp add: Let_def)
  qed
qed

text \<open>A client without a route is told to come back when the first cooldown that concerns it ends: the delay is
  between one second and one minute, and while a cooldown of its allowed sites and models is active, other than one of the
  site health check or of a credential, it is not longer than that cooldown lasts (or one second).\<close>

lemma no_route_delay_is_first_recovery:
  assumes "cooldowns = Inr tbl" and "now \<noteq> 0"
  shows "let d = noRouteRetryAfterSeconds cooldowns access now in
    1 \<le> d \<and> d \<le> 60
    \<and> (\<forall>r \<in> set tbl. is_active now r \<and> concerns access now r \<longrightarrow> d \<le> max 1 ((rc_ActiveUntil r - now) div seconds 1))"
proof -
  let ?ds = "concerning (activeCooldowns now tbl) access now"
  define raw where "raw = noRouteRetryAfter cooldowns access now"
  have "0 < x" if "x \<in> set ?ds" for x using that concerns_pos by (auto simp: concerning_def)
  then have pos: "?ds = [] \<or> 0 < Min (set ?ds)" by (cases "?ds = []") simp_all
  have raw: "raw = (if ?ds = [] then noRouteSuppressionDefaultTTL else Min (set ?ds))"
  proof -
    have "best_remaining (activeCooldowns now tbl) access now 0 = (if ?ds = [] then 0 else Min (set ?ds))"
      using best_remaining_Min[of 0 "activeCooldowns now tbl" access now] by (simp add: Let_def)
    with pos show ?thesis
      by (cases "?ds = []") (simp_all add: raw_def noRouteRetryAfter_def assms(1) noRouteRetryAfterFromCooldowns_def Let_def del: Min_gr_iff)
  qed
  have s: "seconds 1 = 1000000000" "seconds 60 = 60 * 1000000000" by (simp_all add: seconds_def)
  have bounds: "0 < clamp_ttl raw" "clamp_ttl raw \<le> seconds 60" using clamp_ttl_bounds by simp_all
  have le60: "clamp_ttl raw div seconds 1 \<le> 60" using bounds(2) unfolding s by linarith
  have le: "clamp_ttl raw div seconds 1 \<le> (rc_ActiveUntil r - now) div seconds 1"
    if r: "r \<in> set tbl" "is_active now r" "concerns access now r" for r
  proof -
    have mem: "rc_ActiveUntil r - now \<in> set ?ds"
      using r assms(2) by (auto simp: concerning_def activeCooldowns_def set_listActive)
    then have "raw \<le> rc_ActiveUntil r - now" "?ds \<noteq> []" unfolding raw by (auto intro!: Min_le)
    moreover have "0 < raw"
      unfolding raw using \<open>?ds \<noteq> []\<close> pos by simp
    ultimately have "clamp_ttl raw \<le> rc_ActiveUntil r - now" by (simp add: clamp_ttl_def Let_def)
    then show ?thesis by (rule zdiv_mono1) (simp add: s)
  qed
  show ?thesis
    unfolding noRouteRetryAfterSeconds_def raw_def[symmetric] Let_def using le le60 by fastforce
qed

end
