(* ===== verification/Failover.thy ===== *)
theory Failover
  imports Execution Model_Rules No_Route Rate_Limit
begin

text \<open>
  The handler of a request, \<open>serveEndpoint\<close> of \<open>server/internal/gateway/handler_chat.go\<close>, with \<open>gateway/rate_limit.go\<close> and the
  replies of \<open>gateway/errors.go\<close>: the model rules are applied, the route is planned, the rate limit is acquired, then the candidates of
  the plan are tried in passes. Between passes the handler waits for a rate limit upstream or falls back to the model of a soft rule.
  At the end the entry in the registry is finished and the reservation is settled.

  The environment \<open>serve_env\<close> answers what is outside: the access of the API key, the catalogue and the candidate rows, the
  answers of \<open>exec_env\<close>, the image bridge, whether a sleep is interrupted and how much longer it takes. The clock is read once where
  the code reads it several times in a row. The passes are a recursion with fuel; \<open>failover_terminates\<close> shows that \<open>serve_fuel\<close>
  is enough.
\<close>

section \<open>Data\<close>

record chat_failure =
  cf_status :: int
  cf_code :: string
  cf_message :: string
  cf_requestedModel :: string
  cf_stream :: bool
  cf_stage :: string
  cf_retryAfter :: int
  cf_skipRecord :: bool

definition chat_failure_of :: "int \<Rightarrow> string \<Rightarrow> string \<Rightarrow> string \<Rightarrow> bool \<Rightarrow> string \<Rightarrow> chat_failure" where
  "chat_failure_of status code message model stream stage = \<lparr>cf_status = status, cf_code = code, cf_message = message,
     cf_requestedModel = model, cf_stream = stream, cf_stage = stage, cf_retryAfter = 0, cf_skipRecord = False\<rparr>"

text \<open>What the client receives: nothing, what an attempt already wrote, the response or the failure of an upstream, an error of the
  gateway, or the end of a bridged stream.\<close>

datatype reply =
    ReplyNone
  | ReplyStreamed
  | ReplyUpstream attempt_result
  | ReplyUpstreamFailure attempt_result
  | ReplyFailure chat_failure
  | ReplyRateLimited limit_error int
  | ReplyError int string string
  | ReplyBridge string string

datatype access_error = ModelNotAllowed | SiteNotAllowed | AccessError string

record route_access =
  ra_ModelKey :: string
  ra_AllowedSiteIDs :: "uuid list"
  ra_AllowedSiteModelIDs :: "uuid list"

record bridged_answer =
  ba_result :: attempt_result
  ba_elapsed :: nat

record serve_env =
  se_exec :: exec_env
  se_canonical :: canonicalizer
  se_grokIncompatible :: "gw_request \<Rightarrow> string list"
  se_bridged :: "nat \<Rightarrow> bridged_answer"
  se_failAll :: "nat \<Rightarrow> bool"
  se_jitter :: "nat \<Rightarrow> duration"
  se_sleep :: "nat \<Rightarrow> nat option"
  se_access :: "string \<Rightarrow> access_error + route_access"
  se_db :: route_db
  se_routeError :: "route_error \<Rightarrow> string"
  se_provider :: "canonical_model \<Rightarrow> string"
  se_endpointType :: string

section \<open>Small decisions\<close>

definition rateLimitTokenCount :: "attempt_result \<Rightarrow> int" where
  "rateLimitTokenCount r = wrap64 (wrap64 (ar_promptTokens r + ar_completionTokens r) + ar_audioOutputTokens r)"

definition inflightTokenAmount :: "attempt_result \<Rightarrow> token_amount" where
  "inflightTokenAmount r = \<lparr>ta_Total = rateLimitTokenCount r, ta_Input = ar_promptTokens r, ta_Output = ar_completionTokens r,
     ta_Cached = ar_cachedPromptTokens r\<rparr>"

definition upstreamModelUnavailableFailure :: "attempt_result \<Rightarrow> bool" where
  "upstreamModelUnavailableFailure r =
     (if ar_upstreamStatusCode r = 404 \<or> ar_statusCode r = 404 then True
      else let code = to_lower (trim_space (ar_upstreamErrorCode r)); message = to_lower (trim_space (ar_errorMessage r)) in
        str_contains code ''model_not_found'' \<or> str_contains code ''model-not-found''
        \<or> str_contains message ''model'' \<and> str_contains message ''not found'')"

definition retainUpstreamRateLimitFailure :: "attempt_result option \<Rightarrow> attempt_result \<Rightarrow> attempt_result option" where
  "retainUpstreamRateLimitFailure retained r =
     (if ar_upstreamStatusCode r \<noteq> 429 \<and> ar_statusCode r \<noteq> 429 then retained else Some r)"

definition preferredFinalGatewayFailure :: "attempt_result option \<Rightarrow> attempt_result option \<Rightarrow> attempt_result option" where
  "preferredFinalGatewayFailure lastFailure retained =
     (if retained \<noteq> None \<and> (case lastFailure of None \<Rightarrow> True | Some r \<Rightarrow> ar_errorType r = ''upstream_credential_unavailable'')
      then retained else lastFailure)"

fun appendUniqueStrings :: "string list \<Rightarrow> string list \<Rightarrow> string list" where
  "appendUniqueStrings items [] = items"
| "appendUniqueStrings items (v # vs) =
     (let value = trim_space v in appendUniqueStrings (if value = [] \<or> value \<in> set items then items else items @ [value]) vs)"

definition failover_budget :: "gw_request \<Rightarrow> duration" where
  "failover_budget request = gatewayFailoverBudget (gq_Stream request)
     (gq_DownstreamPath request \<in> {gatewayEndpointImagesGenerations, gatewayEndpointImagesEdits})"

definition upstreamRateLimitMaxWait :: duration where "upstreamRateLimitMaxWait = seconds 60"

section \<open>Planning\<close>

record route_setup =
  rs_modelKey :: string
  rs_plan :: selection_plan

text \<open>\<open>setupRoute\<close>: the access of the key and the plan, or the failure with the access when no route is available.\<close>

definition setupRoute ::
  "serve_env \<Rightarrow> world \<Rightarrow> gw_request \<Rightarrow> image_intent \<Rightarrow> bool \<Rightarrow> (chat_failure \<times> no_route_access option) + route_setup" where
  "setupRoute env w request intent bridged =
     (let model = gq_RequestedModel request; stream = gq_Stream request in
      case se_access env model of
        Inl ModelNotAllowed \<Rightarrow>
          Inl (chat_failure_of 403 ''model_not_allowed'' ''api key is not allowed to access this model'' model stream ''authz'', None)
      | Inl SiteNotAllowed \<Rightarrow>
          Inl (chat_failure_of 403 ''site_not_allowed'' ''api key is not allowed to access any site'' model stream ''authz'', None)
      | Inl (AccessError e) \<Rightarrow> Inl (chat_failure_of 400 ''invalid_model'' e model stream ''authz'', None)
      | Inr access \<Rightarrow>
          (let db = (se_db env)\<lparr>db_cooldowns := (case db_cooldowns (se_db env) of Inl e \<Rightarrow> Inl e | Inr _ \<Rightarrow> Inr (wd_cooldowns w))\<rparr>;
               key = ra_ModelKey access;
               query = \<lparr>cq_ModelKey = key, cq_EndpointType = (if canonical_image request then ''gemini-image'' else se_endpointType env),
                 cq_ImageGeneration = (intent = IntentExplicit \<and> \<not> bridged), cq_Debug = False, cq_AllowedSiteIDs = ra_AllowedSiteIDs access,
                 cq_AllowedSiteModelIDs = ra_AllowedSiteModelIDs access, cq_ExcludeSiteIDs = [], cq_ExcludeSiteModelIDs = [],
                 cq_Limit = 0, cq_FailoverLimit = 3\<rparr>
           in case plan db (wd_now w) query of
               Inr p \<Rightarrow> Inr \<lparr>rs_modelKey = key, rs_plan = p\<rparr>
             | Inl NoRouteCandidates \<Rightarrow>
                 if intent = IntentExplicit then
                   Inl (chat_failure_of 400 ''image_generation_not_supported'' ''no available upstream route candidate supports image generation''
                     key stream ''route_plan'', None)
                 else Inl (chat_failure_of 503 ''no_route_candidates'' ''no available upstream route candidates'' key stream ''route_plan'',
                   Some \<lparr>nra_ModelKey = key, nra_AllowedSiteIDs = ra_AllowedSiteIDs access, nra_AllowedSiteModelIDs = ra_AllowedSiteModelIDs access\<rparr>)
             | Inl e \<Rightarrow> Inl (chat_failure_of 502 ''route_selection_failed'' (se_routeError env e) key stream ''route_plan'', None)))"

definition plan_attempts :: "selection_plan \<Rightarrow> candidate list" where
  "plan_attempts p = plan_Selected p # plan_Failover p"

definition writeNoRouteFailure ::
  "uuid \<Rightarrow> string \<Rightarrow> gw_request \<Rightarrow> no_route_access \<Rightarrow> string + cooldown_table \<Rightarrow> go_time \<Rightarrow> no_route_cache \<Rightarrow> chat_failure \<times> no_route_cache" where
  "writeNoRouteFailure apiKeyID endpoint request access cooldowns now cache =
     (let key = \<lparr>nrk_APIKeyID = apiKeyID, nrk_Endpoint = endpoint, nrk_ModelKey = nra_ModelKey access,
            nrk_AllowedSiteIDs = nra_AllowedSiteIDs access, nrk_AllowedSiteModelIDs = nra_AllowedSiteModelIDs access,
            nrk_Code = ''no_route_candidates''\<rparr>;
          (cache1, cached) = retryAfter key now cache;
          (delay, skip, cache2) = (case cached of
              Some s \<Rightarrow> (s, True, cache1)
            | None \<Rightarrow> let s = noRouteRetryAfterSeconds cooldowns access now in (s, False, rememberNoRoute key s now cache1))
      in (\<lparr>cf_status = 503, cf_code = ''no_route_candidates'', cf_message = ''no available upstream route candidates'',
           cf_requestedModel = nra_ModelKey access, cf_stream = gq_Stream request, cf_stage = ''route_plan'', cf_retryAfter = delay,
           cf_skipRecord = skip\<rparr>, cache2))"

section \<open>One candidate\<close>

text \<open>An attempt at a candidate, when it began, whether the image bridge repeats an attempt that was rejected, and what became of it.\<close>

record attempt_entry =
  te_At :: go_time
  te_Site :: uuid
  te_Model :: uuid
  te_Rescue :: bool
  te_Result :: attempt_result

text \<open>The variables of the handler that outlive a pass, and those of a pass.\<close>

record serve_state =
  ss_world :: world
  ss_request :: gw_request
  ss_intent :: image_intent
  ss_modelKey :: string
  ss_attempts :: "candidate list"
  ss_softTarget :: string
  ss_retained :: "attempt_result option"
  ss_trace :: "attempt_entry list"

record pass_state =
  ps_last :: "attempt_result option"
  ps_skippedImage :: bool
  ps_skippedGrok :: "string list"
  ps_waitable :: bool

definition new_pass :: pass_state where
  "new_pass = \<lparr>ps_last = None, ps_skippedImage = False, ps_skippedGrok = [], ps_waitable = True\<rparr>"

text \<open>How a request ends: the phase for the registry, the tokens to settle and the reply.\<close>

record finish_state =
  fi_phase :: phase
  fi_tokens :: int
  fi_reply :: reply

datatype cand_step = StepReturn finish_state serve_state | StepNext pass_state serve_state | StepBudget

definition on_success :: "string \<Rightarrow> candidate \<Rightarrow> attempt_result \<Rightarrow> reply \<Rightarrow> serve_state \<Rightarrow> cand_step" where
  "on_success requestID cand r rep ss =
     (let w = ss_world ss in
      StepReturn \<lparr>fi_phase = PhaseCompleted, fi_tokens = rateLimitTokenCount r, fi_reply = rep\<rparr>
        (ss\<lparr>ss_world := w\<lparr>wd_registry := fst (addTokens requestID (inflightTokenAmount r) (wd_registry w)),
             wd_cooldowns := clearCooldownAfterRecovery (wd_now w) cand (wd_cooldowns w)\<rparr>\<rparr>))"

definition on_cancel :: "serve_state \<Rightarrow> cand_step" where
  "on_cancel ss = StepReturn \<lparr>fi_phase = PhaseCancelled, fi_tokens = 0, fi_reply = ReplyNone\<rparr> ss"

definition on_failure :: "serve_env \<Rightarrow> candidate \<Rightarrow> attempt_result \<Rightarrow> pass_state \<Rightarrow> serve_state \<Rightarrow> cand_step" where
  "on_failure env cand r ps ss0 =
     (let ss = ss0\<lparr>ss_retained := retainUpstreamRateLimitFailure (ss_retained ss0) r,
            ss_world := cool_down (se_exec env) cand r (ss_world ss0)\<rparr>
      in if ar_responseStarted r then StepReturn \<lparr>fi_phase = PhaseFailed, fi_tokens = 0, fi_reply = ReplyStreamed\<rparr> ss
         else StepNext (ps\<lparr>ps_last := Some r, ps_waitable := (ps_waitable ps \<and> upstreamRateLimitWaitable cand r)\<rparr>) ss)"

definition cancelled :: "attempt_result \<Rightarrow> bool" where
  "cancelled r \<longleftrightarrow> ar_errorType r = ''downstream_client_cancelled''"

definition log_attempt :: "go_time \<Rightarrow> bool \<Rightarrow> candidate \<Rightarrow> attempt_result \<Rightarrow> serve_state \<Rightarrow> serve_state" where
  "log_attempt began rescue cand r ss = ss\<lparr>ss_trace := ss_trace ss @
     [\<lparr>te_At = began, te_Site = cs_ID (cand_Site cand), te_Model = cmo_SiteModelID (cand_Model cand), te_Rescue = rescue, te_Result = r\<rparr>]\<rparr>"

text \<open>An attempt through the image bridge, answered by the environment, and what follows from its result.\<close>

definition bridge_forward :: "serve_env \<Rightarrow> bool \<Rightarrow> candidate \<Rightarrow> serve_state \<Rightarrow> attempt_result \<times> serve_state" where
  "bridge_forward env rescue cand ss =
     (let w = ss_world ss; a = se_bridged env (wd_tick w) in
      (ba_result a, log_attempt (wd_now w) rescue cand (ba_result a)
         (ss\<lparr>ss_world := w\<lparr>wd_tick := Suc (wd_tick w), wd_now := wd_now w + int (ba_elapsed a)\<rparr>\<rparr>)))"

definition try_bridged :: "serve_env \<Rightarrow> bool \<Rightarrow> string \<Rightarrow> candidate \<Rightarrow> pass_state \<Rightarrow> serve_state \<Rightarrow> cand_step" where
  "try_bridged env rescue requestID cand ps ss0 =
     (let (r, ss) = bridge_forward env rescue cand ss0 in
      if ar_success r then on_success requestID cand r ReplyStreamed ss
      else if cancelled r then on_cancel ss
      else on_failure env cand r ps ss)"

definition try_forward ::
  "serve_env \<Rightarrow> bool \<Rightarrow> string \<Rightarrow> int \<Rightarrow> candidate \<Rightarrow> gw_request \<Rightarrow> protocol \<Rightarrow> pass_state \<Rightarrow> serve_state \<Rightarrow> cand_step" where
  "try_forward env bridge requestID attempt cand attemptRequest p ps ss0 =
     (let (r, w) = forwardGatewayRequest (se_exec env) requestID attempt cand attemptRequest p (ss_world ss0);
          ss = log_attempt (wd_now (ss_world ss0)) False cand r (ss0\<lparr>ss_world := w\<rparr>)
      in if ar_success r then
           on_success requestID cand r (if gq_Stream (ss_request ss0) then ReplyStreamed else ReplyUpstream r) ss
         else if cancelled r then on_cancel ss
         else if bridge \<and> bridgeRescueEligible r then try_bridged env True requestID cand ps ss
         else on_failure env cand r ps ss)"

definition skip_grok :: "string list \<Rightarrow> pass_state \<Rightarrow> pass_state" where
  "skip_grok incompatible ps = ps\<lparr>ps_skippedGrok := appendUniqueStrings (ps_skippedGrok ps) incompatible\<rparr>"

definition grok_conflict :: "protocol \<Rightarrow> gw_request \<Rightarrow> string list" where
  "grok_conflict p request = (case pr_GrokIncompatible p of None \<Rightarrow> [] | Some f \<Rightarrow> f request)"

text \<open>The part without the bridge: the image policy, the protocol, the attempt.\<close>

definition try_plain :: "serve_env \<Rightarrow> bool \<Rightarrow> string \<Rightarrow> int \<Rightarrow> candidate \<Rightarrow> pass_state \<Rightarrow> serve_state \<Rightarrow> cand_step" where
  "try_plain env bridge requestID attempt cand ps ss =
     (let (attemptRequest, ok) = requestForCodexImagePolicy (se_canonical env) (ss_request ss) cand (ss_intent ss) in
      if \<not> ok then StepNext (ps\<lparr>ps_skippedImage := True\<rparr>) ss
      else case xe_resolve (se_exec env) attemptRequest cand of
          Inl e \<Rightarrow> StepReturn \<lparr>fi_phase = PhaseFailed, fi_tokens = 0,
              fi_reply = ReplyFailure (chat_failure_of 502 ''protocol_resolution_failed'' e (ss_modelKey ss) (gq_Stream (ss_request ss)) ''protocol_resolve'')\<rparr> ss
        | Inr p \<Rightarrow>
            if grok_conflict p attemptRequest \<noteq> [] then StepNext (skip_grok (grok_conflict p attemptRequest) ps) ss
            else try_forward env bridge requestID attempt cand attemptRequest p ps ss)"

definition try_candidate ::
  "serve_env \<Rightarrow> bool \<Rightarrow> string \<Rightarrow> go_time \<Rightarrow> int \<Rightarrow> candidate \<Rightarrow> pass_state \<Rightarrow> serve_state \<Rightarrow> cand_step" where
  "try_candidate env bridge requestID deadline attempt cand ps ss =
     (let incompatible = (if isGrokSite (cs_SiteType (cand_Site cand)) then se_grokIncompatible env (ss_request ss) else []) in
      if \<not> wd_now (ss_world ss) < deadline then StepBudget
      else if incompatible \<noteq> [] then StepNext (skip_grok incompatible ps) ss
      else case (if bridge then xe_resolve (se_exec env) (ss_request ss) cand else Inl []) of
          Inl e \<Rightarrow> try_plain env bridge requestID attempt cand ps ss
        | Inr p \<Rightarrow>
            if grok_conflict p (ss_request ss) \<noteq> [] then StepNext (skip_grok (grok_conflict p (ss_request ss)) ps) ss
            else if candidateRequiresImageBridge cand p then try_bridged env False requestID cand ps ss
            else try_plain env bridge requestID attempt cand ps ss)"

section \<open>Passes\<close>

datatype pass_end = PassReturn finish_state serve_state | PassBudget pass_state serve_state | PassDone pass_state serve_state

fun pass_loop ::
  "serve_env \<Rightarrow> bool \<Rightarrow> string \<Rightarrow> go_time \<Rightarrow> nat \<Rightarrow> candidate list \<Rightarrow> pass_state \<Rightarrow> serve_state \<Rightarrow> pass_end" where
  "pass_loop env bridge requestID deadline index [] ps ss = PassDone ps ss"
| "pass_loop env bridge requestID deadline index (cand # cands) ps ss =
     (case try_candidate env bridge requestID deadline (int index + 1) cand ps ss of
        StepReturn fin ss' \<Rightarrow> PassReturn fin ss'
      | StepBudget \<Rightarrow> PassBudget ps ss
      | StepNext ps' ss' \<Rightarrow> pass_loop env bridge requestID deadline (Suc index) cands ps' ss')"

text \<open>\<open>engageSoftFallback\<close>: whether the fallback is engaged; it is used up either way.\<close>

definition engageSoftFallback :: "serve_env \<Rightarrow> bool \<Rightarrow> string \<Rightarrow> serve_state \<Rightarrow> bool \<times> serve_state" where
  "engageSoftFallback env bridge requestID ss0 =
     (if ss_softTarget ss0 = [] then (False, ss0)
      else let target = ss_softTarget ss0; ss = ss0\<lparr>ss_softTarget := []\<rparr>; w = ss_world ss;
               request = (ss_request ss)\<lparr>gq_RequestedModel := target\<rparr>; intent = codexImageIntentForRequest request
        in case setupRoute env w request intent bridge of
            Inl f \<Rightarrow> (False, ss)
          | Inr setup \<Rightarrow>
              let m = plan_CanonicalModel (rs_plan setup) in
              (True, ss\<lparr>ss_request := request, ss_intent := intent, ss_modelKey := rs_modelKey setup, ss_attempts := plan_attempts (rs_plan setup),
                 ss_world := w\<lparr>wd_registry := fst (model_request (wd_now w) requestID (cm_ModelKey m) (se_provider env m) (wd_registry w))\<rparr>\<rparr>))"

text \<open>What the client receives when no candidate served the request.\<close>

definition final_reply :: "serve_env \<Rightarrow> bool \<Rightarrow> pass_state \<Rightarrow> serve_state \<Rightarrow> reply" where
  "final_reply env bridge ps ss =
     (let final = preferredFinalGatewayFailure (ps_last ps) (ss_retained ss); stream = gq_Stream (ss_request ss);
          failAll = (bridge \<and> se_failAll env (wd_tick (ss_world ss)));
          incompatible = ''no available upstream route candidate can preserve parameters: '' @ join_strings (ps_skippedGrok ps) '', '' in
      if final = None \<and> ps_skippedGrok ps \<noteq> [] then
        (if failAll then ReplyBridge ''upstream_parameter_not_supported'' incompatible
         else ReplyFailure (chat_failure_of 422 ''upstream_parameter_not_supported'' incompatible (ss_modelKey ss) stream ''route_plan''))
      else if failAll then ReplyBridge ''upstream_failed'' ''all upstream route candidates failed''
      else if final = None \<and> ps_skippedImage ps then
        ReplyFailure (chat_failure_of 400 ''image_generation_not_supported'' ''no available upstream route candidate supports image generation''
          (ss_modelKey ss) stream ''route_plan'')
      else case final of
          None \<Rightarrow> ReplyError 502 ''upstream_failed'' ''all upstream route candidates failed''
        | Some r \<Rightarrow>
            if upstreamModelUnavailableFailure r then ReplyError 502 ''upstream_failed'' ''all upstream route candidates failed''
            else if ar_body r \<noteq> [] \<and> ar_statusCode r \<ge> 400 then ReplyUpstreamFailure r
            else ReplyError 502 ''upstream_failed'' ''all upstream route candidates failed'')"

definition give_up :: "serve_env \<Rightarrow> bool \<Rightarrow> pass_state \<Rightarrow> serve_state \<Rightarrow> finish_state \<times> serve_state" where
  "give_up env bridge ps ss = (\<lparr>fi_phase = PhaseFailed, fi_tokens = 0, fi_reply = final_reply env bridge ps ss\<rparr>, ss)"

text \<open>What follows a pass that tried all candidates: the request is over, or another pass begins.\<close>

definition after_pass ::
  "serve_env \<Rightarrow> bool \<Rightarrow> string \<Rightarrow> go_time \<Rightarrow> go_time \<Rightarrow> pass_state \<Rightarrow> serve_state \<Rightarrow> (finish_state \<times> serve_state) + serve_state" where
  "after_pass env bridge requestID waitDeadline deadline ps ss =
     (let w = ss_world ss;
          fallback = (\<lambda>allowed. case (if allowed then engageSoftFallback env bridge requestID ss else (False, ss)) of
              (True, ss') \<Rightarrow> Inr ss'
            | (False, ss') \<Rightarrow> Inl (give_up env bridge ps ss'))
      in case ps_last ps of
          None \<Rightarrow> fallback (ps_skippedImage ps \<or> ps_skippedGrok ps \<noteq> [])
        | Some r \<Rightarrow>
            if \<not> ps_waitable ps then fallback True
            else let wait = upstreamRateLimitWaitDuration (se_jitter env (wd_tick w)) r in
              if wd_now w + wait > waitDeadline \<or> wd_now w + wait > deadline then fallback True
              else case se_sleep env (wd_tick w) of
                  None \<Rightarrow> Inl (\<lparr>fi_phase = PhaseCancelled, fi_tokens = 0, fi_reply = ReplyNone\<rparr>, ss)
                | Some extra \<Rightarrow> Inr (ss\<lparr>ss_world := w\<lparr>wd_tick := Suc (wd_tick w), wd_now := wd_now w + max 0 wait + int extra\<rparr>\<rparr>))"

fun serve_loop ::
  "nat \<Rightarrow> serve_env \<Rightarrow> bool \<Rightarrow> string \<Rightarrow> go_time \<Rightarrow> go_time \<Rightarrow> serve_state \<Rightarrow> (finish_state \<times> serve_state) option" where
  "serve_loop 0 env bridge requestID waitDeadline deadline ss = None"
| "serve_loop (Suc n) env bridge requestID waitDeadline deadline ss =
     (case pass_loop env bridge requestID deadline 0 (ss_attempts ss) new_pass ss of
        PassReturn fin ss' \<Rightarrow> Some (fin, ss')
      | PassBudget ps ss' \<Rightarrow> Some (give_up env bridge ps ss')
      | PassDone ps ss' \<Rightarrow>
          (case after_pass env bridge requestID waitDeadline deadline ps ss' of
             Inl out \<Rightarrow> Some out
           | Inr ss'' \<Rightarrow> serve_loop n env bridge requestID waitDeadline deadline ss''))"

section \<open>Steps\<close>

text \<open>What the environment is assumed to answer: no upstream names a delay that a duration cannot hold, and the random part of
  a wait is below a second.\<close>

definition serve_env_ok :: "serve_env \<Rightarrow> bool" where
  "serve_env_ok env \<longleftrightarrow> delays_ok (se_exec env) \<and> (\<forall>n. delay_ok (ba_result (se_bridged env n)))
     \<and> (\<forall>n. 0 \<le> se_jitter env n \<and> se_jitter env n < seconds 1)"

text \<open>A step of the handler: the clock does not go back, the request stays in the registry, and the trace grows by \<open>new\<close>, in which
  every attempt that is not a repetition by the bridge begins before the deadline.\<close>

definition step_new :: "string \<Rightarrow> go_time \<Rightarrow> serve_state \<Rightarrow> serve_state \<Rightarrow> attempt_entry list \<Rightarrow> bool" where
  "step_new i deadline ss ss' new \<longleftrightarrow> carries i (ss_world ss) (ss_world ss') \<and> ss_trace ss' = ss_trace ss @ new
     \<and> list_all (\<lambda>e. te_Rescue e \<or> te_At e < deadline) new"

text \<open>A pass leaves the fallback alone.\<close>

definition same_plan :: "serve_state \<Rightarrow> serve_state \<Rightarrow> bool" where
  "same_plan ss ss' \<longleftrightarrow> ss_softTarget ss' = ss_softTarget ss \<and> ss_attempts ss' = ss_attempts ss"

definition unserved :: "attempt_entry list \<Rightarrow> bool" where
  "unserved new = list_all (\<lambda>e. \<not> served (te_Result e)) new"

text \<open>How a request may end after the attempts \<open>new\<close>: all but the last left the client unserved, and what is settled are
  the tokens of the last one if it succeeded.\<close>

definition fin_ok :: "finish_state \<Rightarrow> attempt_entry list \<Rightarrow> bool" where
  "fin_ok fin new \<longleftrightarrow> unserved (butlast new) \<and>
     (if new \<noteq> [] \<and> ar_success (te_Result (last new))
      then fi_phase fin = PhaseCompleted \<and> fi_tokens fin = rateLimitTokenCount (te_Result (last new))
      else fi_phase fin \<in> {PhaseFailed, PhaseCancelled} \<and> fi_tokens fin = 0)"

definition last_ok :: "pass_state \<Rightarrow> bool" where
  "last_ok ps \<longleftrightarrow> (\<forall>r. ps_last ps = Some r \<longrightarrow> delay_ok r)"

lemma step_new_trans: "step_new i d ss ss' new \<Longrightarrow> step_new i d ss' ss'' new' \<Longrightarrow> step_new i d ss ss'' (new @ new')"
  by (auto simp: step_new_def intro: carries_trans)

lemma unserved_append [simp]: "unserved [] = True" "unserved (a @ b) = (unserved a \<and> unserved b)" "unserved (e # a) = (\<not> served (te_Result e) \<and> unserved a)"
  by (simp_all add: unserved_def)

lemma fin_ok_append: "unserved new \<Longrightarrow> fin_ok fin new' \<Longrightarrow> fin_ok fin (new @ new')"
proof (cases "new' = []")
  case True
  assume u: "unserved new" and f: "fin_ok fin new'"
  have "unserved (butlast new)" using u by (auto simp: unserved_def list_all_iff dest: in_set_butlastD)
  moreover have "new \<noteq> [] \<Longrightarrow> \<not> ar_success (te_Result (last new))" using u by (auto simp: unserved_def list_all_iff served_def)
  ultimately show ?thesis using f True by (auto simp: fin_ok_def)
next
  case False
  assume "unserved new" "fin_ok fin new'"
  then show ?thesis using False by (auto simp: fin_ok_def butlast_append)
qed

text \<open>What a step promises.\<close>

fun cand_step_ok :: "serve_env \<Rightarrow> string \<Rightarrow> go_time \<Rightarrow> pass_state \<Rightarrow> serve_state \<Rightarrow> cand_step \<Rightarrow> bool" where
  "cand_step_ok env i d ps ss StepBudget \<longleftrightarrow> True"
| "cand_step_ok env i d ps ss (StepNext ps' ss') \<longleftrightarrow> same_plan ss ss' \<and> (serve_env_ok env \<and> last_ok ps \<longrightarrow> last_ok ps')
     \<and> (\<exists>new. step_new i d ss ss' new \<and> unserved new)"
| "cand_step_ok env i d ps ss (StepReturn fin ss') \<longleftrightarrow> (\<exists>new. step_new i d ss ss' new \<and> fin_ok fin new)"

text \<open>What follows the result of an attempt, the last entry of the trace.\<close>

lemma on_success_ok:
  assumes "step_new i d ss ss1 (pre @ [e])" and "unserved pre" and "te_Result e = r" and "ar_success r"
  shows "cand_step_ok env i d ps ss (on_success i cand r rep ss1)"
proof -
  let ?ss = "ss1\<lparr>ss_world := (ss_world ss1)\<lparr>wd_registry := fst (addTokens i (inflightTokenAmount r) (wd_registry (ss_world ss1))),
       wd_cooldowns := clearCooldownAfterRecovery (wd_now (ss_world ss1)) cand (wd_cooldowns (ss_world ss1))\<rparr>\<rparr>"
  have "step_new i d ss ?ss (pre @ [e])" using assms(1) live_ops(4) by (simp add: step_new_def carries_def)
  moreover have "fin_ok \<lparr>fi_phase = PhaseCompleted, fi_tokens = rateLimitTokenCount r, fi_reply = rep\<rparr> (pre @ [e])"
    using assms(2-4) by (simp add: fin_ok_def)
  ultimately show ?thesis by (auto simp: on_success_def Let_def)
qed

lemma on_cancel_ok:
  assumes "step_new i d ss ss1 (pre @ [e])" and "unserved pre" and "te_Result e = r" and "\<not> ar_success r"
  shows "cand_step_ok env i d ps ss (on_cancel ss1)"
proof -
  have "fin_ok \<lparr>fi_phase = PhaseCancelled, fi_tokens = 0, fi_reply = ReplyNone\<rparr> (pre @ [e])" using assms(2-4) by (simp add: fin_ok_def)
  then show ?thesis using assms(1) by (auto simp: on_cancel_def)
qed

lemma on_failure_ok:
  assumes new: "step_new i d ss ss1 (pre @ [e])" and "same_plan ss ss1" and "unserved pre" and "te_Result e = r" and "\<not> ar_success r"
    and delay: "serve_env_ok env \<Longrightarrow> delay_ok r"
  shows "cand_step_ok env i d ps ss (on_failure env cand r ps ss1)"
proof -
  let ?ss = "ss1\<lparr>ss_retained := retainUpstreamRateLimitFailure (ss_retained ss1) r, ss_world := cool_down (se_exec env) cand r (ss_world ss1)\<rparr>"
  have st: "step_new i d ss ?ss (pre @ [e])" "same_plan ss ?ss" using assms(1,2) by (simp_all add: step_new_def same_plan_def)
  show ?thesis
  proof (cases "ar_responseStarted r")
    case True
    have "fin_ok \<lparr>fi_phase = PhaseFailed, fi_tokens = 0, fi_reply = ReplyStreamed\<rparr> (pre @ [e])" using assms(3-5) by (simp add: fin_ok_def)
    then show ?thesis using True st(1) by (auto simp: on_failure_def Let_def)
  next
    case False
    then have "unserved (pre @ [e])" using assms(3-5) by (simp add: served_def)
    then show ?thesis using False st delay by (auto simp: on_failure_def last_ok_def Let_def)
  qed
qed

text \<open>An attempt through the bridge, after the entries \<open>pre\<close>.\<close>

lemma try_bridged_ok:
  assumes new: "step_new i d ss ss0 pre" and plan: "same_plan ss ss0" and pre: "unserved pre" and time: "rescue \<or> wd_now (ss_world ss0) < d"
  shows "cand_step_ok env i d ps ss (try_bridged env rescue i cand ps ss0)"
proof -
  let ?w = "ss_world ss0"
  let ?r = "ba_result (se_bridged env (wd_tick ?w))"
  let ?e = "\<lparr>te_At = wd_now ?w, te_Site = cs_ID (cand_Site cand), te_Model = cmo_SiteModelID (cand_Model cand), te_Rescue = rescue, te_Result = ?r\<rparr>"
  obtain r ss1 where bf: "bridge_forward env rescue cand ss0 = (r, ss1)" by fastforce
  have r: "r = ?r" and ss1: "ss1 = log_attempt (wd_now ?w) rescue cand ?r
      (ss0\<lparr>ss_world := ?w\<lparr>wd_tick := Suc (wd_tick ?w), wd_now := wd_now ?w + int (ba_elapsed (se_bridged env (wd_tick ?w)))\<rparr>\<rparr>)"
    using bf by (auto simp: bridge_forward_def Let_def)
  have st: "step_new i d ss ss1 (pre @ [?e])"
    using new time by (auto simp: ss1 log_attempt_def step_new_def carries_def)
  have pl: "same_plan ss ss1" using plan by (simp add: ss1 log_attempt_def same_plan_def)
  have delay: "serve_env_ok env \<Longrightarrow> delay_ok r" by (simp add: r serve_env_ok_def)
  have e: "te_Result ?e = r" by (simp add: r)
  show ?thesis
    using on_success_ok[OF st pre e] on_cancel_ok[OF st pre e] on_failure_ok[OF st pl pre e _ delay]
    by (simp add: try_bridged_def bf)
qed

lemma step_new_refl [simp]: "step_new i d ss ss []"
  by (simp add: step_new_def)

lemma same_plan_refl [simp]: "same_plan ss ss"
  by (simp add: same_plan_def)

lemma try_forward_ok:
  assumes time: "wd_now (ss_world ss) < d"
  shows "cand_step_ok env i d ps ss (try_forward env bridge i attempt cand request p ps ss)"
proof -
  obtain r w where f: "forwardGatewayRequest (se_exec env) i attempt cand request p (ss_world ss) = (r, w)" by fastforce
  note fc = forward_carries[OF f]
  let ?e = "\<lparr>te_At = wd_now (ss_world ss), te_Site = cs_ID (cand_Site cand), te_Model = cmo_SiteModelID (cand_Model cand), te_Rescue = False, te_Result = r\<rparr>"
  let ?ss = "log_attempt (wd_now (ss_world ss)) False cand r (ss\<lparr>ss_world := w\<rparr>)"
  have st: "step_new i d ss ?ss ([] @ [?e])" using fc time by (simp add: log_attempt_def step_new_def)
  have pl: "same_plan ss ?ss" by (simp add: log_attempt_def same_plan_def)
  have delay: "serve_env_ok env \<Longrightarrow> delay_ok r" using fc by (simp add: serve_env_ok_def)
  have pre: "unserved []" and e: "te_Result ?e = r" by simp_all
  have rescue: "cand_step_ok env i d ps ss (try_bridged env True i cand ps ?ss)" if "bridgeRescueEligible r"
  proof (rule try_bridged_ok)
    show "step_new i d ss ?ss [?e]" using st by simp
    show "unserved [?e]" using that by (auto simp: bridgeRescueEligible_def served_def)
  qed (simp_all add: pl)
  show ?thesis
    using on_success_ok[OF st pre e] on_cancel_ok[OF st pre e] on_failure_ok[OF st pl pre e _ delay] rescue
    by (simp add: try_forward_def f Let_def)
qed

lemma skip_ok: "(serve_env_ok env \<and> last_ok ps \<longrightarrow> last_ok ps') \<Longrightarrow> cand_step_ok env i d ps ss (StepNext ps' ss)"
  using step_new_refl unserved_append(1) same_plan_refl unfolding cand_step_ok.simps by blast

lemma last_ok_frames [simp]: "last_ok (skip_grok xs ps) = last_ok ps" "last_ok (ps\<lparr>ps_skippedImage := b\<rparr>) = last_ok ps"
  by (simp_all add: last_ok_def skip_grok_def)

lemma try_plain_ok:
  assumes time: "wd_now (ss_world ss) < d"
  shows "cand_step_ok env i d ps ss (try_plain env bridge i attempt cand ps ss)"
proof -
  obtain req ok where pol: "requestForCodexImagePolicy (se_canonical env) (ss_request ss) cand (ss_intent ss) = (req, ok)" by fastforce
  have err: "cand_step_ok env i d ps ss (StepReturn \<lparr>fi_phase = PhaseFailed, fi_tokens = 0, fi_reply = rep\<rparr> ss)" for rep
  proof -
    have "step_new i d ss ss [] \<and> fin_ok \<lparr>fi_phase = PhaseFailed, fi_tokens = 0, fi_reply = rep\<rparr> []" by (simp add: fin_ok_def)
    then show ?thesis unfolding cand_step_ok.simps by blast
  qed
  have skip: "cand_step_ok env i d ps ss (StepNext (ps\<lparr>ps_skippedImage := True\<rparr>) ss)" "cand_step_ok env i d ps ss (StepNext (skip_grok xs ps) ss)" for xs
    by (rule skip_ok; simp)+
  show ?thesis
    unfolding try_plain_def pol Let_def prod.case using try_forward_ok[OF time] err skip
    by (simp del: cand_step_ok.simps split: sum.split)
qed

lemma try_candidate_ok: "cand_step_ok env i d ps ss (try_candidate env bridge i d attempt cand ps ss)"
proof (cases "wd_now (ss_world ss) < d")
  case True
  have br: "cand_step_ok env i d ps ss (try_bridged env False i cand ps ss)" by (rule try_bridged_ok[of i d ss ss "[]"]) (simp_all add: True)
  have skip: "cand_step_ok env i d ps ss (StepNext (skip_grok xs ps) ss)" for xs by (rule skip_ok) simp
  show ?thesis
    unfolding try_candidate_def Let_def using try_plain_ok[OF True] br skip True
    by (simp del: cand_step_ok.simps split: sum.split)
next
  case False
  then show ?thesis by (simp add: try_candidate_def Let_def)
qed

section \<open>A pass\<close>

fun pass_ok :: "serve_env \<Rightarrow> string \<Rightarrow> go_time \<Rightarrow> pass_state \<Rightarrow> serve_state \<Rightarrow> pass_end \<Rightarrow> bool" where
  "pass_ok env i d ps ss (PassReturn fin ss') \<longleftrightarrow> (\<exists>new. step_new i d ss ss' new \<and> fin_ok fin new)"
| "pass_ok env i d ps ss (PassBudget ps' ss') \<longleftrightarrow> (\<exists>new. step_new i d ss ss' new \<and> unserved new)"
| "pass_ok env i d ps ss (PassDone ps' ss') \<longleftrightarrow> same_plan ss ss' \<and> (serve_env_ok env \<and> last_ok ps \<longrightarrow> last_ok ps')
     \<and> (\<exists>new. step_new i d ss ss' new \<and> unserved new)"

lemma pass_ok_trans:
  assumes "same_plan ss ss1" and "serve_env_ok env \<and> last_ok ps \<longrightarrow> last_ok ps1" and "step_new i d ss ss1 new" and "unserved new"
    and "pass_ok env i d ps1 ss1 res"
  shows "pass_ok env i d ps ss res"
proof (cases res)
  case (PassReturn fin ss')
  then obtain new' where "step_new i d ss1 ss' new'" "fin_ok fin new'" using assms(5) by auto
  then show ?thesis using step_new_trans[OF assms(3)] fin_ok_append[OF assms(4)] PassReturn by fastforce
next
  case (PassBudget ps' ss')
  then obtain new' where "step_new i d ss1 ss' new'" "unserved new'" using assms(5) by auto
  then have "step_new i d ss ss' (new @ new') \<and> unserved (new @ new')" using step_new_trans[OF assms(3)] assms(4) by simp
  then show ?thesis unfolding PassBudget pass_ok.simps by blast
next
  case (PassDone ps' ss')
  then obtain new' where "step_new i d ss1 ss' new'" "unserved new'" and rest: "same_plan ss1 ss'" "serve_env_ok env \<and> last_ok ps1 \<longrightarrow> last_ok ps'"
    using assms(5) by auto
  then have "step_new i d ss ss' (new @ new') \<and> unserved (new @ new')" using step_new_trans[OF assms(3)] assms(4) by simp
  moreover have "same_plan ss ss'" using assms(1) rest(1) by (simp add: same_plan_def)
  ultimately show ?thesis unfolding PassDone pass_ok.simps using assms(2) rest(2) by blast
qed

lemma pass_loop_ok: "pass_ok env i d ps ss (pass_loop env bridge i d index cands ps ss)"
proof (induction cands arbitrary: index ps ss)
  case Nil
  have "step_new i d ss ss [] \<and> unserved []" by simp
  then show ?case unfolding pass_loop.simps pass_ok.simps using same_plan_refl by blast
next
  case (Cons cand cands)
  note step = try_candidate_ok[of env i d ps ss bridge "int index + 1" cand]
  show ?case
  proof (cases "try_candidate env bridge i d (int index + 1) cand ps ss")
    case (StepReturn fin ss')
    then show ?thesis using step by simp
  next
    case StepBudget
    have "step_new i d ss ss [] \<and> unserved []" by simp
    then show ?thesis unfolding pass_loop.simps StepBudget cand_step.case pass_ok.simps by blast
  next
    case (StepNext ps' ss')
    then obtain new where "same_plan ss ss'" "serve_env_ok env \<and> last_ok ps \<longrightarrow> last_ok ps'" "step_new i d ss ss' new" "unserved new"
      using step by auto
    from pass_ok_trans[OF this Cons.IH] StepNext show ?thesis by simp
  qed
qed

section \<open>Between passes\<close>

lemma engage_ok:
  "engageSoftFallback env bridge i ss = (b, ss') \<Longrightarrow> step_new i d ss ss' [] \<and> ss_softTarget ss' = []
     \<and> wd_now (ss_world ss') = wd_now (ss_world ss) \<and> (b \<longrightarrow> ss_softTarget ss \<noteq> [])"
  using live_ops(2) by (auto simp: engageSoftFallback_def step_new_def carries_def Let_def split: if_splits sum.splits)

lemma give_up_ok: "fin_ok (fst (give_up env bridge ps ss)) []" "snd (give_up env bridge ps ss) = ss"
  by (simp_all add: give_up_def fin_ok_def)

lemma wait_duration_bounds:
  assumes "delay_ok r" and "0 \<le> jitter" "jitter < seconds 1"
  shows "seconds 1 \<le> upstreamRateLimitWaitDuration jitter r" "upstreamRateLimitWaitDuration jitter r < seconds 31"
proof -
  let ?w = "if ar_retryAfterSeconds r > 0 then (let w = wrap64 (ar_retryAfterSeconds r * seconds 1) in if w > seconds 30 then seconds 30 else w)
      else seconds 5"
  have mul: "wrap64 (ar_retryAfterSeconds r * seconds 1) = ar_retryAfterSeconds r * seconds 1" if "0 < ar_retryAfterSeconds r"
    using that assms(1) by (intro wrap64_eqI) (simp_all add: delay_ok_def seconds_def)
  have w: "seconds 1 \<le> ?w" "?w \<le> seconds 30"
  proof -
    have "seconds 1 \<le> ?w \<and> ?w \<le> seconds 30"
    proof (cases "0 < ar_retryAfterSeconds r")
      case True
      then show ?thesis by (simp add: mul) (simp add: seconds_def)
    qed (simp add: seconds_def)
    then show "seconds 1 \<le> ?w" "?w \<le> seconds 30" by blast+
  qed
  then have "wrap64 (?w + jitter) = ?w + jitter" using assms(2,3) by (intro wrap64_eqI) (auto simp: seconds_def)
  then show "seconds 1 \<le> upstreamRateLimitWaitDuration jitter r" "upstreamRateLimitWaitDuration jitter r < seconds 31"
    using w assms(2,3) by (simp_all add: upstreamRateLimitWaitDuration_def Let_def seconds_def)
qed

text \<open>Another pass begins after a sleep of a second or more that ends in time, or with the fallback, which is then used up.\<close>

lemma fallback_cases:
  assumes "(case (if allowed then engageSoftFallback env bridge i ss else (False, ss)) of (True, ss') \<Rightarrow> Inr ss'
      | (False, ss') \<Rightarrow> Inl (give_up env bridge ps ss')) = res"
  shows "case res of
      Inl (fin, ss') \<Rightarrow> step_new i d ss ss' [] \<and> fin_ok fin []
    | Inr ss' \<Rightarrow> step_new i d ss ss' [] \<and> ss_softTarget ss \<noteq> [] \<and> ss_softTarget ss' = [] \<and> wd_now (ss_world ss') = wd_now (ss_world ss)"
proof (cases allowed)
  case True
  obtain b ss' where e: "engageSoftFallback env bridge i ss = (b, ss')" by fastforce
  show ?thesis using assms True engage_ok[OF e, of d] give_up_ok[of env bridge ps ss'] by (cases b) (auto simp: e split: sum.split)
next
  case False
  then show ?thesis using assms give_up_ok[of env bridge ps ss] by (auto split: sum.split)
qed

lemma after_pass_ok:
  assumes res: "after_pass env bridge i waitDeadline deadline ps ss = res"
  shows "case res of
      Inl (fin, ss') \<Rightarrow> step_new i deadline ss ss' [] \<and> fin_ok fin []
    | Inr ss' \<Rightarrow> step_new i deadline ss ss' []
        \<and> (ss_softTarget ss \<noteq> [] \<and> ss_softTarget ss' = [] \<and> wd_now (ss_world ss') = wd_now (ss_world ss)
           \<or> ss_softTarget ss' = ss_softTarget ss \<and> (serve_env_ok env \<and> last_ok ps \<longrightarrow>
               wd_now (ss_world ss) + seconds 1 \<le> waitDeadline \<and> wd_now (ss_world ss) + seconds 1 \<le> wd_now (ss_world ss')))"
proof -
  let ?fb = "\<lambda>allowed. case (if allowed then engageSoftFallback env bridge i ss else (False, ss)) of (True, ss') \<Rightarrow> Inr ss'
      | (False, ss') \<Rightarrow> Inl (give_up env bridge ps ss')"
  have fb: "?thesis" if "?fb allowed = res" for allowed
    using fallback_cases[OF that, of deadline] by (auto split: sum.splits)
  show ?thesis
  proof (cases "ps_last ps")
    case None
    then show ?thesis using res by (intro fb[of "ps_skippedImage ps \<or> ps_skippedGrok ps \<noteq> []"]) (simp add: after_pass_def Let_def)
  next
    case (Some r)
    let ?w = "ss_world ss"
    let ?wait = "upstreamRateLimitWaitDuration (se_jitter env (wd_tick ?w)) r"
    show ?thesis
    proof (cases "ps_waitable ps \<and> \<not> (wd_now ?w + ?wait > waitDeadline \<or> wd_now ?w + ?wait > deadline)")
      case False
      then show ?thesis using res Some by (intro fb[of True]) (auto simp: after_pass_def Let_def)
    next
      case True
      then have r: "res = (case se_sleep env (wd_tick ?w) of
            None \<Rightarrow> Inl (\<lparr>fi_phase = PhaseCancelled, fi_tokens = 0, fi_reply = ReplyNone\<rparr>, ss)
          | Some extra \<Rightarrow> Inr (ss\<lparr>ss_world := ?w\<lparr>wd_tick := Suc (wd_tick ?w), wd_now := wd_now ?w + max 0 ?wait + int extra\<rparr>\<rparr>))"
        using res Some by (simp add: after_pass_def Let_def)
      have "serve_env_ok env \<and> last_ok ps \<Longrightarrow> seconds 1 \<le> ?wait"
        using wait_duration_bounds(1)[of r "se_jitter env (wd_tick ?w)"] Some by (simp add: serve_env_ok_def last_ok_def)
      then show ?thesis
        using True unfolding r by (auto simp: step_new_def carries_def fin_ok_def split: option.split)
    qed
  qed
qed

section \<open>All passes\<close>

text \<open>How many more passes there can be: one for the fallback and one for every second until the last wait must end.\<close>

definition passes_left :: "go_time \<Rightarrow> serve_state \<Rightarrow> nat" where
  "passes_left waitDeadline ss = (if ss_softTarget ss \<noteq> [] then 1 else 0) + nat ((waitDeadline - wd_now (ss_world ss)) div seconds 1)"

lemma passes_left_mono:
  assumes "wd_now (ss_world ss) \<le> wd_now (ss_world ss')" and "ss_softTarget ss' = ss_softTarget ss"
  shows "passes_left d ss' \<le> passes_left d ss"
proof -
  have "(d - wd_now (ss_world ss')) div seconds 1 \<le> (d - wd_now (ss_world ss)) div seconds 1"
    by (rule zdiv_mono1) (use assms in \<open>simp_all add: seconds_def\<close>)
  then show ?thesis using assms(2) by (simp add: passes_left_def)
qed

lemma passes_left_sleep:
  assumes "wd_now (ss_world ss) + seconds 1 \<le> d" and "wd_now (ss_world ss) + seconds 1 \<le> wd_now (ss_world ss')" and "ss_softTarget ss' = ss_softTarget ss"
  shows "passes_left d ss' < passes_left d ss"
proof -
  let ?n = "wd_now (ss_world ss)" and ?n' = "wd_now (ss_world ss')"
  have "(d - ?n') div seconds 1 \<le> (d - ?n + - 1 * seconds 1) div seconds 1"
    by (rule zdiv_mono1) (use assms in \<open>simp_all add: seconds_def\<close>)
  also have "\<dots> = (d - ?n) div seconds 1 - 1" by (subst div_mult_self1) (simp_all add: seconds_def)
  finally have "(d - ?n') div seconds 1 \<le> (d - ?n) div seconds 1 - 1" .
  moreover have "seconds 1 div seconds 1 \<le> (d - ?n) div seconds 1" by (rule zdiv_mono1) (use assms in \<open>simp_all add: seconds_def\<close>)
  ultimately show ?thesis using assms(3) by (simp add: passes_left_def seconds_def)
qed

lemma serve_loop_returns:
  assumes env: "serve_env_ok env"
  shows "passes_left waitDeadline ss < n \<Longrightarrow> serve_loop n env bridge i waitDeadline deadline ss \<noteq> None"
proof (induction n arbitrary: ss)
  case (Suc n)
  show ?case
  proof (cases "pass_loop env bridge i deadline 0 (ss_attempts ss) new_pass ss")
    case (PassDone ps ss1)
    have fresh: "last_ok new_pass" by (simp add: last_ok_def new_pass_def)
    have p: "same_plan ss ss1" "last_ok ps" "wd_now (ss_world ss) \<le> wd_now (ss_world ss1)"
      using pass_loop_ok[of env i deadline new_pass ss bridge 0 "ss_attempts ss"] env fresh
      by (auto simp: PassDone step_new_def carries_def)
    have le: "passes_left waitDeadline ss1 \<le> passes_left waitDeadline ss"
      by (rule passes_left_mono) (use p in \<open>simp_all add: same_plan_def\<close>)
    show ?thesis
    proof (cases "after_pass env bridge i waitDeadline deadline ps ss1")
      case (Inl out)
      then show ?thesis by (simp add: PassDone)
    next
      case (Inr ss2)
      have "passes_left waitDeadline ss2 < passes_left waitDeadline ss1"
        using after_pass_ok[OF Inr] env p(2) passes_left_sleep[of ss1 waitDeadline ss2]
        by (auto simp: passes_left_def)
      then have "passes_left waitDeadline ss2 < n" using le Suc.prems by simp
      from Suc.IH[OF this] show ?thesis by (simp add: PassDone Inr)
    qed
  qed simp_all
qed simp

lemma serve_loop_ok:
  "serve_loop n env bridge i waitDeadline deadline ss = Some (fin, ss') \<Longrightarrow> \<exists>new. step_new i deadline ss ss' new \<and> fin_ok fin new"
proof (induction n arbitrary: ss)
  case (Suc n)
  note pass = pass_loop_ok[of env i deadline new_pass ss bridge 0 "ss_attempts ss"]
  show ?case
  proof (cases "pass_loop env bridge i deadline 0 (ss_attempts ss) new_pass ss")
    case (PassReturn fin' ss1)
    then show ?thesis using pass Suc.prems by simp
  next
    case (PassBudget ps ss1)
    then obtain new where new: "step_new i deadline ss ss1 new" "unserved new" using pass by auto
    have "fin = fst (give_up env bridge ps ss1)" "ss' = ss1" using Suc.prems PassBudget give_up_ok(2)[of env bridge ps ss1] by (auto simp: give_up_def)
    then have "fin_ok fin new" using fin_ok_append[OF new(2) give_up_ok(1)[of env bridge ps ss1]] by simp
    then show ?thesis using new(1) \<open>ss' = ss1\<close> by blast
  next
    case (PassDone ps ss1)
    then obtain new where new: "step_new i deadline ss ss1 new" "unserved new" using pass by auto
    show ?thesis
    proof (cases "after_pass env bridge i waitDeadline deadline ps ss1")
      case (Inl out)
      then have "out = (fin, ss')" using Suc.prems PassDone by simp
      then have "step_new i deadline ss1 ss' []" "fin_ok fin []" using after_pass_ok[OF Inl] by auto
      then have "step_new i deadline ss ss' new" "fin_ok fin new"
        using step_new_trans[OF new(1)] fin_ok_append[OF new(2)] by fastforce+
      then show ?thesis by blast
    next
      case (Inr ss2)
      then have "serve_loop n env bridge i waitDeadline deadline ss2 = Some (fin, ss')" using Suc.prems PassDone by simp
      then obtain new' where "step_new i deadline ss2 ss' new'" "fin_ok fin new'" using Suc.IH by blast
      moreover have "step_new i deadline ss1 ss2 []" using after_pass_ok[OF Inr] by auto
      ultimately have "step_new i deadline ss ss' (new @ [] @ new')" "fin_ok fin (new @ [] @ new')"
        using step_new_trans[OF new(1) step_new_trans[of i deadline ss1 ss2 "[]" ss' new']] fin_ok_append[OF new(2)] by simp_all
      then show ?thesis by blast
    qed
  qed
qed simp

section \<open>The handler\<close>

record serve_input =
  si_available :: bool
  si_requestID :: string
  si_newID :: string
  si_apiKey :: "(uuid \<times> string) option"
  si_mappings :: json_raw
  si_imageBridge :: "image_bridge option"
  si_path :: string
  si_decoded :: "chat_failure + gw_request"
  si_admission :: "(limit_error + string) + reservation option"
  si_admitWait :: nat

record serve_output =
  so_world :: world
  so_service :: service
  so_noRoute :: no_route_cache
  so_reply :: reply
  so_trace :: "attempt_entry list"

text \<open>The model rule: a hard rule replaces the model, a soft one is kept as the fallback.\<close>

definition map_model :: "json_raw \<Rightarrow> gw_request \<Rightarrow> gw_request \<times> string" where
  "map_model mappings request0 =
     (let request = request0\<lparr>gq_OriginalModel := gq_RequestedModel request0\<rparr> in
      case resolveModelMapping mappings (gq_RequestedModel request) of
        None \<Rightarrow> (request, [])
      | Some rule \<Rightarrow>
          if mr_Mode rule = APIKeyModelRuleModeSoft then (request, mr_Target rule)
          else (request\<lparr>gq_RequestedModel := mr_Target rule\<rparr>, []))"

text \<open>Planning with the fallback of a soft rule: the request, its intent, the plan and the fallback that is left.\<close>

definition plan_request ::
  "serve_env \<Rightarrow> world \<Rightarrow> gw_request \<Rightarrow> image_intent \<Rightarrow> bool \<Rightarrow> string
     \<Rightarrow> gw_request \<times> image_intent \<times> string \<times> ((chat_failure \<times> no_route_access option) + route_setup)" where
  "plan_request env w request intent bridge softTarget =
     (case setupRoute env w request intent bridge of
        Inr setup \<Rightarrow> (request, intent, softTarget, Inr setup)
      | Inl f \<Rightarrow>
          if softTarget = [] then (request, intent, softTarget, Inl f)
          else let fallbackRequest = request\<lparr>gq_RequestedModel := softTarget\<rparr>; fallbackIntent = codexImageIntentForRequest fallbackRequest
            in (fallbackRequest, fallbackIntent, [], setupRoute env w fallbackRequest fallbackIntent bridge))"

definition serve_fuel :: nat where "serve_fuel = 62"

text \<open>From the registration to the settlement.\<close>

definition run_request ::
  "serve_env \<Rightarrow> bool \<Rightarrow> string \<Rightarrow> uuid \<times> string \<Rightarrow> go_time \<Rightarrow> gw_request \<Rightarrow> image_intent \<Rightarrow> string \<Rightarrow> route_setup \<Rightarrow> reservation option
     \<Rightarrow> world \<Rightarrow> service \<Rightarrow> no_route_cache \<Rightarrow> serve_output option" where
  "run_request env bridge requestID apiKey startedAt request intent softTarget setup reservation w s c =
     (let m = plan_CanonicalModel (rs_plan setup);
          entry = \<lparr>iq_RequestID = requestID, iq_APIKeyID = fst apiKey, iq_APIKeyName = snd apiKey, iq_ModelKey = cm_ModelKey m,
            iq_ModelProvider = se_provider env m, iq_SiteID = [], iq_SiteName = [], iq_SiteType = [], iq_Attempt = 0,
            iq_Stream = gq_Stream request, iq_Phase = PhaseAccepted, iq_StartedAt = 0, iq_UpdatedAt = 0\<rparr>;
          ss = \<lparr>ss_world = w\<lparr>wd_registry := fst (start_request (wd_now w) entry (wd_registry w))\<rparr>, ss_request = request, ss_intent = intent,
            ss_modelKey = rs_modelKey setup, ss_attempts = plan_attempts (rs_plan setup), ss_softTarget = softTarget, ss_retained = None,
            ss_trace = []\<rparr>
      in case serve_loop serve_fuel env bridge requestID (startedAt + upstreamRateLimitMaxWait) (startedAt + failover_budget request) ss of
          None \<Rightarrow> None
        | Some (fin, ss') \<Rightarrow>
            let w' = ss_world ss' in
            Some \<lparr>so_world = w'\<lparr>wd_registry := fst (finish_request (wd_now w') requestID (fi_phase fin) (wd_registry w'))\<rparr>,
              so_service = settle s reservation (fi_tokens fin), so_noRoute = c, so_reply = fi_reply fin, so_trace = ss_trace ss'\<rparr>)"

definition serveEndpoint :: "serve_env \<Rightarrow> serve_input \<Rightarrow> world \<Rightarrow> service \<Rightarrow> no_route_cache \<Rightarrow> serve_output option" where
  "serveEndpoint env input w s c =
     (let requestID = (if si_requestID input = [] then si_newID input else si_requestID input); startedAt = wd_now w;
          reply = (\<lambda>r c. Some \<lparr>so_world = w, so_service = s, so_noRoute = c, so_reply = r, so_trace = []\<rparr>)
      in if \<not> si_available input then
           reply (ReplyFailure (chat_failure_of 503 ''gateway_unavailable'' ''gateway service is not available'' [] False ''gateway'')) c
         else case si_apiKey input of
             None \<Rightarrow> reply (ReplyFailure (chat_failure_of 401 ''unauthorized'' ''valid api key is required'' [] False ''auth'')) c
           | Some apiKey \<Rightarrow>
         (case si_decoded input of
             Inl f \<Rightarrow> reply (ReplyFailure f) c
           | Inr request0 \<Rightarrow>
         (let (request1, soft0) = map_model (si_mappings input) request0;
              intent1 = codexImageIntentForRequest request1;
              bridge = (case bridgeContextForRequest (si_imageBridge input) request1 intent1 of Inl _ \<Rightarrow> False | Inr _ \<Rightarrow> True);
              (request, intent, softTarget, setup) = plan_request env w request1 intent1 bridge soft0
          in case setup of
               Inl (f, Some access) \<Rightarrow>
                 let (nf, c') = writeNoRouteFailure (fst apiKey) (si_path input) request access
                       (case db_cooldowns (se_db env) of Inl e \<Rightarrow> Inl e | Inr _ \<Rightarrow> Inr (wd_cooldowns w)) (wd_now w) c
                 in reply (ReplyFailure nf) c'
             | Inl (f, None) \<Rightarrow> reply (ReplyFailure f) c
             | Inr st \<Rightarrow>
                 (case si_admission input of
                    Inl (Inr e) \<Rightarrow>
                      reply (ReplyFailure (chat_failure_of 500 ''rate_limit_unavailable'' ''failed to check rate limit'' (gq_RequestedModel request)
                        (gq_Stream request) ''rate_limit'')) c
                  | Inl (Inl limitErr) \<Rightarrow> reply (ReplyRateLimited limitErr (max 1 (le_RetryAfterSeconds limitErr))) c
                  | Inr reservation \<Rightarrow>
                      run_request env bridge requestID apiKey startedAt request intent softTarget st reservation
                        (w\<lparr>wd_now := wd_now w + int (si_admitWait input)\<rparr>) s c))))"

section \<open>The whole request\<close>

text \<open>What the handler leaves behind, once the request is registered.\<close>

definition settled_tokens :: "attempt_entry list \<Rightarrow> int" where
  "settled_tokens trace = (if trace \<noteq> [] \<and> ar_success (te_Result (last trace)) then rateLimitTokenCount (te_Result (last trace)) else 0)"

lemma run_request_ok:
  assumes run: "run_request env bridge i apiKey startedAt request intent soft setup reservation w s c = Some out" and i: "i \<noteq> []"
  shows "\<exists>fin. fin_ok fin (so_trace out) \<and> list_all (\<lambda>e. te_Rescue e \<or> te_At e < startedAt + failover_budget request) (so_trace out)
    \<and> so_service out = settle s reservation (settled_tokens (so_trace out))
    \<and> map_option iq_Phase (map_of (rg_requests (wd_registry (so_world out))) i) = Some (fi_phase fin)"
proof -
  let ?m = "plan_CanonicalModel (rs_plan setup)"
  let ?entry = "\<lparr>iq_RequestID = i, iq_APIKeyID = fst apiKey, iq_APIKeyName = snd apiKey, iq_ModelKey = cm_ModelKey ?m,
      iq_ModelProvider = se_provider env ?m, iq_SiteID = [], iq_SiteName = [], iq_SiteType = [], iq_Attempt = 0,
      iq_Stream = gq_Stream request, iq_Phase = PhaseAccepted, iq_StartedAt = 0, iq_UpdatedAt = 0\<rparr>"
  let ?ss = "\<lparr>ss_world = w\<lparr>wd_registry := fst (start_request (wd_now w) ?entry (wd_registry w))\<rparr>, ss_request = request, ss_intent = intent,
      ss_modelKey = rs_modelKey setup, ss_attempts = plan_attempts (rs_plan setup), ss_softTarget = soft, ss_retained = None, ss_trace = []\<rparr>"
  let ?d = "startedAt + failover_budget request"
  obtain fin ss where loop: "serve_loop serve_fuel env bridge i (startedAt + upstreamRateLimitMaxWait) ?d ?ss = Some (fin, ss)"
    and out: "out = \<lparr>so_world = (ss_world ss)\<lparr>wd_registry := fst (finish_request (wd_now (ss_world ss)) i (fi_phase fin) (wd_registry (ss_world ss)))\<rparr>,
      so_service = settle s reservation (fi_tokens fin), so_noRoute = c, so_reply = fi_reply fin, so_trace = ss_trace ss\<rparr>"
    using run by (auto simp: run_request_def Let_def split: option.splits)
  from serve_loop_ok[OF loop] obtain new where new: "step_new i ?d ?ss ss new" and fin: "fin_ok fin new" by blast
  have "live i (wd_registry (ss_world ?ss))" using live_start[of ?entry] i by simp
  then have "live i (wd_registry (ss_world ss))" using new by (simp add: step_new_def carries_def)
  note live = this
  have "isTerminalPhase (fi_phase fin)" using fin by (auto simp: fin_ok_def split: if_splits)
  then have phase: "map_option iq_Phase (map_of (rg_requests (wd_registry (so_world out))) i) = Some (fi_phase fin)"
    using finish_live[OF live, of "wd_now (ss_world ss)" "fi_phase fin"] by (simp only: out if_True) simp
  have trace: "so_trace out = new" using new by (simp add: out step_new_def)
  have tokens: "fi_tokens fin = settled_tokens new" using fin by (auto simp: fin_ok_def settled_tokens_def)
  have "list_all (\<lambda>e. te_Rescue e \<or> te_At e < ?d) new" using new by (simp add: step_new_def)
  moreover have "so_service out = settle s reservation (settled_tokens new)" by (simp add: out tokens)
  ultimately show ?thesis using fin phase unfolding trace by blast
qed

text \<open>The handler answers before anything is registered, or it runs the request.\<close>

lemma failover_budget_frame [simp]: "failover_budget (request\<lparr>gq_RequestedModel := m\<rparr>) = failover_budget request"
  "failover_budget (request\<lparr>gq_OriginalModel := m\<rparr>) = failover_budget request"
  by (simp_all add: failover_budget_def)

lemma map_model_budget: "map_model mappings request0 = (request, soft) \<Longrightarrow> failover_budget request = failover_budget request0"
  by (auto simp: map_model_def Let_def split: option.splits if_splits)

lemma plan_request_budget: "plan_request env w request intent bridge soft = (request', rest) \<Longrightarrow> failover_budget request' = failover_budget request"
  by (auto simp: plan_request_def Let_def split: sum.splits if_splits)

definition request_id :: "serve_input \<Rightarrow> string" where
  "request_id input = (if si_requestID input = [] then si_newID input else si_requestID input)"

lemma serveEndpoint_cases:
  assumes "serveEndpoint env input w s c = res"
  shows "(\<exists>r c'. res = Some \<lparr>so_world = w, so_service = s, so_noRoute = c', so_reply = r, so_trace = []\<rparr>)
    \<or> (\<exists>request0 request intent soft setup reservation bridge apiKey. si_decoded input = Inr request0 \<and> si_admission input = Inr reservation
        \<and> failover_budget request = failover_budget request0
        \<and> res = run_request env bridge (request_id input) apiKey (wd_now w) request intent soft setup reservation
            (w\<lparr>wd_now := wd_now w + int (si_admitWait input)\<rparr>) s c)"
proof (cases "\<exists>apiKey request0. si_available input \<and> si_apiKey input = Some apiKey \<and> si_decoded input = Inr request0")
  case False
  then show ?thesis using assms by (auto simp: serveEndpoint_def Let_def split: option.splits sum.splits)
next
  case True
  then obtain apiKey request0 where in0: "si_available input" "si_apiKey input = Some apiKey" "si_decoded input = Inr request0" by blast
  obtain request1 soft0 where mm: "map_model (si_mappings input) request0 = (request1, soft0)" by fastforce
  define intent1 where "intent1 = codexImageIntentForRequest request1"
  define bridge where "bridge = (case bridgeContextForRequest (si_imageBridge input) request1 intent1 of Inl _ \<Rightarrow> False | Inr _ \<Rightarrow> True)"
  obtain request intent soft planned where pr: "plan_request env w request1 intent1 bridge soft0 = (request, intent, soft, planned)"
    by (metis prod_cases3)
  have budget: "failover_budget request = failover_budget request0"
    using map_model_budget[OF mm] plan_request_budget[OF pr] by simp
  note unfolded = assms[unfolded serveEndpoint_def Let_def in0 mm prod.case option.case sum.case, folded intent1_def, folded bridge_def,
      unfolded pr prod.case, folded request_id_def]
  show ?thesis
  proof (cases planned)
    case (Inl f)
    then show ?thesis using unfolded in0(1) by (auto split: option.splits prod.splits)
  next
    case (Inr st)
    show ?thesis
    proof (cases "si_admission input")
      case (Inl e)
      then show ?thesis using unfolded in0(1) Inr by (auto split: sum.splits)
    next
      case reserved: (Inr reservation)
      then have "res = run_request env bridge (request_id input) apiKey (wd_now w) request intent soft st reservation
          (w\<lparr>wd_now := wd_now w + int (si_admitWait input)\<rparr>) s c"
        using unfolded in0(1) Inr by simp
      then show ?thesis using in0(3) reserved budget by blast
    qed
  qed
qed

section \<open>Properties\<close>

lemma run_request_returns:
  assumes env: "serve_env_ok env" and "startedAt \<le> wd_now w"
  shows "run_request env bridge i apiKey startedAt request intent soft planned reservation w s c \<noteq> None"
proof -
  let ?loop = "serve_loop serve_fuel env bridge i (startedAt + upstreamRateLimitMaxWait) (startedAt + failover_budget request)"
  have enough: "?loop ss \<noteq> None" if "wd_now (ss_world ss) = wd_now w" for ss
  proof (rule serve_loop_returns[OF env])
    have "(startedAt + seconds 60 - wd_now w) div seconds 1 \<le> seconds 60 div seconds 1"
      by (rule zdiv_mono1) (use assms(2) in \<open>simp_all add: seconds_def\<close>)
    then have "nat ((startedAt + seconds 60 - wd_now w) div seconds 1) \<le> 60" by (simp add: nat_le_iff) (simp add: seconds_def)
    then show "passes_left (startedAt + upstreamRateLimitMaxWait) ss < serve_fuel"
      by (auto simp: passes_left_def that upstreamRateLimitMaxWait_def serve_fuel_def)
  qed
  show ?thesis unfolding run_request_def Let_def by (auto split: option.split simp: enough)
qed

text \<open>C14. Every request is answered. The loop over the candidates ends: each further pass follows a wait of a second or more that must end
  within a minute, or the one fallback of a soft rule. So at most sixty-two passes are made, whatever the upstreams answer, as long as no
  upstream asks for a delay that overflows a duration.\<close>

theorem failover_terminates:
  assumes "serve_env_ok env"
  shows "serveEndpoint env input w s c \<noteq> None"
  using serveEndpoint_cases[OF refl, of env input w s c] run_request_returns[OF assms, of "wd_now w"] by fastforce

text \<open>C12. A request is settled once, with what the client was served. Either it is refused before it is registered, and then neither
  the limits nor the registry change; or its reservation is settled with the tokens of the last attempt if that succeeded and with none
  otherwise (failed attempts are not charged), and its entry is finished: completed exactly if that attempt succeeded.\<close>

theorem served_tokens_settled:
  assumes "serveEndpoint env input w s c = Some out" and "si_newID input \<noteq> []"
  shows "so_trace out = [] \<and> so_world out = w \<and> so_service out = s
    \<or> (\<exists>reservation phase. si_admission input = Inr reservation
        \<and> so_service out = settle s reservation (settled_tokens (so_trace out))
        \<and> map_option iq_Phase (map_of (rg_requests (wd_registry (so_world out))) (request_id input)) = Some phase
        \<and> isTerminalPhase phase
        \<and> (phase = PhaseCompleted \<longleftrightarrow> so_trace out \<noteq> [] \<and> ar_success (te_Result (last (so_trace out)))))"
proof (rule disjE[OF serveEndpoint_cases[OF assms(1)]])
  assume "\<exists>r c'. Some out = Some \<lparr>so_world = w, so_service = s, so_noRoute = c', so_reply = r, so_trace = []\<rparr>"
  then show ?thesis by auto
next
  assume "\<exists>request0 request intent soft setup reservation bridge apiKey. si_decoded input = Inr request0 \<and> si_admission input = Inr reservation
      \<and> failover_budget request = failover_budget request0
      \<and> Some out = run_request env bridge (request_id input) apiKey (wd_now w) request intent soft setup reservation
          (w\<lparr>wd_now := wd_now w + int (si_admitWait input)\<rparr>) s c"
  then obtain request intent soft planned reservation bridge apiKey where r: "si_admission input = Inr reservation"
    "run_request env bridge (request_id input) apiKey (wd_now w) request intent soft planned reservation
       (w\<lparr>wd_now := wd_now w + int (si_admitWait input)\<rparr>) s c = Some out" by metis
  have "request_id input \<noteq> []" using assms(2) by (simp add: request_id_def)
  from run_request_ok[OF r(2) this] obtain fin where fin: "fin_ok fin (so_trace out)"
    "so_service out = settle s reservation (settled_tokens (so_trace out))"
    "map_option iq_Phase (map_of (rg_requests (wd_registry (so_world out))) (request_id input)) = Some (fi_phase fin)" by blast
  have "isTerminalPhase (fi_phase fin)" "fi_phase fin = PhaseCompleted \<longleftrightarrow> so_trace out \<noteq> [] \<and> ar_success (te_Result (last (so_trace out)))"
    using fin(1) by (auto simp: fin_ok_def split: if_splits)
  then show ?thesis using r(1) fin(2,3) by blast
qed



section \<open>Witnesses\<close>

text \<open>Two sites; the first answers 429 and the second serves the request.\<close>

definition demo_serve_answers :: "nat \<Rightarrow> cred_answers" where
  "demo_serve_answers n = (demo_answers n)\<lparr>ca_response := Inr (if n < 2 then 429 else 200, ''application/json'')\<rparr>"

definition demo_serve_env :: serve_env where
  "demo_serve_env = \<lparr>se_exec = demo_exec\<lparr>xe_answers := demo_serve_answers, xe_resolve := (\<lambda>_ _. Inr demo_protocol)\<rparr>,
     se_canonical = (\<lambda>_ _ _. Inl []), se_grokIncompatible = (\<lambda>_. []), se_bridged = (\<lambda>_. \<lparr>ba_result = zero_result, ba_elapsed = 0\<rparr>),
     se_failAll = (\<lambda>_. False), se_jitter = (\<lambda>_. 0), se_sleep = (\<lambda>_. Some 0),
     se_access = (\<lambda>m. Inr \<lparr>ra_ModelKey = m, ra_AllowedSiteIDs = [], ra_AllowedSiteModelIDs = []\<rparr>), se_db = demo_db,
     se_routeError = (\<lambda>_. []), se_provider = (\<lambda>_. ''openai''), se_endpointType = []\<rparr>"

definition demo_input :: serve_input where
  "demo_input = \<lparr>si_available = True, si_requestID = ''r1'', si_newID = ''n1'', si_apiKey = Some (''key1'', ''team''), si_mappings = JEmpty,
     si_imageBridge = None, si_path = ''/v1/chat/completions'', si_decoded = Inr (tool_request\<lparr>gq_RequestedModel := ''gpt-5''\<rparr>),
     si_admission = Inr (Some (snd demo_granted)), si_admitWait = 3\<rparr>"

lemma demo_serve_env_ok: "serve_env_ok demo_serve_env"
  by (simp add: serve_env_ok_def demo_serve_env_def delays_ok_def demo_serve_answers_def demo_answers_def delay_ok_def zero_result_def seconds_def)

lemma demo_run:
  "map_option (\<lambda>out. map (\<lambda>e. (te_At e, te_Site e, ar_success (te_Result e), rateLimitTokenCount (te_Result e))) (so_trace out))
     (serveEndpoint demo_serve_env demo_input demo_world (fst demo_granted) newNoRouteSuppressionCache)
   = Some [(3, ''s2'', False, 0), (13, ''s1'', True, 11)]"
  by code_simp

lemma demo_serves:
  obtains out a b where "serveEndpoint demo_serve_env demo_input demo_world (fst demo_granted) newNoRouteSuppressionCache = Some out"
    and "so_trace out = [a, b]" and "te_Site a = ''s2''" and "te_Site b = ''s1''" and "te_At b = 13" and "ar_success (te_Result b)"
    and "rateLimitTokenCount (te_Result b) = 11"
  using demo_run by auto

lemma demo_input_facts: "si_newID demo_input \<noteq> []" "request_id demo_input = ''r1''" "si_admission demo_input = Inr (Some (snd demo_granted))"
  "si_decoded demo_input = Inr (tool_request\<lparr>gq_RequestedModel := ''gpt-5''\<rparr>)"
  by (simp_all add: demo_input_def request_id_def)

theorem failover_terminates_witness: "serveEndpoint demo_serve_env demo_input demo_world (fst demo_granted) newNoRouteSuppressionCache \<noteq> None"
  by (rule failover_terminates[OF demo_serve_env_ok])

theorem served_tokens_settled_witness:
  "\<exists>out. serveEndpoint demo_serve_env demo_input demo_world (fst demo_granted) newNoRouteSuppressionCache = Some out
     \<and> so_service out = settle (fst demo_granted) (Some (snd demo_granted)) 11
     \<and> map_option iq_Phase (map_of (rg_requests (wd_registry (so_world out))) ''r1'') = Some PhaseCompleted"
proof (rule demo_serves)
  fix out a b
  assume out: "serveEndpoint demo_serve_env demo_input demo_world (fst demo_granted) newNoRouteSuppressionCache = Some out"
    and tr: "so_trace out = [a, b]" "ar_success (te_Result b)" "rateLimitTokenCount (te_Result b) = 11"
  from served_tokens_settled[OF out demo_input_facts(1)] obtain phase where
    "so_service out = settle (fst demo_granted) (Some (snd demo_granted)) (settled_tokens (so_trace out))"
    "map_option iq_Phase (map_of (rg_requests (wd_registry (so_world out))) ''r1'') = Some phase"
    "phase = PhaseCompleted \<longleftrightarrow> so_trace out \<noteq> [] \<and> ar_success (te_Result (last (so_trace out)))"
    using tr(1) by (auto simp: demo_input_facts simp del: map_option_eq_Some)
  then show ?thesis using out tr by (simp add: settled_tokens_def del: map_option_eq_Some)
qed


definition rejected_pass :: pass_state where
  "rejected_pass = new_pass\<lparr>ps_last := Some (zero_result\<lparr>ar_retryAfterSeconds := 10000000000\<rparr>)\<rparr>"

definition waiting_state :: serve_state where
  "waiting_state = \<lparr>ss_world = demo_world, ss_request = tool_request, ss_intent = IntentNone, ss_modelKey = ''gpt-5'', ss_attempts = [],
     ss_softTarget = [], ss_retained = None, ss_trace = []\<rparr>"


end
