(* ===== verification/Go_Json.thy ===== *)
theory Go_Json
  imports Go_Prelude
begin

text \<open>
  The decoder of \<open>encoding/json\<close> on texts: \<open>json.Valid\<close>, \<open>json.Unmarshal\<close> into an \<open>any\<close> and the first value a \<open>json.Decoder\<close> reads.
  Numbers keep their text (\<open>json.Number\<close>), repeated keys of an object are assigned in order, escapes of code points become
  their UTF-8 bytes. Texts are valid UTF-8, so that the library replaces nothing.
\<close>

definition json_space :: "char \<Rightarrow> bool" where
  "json_space c \<longleftrightarrow> c \<in> {CHR '' '', CHR 0x09, CHR 0x0A, CHR 0x0D}"

definition skip_space :: "string \<Rightarrow> string" where
  "skip_space s = dropWhile json_space s"

section \<open>Strings\<close>

definition hex_val :: "char \<Rightarrow> nat option" where
  "hex_val c = (let n = of_char c :: nat in
     if 48 \<le> n \<and> n \<le> 57 then Some (n - 48) else if 65 \<le> n \<and> n \<le> 70 then Some (n - 55) else if 97 \<le> n \<and> n \<le> 102 then Some (n - 87) else None)"

text \<open>The four digits of an escape and what follows.\<close>

definition hex4 :: "string \<Rightarrow> (nat \<times> string) option" where
  "hex4 s = (case s of
      a # b # c # d # r \<Rightarrow> (case (hex_val a, hex_val b, hex_val c, hex_val d) of
          (Some h, Some i, Some j, Some k) \<Rightarrow> Some (((h * 16 + i) * 16 + j) * 16 + k, r)
        | _ \<Rightarrow> None)
    | _ \<Rightarrow> None)"

definition utf8_of :: "nat \<Rightarrow> string" where
  "utf8_of n =
     (if n < 128 then [char_of n]
      else if n < 2048 then map char_of [192 + n div 64, 128 + n mod 64]
      else if n < 65536 then map char_of [224 + n div 4096, 128 + n div 64 mod 64, 128 + n mod 64]
      else map char_of [240 + n div 262144, 128 + n div 4096 mod 64, 128 + n div 64 mod 64, 128 + n mod 64])"

text \<open>The code point of an escape: a surrogate needs its other half behind it, alone it becomes the replacement character.\<close>

definition code_point :: "nat \<Rightarrow> string \<Rightarrow> nat \<times> string" where
  "code_point n r =
     (if n < 55296 \<or> n > 57343 then (n, r)
      else case r of
          b # u # r' \<Rightarrow>
            if b = CHR 0x5C \<and> u = CHR ''u'' \<and> n < 56320 then
              (case hex4 r' of
                 Some (m, r'') \<Rightarrow> if 56320 \<le> m \<and> m \<le> 57343 then (65536 + (n - 55296) * 1024 + (m - 56320), r'') else (65533, r)
               | None \<Rightarrow> (65533, r))
            else (65533, r)
        | _ \<Rightarrow> (65533, r))"

definition simple_escape :: "char \<Rightarrow> char option" where
  "simple_escape c =
     (if c \<in> {CHR 0x22, CHR 0x5C, CHR ''/''} then Some c else if c = CHR ''b'' then Some (CHR 0x08) else if c = CHR ''f'' then Some (CHR 0x0C)
      else if c = CHR ''n'' then Some (CHR 0x0A) else if c = CHR ''r'' then Some (CHR 0x0D) else if c = CHR ''t'' then Some (CHR 0x09) else None)"

lemma hex4_shorter: "hex4 s = Some (n, r) \<Longrightarrow> length r < length s"
  by (auto simp: hex4_def split: list.splits option.splits)

lemma code_point_shorter: "length (snd (code_point n r)) \<le> length r"
  by (auto simp: code_point_def dest: hex4_shorter split: list.splits option.splits)

text \<open>The rest of a string after its opening quote: the contents and what follows the closing quote.\<close>

function json_chars :: "string \<Rightarrow> (string \<times> string) option" where
  "json_chars [] = None"
| "json_chars (c # cs) =
     (if c = CHR 0x22 then Some ([], cs)
      else if (of_char c :: nat) < 32 then None
      else if c \<noteq> CHR 0x5C then map_option (apfst (Cons c)) (json_chars cs)
      else (case cs of
          [] \<Rightarrow> None
        | d # ds \<Rightarrow>
            if d = CHR ''u'' then
              (case hex4 ds of
                 None \<Rightarrow> None
               | Some (n, r) \<Rightarrow> let p = code_point n r in map_option (apfst (append (utf8_of (fst p)))) (json_chars (snd p)))
            else (case simple_escape d of None \<Rightarrow> None | Some e \<Rightarrow> map_option (apfst (Cons e)) (json_chars ds))))"
  by pat_completeness auto
termination
proof (relation "measure length")
  fix c :: char and cs d ds x n r p
  assume "cs = d # ds" "hex4 ds = Some x" "(n, r) = x" "p = code_point n r"
  then show "(snd p, c # cs) \<in> measure length"
    using hex4_shorter[of ds n r] code_point_shorter[of n r] by auto
qed auto

section \<open>Values\<close>

definition number_char :: "char \<Rightarrow> bool" where
  "number_char c \<longleftrightarrow> is_digit c \<or> c \<in> {CHR ''-'', CHR ''+'', CHR ''.'', CHR ''e'', CHR ''E''}"

definition json_literal :: "string \<Rightarrow> (any \<times> string) option" where
  "json_literal s =
     (if has_prefix s ''true'' then Some (ABool True, drop 4 s) else if has_prefix s ''false'' then Some (ABool False, drop 5 s)
      else if has_prefix s ''null'' then Some (ANil, drop 4 s)
      else if valid_number (takeWhile number_char s) then Some (ANumber (takeWhile number_char s), dropWhile number_char s) else None)"

text \<open>A value, the items of an array after a bracket or a comma, the members of an object after a brace or a comma; the last argument collects the
  members read. The first argument bounds the recursion, the second counts the open brackets, of which the library allows ten thousand.\<close>

fun json_value :: "nat \<Rightarrow> int \<Rightarrow> string \<Rightarrow> (any \<times> string) option"
and json_items :: "nat \<Rightarrow> int \<Rightarrow> string \<Rightarrow> (any list \<times> string) option"
and json_members :: "nat \<Rightarrow> int \<Rightarrow> obj \<Rightarrow> string \<Rightarrow> (obj \<times> string) option" where
  "json_value 0 d s = None"
| "json_value (Suc n) d s = (case skip_space s of
      [] \<Rightarrow> None
    | c # cs \<Rightarrow>
        if c = CHR 0x22 then map_option (apfst AString) (json_chars cs)
        else if c = CHR ''['' then (if d \<ge> 10000 then None else
            case skip_space cs of x # xs \<Rightarrow> if x = CHR '']'' then Some (AList [], xs) else map_option (apfst AList) (json_items n (d + 1) cs) | [] \<Rightarrow> None)
        else if c = CHR ''{'' then (if d \<ge> 10000 then None else
            case skip_space cs of x # xs \<Rightarrow> if x = CHR ''}'' then Some (AObj [], xs) else map_option (apfst AObj) (json_members n (d + 1) [] cs) | [] \<Rightarrow> None)
        else json_literal (c # cs))"
| "json_items 0 d s = None"
| "json_items (Suc n) d s = (case json_value n d s of
      None \<Rightarrow> None
    | Some (v, r) \<Rightarrow> (case skip_space r of
          [] \<Rightarrow> None
        | c # cs \<Rightarrow> if c = CHR '']'' then Some ([v], cs) else if c = CHR '','' then map_option (apfst (Cons v)) (json_items n d cs) else None))"
| "json_members 0 d m s = None"
| "json_members (Suc n) d m s = (case skip_space s of
      [] \<Rightarrow> None
    | q # qs \<Rightarrow> if q \<noteq> CHR 0x22 then None else (case json_chars qs of
          None \<Rightarrow> None
        | Some (k, r) \<Rightarrow> (case skip_space r of
              [] \<Rightarrow> None
            | c # cs \<Rightarrow> if c \<noteq> CHR '':'' then None else (case json_value n d cs of
                  None \<Rightarrow> None
                | Some (v, r') \<Rightarrow> (case skip_space r' of
                      [] \<Rightarrow> None
                    | x # xs \<Rightarrow> if x = CHR ''}'' then Some (obj_set k v m, xs)
                        else if x = CHR '','' then json_members n d (obj_set k v m) xs else None)))))"

definition json_fuel :: "string \<Rightarrow> nat" where
  "json_fuel s = 2 * length s + 1"

text \<open>\<open>decoder.Decode\<close> reads the first value; \<open>json.Unmarshal\<close> accepts only white space after it.\<close>

definition json_first :: "string \<Rightarrow> any option" where
  "json_first s = map_option fst (json_value (json_fuel s) 0 s)"

definition json_parse :: "string \<Rightarrow> any option" where
  "json_parse s = (case json_value (json_fuel s) 0 s of None \<Rightarrow> None | Some (v, r) \<Rightarrow> if skip_space r = [] then Some v else None)"

definition json_valid :: "string \<Rightarrow> bool" where
  "json_valid s \<longleftrightarrow> json_parse s \<noteq> None"

section \<open>Decoding into maps and structs\<close>

text \<open>Without \<open>UseNumber\<close> a number becomes a float. A \<open>map[string]any\<close> takes an object or null.\<close>

fun floats :: "any \<Rightarrow> any" where
  "floats (ANumber s) = AFloat (number_value s)"
| "floats (AList vs) = AList (map floats vs)"
| "floats (AObj m) = AObj (map (\<lambda>(k, v). (k, floats v)) m)"
| "floats v = v"

definition unmarshal_map :: "string \<Rightarrow> obj option" where
  "unmarshal_map s = (case json_parse s of Some (AObj m) \<Rightarrow> Some (as_obj (floats (AObj m))) | Some ANil \<Rightarrow> Some [] | _ \<Rightarrow> None)"

text \<open>The fields of a struct: a missing or null field keeps its zero value, a value of another type is an error.\<close>

definition string_field :: "obj \<Rightarrow> string \<Rightarrow> string option" where
  "string_field m k = (case obj_get m k of ANil \<Rightarrow> Some [] | AString s \<Rightarrow> Some s | _ \<Rightarrow> None)"

definition int_field :: "obj \<Rightarrow> string \<Rightarrow> int option" where
  "int_field m k = (case obj_get m k of ANil \<Rightarrow> Some 0 | AInt n \<Rightarrow> Some n | ANumber s \<Rightarrow> parse_int64 s | _ \<Rightarrow> None)"

definition obj_field :: "obj \<Rightarrow> string \<Rightarrow> obj option" where
  "obj_field m k = (case obj_get m k of ANil \<Rightarrow> Some [] | AObj o' \<Rightarrow> Some o' | _ \<Rightarrow> None)"

definition objs_field :: "obj \<Rightarrow> string \<Rightarrow> obj list option" where
  "objs_field m k = (case obj_get m k of
      ANil \<Rightarrow> Some []
    | AList vs \<Rightarrow> opt_list (map (\<lambda>v. case v of ANil \<Rightarrow> Some [] | AObj o' \<Rightarrow> Some o' | _ \<Rightarrow> None) vs)
    | _ \<Rightarrow> None)"

section \<open>The fuel is enough\<close>

lemma skip_space_length: "length (skip_space s) \<le> length s"
  by (simp add: skip_space_def length_dropWhile_le)

lemma skip_space_Cons: "skip_space s = c # cs \<Longrightarrow> length cs < length s"
  using skip_space_length[of s] by auto

lemma json_chars_shorter: "json_chars s = Some (t, r) \<Longrightarrow> length r < length s"
proof (induction s arbitrary: t r rule: json_chars.induct)
  case (2 c cs)
  show ?case
  proof (cases "c = CHR 0x5C \<and> (\<exists>ds. cs = CHR ''u'' # ds)")
    case True
    then obtain ds where ds: "c = CHR 0x5C" "cs = CHR ''u'' # ds" by blast
    then obtain n r1 where h: "hex4 ds = Some (n, r1)" using "2.prems" by (auto split: option.splits)
    then obtain t' where "json_chars (snd (code_point n r1)) = Some (t', r)" using "2.prems" ds by (auto simp: Let_def)
    from "2.IH"(2)[OF _ _ _ _ _ h _ refl this] ds have "length r < length (snd (code_point n r1))" by simp
    then show ?thesis using code_point_shorter[of n r1] hex4_shorter[OF h] ds by simp
  next
    case False
    then show ?thesis using "2.prems" "2.IH"(1) "2.IH"(3) by (fastforce split: if_splits list.splits option.splits)
  qed
qed simp

lemma json_literal_shorter: "json_literal s = Some (v, r) \<Longrightarrow> length r < length s"
proof -
  assume a: "json_literal s = Some (v, r)"
  have p: "length (drop (length q) s) < length s" if "has_prefix s q" "q \<noteq> []" for q :: string
    using that by (cases s) (auto simp: has_prefix_def)
  have "length (dropWhile number_char s) < length s" if "valid_number (takeWhile number_char s)"
  proof -
    have "takeWhile number_char s \<noteq> []" using that by (auto simp: valid_number_def)
    then show ?thesis by (metis length_append length_greater_0_conv less_add_same_cancel2 takeWhile_dropWhile_id)
  qed
  then show ?thesis using a p[of "''true''"] p[of "''false''"] p[of "''null''"] by (auto simp: json_literal_def split: if_splits)
qed

lemma json_shorter:
  "(\<forall>d s v r. json_value n d s = Some (v, r) \<longrightarrow> length r < length s)
   \<and> (\<forall>d s v r. json_items n d s = Some (v, r) \<longrightarrow> length r < length s)
   \<and> (\<forall>d m s v r. json_members n d m s = Some (v, r) \<longrightarrow> length r < length s)"
proof (induction n)
  case (Suc n)
  note iv = Suc.IH[THEN conjunct1, rule_format] and ii = Suc.IH[THEN conjunct2, THEN conjunct1, rule_format]
    and im = Suc.IH[THEN conjunct2, THEN conjunct2, rule_format]
  have v: "length r < length s" if h: "json_value (Suc n) d s = Some (v, r)" for d s v r
  proof -
    obtain c cs where c: "skip_space s = c # cs" using h by (cases "skip_space s") auto
    note l = skip_space_Cons[OF c]
    consider "c = CHR 0x22" | "c = CHR ''[''" | "c = CHR ''{''" | "c \<notin> {CHR 0x22, CHR ''['', CHR ''{''}" by blast
    then have "length r < Suc (length cs)"
    proof cases
      case 1 then show ?thesis using h c by (auto dest!: json_chars_shorter)
    next
      case 2 then show ?thesis using h c by (auto dest!: ii skip_space_Cons split: if_splits list.splits)
    next
      case 3 then show ?thesis using h c by (auto dest!: im skip_space_Cons split: if_splits list.splits)
    next
      case 4 then show ?thesis using h c by (auto dest!: json_literal_shorter)
    qed
    then show ?thesis using l by simp
  qed
  moreover have "length r < length s" if h: "json_items (Suc n) d s = Some (v, r)" for d s v r
  proof -
    obtain v1 r1 c cs where 1: "json_value n d s = Some (v1, r1)" "skip_space r1 = c # cs" using h by (auto split: option.splits list.splits)
    have "length cs < length s" using iv[OF 1(1)] skip_space_Cons[OF 1(2)] by simp
    then show ?thesis using h 1 by (auto dest!: ii split: if_splits)
  qed
  moreover have "length r < length s" if h: "json_members (Suc n) d m s = Some (v, r)" for d m s v r
  proof -
    obtain q qs k r1 c cs v2 r2 x xs where 1: "skip_space s = q # qs" "json_chars qs = Some (k, r1)" "skip_space r1 = c # cs" "json_value n d cs = Some (v2, r2)"
      "skip_space r2 = x # xs" "x = CHR ''}'' \<and> r = xs \<or> json_members n d (obj_set k v2 m) xs = Some (v, r)"
      using h by (auto split: option.splits list.splits if_splits)
    have "length xs < length s"
      using skip_space_Cons[OF 1(1)] json_chars_shorter[OF 1(2)] skip_space_Cons[OF 1(3)] iv[OF 1(4)] skip_space_Cons[OF 1(5)] by simp
    then show ?thesis using 1(6) by (auto dest!: im)
  qed
  ultimately show ?case by blast
qed simp

lemmas json_value_shorter = json_shorter[THEN conjunct1, rule_format]

declare json_value.simps [simp del] json_items.simps [simp del] json_members.simps [simp del]

text \<open>Fuel in proportion to the length of the text is as good as any larger amount.\<close>

lemma json_fuel_step:
  "(\<forall>d s. 2 * length s + 1 \<le> n \<longrightarrow> json_value (Suc n) d s = json_value n d s)
   \<and> (\<forall>d s. 2 * length s + 2 \<le> n \<longrightarrow> json_items (Suc n) d s = json_items n d s)
   \<and> (\<forall>d m s. 2 * length s + 2 \<le> n \<longrightarrow> json_members (Suc n) d m s = json_members n d m s)"
proof (induction n)
  case (Suc n)
  note iv = Suc.IH[THEN conjunct1, rule_format] and ii = Suc.IH[THEN conjunct2, THEN conjunct1, rule_format]
    and im = Suc.IH[THEN conjunct2, THEN conjunct2, rule_format]
  have "json_value (Suc (Suc n)) d s = json_value (Suc n) d s" if n: "2 * length s + 1 \<le> Suc n" for d s
  proof (cases "skip_space s")
    case (Cons c cs)
    then have "2 * length cs + 2 \<le> n" using n skip_space_Cons[OF Cons] by simp
    then show ?thesis unfolding json_value.simps Cons by (simp add: ii im split: list.split)
  qed (simp add: json_value.simps)
  moreover have "json_items (Suc (Suc n)) d s = json_items (Suc n) d s" if n: "2 * length s + 2 \<le> Suc n" for d s
  proof -
    have v: "json_value (Suc n) d s = json_value n d s" using n by (intro iv) simp
    have "json_items (Suc n) d cs = json_items n d cs" if "json_value n d s = Some (v, r)" "skip_space r = c # cs" for v r c cs
      using json_value_shorter[OF that(1)] skip_space_Cons[OF that(2)] n by (intro ii) simp
    then show ?thesis unfolding json_items.simps(2)[of "Suc n" d s] json_items.simps(2)[of n d s] v by (auto split: option.split list.split)
  qed
  moreover have "json_members (Suc (Suc n)) d m s = json_members (Suc n) d m s" if n: "2 * length s + 2 \<le> Suc n" for d m s
  proof -
    have v: "json_value (Suc n) d cs = json_value n d cs"
      if "skip_space s = q # qs" "json_chars qs = Some (k, r)" "skip_space r = c # cs" for q qs k r c cs
      using skip_space_Cons[OF that(1)] json_chars_shorter[OF that(2)] skip_space_Cons[OF that(3)] n by (intro iv) simp
    have m: "json_members (Suc n) d m' xs = json_members n d m' xs"
      if "skip_space s = q # qs" "json_chars qs = Some (k, r)" "skip_space r = c # cs" "json_value n d cs = Some (v, r')" "skip_space r' = x # xs"
      for q qs k r c cs v r' x xs m'
      using skip_space_Cons[OF that(1)] json_chars_shorter[OF that(2)] skip_space_Cons[OF that(3)] json_value_shorter[OF that(4)]
        skip_space_Cons[OF that(5)] n by (intro im) simp
    show ?thesis unfolding json_members.simps(2)[of "Suc n" d m s] json_members.simps(2)[of n d m s] by (auto simp: v m split: option.split list.split)
  qed
  ultimately show ?case by blast
qed simp

lemma json_fuel_enough: "json_fuel s \<le> n \<Longrightarrow> json_value n d s = json_value (json_fuel s) d s"
proof (induction n rule: dec_induct)
  case (step n)
  then show ?case using json_fuel_step[of n, THEN conjunct1, rule_format, of s d] by (simp add: json_fuel_def)
qed simp

end
