(* ===== verification/Upstream_Failure.thy ===== *)
theory Upstream_Failure
  imports Go_Json
begin

text \<open>
  The classification of upstream failures, \<open>upstream/failure.go\<close>: what a status, the headers and the body of a response say about the
  failure (its class, its code, when to retry), for responses and for error messages that contain one.

  The parsers of dates and the formatting of floats are arguments (\<open>up_env\<close>), the clock is an argument. Of the headers only
  \<open>Retry-After\<close> is read: \<open>None\<close> stands for a nil header map. The regular expressions are scanners; \<open>(?i)\<close> folds ASCII letters.
\<close>

section \<open>Failures\<close>

datatype failure_class = FailureUnknown | FailureLimited | FailureSubscriptionLimit | FailureTransient | FailureCredentialInvalid

record upstream_failure =
  uf_Class :: failure_class
  uf_StatusCode :: int
  uf_Code :: string
  uf_Type :: string
  uf_Message :: string
  uf_Scope :: string
  uf_Reason :: string
  uf_LimitWindow :: string
  uf_LimitReason :: string
  uf_RetryAfterSeconds :: int
  uf_HasRetryAfter :: bool
  uf_ResetAt :: go_time

definition zero_failure :: upstream_failure where
  "zero_failure = \<lparr>uf_Class = FailureUnknown, uf_StatusCode = 0, uf_Code = [], uf_Type = [], uf_Message = [], uf_Scope = [], uf_Reason = [],
     uf_LimitWindow = [], uf_LimitReason = [], uf_RetryAfterSeconds = 0, uf_HasRetryAfter = False, uf_ResetAt = 0\<rparr>"

definition Limited :: "upstream_failure \<Rightarrow> bool" where
  "Limited f \<longleftrightarrow> uf_Class f = FailureLimited \<or> uf_Class f = FailureSubscriptionLimit"

definition SubscriptionLimited :: "upstream_failure \<Rightarrow> bool" where
  "SubscriptionLimited f \<longleftrightarrow> uf_Class f = FailureSubscriptionLimit"

definition Transient :: "upstream_failure \<Rightarrow> bool" where
  "Transient f \<longleftrightarrow> uf_Class f = FailureTransient"

definition CredentialInvalid :: "upstream_failure \<Rightarrow> bool" where
  "CredentialInvalid f \<longleftrightarrow> uf_Class f = FailureCredentialInvalid"

record up_env =
  ue_http_time :: "string \<Rightarrow> go_time option"
  ue_rfc3339 :: "string \<Rightarrow> go_time option"
  ue_float :: "float64 \<Rightarrow> string"

section \<open>Words of the message\<close>

definition limitedCode :: "string \<Rightarrow> bool" where
  "limitedCode v \<longleftrightarrow> v \<in> set
    [''api_key_total_quota_exhausted'', ''api_key_daily_quota_exhausted'', ''api_key_weekly_quota_exhausted'', ''api_key_quota_exhausted'',
      ''usage_limit_reached'', ''usage_limit_exceeded'', ''rate_limit_exceeded'', ''insufficient_quota'', ''insufficient_balance'',
      ''user_platform_daily_quota_exhausted'', ''user_platform_weekly_quota_exhausted'', ''user_platform_monthly_quota_exhausted'']"

definition limited_words :: "string list" where
  "limited_words =
    [''api_key_total_quota_exhausted'', ''api_key_daily_quota_exhausted'', ''api_key_weekly_quota_exhausted'', ''api_key_quota_exhausted'',
      ''usage_limit_reached'', ''insufficient_quota'', ''insufficient_balance'', ''user_platform_daily_quota_exhausted'',
      ''user_platform_weekly_quota_exhausted'', ''user_platform_monthly_quota_exhausted'',
      ''api key '' @ [CHR 0xE9, CHR 0xA2, CHR 0x9D, CHR 0xE5, CHR 0xBA, CHR 0xA6, CHR 0xE5, CHR 0xB7, CHR 0xB2, CHR 0xE7, CHR 0x94, CHR 0xA8, CHR 0xE5, CHR 0xAE, CHR 0x8C],
      ''api key total quota has been exhausted'', ''api key daily quota has been exhausted'', ''api key weekly quota has been exhausted'',
      ''insufficient account balance'', ''insufficient balance'', ''usage quota exhausted for this platform'',
      ''daily usage quota exhausted'', ''weekly usage quota exhausted'', ''monthly usage quota exhausted'']"

definition limitedMessage :: "string \<Rightarrow> bool" where
  "limitedMessage v \<longleftrightarrow> v \<noteq> [] \<and> list_ex (str_contains v) limited_words"

definition credentialInvalidCode :: "string \<Rightarrow> bool" where
  "credentialInvalidCode v \<longleftrightarrow> v \<in> set
    [''invalid_api_key'', ''api_key_required'', ''api_key_disabled'', ''api_key_expired'', ''user_not_found'', ''user_inactive'',
      ''invalid_grant'', ''refresh_token_reused'', ''token_invalidated'', ''unauthorized'']"

definition invalid_words :: "string list" where
  "invalid_words =
    [''invalid_api_key'', ''api_key_required'', ''api_key_disabled'', ''api_key_expired'', ''user_not_found'', ''user_inactive'',
      ''valid api key is required'', ''invalid api key'', ''api key is disabled'', ''api key is required'',
      ''api key '' @ [CHR 0xE5, CHR 0xB7, CHR 0xB2, CHR 0xE8, CHR 0xBF, CHR 0x87, CHR 0xE6, CHR 0x9C, CHR 0x9F], ''refresh_token_reused'',
      ''invalid_grant'', ''token_invalidated'']"

definition credentialInvalidMessage :: "string \<Rightarrow> bool" where
  "credentialInvalidMessage v \<longleftrightarrow> v \<noteq> [] \<and> list_ex (str_contains v) invalid_words"

definition transient_words :: "string list" where
  "transient_words =
    [''context deadline exceeded'', ''i/o timeout'', ''connection refused'', ''connection reset'', ''no such host'', ''unexpected eof'',
      ''tls handshake timeout'']"

definition transientMessage :: "string \<Rightarrow> bool" where
  "transientMessage v \<longleftrightarrow> v \<noteq> [] \<and> list_ex (str_contains v) transient_words"

definition upper_char :: "char \<Rightarrow> char" where
  "upper_char c = (let n = of_char c :: nat in if 97 \<le> n \<and> n \<le> 122 then char_of (n - 32) else c)"

definition to_upper :: "string \<Rightarrow> string" where
  "to_upper s = map upper_char s"

definition normalizeToken :: "string \<Rightarrow> string" where
  "normalizeToken v = to_lower (trim_space v)"

definition limitExceededToken :: "string \<Rightarrow> bool" where
  "limitExceededToken v \<longleftrightarrow> (let token = to_upper (trim_space v) in token = ''LIMIT_EXCEEDED'' \<or> has_suffix token ''_LIMIT_EXCEEDED'')"

definition subscriptionLimitWindow :: "string \<Rightarrow> string" where
  "subscriptionLimitWindow token =
     (if token = ''DAILY_LIMIT_EXCEEDED'' then ''daily'' else if token = ''WEEKLY_LIMIT_EXCEEDED'' then ''weekly''
      else if token = ''MONTHLY_LIMIT_EXCEEDED'' then ''monthly'' else [])"

text \<open>\<open>upperSnakeTokenPattern.FindAllString\<close> for \<open>(?i)[A-Z0-9]+(?:_[A-Z0-9]+)+\<close>. A match takes a run of letters and digits and then all
  runs that follow after single underscores; a run without such a successor starts no match, nor does any of its suffixes.\<close>

definition snake_char :: "char \<Rightarrow> bool" where
  "snake_char c \<longleftrightarrow> (let n = of_char c :: nat in 48 \<le> n \<and> n \<le> 57 \<or> 65 \<le> n \<and> n \<le> 90 \<or> 97 \<le> n \<and> n \<le> 122)"

fun more_runs :: "nat \<Rightarrow> string \<Rightarrow> string \<times> string" where
  "more_runs 0 s = ([], s)"
| "more_runs (Suc n) s = (case s of
      u # c # r \<Rightarrow>
        if u = CHR ''_'' \<and> snake_char c then
          let (t, r') = more_runs n (dropWhile snake_char (c # r)) in (u # takeWhile snake_char (c # r) @ t, r')
        else ([], s)
    | _ \<Rightarrow> ([], s))"

fun snake_tokens :: "nat \<Rightarrow> string \<Rightarrow> string list" where
  "snake_tokens 0 s = []"
| "snake_tokens (Suc n) s = (case s of
      [] \<Rightarrow> []
    | c # r \<Rightarrow>
        if \<not> snake_char c then snake_tokens n r
        else let (t, r') = more_runs n (dropWhile snake_char s)
          in if t = [] then snake_tokens n r' else (takeWhile snake_char s @ t) # snake_tokens n r')"

definition upper_snake_tokens :: "string \<Rightarrow> string list" where
  "upper_snake_tokens s = snake_tokens (Suc (length s)) s"

definition containsLimitExceededToken :: "string \<Rightarrow> bool" where
  "containsLimitExceededToken v = list_ex limitExceededToken (upper_snake_tokens v)"

section \<open>Fields of the payload\<close>

definition decodePayload :: "string \<Rightarrow> obj" where
  "decodePayload body = (case json_first body of Some (AObj m) \<Rightarrow> m | _ \<Rightarrow> [])"

definition nestedMap :: "obj \<Rightarrow> string \<Rightarrow> obj option" where
  "nestedMap m key = (case obj_get m key of AObj o' \<Rightarrow> Some o' | _ \<Rightarrow> None)"

fun firstString :: "up_env \<Rightarrow> any list \<Rightarrow> string" where
  "firstString env [] = []"
| "firstString env (v # vs) = (case v of
      AString s \<Rightarrow> if trim_space s \<noteq> [] then trim_space s else firstString env vs
    | ANumber s \<Rightarrow> s
    | AFloat r \<Rightarrow> ue_float env r
    | _ \<Rightarrow> firstString env vs)"

definition int64Value :: "any \<Rightarrow> int option" where
  "int64Value v = (case v of ANumber s \<Rightarrow> parse_int64 s | AFloat r \<Rightarrow> Some (float_to_int64 r) | AString s \<Rightarrow> parse_int64 (trim_space s) | _ \<Rightarrow> None)"

text \<open>\<open>t.Sub(u)\<close> saturates; \<open>int64(d.Seconds())\<close> cuts the fraction off; \<open>time.Unix\<close> counts from 1970.\<close>

definition time_sub :: "go_time \<Rightarrow> go_time \<Rightarrow> duration" where
  "time_sub t u = max (- (2 ^ 63)) (min (2 ^ 63 - 1) (t - u))"

definition whole_seconds :: "duration \<Rightarrow> int" where
  "whole_seconds d = (if 0 \<le> d then d div 1000000000 else - (- d div 1000000000))"

definition unix_time :: "int \<Rightarrow> go_time" where
  "unix_time n = wrap64 (n + 62135596800) * 1000000000"

fun first_positive :: "any list \<Rightarrow> int option" where
  "first_positive [] = None"
| "first_positive (v # vs) = (case int64Value v of
      Some n \<Rightarrow> if n > 0 then Some n else first_positive vs
    | None \<Rightarrow> first_positive vs)"

definition retryAfterSeconds :: "up_env \<Rightarrow> string option \<Rightarrow> obj \<Rightarrow> obj \<Rightarrow> go_time \<Rightarrow> int \<times> bool" where
  "retryAfterSeconds env header errorPayload payload now =
     (let fields = (case first_positive [obj_get errorPayload ''retry_after_seconds'', obj_get errorPayload ''resets_in_seconds'',
            obj_get payload ''retry_after_seconds'', obj_get payload ''resets_in_seconds''] of Some n \<Rightarrow> (n, True) | None \<Rightarrow> (0, False))
      in case header of
          None \<Rightarrow> fields
        | Some h \<Rightarrow>
            let value = trim_space h;
                by_date = (case ue_http_time env value of
                    Some retryAt \<Rightarrow> if retryAt > now then (whole_seconds (time_sub retryAt now), True) else fields
                  | None \<Rightarrow> fields)
            in case parse_int64 value of Some n \<Rightarrow> if n > 0 then (n, True) else by_date | None \<Rightarrow> by_date)"

fun first_reset :: "up_env \<Rightarrow> any list \<Rightarrow> go_time" where
  "first_reset env [] = 0"
| "first_reset env (v # vs) = (case v of
      AString s \<Rightarrow> (case ue_rfc3339 env (trim_space s) of Some t \<Rightarrow> t | None \<Rightarrow> first_reset env vs)
    | ANumber s \<Rightarrow> (case parse_int64 s of Some n \<Rightarrow> if n > 0 then unix_time n else first_reset env vs | None \<Rightarrow> first_reset env vs)
    | AFloat r \<Rightarrow> if r > 0 then unix_time (float_to_int64 r) else first_reset env vs
    | _ \<Rightarrow> first_reset env vs)"

definition resetAt :: "up_env \<Rightarrow> obj \<Rightarrow> obj \<Rightarrow> go_time" where
  "resetAt env errorPayload payload =
     first_reset env [obj_get errorPayload ''reset_at'', obj_get errorPayload ''resets_at'', obj_get payload ''reset_at'', obj_get payload ''resets_at'']"

section \<open>Classification\<close>

text \<open>The loop over the structured fields of \<open>subscriptionLimitDetails\<close>: a window ends it, another limit ends it without a window,
  the usage limit is remembered.\<close>

datatype structured_limit = LimitFound string string | LimitOther | LimitUsage string

fun structured_loop :: "string \<Rightarrow> string list \<Rightarrow> structured_limit" where
  "structured_loop usageReason [] = LimitUsage usageReason"
| "structured_loop usageReason (v # vs) =
     (let token = to_upper (trim_space v) in
      if subscriptionLimitWindow token \<noteq> [] then LimitFound (subscriptionLimitWindow token) token
      else if token = ''USAGE_LIMIT_EXCEEDED'' then structured_loop token vs
      else if limitExceededToken token then LimitOther
      else structured_loop usageReason vs)"

definition subscriptionLimitDetails :: "upstream_failure \<Rightarrow> string \<Rightarrow> string \<times> string" where
  "subscriptionLimitDetails f rawBody = (case structured_loop [] [uf_Reason f, uf_Code f, uf_Type f] of
      LimitFound w t \<Rightarrow> (w, t)
    | LimitOther \<Rightarrow> ([], [])
    | LimitUsage usageReason \<Rightarrow>
        let tokens = map (\<lambda>t. to_upper (trim_space t)) (upper_snake_tokens rawBody) in
        case find (\<lambda>t. subscriptionLimitWindow t \<noteq> []) tokens of
            Some t \<Rightarrow> (subscriptionLimitWindow t, t)
          | None \<Rightarrow> if usageReason \<noteq> [] then (''usage'', usageReason)
              else if ''USAGE_LIMIT_EXCEEDED'' \<in> set tokens then (''usage'', ''USAGE_LIMIT_EXCEEDED'') else ([], []))"

definition classifyFailure :: "upstream_failure \<Rightarrow> string \<Rightarrow> failure_class" where
  "classifyFailure f rawBody =
     (let code = normalizeToken (uf_Code f); typeName = normalizeToken (uf_Type f);
          message = to_lower (trim_space (uf_Message f)); raw = to_lower (trim_space rawBody); status = uf_StatusCode f in
      if limitedCode code \<or> limitedCode typeName \<or> limitExceededToken (uf_Reason f) \<or> containsLimitExceededToken raw
          \<or> limitedMessage message \<or> limitedMessage raw then FailureLimited
      else if credentialInvalidCode code \<or> credentialInvalidCode typeName \<or> credentialInvalidMessage message \<or> credentialInvalidMessage raw
        then FailureCredentialInvalid
      else if status = 429 then FailureLimited
      else if status = 408 \<or> status = 425 \<or> status \<ge> 500 \<or> transientMessage message \<or> transientMessage raw then FailureTransient
      else FailureUnknown)"

definition payload_failure :: "up_env \<Rightarrow> int \<Rightarrow> string option \<Rightarrow> obj \<Rightarrow> go_time \<Rightarrow> upstream_failure" where
  "payload_failure env statusCode header payload now =
     (let errorPayload = (case nestedMap payload ''error'' of Some m \<Rightarrow> m | None \<Rightarrow> payload);
          (secs, has) = retryAfterSeconds env header errorPayload payload now; reset = resetAt env errorPayload payload
      in zero_failure\<lparr>uf_StatusCode := statusCode,
        uf_Code := firstString env [obj_get errorPayload ''code'', obj_get payload ''code''],
        uf_Type := firstString env [obj_get errorPayload ''type'', obj_get payload ''type''],
        uf_Message := firstString env [obj_get errorPayload ''message'', obj_get payload ''message'', obj_get payload ''detail''],
        uf_Scope := firstString env [obj_get errorPayload ''scope'', obj_get payload ''scope''],
        uf_Reason := firstString env [obj_get errorPayload ''reason'', obj_get payload ''reason''],
        uf_RetryAfterSeconds := (if secs \<le> 0 \<and> reset \<noteq> 0 \<and> reset > now then whole_seconds (time_sub reset now) else secs),
        uf_HasRetryAfter := has, uf_ResetAt := reset\<rparr>)"

definition classifyResponseAt :: "up_env \<Rightarrow> int \<Rightarrow> string option \<Rightarrow> string \<Rightarrow> go_time \<Rightarrow> upstream_failure" where
  "classifyResponseAt env statusCode header body now =
     (let f = payload_failure env statusCode header (decodePayload body) now;
          (window, reason) = subscriptionLimitDetails f body;
          f = f\<lparr>uf_LimitWindow := window, uf_LimitReason := reason\<rparr>
      in f\<lparr>uf_Class := (if window \<noteq> [] then FailureSubscriptionLimit else classifyFailure f body)\<rparr>)"

text \<open>With the zero time the exported function reads the clock.\<close>

definition ClassifyResponseAt :: "up_env \<Rightarrow> int \<Rightarrow> string option \<Rightarrow> string \<Rightarrow> go_time \<Rightarrow> go_time \<Rightarrow> upstream_failure" where
  "ClassifyResponseAt env statusCode header body now clock = classifyResponseAt env statusCode header body (if now = 0 then clock else now)"

section \<open>Errors and messages\<close>

text \<open>\<open>statusCodePattern\<close>: a keyword, an optional sign, three digits that end a word. The rests after a keyword are tried in the order of
  the alternatives.\<close>

definition re_space :: "char \<Rightarrow> bool" where
  "re_space c \<longleftrightarrow> c \<in> {CHR 0x09, CHR 0x0A, CHR 0x0C, CHR 0x0D, CHR '' ''}"

definition after_word :: "string \<Rightarrow> string \<Rightarrow> string list" where
  "after_word w s = (if has_prefix s w then [drop (length w) s] else [])"

definition spaced_word :: "string \<Rightarrow> string \<Rightarrow> string list" where
  "spaced_word w s = (if s \<noteq> [] \<and> re_space (hd s) then after_word w (dropWhile re_space s) else [])"

definition keyword_rests :: "string \<Rightarrow> string list" where
  "keyword_rests s = after_word ''returned'' s
     @ concat (map (\<lambda>r. concat (map (\<lambda>r. spaced_word ''was'' r @ [r]) (after_word ''_code'' r @ [r]))) (after_word ''status'' s))
     @ after_word ''http'' s
     @ concat (map (spaced_word ''with'') (after_word ''responded'' s))"

definition digits_at :: "string \<Rightarrow> int option" where
  "digits_at s0 =
     (let s = dropWhile re_space s0;
          s = (case s of c # r \<Rightarrow> if c = CHR ''='' \<or> c = CHR '':'' then r else s | [] \<Rightarrow> s);
          s = dropWhile re_space s
      in case s of
          a # b # c # r \<Rightarrow>
            if a \<in> {CHR ''1'', CHR ''2'', CHR ''3'', CHR ''4'', CHR ''5''} \<and> is_digit b \<and> is_digit c
              \<and> (r = [] \<or> \<not> (snake_char (hd r) \<or> hd r = CHR ''_'')) then parse_digits 0 [a, b, c] else None
        | _ \<Rightarrow> None)"

fun find_status :: "string \<Rightarrow> int option" where
  "find_status [] = None"
| "find_status (c # cs) = (case List.map_filter digits_at (keyword_rests (c # cs)) of n # _ \<Rightarrow> Some n | [] \<Rightarrow> find_status cs)"

definition statusCodeFromMessage :: "string \<Rightarrow> int" where
  "statusCodeFromMessage message = (case find_status (to_lower message) of Some n \<Rightarrow> n | None \<Rightarrow> 0)"

definition jsonBodyFromMessage :: "string \<Rightarrow> string" where
  "jsonBodyFromMessage message =
     (let s = dropWhile (\<lambda>c. c \<noteq> CHR ''{'') message in rev (dropWhile (\<lambda>c. c \<noteq> CHR ''}'') (rev s)))"

definition ClassifyMessage :: "up_env \<Rightarrow> string \<Rightarrow> go_time \<Rightarrow> upstream_failure" where
  "ClassifyMessage env message now =
     (let body = jsonBodyFromMessage message;
          f = classifyResponseAt env (statusCodeFromMessage message) None (if body = [] then message else body) now
      in if uf_Message f = [] then f\<lparr>uf_Message := trim_space message\<rparr> else f)"

text \<open>An error is one of a response, one of the network or the context, or another; each has its text.\<close>

record http_error =
  he_Prefix :: string
  he_Body :: string
  he_Failure :: upstream_failure

datatype go_error = HTTPError http_error | NetError string | ContextError string | OtherError string

definition NewHTTPError :: "up_env \<Rightarrow> string \<Rightarrow> int \<Rightarrow> string option \<Rightarrow> string \<Rightarrow> go_time \<Rightarrow> http_error" where
  "NewHTTPError env prefix statusCode header body now =
     \<lparr>he_Prefix = trim_space prefix, he_Body = body, he_Failure = classifyResponseAt env statusCode header body now\<rparr>"

definition http_error_text :: "http_error \<Rightarrow> string" where
  "http_error_text e =
     (let prefix = (if trim_space (he_Prefix e) = [] then ''upstream returned'' else trim_space (he_Prefix e))
      in prefix @ '' '' @ int_text (uf_StatusCode (he_Failure e)) @ '': '' @ trim_space (he_Body e))"

definition ClassifyError :: "up_env \<Rightarrow> go_error option \<Rightarrow> go_time \<Rightarrow> upstream_failure" where
  "ClassifyError env err now = (case err of
      None \<Rightarrow> zero_failure
    | Some (HTTPError e) \<Rightarrow> he_Failure e
    | Some (NetError m) \<Rightarrow> zero_failure\<lparr>uf_Class := FailureTransient, uf_Message := m\<rparr>
    | Some (ContextError m) \<Rightarrow> zero_failure\<lparr>uf_Class := FailureTransient, uf_Message := m\<rparr>
    | Some (OtherError m) \<Rightarrow> ClassifyMessage env m now)"

section \<open>A classified response survives its error text\<close>

text \<open>The status is found in the text of the error.\<close>

lemma nat_digits_three:
  assumes "100 \<le> n" "n < 1000"
  shows "nat_digits n = [char_of (48 + n div 100), char_of (48 + n div 10 mod 10), char_of (48 + n mod 10)]"
proof -
  have b: "\<not> n < 10" "\<not> n div 10 < 10" "n div 10 div 10 < 10" using assms by (simp_all add: div_less_iff_less_mult)
  have "nat_digits n = nat_digits (n div 10) @ [char_of (48 + n mod 10)]" by (subst nat_digits.simps) (simp only: b if_False)
  moreover have "nat_digits (n div 10) = nat_digits (n div 10 div 10) @ [char_of (48 + n div 10 mod 10)]" by (subst nat_digits.simps) (simp only: b if_False)
  moreover have "nat_digits (n div 10 div 10) = [char_of (48 + n div 10 div 10)]" by (subst nat_digits.simps) (simp only: b if_True)
  ultimately show ?thesis by (simp add: div_mult2_eq[symmetric])
qed

lemma digits_at_status:
  assumes "100 \<le> status" "status \<le> 599"
  shows "digits_at ('' '' @ int_text status @ '': '' @ r) = Some status"
proof -
  define n where "n = nat status"
  have n: "100 \<le> n" "n \<le> 599" "status = int n" using assms by (simp_all add: n_def)
  have t: "int_text status = [char_of (48 + n div 100), char_of (48 + n div 10 mod 10), char_of (48 + n mod 10)]"
    using nat_digits_three[of n] n by (simp add: int_text_def)
  have d: "n div 100 < 10" "n div 10 mod 10 < 10" "n mod 10 < 10" "1 \<le> n div 100" "n div 100 \<le> 5" using n by (auto simp: div_le_mono dest: div_le_mono[of _ _ 100])
  have "n div 100 = 1 \<or> n div 100 = 2 \<or> n div 100 = 3 \<or> n div 100 = 4 \<or> n div 100 = 5" using d(4,5) by auto
  moreover have digits: "char_of (49 :: nat) = CHR ''1''" "char_of (50 :: nat) = CHR ''2''" "char_of (51 :: nat) = CHR ''3''" "char_of (52 :: nat) = CHR ''4''"
    "char_of (53 :: nat) = CHR ''5''" by code_simp+
  ultimately have h: "char_of (48 + n div 100) \<in> {CHR ''1'', CHR ''2'', CHR ''3'', CHR ''4'', CHR ''5''}"
    using digits by auto
  define a b c where "a = char_of (48 + n div 100)" and "b = char_of (48 + n div 10 mod 10)" and "c = char_of (48 + n mod 10)"
  have dv: "digit_val a = Some (n div 100)" "digit_val b = Some (n div 10 mod 10)" "digit_val c = Some (n mod 10)"
    unfolding a_def b_def c_def using d by (intro digit_val_digit; simp)+
  have "parse_digits 0 [a, b, c] = Some (int (n div 100) * 100 + int (n div 10 mod 10) * 10 + int (n mod 10))" by (simp add: dv)
  also have "int (n div 100) * 100 + int (n div 10 mod 10) * 10 + int (n mod 10) = int n"
  proof -
    have "n div 100 = n div 10 div 10" by (simp add: div_mult2_eq[symmetric])
    moreover have "n div 10 div 10 * 10 + n div 10 mod 10 = n div 10" "n div 10 * 10 + n mod 10 = n" by simp_all
    ultimately show ?thesis by linarith
  qed
  finally have p: "parse_digits 0 [a, b, c] = Some status" using n(3) by simp
  have a: "a \<in> {CHR ''1'', CHR ''2'', CHR ''3'', CHR ''4'', CHR ''5''}" using h by (simp add: a_def)
  then have s: "\<not> re_space a" "a \<noteq> CHR ''=''" "a \<noteq> CHR '':''" by (auto simp: re_space_def)
  have x: "'' '' @ int_text status @ '': '' @ r = CHR '' '' # a # b # c # CHR '':'' # CHR '' '' # r" by (simp add: t a_def b_def c_def)
  have e: "\<not> (snake_char (CHR '':'') \<or> CHR '':'' = CHR ''_'')" "re_space (CHR '' '')" by (simp_all add: snake_char_def re_space_def)
  show ?thesis unfolding x digits_at_def Let_def using a s e dv p by (simp add: is_digit_def del: parse_digits.simps)
qed

lemma find_status_skip: "keyword_rests (c # cs) = [] \<Longrightarrow> find_status (c # cs) = find_status cs"
  by (simp add: List.map_filter_def)

lemma find_status_returned: "digits_at r = Some n \<Longrightarrow> find_status (''returned'' @ r) = Some n"
  by (simp add: keyword_rests_def after_word_def has_prefix_def List.map_filter_def)

text \<open>The prefixes that the adapters use.\<close>

definition adapter_prefixes :: "string list" where
  "adapter_prefixes = [''upstream returned'', ''OpenCode Go models returned'']"

lemma find_status_adapter:
  assumes "prefix \<in> set adapter_prefixes" "digits_at (to_lower r) = Some n"
  shows "find_status (to_lower (prefix @ r)) = Some n"
proof -
  have p: "to_lower (prefix @ r) \<in> {''upstream '' @ ''returned'' @ to_lower r, ''opencode go models '' @ ''returned'' @ to_lower r}"
  proof -
    have "to_lower ''upstream returned'' = ''upstream returned''" "to_lower ''OpenCode Go models returned'' = ''opencode go models returned''" by code_simp+
    then show ?thesis using assms(1) by (auto simp: adapter_prefixes_def to_lower_def)
  qed
  have "find_status (''upstream '' @ ''returned'' @ to_lower r) = Some n" "find_status (''opencode go models '' @ ''returned'' @ to_lower r) = Some n"
    using find_status_returned[OF assms(2)]
    by (simp_all add: find_status_skip keyword_rests_def after_word_def has_prefix_def del: find_status.simps)
  then show ?thesis using p by auto
qed

lemma to_lower_int_text: "0 \<le> n \<Longrightarrow> to_lower (int_text n) = int_text n"
proof -
  have "lower_char (char_of (48 + d)) = char_of (48 + d)" if "d < 10" for d :: nat
    using that by (simp add: lower_char_def)
  then have "to_lower (nat_digits m) = nat_digits m" for m
  proof (induction m rule: nat_digits.induct)
    case (1 m)
    then show ?case by (subst (1 2) nat_digits.simps) (simp add: to_lower_def)
  qed
  then show "0 \<le> n \<Longrightarrow> to_lower (int_text n) = int_text n" by (simp add: int_text_def)
qed

lemma no_brace_int_text: "CHR ''{'' \<notin> set (int_text n)"
proof -
  have "char_of (48 + d) \<noteq> CHR ''{''" if "d < 10" for d :: nat
  proof -
    have "digit_val (CHR ''{'') = None" by code_simp
    then show ?thesis using digit_val_digit[OF that] by auto
  qed
  then have "CHR ''{'' \<notin> set (nat_digits m)" for m
  proof (induction m rule: nat_digits.induct)
    case (1 m)
    then show ?case by (subst nat_digits.simps) (auto simp: eq_commute[of "CHR ''{''"])
  qed
  then show ?thesis by (simp add: int_text_def)
qed

lemma json_body_found:
  assumes "CHR ''{'' \<notin> set p" "body = ''{'' @ b @ ''}''"
  shows "jsonBodyFromMessage (p @ body) = body"
proof -
  have "dropWhile (\<lambda>c. c \<noteq> CHR ''{'') (p @ body) = body"
    using assms by (induction p) auto
  then show ?thesis using assms(2) by (simp add: jsonBodyFromMessage_def)
qed

text \<open>C22. The text of an HTTP error loses nothing of the classification but the headers: for the prefixes the adapters use, a status
  between 100 and 599 and a body that is a JSON object, classifying the stored message gives what classifying the response
  itself without headers gives; only a message that the body does not have is filled in.\<close>

theorem error_text_keeps_classification:
  assumes "prefix \<in> set adapter_prefixes" "100 \<le> status" "status \<le> 599" "body = ''{'' @ b @ ''}''"
  shows "ClassifyMessage env (http_error_text (NewHTTPError env prefix status header body now)) now
     = (let f = classifyResponseAt env status None body now
        in if uf_Message f = [] then f\<lparr>uf_Message := http_error_text (NewHTTPError env prefix status header body now)\<rparr> else f)"
proof -
  let ?r = "'' '' @ int_text status @ '': '' @ body"
  have tp: "trim_space prefix = prefix" "prefix \<noteq> []" "CHR ''{'' \<notin> set prefix"
    using assms(1) by (auto simp: adapter_prefixes_def intro!: trim_space_fixed) (simp_all add: is_space_def)
  have tb: "trim_space body = body" using assms(4) by (intro trim_space_fixed) (simp_all add: is_space_def)
  have st: "uf_StatusCode (he_Failure (NewHTTPError env prefix status header body now)) = status"
    by (simp add: NewHTTPError_def classifyResponseAt_def payload_failure_def zero_failure_def Let_def split: prod.split)
  have txt_eq: "http_error_text (NewHTTPError env prefix status header body now) = prefix @ ?r"
    unfolding http_error_text_def st by (simp add: NewHTTPError_def tp tb)
  have "to_lower ?r = '' '' @ int_text status @ '': '' @ to_lower body"
    using to_lower_int_text[of status] assms(2) by (simp add: to_lower_def lower_char_def)
  then have "statusCodeFromMessage (prefix @ ?r) = status"
    unfolding statusCodeFromMessage_def using find_status_adapter[OF assms(1), of ?r status] digits_at_status[OF assms(2,3)] by simp
  moreover have "jsonBodyFromMessage (prefix @ ?r) = body"
    using json_body_found[of "prefix @ '' '' @ int_text status @ '': ''", OF _ assms(4)] tp(3) no_brace_int_text by simp
  moreover have "trim_space (prefix @ ?r) = prefix @ ?r"
    using tp assms(1,4) by (intro trim_space_fixed) (auto simp: adapter_prefixes_def is_space_def)
  moreover have "body \<noteq> []" using assms(4) by simp
  ultimately show ?thesis unfolding txt_eq ClassifyMessage_def Let_def by simp
qed

definition demo_up_env :: up_env where
  "demo_up_env = \<lparr>ue_http_time = (\<lambda>_. None), ue_rfc3339 = (\<lambda>_. None), ue_float = (\<lambda>_. [])\<rparr>"

definition demo_error_body :: string where
  "demo_error_body = [CHR ''{'', CHR 0x22, CHR ''c'', CHR ''o'', CHR ''d'', CHR ''e'', CHR 0x22, CHR '':'', CHR 0x22] @ ''DAILY_LIMIT_EXCEEDED'' @ [CHR 0x22, CHR ''}'']"

theorem error_text_keeps_classification_witness:
  "uf_Class (ClassifyMessage demo_up_env (http_error_text (NewHTTPError demo_up_env ''upstream returned'' 429 None demo_error_body 5)) 5) = FailureSubscriptionLimit"
proof -
  obtain b where "demo_error_body = ''{'' @ b @ ''}''" by (simp add: demo_error_body_def)
  from error_text_keeps_classification[of "''upstream returned''" 429, OF _ _ _ this, of demo_up_env None 5]
  have "uf_Class (ClassifyMessage demo_up_env (http_error_text (NewHTTPError demo_up_env ''upstream returned'' 429 None demo_error_body 5)) 5)
      = uf_Class (classifyResponseAt demo_up_env 429 None demo_error_body 5)"
    by (simp add: adapter_prefixes_def Let_def)
  also have "\<dots> = FailureSubscriptionLimit" by code_simp
  finally show ?thesis .
qed

end
