(* ===== verification/Stream_Events.thy ===== *)
theory Stream_Events
  imports Go_Json Image_Policy Model_Rules Credential_Window
begin

text \<open>
  The canonical events between the stream of an upstream and the stream of a client, of \<open>gateway/protocol_canonical_stream.go\<close>, and
  what its encoders share: the capture that is kept of a stream, the names and policies of the protocol specification, the
  annotations of events that are not passed on, the check of tool arguments, and the writing of server-sent events.

  An encoder is a step on its state: a function that returns an error or nothing, and the state after it (\<open>step\<close>). A sequence of
  calls, each followed by \<open>if err != nil\<close>, is \<open>steps\<close>. The writer is the argument \<open>ee_write\<close>, which tells for each event whether it can
  still be written; an event is written as a whole. The resolved specification of the protocol is an argument (its event names and its
  policies for reasoning). Counters of events and blocks are unbounded.
\<close>

section \<open>Events\<close>

datatype event_type = EvCreated | EvTextDelta | EvToolCallDelta | EvReasoningDelta | EvAdvanced | EvAnnotationAdded | EvUsage
  | EvCompleted | EvIncomplete | EvError

fun event_type_name :: "event_type \<Rightarrow> string" where
  "event_type_name EvCreated = ''created''"
| "event_type_name EvTextDelta = ''text_delta''"
| "event_type_name EvToolCallDelta = ''tool_call_delta''"
| "event_type_name EvReasoningDelta = ''reasoning_delta''"
| "event_type_name EvAdvanced = ''advanced_event''"
| "event_type_name EvAnnotationAdded = ''annotation_added''"
| "event_type_name EvUsage = ''usage''"
| "event_type_name EvCompleted = ''completed''"
| "event_type_name EvIncomplete = ''incomplete''"
| "event_type_name EvError = ''error''"

record stream_event =
  ev_Type :: event_type
  ev_ID :: string
  ev_Model :: string
  ev_CreatedAt :: int
  ev_Delta :: string
  ev_Usage :: gateway_usage
  ev_FinishReason :: string
  ev_StopSequence :: string
  ev_ErrorMessage :: string
  ev_Annotation :: any
  ev_ReasoningKind :: string
  ev_ReasoningEventName :: string
  ev_AdvancedKind :: string
  ev_AdvancedPhase :: string
  ev_AdvancedEventName :: string
  ev_AdvancedPayload :: "obj option"
  ev_ToolCallIndex :: int
  ev_ToolCallID :: string
  ev_ToolCallName :: string
  ev_ToolCallArgumentsDelta :: string
  ev_ToolCallMetadata :: obj

definition zero_usage :: gateway_usage where
  "zero_usage = \<lparr>gu_PromptTokens = 0, gu_CompletionTokens = 0, gu_TotalTokens = 0, gu_ImageCount = 0, gu_CachedPromptTokens = 0,
     gu_PromptCacheHitTokens = 0, gu_PromptCacheMissTokens = 0, gu_CacheWriteTokens = 0, gu_CacheCreationInputTokens = 0,
     gu_CacheCreation5mInputTokens = 0, gu_CacheCreation1hInputTokens = 0, gu_ReasoningTokens = 0, gu_InputTextTokens = 0,
     gu_InputImageTokens = 0, gu_OutputImageTokens = 0, gu_AudioOutputTokens = 0, gu_PromptTokensDetail = None\<rparr>"

definition event_of :: "event_type \<Rightarrow> stream_event" where
  "event_of t = \<lparr>ev_Type = t, ev_ID = [], ev_Model = [], ev_CreatedAt = 0, ev_Delta = [], ev_Usage = zero_usage, ev_FinishReason = [],
     ev_StopSequence = [], ev_ErrorMessage = [], ev_Annotation = ANil, ev_ReasoningKind = [], ev_ReasoningEventName = [],
     ev_AdvancedKind = [], ev_AdvancedPhase = [], ev_AdvancedEventName = [], ev_AdvancedPayload = None, ev_ToolCallIndex = 0,
     ev_ToolCallID = [], ev_ToolCallName = [], ev_ToolCallArgumentsDelta = [], ev_ToolCallMetadata = []\<rparr>"

text \<open>What is kept of a stream; the latency of its first byte is left out.\<close>

record semantic_failure =
  sx_Code :: string
  sx_Message :: string
  sx_Body :: string

record capture =
  cap_responseModel :: string
  cap_usage :: gateway_usage
  cap_sawDone :: bool
  cap_streamCompleted :: bool
  cap_endReason :: string
  cap_errorDetail :: string
  cap_semanticFailure :: "semantic_failure option"
  cap_malformedLines :: int
  cap_annotations :: "any list"
  cap_preOutputEventsBuffered :: int
  cap_preOutputFailureDeferred :: bool

definition new_capture :: capture where
  "new_capture = \<lparr>cap_responseModel = [], cap_usage = zero_usage, cap_sawDone = False, cap_streamCompleted = False, cap_endReason = [], cap_errorDetail = [], cap_semanticFailure = None,
     cap_malformedLines = 0, cap_annotations = [], cap_preOutputEventsBuffered = 0, cap_preOutputFailureDeferred = False\<rparr>"

definition appendStreamAnnotation :: "any \<Rightarrow> capture \<Rightarrow> capture" where
  "appendStreamAnnotation annotation c = (if annotation = ANil then c else c\<lparr>cap_annotations := cap_annotations c @ [annotation]\<rparr>)"

definition gatewayUsageAvailable :: "gateway_usage \<Rightarrow> bool" where
  "gatewayUsageAvailable u \<longleftrightarrow> gu_TotalTokens u > 0 \<or> gu_PromptTokens u > 0 \<or> gu_CompletionTokens u > 0 \<or> gu_CachedPromptTokens u > 0
     \<or> gu_ReasoningTokens u > 0"

definition usage_reported :: "gateway_usage \<Rightarrow> bool" where
  "usage_reported u \<longleftrightarrow> gu_TotalTokens u > 0 \<or> gu_PromptTokens u > 0 \<or> gu_CompletionTokens u > 0"

definition take_usage :: "gateway_usage \<Rightarrow> capture \<Rightarrow> capture" where
  "take_usage u c = (if usage_reported u then c\<lparr>cap_usage := u\<rparr> else c)"

section \<open>Names and policies\<close>

fun nonEmptyString :: "string list \<Rightarrow> string" where
  "nonEmptyString [] = []"
| "nonEmptyString (v # vs) = (if trim_space v \<noteq> [] then trim_space v else nonEmptyString vs)"

definition responseIDOrFallback :: "string \<Rightarrow> string" where
  "responseIDOrFallback i = (if trim_space i = [] then ''chatcmpl-xlyra'' else trim_space i)"

record enc_env =
  ee_write :: "nat \<Rightarrow> bool"
  ee_events :: "(string \<times> string) list"
  ee_reasoning :: "(string \<times> string) list"
  ee_IncludeUsage :: bool
  ee_RequireUsage :: bool
  ee_SiteType :: string
  ee_CustomTools :: "string list"
  ee_ResponseTools :: "(string \<times> string \<times> string) list"

definition protocolEventName :: "enc_env \<Rightarrow> event_type \<Rightarrow> string \<Rightarrow> string" where
  "protocolEventName env t fallback = (case map_of (ee_events env) (event_type_name t) of
      Some name \<Rightarrow> if trim_space name \<noteq> [] then trim_space name else fallback
    | None \<Rightarrow> fallback)"

definition policy_at :: "enc_env \<Rightarrow> string \<Rightarrow> string" where
  "policy_at env kind = (case map_of (ee_reasoning env) kind of None \<Rightarrow> [] | Some p \<Rightarrow> trim_space p)"

definition reasoningPolicyForProtocol :: "enc_env \<Rightarrow> string \<Rightarrow> string" where
  "reasoningPolicyForProtocol env kind0 =
     (let kind = trim_space kind0 in
      if kind \<noteq> [] \<and> policy_at env kind \<noteq> [] then policy_at env kind
      else if policy_at env ''default'' \<noteq> [] then policy_at env ''default'' else ''metadata'')"

section \<open>Annotations\<close>

definition redactedReasoningAnnotation :: "stream_event \<Rightarrow> any" where
  "redactedReasoningAnnotation e = AObj [(''type'', AString (nonEmptyString [ev_ReasoningEventName e, ev_ReasoningKind e, event_type_name (ev_Type e)])),
     (''value'', AString ''[redacted]'')]"

definition isSensitiveAdvancedKey :: "string \<Rightarrow> bool" where
  "isSensitiveAdvancedKey key0 =
     (let key = to_lower (trim_space key0) in
      list_ex (str_contains key) [''authorization'', ''api_key'', ''apikey'', ''access_token'', ''refresh_token'', ''secret'', ''password'', ''credential'']
      \<or> key = ''key'' \<or> key = ''token'')"

text \<open>\<open>sanitizeAdvancedPayload\<close>; the first argument is the number of levels below the limit, 7 at the top. The keys of a map are visited in
  the order of the list.\<close>

fun sanitizeAdvancedPayload :: "nat \<Rightarrow> any \<Rightarrow> any" where
  "sanitizeAdvancedPayload 0 v = AString ''[truncated]''"
| "sanitizeAdvancedPayload (Suc n) (AObj m) =
     (let out = map (\<lambda>(k, v). (k, if isSensitiveAdvancedKey k then AString ''[redacted]'' else sanitizeAdvancedPayload n v)) (take 64 m)
      in AObj (if length m > 64 then obj_set ''_truncated'' (ABool True) out else out))"
| "sanitizeAdvancedPayload (Suc n) (AList vs) =
     AList (map (sanitizeAdvancedPayload n) (take 64 vs) @ (if length vs > 64 then [AString ''[truncated]''] else []))"
| "sanitizeAdvancedPayload (Suc n) (AString s) = AString (if length s > 4096 then take 4096 s @ ''...[truncated]'' else s)"
| "sanitizeAdvancedPayload (Suc n) v = v"

definition sanitizeAdvancedMap :: "obj \<Rightarrow> obj" where
  "sanitizeAdvancedMap m = as_obj (sanitizeAdvancedPayload 7 (AObj m))"

definition advancedStreamAnnotation :: "stream_event \<Rightarrow> any" where
  "advancedStreamAnnotation e = AObj ([(''type'', AString (nonEmptyString [ev_AdvancedEventName e, ev_AdvancedKind e, event_type_name (ev_Type e)])),
      (''kind'', AString (nonEmptyString [ev_AdvancedKind e, ''provider_event''])),
      (''phase'', AString (nonEmptyString [ev_AdvancedPhase e, ''event''])), (''value'', AString ''[advanced_event]'')]
     @ (if ev_ToolCallID e \<noteq> [] then [(''call_id'', AString (ev_ToolCallID e))] else [])
     @ (if ev_ToolCallName e \<noteq> [] then [(''name'', AString (ev_ToolCallName e))] else [])
     @ (case ev_AdvancedPayload e of None \<Rightarrow> [] | Some m \<Rightarrow> [(''payload'', AObj (sanitizeAdvancedMap m))]))"

section \<open>Steps of an encoder\<close>

datatype stream_error = WriteFailed | UpstreamFailed string | UsageMissing | ArgumentsInvalid string

type_synonym 's step = "'s \<Rightarrow> stream_error option \<times> 's"

fun steps :: "'s step list \<Rightarrow> 's step" where
  "steps [] s = (None, s)"
| "steps (f # fs) s = (case f s of (None, s') \<Rightarrow> steps fs s' | (Some e, s') \<Rightarrow> (Some e, s'))"

text \<open>For evaluation: what follows a step is evaluated once its result is known.\<close>

definition after :: "'s step list \<Rightarrow> stream_error option \<times> 's \<Rightarrow> stream_error option \<times> 's" where
  "after fs r = (case r of (None, s) \<Rightarrow> steps fs s | (Some e, s) \<Rightarrow> (Some e, s))"

lemma steps_code [code]: "steps [] s = (None, s)" "steps (f # fs) s = after fs (f s)"
  by (simp_all add: after_def)

lemma after_code [code]: "after fs (None, s) = steps fs s" "after fs (Some e, s) = (Some e, s)"
  by (simp_all add: after_def)

definition upd :: "('s \<Rightarrow> 's) \<Rightarrow> 's step" where
  "upd f s = (None, f s)"

definition cond :: "('s \<Rightarrow> bool) \<Rightarrow> 's step \<Rightarrow> 's step" where
  "cond b f s = (if b s then f s else (None, s))"

definition unless :: "('s \<Rightarrow> bool) \<Rightarrow> 's step \<Rightarrow> 's step" where
  "unless b f s = (if b s then (None, s) else f s)"

text \<open>An event on the wire: its name and its payload.\<close>

type_synonym wire = "string \<times> obj"

definition validateToolCallArguments :: "string \<Rightarrow> string \<Rightarrow> stream_error option" where
  "validateToolCallArguments callID arguments0 =
     (let arguments = trim_space arguments0 in
      if arguments = [] then None
      else if json_valid arguments then None
      else Some (ArgumentsInvalid (nonEmptyString [callID, ''unknown''])))"

text \<open>What holds after a sequence of steps that returns no error.\<close>

lemma steps_none: "steps (f # fs) s = (None, s') \<longleftrightarrow> (\<exists>s1. f s = (None, s1) \<and> steps fs s1 = (None, s'))"
  by (auto split: prod.split option.split)

lemma steps_nil [simp]: "steps [] s = (None, s') \<longleftrightarrow> s' = s"
  by auto

declare steps.simps(2) [simp del]
declare steps_none [simp]

lemma steps_snoc: "steps (fs @ [f]) s = (None, s') \<longleftrightarrow> (\<exists>s1. steps fs s = (None, s1) \<and> f s1 = (None, s'))"
  by (induction fs arbitrary: s) auto

lemma upd_none [simp]: "upd f s = (None, s') \<longleftrightarrow> s' = f s"
  by (auto simp: upd_def)

text \<open>A property of states that every step keeps, with or without an error.\<close>

definition keeps :: "('s \<Rightarrow> bool) \<Rightarrow> 's step \<Rightarrow> bool" where
  "keeps P f \<longleftrightarrow> (\<forall>s. P s \<longrightarrow> P (snd (f s)))"

lemma keeps_steps: "list_all (keeps P) fs \<Longrightarrow> keeps P (steps fs)"
proof (induction fs)
  case (Cons f fs)
  then show ?case by (auto simp: keeps_def steps.simps(2) split: prod.split option.split)
qed (simp add: keeps_def)

lemma keeps_unless: "keeps P f \<Longrightarrow> keeps P (unless b f)" "keeps P f \<Longrightarrow> keeps P (cond b f)"
  by (auto simp: keeps_def unless_def cond_def)

lemma keeps_upd: "keeps P (upd f) \<longleftrightarrow> (\<forall>s. P s \<longrightarrow> P (f s))"
  by (simp add: keeps_def upd_def)

lemma keeps_error: "keeps P (\<lambda>s. (err, f s)) \<longleftrightarrow> (\<forall>s. P s \<longrightarrow> P (f s))"
  by (simp add: keeps_def)

lemma keeps_at: "\<forall>x. keeps P (f x) \<Longrightarrow> keeps P (\<lambda>s. f (g s) s)"
  by (simp add: keeps_def)

lemma keeps_case: "list_all (keeps P) [c1, c2, c3, c4, c5, c6, c7, c8, c9, c10] \<Longrightarrow> keeps P (case t of EvCreated \<Rightarrow> c1 | EvTextDelta \<Rightarrow> c2
    | EvToolCallDelta \<Rightarrow> c3 | EvReasoningDelta \<Rightarrow> c4 | EvAdvanced \<Rightarrow> c5 | EvAnnotationAdded \<Rightarrow> c6 | EvUsage \<Rightarrow> c7 | EvCompleted \<Rightarrow> c8 | EvIncomplete \<Rightarrow> c9
    | EvError \<Rightarrow> c10)"
  by (cases t) simp_all

lemmas keeps_simps = keeps_steps keeps_unless keeps_upd keeps_error keeps_case

text \<open>What the loop that converts streams relies on of an encoder: the capture they share can be read and set, setting it writes nothing, and
  what was written stays.\<close>

definition grown :: "('e \<Rightarrow> 'w list) \<Rightarrow> 'w list \<Rightarrow> 'e \<Rightarrow> bool" where
  "grown out ws e \<longleftrightarrow> (\<exists>vs. out e = ws @ vs)"

locale stream_encoder =
  fixes enc :: "stream_event \<Rightarrow> 'e step" and capture_of :: "'e \<Rightarrow> capture" and set_capture :: "capture \<Rightarrow> 'e \<Rightarrow> 'e" and out :: "'e \<Rightarrow> 'w list"
  assumes capture_set: "capture_of (set_capture c e) = c"
    and out_set: "out (set_capture c e) = out e"
    and out_grows: "keeps (grown out ws) (enc ev)"

section \<open>Contents of events\<close>

text \<open>The contents an event carries: its text, its thinking if the policy passes it on, its part of the input of a tool call.\<close>

definition text_of :: "stream_event \<Rightarrow> string" where
  "text_of ev = (if ev_Type ev = EvTextDelta then ev_Delta ev else [])"

definition thinking_of :: "enc_env \<Rightarrow> string \<Rightarrow> stream_event \<Rightarrow> string" where
  "thinking_of env kind ev = (if ev_Type ev = EvReasoningDelta \<and> reasoningPolicyForProtocol env (ev_ReasoningKind ev) = ''passthrough''
     \<and> ev_ReasoningKind ev = kind then ev_Delta ev else [])"

definition input_part :: "string \<Rightarrow> stream_event \<Rightarrow> string" where
  "input_part callID ev = (if ev_Type ev = EvToolCallDelta \<and> callID \<noteq> [] \<and> trim_space (ev_ToolCallID ev) = callID then ev_ToolCallArgumentsDelta ev else [])"

section \<open>Sanitised payloads hold no secrets\<close>

fun redacted :: "any \<Rightarrow> bool" where
  "redacted (AObj m) \<longleftrightarrow> list_all (\<lambda>(k, v). if isSensitiveAdvancedKey k then v = AString ''[redacted]'' else redacted v) m"
| "redacted (AList vs) \<longleftrightarrow> list_all redacted vs"
| "redacted v \<longleftrightarrow> True"

lemma redacted_truncation: "redacted (AObj m) \<Longrightarrow> redacted (AObj (obj_set ''_truncated'' (ABool True) m))"
proof -
  have k: "\<not> isSensitiveAdvancedKey ''_truncated''" by code_simp
  assume "redacted (AObj m)"
  then show ?thesis
    unfolding obj_set_def by (induction m) (auto simp: k)
qed

lemma sanitized_redacted: "redacted (sanitizeAdvancedPayload n v)"
proof (induction n v rule: sanitizeAdvancedPayload.induct)
  case (2 n m)
  let ?out = "map (\<lambda>(k, v). (k, if isSensitiveAdvancedKey k then AString ''[redacted]'' else sanitizeAdvancedPayload n v)) (take 64 m)"
  have "redacted (AObj ?out)"
    using 2 by (fastforce simp: list_all_iff)
  then show ?case using redacted_truncation[of ?out] by (simp only: sanitizeAdvancedPayload.simps Let_def simp_thms split: if_split)
next
  case (3 n vs)
  then show ?case by (auto simp: list_all_iff)
qed simp_all

end
