(* ===== verification/Upstream_Error.thy ===== *)
theory Upstream_Error
  imports Upstream_Failure Stream_Events Gateway_Cooldown
begin

text \<open>
  How the gateway takes a failed response of an upstream: \<open>classifyGatewayUpstreamErrorWithTimeZone\<close> of \<open>gateway/codex.go\<close> with the
  classifiers of the sites (\<open>gateway/codex.go\<close>, \<open>gateway/antigravity.go\<close>, \<open>gateway/opencode_go.go\<close>), the verdict of a plugin
  (\<open>gateway/error_classifier_plugin.go\<close>), the reset time of a quota probe (\<open>site/quota_probe.go\<close>) and the header \<open>Retry-After\<close>.

  The calendar of the configured time zone, the parsers and printers of dates and durations and the plugin are arguments (\<open>class_env\<close>).
  The metadata of the credential is an argument. Fields of the result that only describe it in the log are left out.
\<close>

section \<open>Data\<close>

record class_env =
  xe_up :: up_env
  xe_format :: "go_time \<Rightarrow> string"
  xe_rfc3339nano :: "string \<Rightarrow> go_time option"
  xe_duration :: "string \<Rightarrow> duration option"
  xe_plugin :: "string \<Rightarrow> string \<Rightarrow> int \<Rightarrow> string \<Rightarrow> string \<Rightarrow> string \<Rightarrow> (failure_class \<times> string) option"
  xe_StartOfDay :: "go_time \<Rightarrow> go_time"
  xe_StartOfWeek :: "go_time \<Rightarrow> go_time"
  xe_AddDays :: "go_time \<Rightarrow> int \<Rightarrow> go_time"
  xe_NextMonth :: "go_time \<Rightarrow> go_time"

record codex_error =
  xc_StatusCode :: int
  xc_ErrorType :: string
  xc_ErrorMessage :: string
  xc_CooldownReason :: string
  xc_CooldownScope :: string
  xc_CooldownDuration :: duration
  xc_CooldownMetadata :: obj
  xc_RetryAfterSeconds :: int

section \<open>Codex\<close>

definition codex_error_payload :: "obj \<Rightarrow> obj" where
  "codex_error_payload payload = as_obj (obj_get payload ''error'')"

definition codexErrorType :: "string \<Rightarrow> string" where
  "codexErrorType body = (case unmarshal_map body of
      None \<Rightarrow> [] | Some payload \<Rightarrow> trim_space (anyString (obj_get (codex_error_payload payload) ''type'')))"

fun first_text :: "any list \<Rightarrow> string \<Rightarrow> string" where
  "first_text [] fallback = fallback"
| "first_text (v # vs) fallback = (if trim_space (anyString v) \<noteq> [] then trim_space (anyString v) else first_text vs fallback)"

definition codexErrorMessage :: "string \<Rightarrow> string \<Rightarrow> string" where
  "codexErrorMessage body fallback = (case unmarshal_map body of
      None \<Rightarrow> fallback
    | Some payload \<Rightarrow> first_text [obj_get (codex_error_payload payload) ''message'', obj_get payload ''message'', obj_get payload ''detail''] fallback)"

definition isCodexModelCapacityError :: "string \<Rightarrow> bool" where
  "isCodexModelCapacityError body \<longleftrightarrow> body \<noteq> [] \<and> list_ex (\<lambda>candidate.
     let lower = to_lower (trim_space candidate) in
     str_contains lower ''selected model is at capacity'' \<or> str_contains lower ''model is at capacity. please try a different model'')
     [codexErrorMessage body [], body]"

definition int64FromAny :: "any \<Rightarrow> int option" where
  "int64FromAny v = (case v of
      AInt n \<Rightarrow> Some n
    | AFloat r \<Rightarrow> Some (float_to_int64 r)
    | ANumber s \<Rightarrow> parse_int64 s
    | AString s \<Rightarrow> parse_int64 (trim_space s)
    | _ \<Rightarrow> None)"

definition positive_int64 :: "any \<Rightarrow> int option" where
  "positive_int64 v = (case int64FromAny v of Some n \<Rightarrow> if n > 0 then Some n else None | None \<Rightarrow> None)"

definition parseCodexRetryAfter :: "string \<Rightarrow> go_time \<Rightarrow> duration \<times> int" where
  "parseCodexRetryAfter body now =
     (if body = [] then (0, 0)
      else case unmarshal_map body of
          None \<Rightarrow> (0, 0)
        | Some payload \<Rightarrow>
            let errorPayload = codex_error_payload payload;
                delay = (case positive_int64 (obj_get errorPayload ''resets_in_seconds'') of Some n \<Rightarrow> (wrap64 (n * seconds 1), n) | None \<Rightarrow> (0, 0))
            in case positive_int64 (obj_get errorPayload ''resets_at'') of
                Some n \<Rightarrow> if unix_time n > now then (time_sub (unix_time n) now, whole_seconds (time_sub (unix_time n) now)) else delay
              | None \<Rightarrow> delay)"

definition classifyCodexUpstreamError :: "int \<Rightarrow> string \<Rightarrow> go_time \<Rightarrow> codex_error option" where
  "classifyCodexUpstreamError statusCode body now =
     (if isCodexModelCapacityError body then
        Some \<lparr>xc_StatusCode = 429, xc_ErrorType = ''codex_model_capacity'', xc_ErrorMessage = codexErrorMessage body ''Codex selected model is at capacity'',
          xc_CooldownReason = ''codex_model_capacity'', xc_CooldownScope = ''model'', xc_CooldownDuration = minutes 2, xc_CooldownMetadata = [],
          xc_RetryAfterSeconds = 0\<rparr>
      else if statusCode = 429 \<and> codexErrorType body = ''usage_limit_reached'' then
        let (d0, s0) = parseCodexRetryAfter body now;
            (d, s) = (if d0 \<le> 0 then (minutes 5, 300) else (d0, s0))
        in Some \<lparr>xc_StatusCode = 429, xc_ErrorType = ''codex_usage_limit_reached'', xc_ErrorMessage = codexErrorMessage body ''Codex usage limit reached'',
          xc_CooldownReason = CooldownReasonCodexUsageLimitReached, xc_CooldownScope = ''credential'', xc_CooldownDuration = d, xc_CooldownMetadata = [],
          xc_RetryAfterSeconds = s\<rparr>
      else None)"

section \<open>Antigravity\<close>

definition antigravityErrorPayload :: "string \<Rightarrow> obj" where
  "antigravityErrorPayload body = (if body = [] then [] else case unmarshal_map body of None \<Rightarrow> [] | Some payload \<Rightarrow> as_obj (obj_get payload ''error''))"

definition detailsFromAny :: "any \<Rightarrow> obj list" where
  "detailsFromAny v = (case as_list v of None \<Rightarrow> [] | Some vs \<Rightarrow> List.map_filter (\<lambda>v. case v of AObj m \<Rightarrow> Some m | _ \<Rightarrow> None) vs)"

definition detail_reason :: "obj \<Rightarrow> string" where
  "detail_reason raw =
     (let reason = trim_space (anyString (obj_get raw ''reason'')) in
      if reason = [] then trim_space (anyString (obj_get (as_obj (obj_get raw ''metadata'')) ''reason'')) else reason)"

definition antigravityErrorReason :: "string \<Rightarrow> string" where
  "antigravityErrorReason body =
     (let errorPayload = antigravityErrorPayload body in
      case find (\<lambda>r. r \<noteq> []) (map detail_reason (detailsFromAny (obj_get errorPayload ''details''))) of
        Some r \<Rightarrow> r | None \<Rightarrow> trim_space (anyString (obj_get errorPayload ''status'')))"

definition antigravityErrorMessage :: "string \<Rightarrow> string \<Rightarrow> string" where
  "antigravityErrorMessage body fallback =
     (let errorPayload = antigravityErrorPayload body in first_text [obj_get errorPayload ''message'', obj_get errorPayload ''status''] fallback)"

definition parseAntigravityDuration :: "class_env \<Rightarrow> string \<Rightarrow> duration option" where
  "parseAntigravityDuration env value0 =
     (let value = trim_space value0 in
      if value = [] then None else case xe_duration env value of Some d \<Rightarrow> if d \<le> 0 then None else Some d | None \<Rightarrow> None)"

fun antigravity_delay :: "class_env \<Rightarrow> go_time \<Rightarrow> obj list \<Rightarrow> duration \<times> int" where
  "antigravity_delay env now [] = (0, 0)"
| "antigravity_delay env now (raw # rest) =
     (let metadata = as_obj (obj_get raw ''metadata'');
          stamp = trim_space (anyString (obj_get metadata ''quotaResetTimeStamp''));
          delays = (case List.map_filter (\<lambda>v. parseAntigravityDuration env (anyString v)) [obj_get raw ''retryDelay'', obj_get metadata ''quotaResetDelay''] of
              d # _ \<Rightarrow> (d, whole_seconds d) | [] \<Rightarrow> antigravity_delay env now rest)
      in if stamp = [] then delays
         else case xe_rfc3339nano env stamp of
             Some t \<Rightarrow> if t > now then (time_sub t now, whole_seconds (time_sub t now)) else delays
           | None \<Rightarrow> delays)"

definition parseAntigravityRetryAfter :: "class_env \<Rightarrow> string \<Rightarrow> go_time \<Rightarrow> duration \<times> int" where
  "parseAntigravityRetryAfter env body now = antigravity_delay env now (detailsFromAny (obj_get (antigravityErrorPayload body) ''details''))"

definition classifyAntigravityUpstreamError :: "class_env \<Rightarrow> int \<Rightarrow> string \<Rightarrow> go_time \<Rightarrow> codex_error option" where
  "classifyAntigravityUpstreamError env statusCode body now =
     (let reason = antigravityErrorReason body in
      if statusCode \<noteq> 429 \<or> reason \<notin> {''QUOTA_EXHAUSTED'', ''RATE_LIMIT_EXCEEDED''} then None
      else let (d0, s0) = parseAntigravityRetryAfter env body now;
            (d, s) = (if d0 \<le> 0 then (minutes 5, 300) else (d0, s0))
        in Some \<lparr>xc_StatusCode = 429, xc_ErrorType = ''antigravity_model_rate_limited'',
          xc_ErrorMessage = antigravityErrorMessage body ''Antigravity model quota exhausted'', xc_CooldownReason = ''antigravity_model_rate_limited'',
          xc_CooldownScope = ''model'', xc_CooldownDuration = d, xc_CooldownMetadata = [], xc_RetryAfterSeconds = s\<rparr>)"

section \<open>OpenCode Go\<close>

definition isOpenCodeGoSite :: "string \<Rightarrow> bool" where
  "isOpenCodeGoSite siteType = equal_fold (trim_space siteType) ''opencode_go''"

text \<open>The fields of the payload: type and message of the error, workspace and name of the limit.\<close>

definition decode_go_limit :: "string \<Rightarrow> (string \<times> string \<times> string \<times> string) option" where
  "decode_go_limit body = (case json_parse body of
      Some (AObj m) \<Rightarrow> Option.bind (obj_field m ''error'') (\<lambda>e. Option.bind (obj_field m ''metadata'') (\<lambda>d. Option.bind (string_field e ''type'') (\<lambda>t.
        Option.bind (string_field e ''message'') (\<lambda>msg. Option.bind (string_field d ''workspace'') (\<lambda>w. Option.bind (string_field d ''limitName'') (\<lambda>l.
        Some (t, msg, w, l)))))))
    | Some ANil \<Rightarrow> Some ([], [], [], [])
    | _ \<Rightarrow> None)"

definition classifyOpenCodeGoUsageLimit :: "class_env \<Rightarrow> candidate \<Rightarrow> attempt_result \<Rightarrow> string \<Rightarrow> go_time \<Rightarrow> attempt_result option" where
  "classifyOpenCodeGoUsageLimit env cand r body now =
     (if \<not> isOpenCodeGoSite (cs_SiteType (cand_Site cand)) \<or> ar_upstreamStatusCode r \<noteq> 429 then None
      else case decode_go_limit body of
          None \<Rightarrow> None
        | Some (t, msg, workspace, limitName) \<Rightarrow>
            if \<not> equal_fold (trim_space t) ''GoUsageLimitError'' then None
            else let d = openCodeGoUsageLimitCooldownDuration r in
              Some (r\<lparr>ar_errorType := ''opencode_go_usage_limit'', ar_errorMessage := nonEmptyString [trim_space msg, ar_errorMessage r],
                ar_cooldownReason := CooldownReasonOpenCodeGoUsageLimitReached, ar_cooldownScope := ''credential'', ar_cooldownDuration := d,
                ar_cooldownMetadata := [(''limit_name'', AString (trim_space limitName)), (''workspace'', AString (trim_space workspace)),
                  (''reset_at'', AString (xe_format env (now + d))), (''observed_at'', AString (xe_format env now))]\<rparr>))"

section \<open>The verdict of a plugin\<close>

fun utf8_valid :: "string \<Rightarrow> bool" where
  "utf8_valid [] = True"
| "utf8_valid (c # cs) =
     (let n = of_char c :: nat; tail = (\<lambda>b lo hi. lo \<le> (of_char b :: nat) \<and> (of_char b :: nat) \<le> hi) in
      if n < 128 then utf8_valid cs
      else case cs of
          [] \<Rightarrow> False
        | b1 # r1 \<Rightarrow>
            if 194 \<le> n \<and> n \<le> 223 then tail b1 128 191 \<and> utf8_valid r1
            else case r1 of
                [] \<Rightarrow> False
              | b2 # r2 \<Rightarrow>
                  if 224 \<le> n \<and> n \<le> 239 then
                    tail b1 (if n = 224 then 160 else 128) (if n = 237 then 159 else 191) \<and> tail b2 128 191 \<and> utf8_valid r2
                  else case r2 of
                      [] \<Rightarrow> False
                    | b3 # r3 \<Rightarrow> 240 \<le> n \<and> n \<le> 244 \<and> tail b1 (if n = 240 then 144 else 128) (if n = 244 then 143 else 191)
                        \<and> tail b2 128 191 \<and> tail b3 128 191 \<and> utf8_valid r3)"

function cut_invalid :: "string \<Rightarrow> string" where
  "cut_invalid s = (if s \<noteq> [] \<and> \<not> utf8_valid s then cut_invalid (butlast s) else s)"
  by pat_completeness auto
termination by (relation "measure length") auto

declare cut_invalid.simps [simp del]

definition errorClassifierMessageLimit :: nat where "errorClassifierMessageLimit = 1024"

definition clipMessage :: "string \<Rightarrow> nat \<Rightarrow> string" where
  "clipMessage message limit = (if length message \<le> limit then message else cut_invalid (take limit message))"

definition applyErrorClassifierPlugin :: "class_env \<Rightarrow> candidate \<Rightarrow> int \<Rightarrow> upstream_failure \<Rightarrow> upstream_failure" where
  "applyErrorClassifierPlugin env cand statusCode f =
     (let pluginID = cs_ErrorClassifierPlugin (cand_Site cand) in
      if pluginID = [] then f
      else case xe_plugin env pluginID (cs_SiteType (cand_Site cand)) statusCode (uf_Code f) (uf_Type f) (clipMessage (uf_Message f) errorClassifierMessageLimit) of
          None \<Rightarrow> f
        | Some (cls, reason) \<Rightarrow> if cls = FailureUnknown then f else f\<lparr>uf_Class := cls, uf_Reason := trim_space reason\<rparr>)"

section \<open>The reset of a subscription\<close>

record probe_entry =
  pe_Label :: string
  pe_Remaining :: "float64 option"
  pe_ResetAt :: "string option"

definition decode_probe_entry :: "obj \<Rightarrow> probe_entry option" where
  "decode_probe_entry m = Option.bind (string_field m ''label'') (\<lambda>l.
     Option.bind (case obj_get m ''remaining'' of ANil \<Rightarrow> Some None | ANumber s \<Rightarrow> Some (Some (number_value s)) | AFloat r \<Rightarrow> Some (Some r) | _ \<Rightarrow> None) (\<lambda>rem.
     Option.bind (case obj_get m ''reset_at'' of ANil \<Rightarrow> Some None | AString s \<Rightarrow> Some (Some s) | _ \<Rightarrow> None) (\<lambda>t.
     Some \<lparr>pe_Label = l, pe_Remaining = rem, pe_ResetAt = t\<rparr>)))"

text \<open>The stored result of the last probe: status, time and entries.\<close>

definition decode_probe :: "up_env \<Rightarrow> any \<Rightarrow> (string \<times> go_time \<times> probe_entry list) option" where
  "decode_probe env v = (case v of
      AObj m \<Rightarrow> Option.bind (string_field m ''status'') (\<lambda>status.
        Option.bind (case obj_get m ''fetched_at'' of ANil \<Rightarrow> Some 0 | AString s \<Rightarrow> ue_rfc3339 env s | _ \<Rightarrow> None) (\<lambda>fetched.
        Option.bind (objs_field m ''entries'') (\<lambda>es. Option.bind (opt_list (map decode_probe_entry es)) (\<lambda>entries. Some (status, fetched, entries)))))
    | ANil \<Rightarrow> Some ([], 0, [])
    | _ \<Rightarrow> None)"

definition entry_reset :: "up_env \<Rightarrow> string \<Rightarrow> go_time \<Rightarrow> probe_entry \<Rightarrow> go_time option" where
  "entry_reset env window now e = (case (pe_Remaining e, pe_ResetAt e) of
      (Some rem, Some t) \<Rightarrow>
        if equal_fold (trim_space (pe_Label e)) window \<and> rem \<le> 0 then
          (case ue_rfc3339 env (trim_space t) of Some at' \<Rightarrow> if at' > now then Some at' else None | None \<Rightarrow> None)
        else None
    | _ \<Rightarrow> None)"

definition quotaProbeResetAt :: "up_env \<Rightarrow> string \<times> go_time \<times> probe_entry list \<Rightarrow> string \<Rightarrow> go_time \<Rightarrow> go_time option" where
  "quotaProbeResetAt env result limitWindow now =
     (case result of (status, fetched, entries) \<Rightarrow>
        let window = to_lower (trim_space limitWindow) in
        if \<not> equal_fold (trim_space status) ''ok'' \<or> fetched = 0 \<or> fetched > now then None
        else if window \<notin> {''daily'', ''weekly'', ''monthly''} then None
        else case List.map_filter (entry_reset env window now) entries of t # _ \<Rightarrow> Some t | [] \<Rightarrow> None)"

definition CredentialQuotaProbeResetAt :: "up_env \<Rightarrow> json_raw \<Rightarrow> string \<Rightarrow> go_time \<Rightarrow> go_time option" where
  "CredentialQuotaProbeResetAt env meta limitWindow now = (case meta of
      JDoc (AObj m) \<Rightarrow> (case map_of m ''quota_probe'' of
          None \<Rightarrow> None
        | Some raw \<Rightarrow> (case decode_probe env raw of None \<Rightarrow> None | Some result \<Rightarrow> quotaProbeResetAt env result limitWindow now))
    | _ \<Rightarrow> None)"

definition subscriptionLimitCalendarResetAt :: "class_env \<Rightarrow> go_time \<Rightarrow> string \<Rightarrow> go_time" where
  "subscriptionLimitCalendarResetAt env now window0 =
     (let window = to_lower (trim_space window0) in
      if window = ''weekly'' then xe_AddDays env (xe_StartOfWeek env now) 7
      else if window = ''monthly'' then xe_NextMonth env (xe_StartOfDay env now)
      else xe_AddDays env (xe_StartOfDay env now) 1)"

text \<open>The time of the reset and the seconds told to the client; the caller passes a time that is not zero.\<close>

definition subscriptionLimitResetAt :: "class_env \<Rightarrow> json_raw \<Rightarrow> attempt_result \<Rightarrow> upstream_failure \<Rightarrow> go_time \<Rightarrow> go_time \<times> int" where
  "subscriptionLimitResetAt env meta r f now =
     (if ar_retryAfterSeconds r > 0 then (now + wrap64 (ar_retryAfterSeconds r * seconds 1), ar_retryAfterSeconds r)
      else if uf_HasRetryAfter f \<and> uf_RetryAfterSeconds f > 0 then (now + wrap64 (uf_RetryAfterSeconds f * seconds 1), uf_RetryAfterSeconds f)
      else if uf_ResetAt f > now then (uf_ResetAt f, ceil_seconds (time_sub (uf_ResetAt f) now))
      else case CredentialQuotaProbeResetAt (xe_up env) meta (uf_LimitWindow f) now of
          Some t \<Rightarrow> (t, ceil_seconds (time_sub t now))
        | None \<Rightarrow> let t = subscriptionLimitCalendarResetAt env now (uf_LimitWindow f) in (t, ceil_seconds (time_sub t now)))"

section \<open>The classification of a result\<close>

definition subscription_error :: "class_env \<Rightarrow> json_raw \<Rightarrow> attempt_result \<Rightarrow> upstream_failure \<Rightarrow> go_time \<Rightarrow> codex_error" where
  "subscription_error env meta r f now =
     (let (t, secs) = subscriptionLimitResetAt env meta r f now in
      \<lparr>xc_StatusCode = ar_statusCode r, xc_ErrorType = ''upstream_subscription_limit_exceeded'', xc_ErrorMessage = nonEmptyString [uf_Message f, ar_errorMessage r],
       xc_CooldownReason = CooldownReasonUpstreamSubscriptionLimitExceeded, xc_CooldownScope = ''credential'', xc_CooldownDuration = time_sub t now,
       xc_CooldownMetadata = [(''limit_window'', AString (uf_LimitWindow f)), (''upstream_code'', AString (uf_Code f)), (''upstream_reason'', AString (uf_LimitReason f)),
         (''reset_at'', AString (xe_format env t))], xc_RetryAfterSeconds = secs\<rparr>)"

definition limited_error :: "attempt_result \<Rightarrow> upstream_failure \<Rightarrow> codex_error" where
  "limited_error r f =
     (let secs = (if uf_RetryAfterSeconds f \<le> 0 then ar_retryAfterSeconds r else uf_RetryAfterSeconds f);
          d = wrap64 (secs * seconds 1); balance = equal_fold (uf_Code f) ''INSUFFICIENT_BALANCE'' in
      \<lparr>xc_StatusCode = ar_statusCode r, xc_ErrorType = ''upstream_credential_limited'', xc_ErrorMessage = nonEmptyString [uf_Message f, ar_errorMessage r],
       xc_CooldownReason = (if balance then CooldownReasonUpstreamInsufficientBalance else CooldownReasonUpstreamCredentialLimited),
       xc_CooldownScope = ''credential'', xc_CooldownDuration = (if balance \<and> d \<le> 0 then minutes 30 else d), xc_CooldownMetadata = [],
       xc_RetryAfterSeconds = secs\<rparr>)"

definition invalid_error :: "attempt_result \<Rightarrow> upstream_failure \<Rightarrow> codex_error" where
  "invalid_error r f =
     \<lparr>xc_StatusCode = ar_statusCode r, xc_ErrorType = ''upstream_credential_invalid'', xc_ErrorMessage = nonEmptyString [uf_Message f, ar_errorMessage r],
      xc_CooldownReason = CooldownReasonUpstreamCredentialUnauthorized, xc_CooldownScope = ''credential'',
      xc_CooldownDuration = credentialUnauthorizedCooldownDuration, xc_CooldownMetadata = [], xc_RetryAfterSeconds = 0\<rparr>"

definition general_error :: "class_env \<Rightarrow> json_raw \<Rightarrow> candidate \<Rightarrow> attempt_result \<Rightarrow> string \<Rightarrow> go_time \<Rightarrow> codex_error option" where
  "general_error env meta cand r body now =
     (let f = applyErrorClassifierPlugin env cand (ar_upstreamStatusCode r) (classifyResponseAt (xe_up env) (ar_upstreamStatusCode r) None body now) in
      if SubscriptionLimited f then Some (subscription_error env meta r f now)
      else if Limited f then Some (limited_error r f)
      else if CredentialInvalid f then Some (invalid_error r f)
      else None)"

definition site_error :: "class_env \<Rightarrow> candidate \<Rightarrow> attempt_result \<Rightarrow> string \<Rightarrow> go_time \<Rightarrow> codex_error option" where
  "site_error env cand r body now =
     (if isAntigravitySite (cs_SiteType (cand_Site cand)) then classifyAntigravityUpstreamError env (ar_upstreamStatusCode r) body now
      else if isCodexSite (cs_SiteType (cand_Site cand)) then classifyCodexUpstreamError (ar_upstreamStatusCode r) body now
      else None)"

definition take_error :: "codex_error \<Rightarrow> attempt_result \<Rightarrow> attempt_result" where
  "take_error c r = r\<lparr>ar_statusCode := xc_StatusCode c, ar_errorType := xc_ErrorType c, ar_errorMessage := xc_ErrorMessage c, ar_cooldownReason := xc_CooldownReason c,
     ar_cooldownScope := xc_CooldownScope c, ar_cooldownDuration := xc_CooldownDuration c, ar_cooldownMetadata := xc_CooldownMetadata c,
     ar_retryAfterSeconds := xc_RetryAfterSeconds c\<rparr>"

definition classifyGatewayUpstreamError :: "class_env \<Rightarrow> json_raw \<Rightarrow> candidate \<Rightarrow> attempt_result \<Rightarrow> string \<Rightarrow> go_time \<Rightarrow> attempt_result" where
  "classifyGatewayUpstreamError env meta cand r body now = (case classifyOpenCodeGoUsageLimit env cand r body now of
      Some r' \<Rightarrow> r'
    | None \<Rightarrow> (case site_error env cand r body now of
          Some c \<Rightarrow> take_error c r
        | None \<Rightarrow> (case general_error env meta cand r body now of Some c \<Rightarrow> take_error c r | None \<Rightarrow> r)))"

definition applyRetryAfterHeader :: "up_env \<Rightarrow> string \<Rightarrow> go_time \<Rightarrow> attempt_result \<Rightarrow> attempt_result" where
  "applyRetryAfterHeader env header now r =
     (if ar_retryAfterSeconds r > 0 \<or> ar_upstreamStatusCode r \<noteq> 429 then r
      else let raw = trim_space header in
        if raw = [] then r
        else let by_date = (case ue_http_time env raw of
              Some t \<Rightarrow> if whole_seconds (time_sub t now) > 0 then r\<lparr>ar_retryAfterSeconds := whole_seconds (time_sub t now)\<rparr> else r
            | None \<Rightarrow> r)
          in case parse_int64 raw of Some n \<Rightarrow> if n > 0 then r\<lparr>ar_retryAfterSeconds := n\<rparr> else by_date | None \<Rightarrow> by_date)"

section \<open>A limit concerns the credential\<close>

text \<open>The longest delay in seconds that a duration can hold.\<close>

definition max_delay_seconds :: int where "max_delay_seconds = 9223372036"

lemma delay_positive: "0 < n \<Longrightarrow> n \<le> max_delay_seconds \<Longrightarrow> wrap64 (n * seconds 1) = n * seconds 1 \<and> 0 < n * seconds 1"
  by (simp add: max_delay_seconds_def seconds_def wrap64_eqI)

lemma time_sub_positive: "u < t \<Longrightarrow> 0 < time_sub t u"
  by (simp add: time_sub_def)

lemma map_filter_ConsD: "List.map_filter f xs = y # ys \<Longrightarrow> \<exists>x. f x = Some y"
  by (induction xs) (auto simp: List.map_filter_simps split: option.splits)

lemma probe_reset_later:
  assumes "CredentialQuotaProbeResetAt env meta window now = Some t"
  shows "now < t"
proof -
  obtain status fetched entries where "quotaProbeResetAt env (status, fetched, entries) window now = Some t"
    using assms by (auto simp: CredentialQuotaProbeResetAt_def split: json_raw.splits any.splits option.splits)
  then obtain e where "entry_reset env (to_lower (trim_space window)) now e = Some t"
    by (auto simp: quotaProbeResetAt_def Let_def split: if_splits list.splits dest!: map_filter_ConsD)
  then show ?thesis by (auto simp: entry_reset_def split: option.splits if_splits)
qed

lemma subscription_reset_later:
  assumes "ar_retryAfterSeconds r \<le> max_delay_seconds" "uf_RetryAfterSeconds f \<le> max_delay_seconds"
    and "now < subscriptionLimitCalendarResetAt env now (uf_LimitWindow f)"
  shows "now < fst (subscriptionLimitResetAt env meta r f now)"
  using assms delay_positive probe_reset_later
  by (auto simp: subscriptionLimitResetAt_def Let_def split: option.splits)

lemma rate_limited_positive: "0 < rateLimitedCooldownDuration n"
  by (simp add: rateLimitedCooldownDuration_def transientCooldownBaseDuration_def seconds_def Let_def)

text \<open>The cooldown of a classified result.\<close>

lemma error_cooldown:
  assumes "ar_credentialID r \<noteq> uuid_nil" "\<not> ar_success r"
  shows "xc_ErrorType c = ''upstream_subscription_limit_exceeded'' \<Longrightarrow> cooldownInputForFailure cand (take_error c r)
      = Some (credential_cooldown (take_error c r) CooldownReasonUpstreamSubscriptionLimitExceeded (xc_CooldownDuration c) (base_cooldown cand (take_error c r)))"
    and "xc_ErrorType c = ''upstream_credential_limited'' \<Longrightarrow> xc_CooldownReason c = CooldownReasonUpstreamInsufficientBalance \<Longrightarrow> cooldownInputForFailure cand (take_error c r)
      = Some (credential_cooldown (take_error c r) (xc_CooldownReason c) (xc_CooldownDuration c) (base_cooldown cand (take_error c r)))"
    and "xc_ErrorType c = ''upstream_credential_limited'' \<Longrightarrow> xc_CooldownReason c = CooldownReasonUpstreamCredentialLimited \<Longrightarrow> cooldownInputForFailure cand (take_error c r)
      = Some (credential_cooldown (take_error c r) (xc_CooldownReason c) (rateLimitedCooldownDuration (xc_RetryAfterSeconds c)) (base_cooldown cand (take_error c r)))"
    and "xc_ErrorType c = ''upstream_credential_invalid'' \<Longrightarrow> cooldownInputForFailure cand (take_error c r)
      = Some (credential_cooldown (take_error c r) CooldownReasonUpstreamCredentialUnauthorized credentialUnauthorizedCooldownDuration (base_cooldown cand (take_error c r)))"
    and "xc_ErrorType c \<in> {''upstream_subscription_limit_exceeded'', ''upstream_credential_limited'', ''upstream_credential_invalid''}
      \<Longrightarrow> shouldTryNextCredential (take_error c r)"
    and "coi_Scope (credential_cooldown (take_error c r) reason d (base_cooldown cand r')) = ''credential''"
    and "coi_SiteCredentialID (credential_cooldown (take_error c r) reason d (base_cooldown cand r')) = Some (ar_credentialID r)"
    and "coi_SiteModelID (credential_cooldown (take_error c r) reason d (base_cooldown cand r')) = None"
    and "coi_Duration (credential_cooldown (take_error c r) reason d (base_cooldown cand r')) = d"
  using assms unfolding cooldownInputForFailure_def Let_def
  by (simp_all add: take_error_def shouldTryNextCredential_def credential_cooldown_def base_cooldown_def
    CooldownReasonUpstreamInsufficientBalance_def CooldownReasonUpstreamCredentialLimited_def) auto

abbreviation response_class :: "class_env \<Rightarrow> candidate \<Rightarrow> attempt_result \<Rightarrow> string \<Rightarrow> go_time \<Rightarrow> upstream_failure" where
  "response_class env cand r body now \<equiv>
     applyErrorClassifierPlugin env cand (ar_upstreamStatusCode r) (classifyResponseAt (xe_up env) (ar_upstreamStatusCode r) None body now)"

text \<open>C21. A response that is classified as a limit, as an exhausted subscription or as an invalid credential cools only the credential that was
  used, never the model or the site, for a positive time, and the next credential is tried; this holds for every site without its own
  classifier, if the delays it names fit into a duration and the calendar gives a later time.\<close>

theorem limit_cools_only_credential:
  assumes "site_error env cand r body now = None" "classifyOpenCodeGoUsageLimit env cand r body now = None"
    and "Limited (response_class env cand r body now) \<or> CredentialInvalid (response_class env cand r body now)"
    and "ar_credentialID r \<noteq> uuid_nil" "\<not> ar_success r"
    and "ar_retryAfterSeconds r \<le> max_delay_seconds" "uf_RetryAfterSeconds (response_class env cand r body now) \<le> max_delay_seconds"
    and "\<And>w. now < subscriptionLimitCalendarResetAt env now w"
  shows "\<exists>c. cooldownInputForFailure cand (classifyGatewayUpstreamError env meta cand r body now) = Some c \<and> coi_Scope c = ''credential''
     \<and> coi_SiteCredentialID c = Some (ar_credentialID r) \<and> coi_SiteModelID c = None \<and> 0 < coi_Duration c
     \<and> shouldTryNextCredential (classifyGatewayUpstreamError env meta cand r body now)"
proof -
  let ?f = "response_class env cand r body now" and ?r = "classifyGatewayUpstreamError env meta cand r body now"
  consider (subscription) "SubscriptionLimited ?f" | (limited) "\<not> SubscriptionLimited ?f" "Limited ?f" | (invalid) "\<not> Limited ?f" "CredentialInvalid ?f"
    using assms(3) by (auto simp: Limited_def SubscriptionLimited_def)
  then show ?thesis
  proof cases
    case subscription
    then have r: "?r = take_error (subscription_error env meta r ?f now) r"
      using assms(1,2) by (simp add: classifyGatewayUpstreamError_def general_error_def)
    let ?c = "subscription_error env meta r ?f now"
    have "xc_CooldownDuration ?c = time_sub (fst (subscriptionLimitResetAt env meta r ?f now)) now"
      "xc_ErrorType ?c = ''upstream_subscription_limit_exceeded''" by (simp_all add: subscription_error_def split: prod.split)
    then show ?thesis
      using assms(4,5) time_sub_positive[OF subscription_reset_later[OF assms(6,7,8), of meta]] unfolding r by (auto simp: error_cooldown)
  next
    case limited
    then have r: "?r = take_error (limited_error r ?f) r"
      using assms(1,2) by (simp add: classifyGatewayUpstreamError_def general_error_def)
    let ?c = "limited_error r ?f"
    have c: "xc_ErrorType ?c = ''upstream_credential_limited''"
      "xc_CooldownReason ?c \<in> {CooldownReasonUpstreamInsufficientBalance, CooldownReasonUpstreamCredentialLimited}"
      "xc_CooldownReason ?c = CooldownReasonUpstreamInsufficientBalance \<Longrightarrow> 0 < xc_CooldownDuration ?c"
      by (cases "equal_fold (uf_Code ?f) ''INSUFFICIENT_BALANCE''";
        simp add: limited_error_def Let_def CooldownReasonUpstreamInsufficientBalance_def CooldownReasonUpstreamCredentialLimited_def seconds_def)+
    then show ?thesis using assms(4,5) rate_limited_positive[of "xc_RetryAfterSeconds ?c"] unfolding r by (auto simp: error_cooldown)
  next
    case invalid
    then have r: "?r = take_error (invalid_error r ?f) r"
      using assms(1,2) by (auto simp: classifyGatewayUpstreamError_def general_error_def Limited_def SubscriptionLimited_def)
    have "xc_ErrorType (invalid_error r ?f) = ''upstream_credential_invalid''" by (simp add: invalid_error_def)
    then show ?thesis using assms(4,5) unfolding r by (auto simp: error_cooldown credentialUnauthorizedCooldownDuration_def seconds_def)
  qed
qed

definition demo_class_env :: class_env where
  "demo_class_env = \<lparr>xe_up = demo_up_env, xe_format = (\<lambda>_. []), xe_rfc3339nano = (\<lambda>_. None), xe_duration = (\<lambda>_. None), xe_plugin = (\<lambda>_ _ _ _ _ _. None),
     xe_StartOfDay = (\<lambda>t. t - t mod 86400000000000), xe_StartOfWeek = (\<lambda>t. t - t mod 604800000000000), xe_AddDays = (\<lambda>t n. t + n * 86400000000000),
     xe_NextMonth = (\<lambda>t. t + 2678400000000000)\<rparr>"

definition demo_limited :: attempt_result where
  "demo_limited = (demo_failure 429 ''upstream_http_error'')\<lparr>ar_credentialID := ''k1''\<rparr>"

theorem limit_cools_only_credential_witness:
  "\<exists>c. cooldownInputForFailure demo_candidate (classifyGatewayUpstreamError demo_class_env JEmpty demo_candidate demo_limited demo_error_body 5) = Some c
     \<and> coi_Scope c = ''credential'' \<and> coi_SiteCredentialID c = Some ''k1'' \<and> coi_SiteModelID c = None \<and> 0 < coi_Duration c"
proof -
  have later: "5 < subscriptionLimitCalendarResetAt demo_class_env 5 w" for w
    by (simp add: subscriptionLimitCalendarResetAt_def demo_class_env_def Let_def)
  have "site_error demo_class_env demo_candidate demo_limited demo_error_body 5 = None"
    "classifyOpenCodeGoUsageLimit demo_class_env demo_candidate demo_limited demo_error_body 5 = None"
    "Limited (response_class demo_class_env demo_candidate demo_limited demo_error_body 5) \<or> CredentialInvalid (response_class demo_class_env demo_candidate demo_limited demo_error_body 5)"
    "ar_credentialID demo_limited \<noteq> uuid_nil" "\<not> ar_success demo_limited" "ar_retryAfterSeconds demo_limited \<le> max_delay_seconds"
    "uf_RetryAfterSeconds (response_class demo_class_env demo_candidate demo_limited demo_error_body 5) \<le> max_delay_seconds"
    by code_simp+
  from limit_cools_only_credential[OF this later, of JEmpty] show ?thesis by (auto simp: demo_limited_def)
qed

end
