(* ===== verification/Stream_Lines.thy ===== *)
theory Stream_Lines
  imports Stream_Events
begin

text \<open>
  What the gateway reads off the lines of an upstream stream before it converts or forwards them: the data of a server-sent event, the
  model that answered (\<open>gateway/response_model.go\<close>), a failure that the payload declares (\<open>gateway/semantic_failure.go\<close>), whether a
  line starts the output of a response, and the rewriting of usage reports (\<open>gateway/protocol_responses_downstream.go\<close>).

  A line is its bytes with the line break. Payloads are decoded by \<open>Go_Json\<close>; fields of a struct that are not used are well typed. The
  formatting of floats is an argument.
\<close>

section \<open>The data of a line\<close>

datatype sse_data = NoData | DoneData | Data string

definition sseDataFromLine :: "string \<Rightarrow> sse_data" where
  "sseDataFromLine line =
     (let t = trim_space line in
      if \<not> has_prefix t ''data:'' then NoData
      else let data = trim_space (trim_prefix t ''data:'') in
        if data = [] then NoData else if data = ''[DONE]'' then DoneData else Data data)"

section \<open>The model that answered\<close>

text \<open>The first argument counts the levels that are left, three at the top.\<close>

fun responseEnvelopeModel :: "nat \<Rightarrow> any \<Rightarrow> string" where
  "responseEnvelopeModel (Suc n) (AObj m) = (case (string_field m ''model'', string_field m ''modelVersion'') of
      (Some a, Some b) \<Rightarrow>
        if trim_space a \<noteq> [] then trim_space a
        else if trim_space b \<noteq> [] then trim_space b
        else if responseEnvelopeModel n (obj_get m ''response'') \<noteq> [] then responseEnvelopeModel n (obj_get m ''response'')
        else responseEnvelopeModel n (obj_get m ''message'')
    | _ \<Rightarrow> [])"
| "responseEnvelopeModel _ _ = []"

definition observeUpstreamStreamModel :: "string \<Rightarrow> capture \<Rightarrow> capture" where
  "observeUpstreamStreamModel line c =
     (let t = trim_space line in
      if \<not> has_prefix t ''data:'' then c
      else case json_parse (trim_space (drop 5 t)) of
          None \<Rightarrow> c
        | Some v \<Rightarrow> let model = responseEnvelopeModel 3 v in if model \<noteq> [] then c\<lparr>cap_responseModel := model\<rparr> else c)"

section \<open>Declared failures\<close>

definition semantic_failure_text :: "semantic_failure \<Rightarrow> string" where
  "semantic_failure_text f = ''upstream response failed: '' @
     (if sx_Code f \<noteq> [] \<and> sx_Message f \<noteq> [] then sx_Code f @ '': '' @ sx_Message f
      else nonEmptyString [sx_Message f, sx_Code f, ''unknown error''])"

text \<open>The details of an error: of an object, or of a text that holds an object.\<close>

definition semanticFailureDetails :: "any \<Rightarrow> string \<times> string" where
  "semanticFailureDetails v =
     (let of_map = (\<lambda>m. (trim_space (anyString (obj_get m ''code'')), trim_space (anyString (obj_get m ''message'')))) in
      case v of
        AObj m \<Rightarrow> of_map m
      | AString s \<Rightarrow> (case unmarshal_map s of Some m \<Rightarrow> of_map m | None \<Rightarrow> ([], trim_space s))
      | _ \<Rightarrow> ([], []))"

definition semanticFailureFromObject :: "obj \<Rightarrow> string \<Rightarrow> semantic_failure option" where
  "semanticFailureFromObject m body =
     (let word = (\<lambda>o' k. to_lower (trim_space (anyString (obj_get o' k))));
          eventType = word m ''type''; status = word m ''status'';
          response = as_obj (obj_get m ''response''); responseStatus = word response ''status'';
          failed = (obj_get m ''error'' \<noteq> ANil \<or> eventType \<in> {''response.failed'', ''response.error'', ''error''}
            \<or> status \<in> {''failed'', ''error''} \<or> responseStatus \<in> {''failed'', ''error''})
      in if \<not> failed then None
         else let errorValue = (if obj_get m ''error'' = ANil then obj_get response ''error'' else obj_get m ''error'');
                  (code, message) = semanticFailureDetails errorValue
           in Some \<lparr>sx_Code = nonEmptyString [code, eventType, status, responseStatus, ''upstream_response_failed''],
             sx_Message = nonEmptyString [message, ''upstream response declared a failure''], sx_Body = body\<rparr>)"

definition semanticFailureFromJSON :: "string \<Rightarrow> semantic_failure option" where
  "semanticFailureFromJSON body = (case unmarshal_map body of None \<Rightarrow> None | Some m \<Rightarrow> semanticFailureFromObject m body)"

text \<open>The body that is classified: code and message of the failure.\<close>

definition semanticFailureClassificationBody :: "semantic_failure \<Rightarrow> string" where
  "semanticFailureClassificationBody f =
     (case json_encode (\<lambda>_. []) (AObj [(''error'', AObj [(''code'', AString (sx_Code f)), (''message'', AString (sx_Message f))])]) of Some s \<Rightarrow> s | None \<Rightarrow> [])"

definition truncatedStreamErrorDetail :: "string \<Rightarrow> string" where
  "truncatedStreamErrorDetail data = take 2048 (trim_space data)"

section \<open>Where the output of a response starts\<close>

datatype disposition = PreOutputDefer | PreOutputCommit | PreOutputFail semantic_failure

definition responsesBusinessValuePresent :: "any \<Rightarrow> bool" where
  "responsesBusinessValuePresent v = (case v of
      AString s \<Rightarrow> trim_space s \<noteq> []
    | AList vs \<Rightarrow> vs \<noteq> []
    | AObj m \<Rightarrow> m \<noteq> []
    | ANil \<Rightarrow> False
    | _ \<Rightarrow> True)"

definition responsesEventHasBusinessOutput :: "obj \<Rightarrow> bool" where
  "responsesEventHasBusinessOutput m = list_ex (\<lambda>key. responsesBusinessValuePresent (obj_get m key))
     [''text'', ''refusal'', ''delta'', ''arguments'', ''result'', ''partial_image_b64'', ''stdout'', ''input'', ''output'', ''annotation'',
      ''patch'', ''command'', ''query'', ''encrypted_content'']"

definition responsesObjectHasNonStructuralPayload :: "obj \<Rightarrow> bool" where
  "responsesObjectHasNonStructuralPayload m = list_ex (\<lambda>(key, v).
     to_lower (trim_space key) \<notin> {''type'', ''id'', ''status'', ''role'', ''call_id'', ''name'', ''index'', ''output_index'', ''content_index'', ''item_id'', ''sequence_number''}
     \<and> responsesBusinessValuePresent v) m"

definition type_word :: "obj \<Rightarrow> string" where
  "type_word m = to_lower (trim_space (anyString (obj_get m ''type'')))"

definition responsesContentPartStartsBusiness :: "any \<Rightarrow> bool" where
  "responsesContentPartStartsBusiness v = (case v of
      AObj m \<Rightarrow> if type_word m \<in> {[], ''output_text'', ''refusal'', ''text''} then responsesEventHasBusinessOutput m
        else responsesObjectHasNonStructuralPayload m
    | _ \<Rightarrow> False)"

definition responsesOutputItemStartsBusiness :: "any \<Rightarrow> bool" where
  "responsesOutputItemStartsBusiness v = (case v of
      AObj m \<Rightarrow>
        if type_word m \<in> {[], ''message''} then
          (case as_list (obj_get m ''content'') of Some vs \<Rightarrow> list_ex responsesContentPartStartsBusiness vs | None \<Rightarrow> False) \<or> responsesEventHasBusinessOutput m
        else if type_word m \<in> {''function_call'', ''custom_tool_call''} then
          list_ex (\<lambda>key. responsesBusinessValuePresent (obj_get m key)) [''arguments'', ''input'']
        else responsesObjectHasNonStructuralPayload m
    | _ \<Rightarrow> False)"

text \<open>A payload that is not an object does not decode into the map; null decodes into the nil map.\<close>

definition event_disposition :: "obj \<Rightarrow> disposition" where
  "event_disposition m =
     (let t = type_word m; commit_if = (\<lambda>b. if b then PreOutputCommit else PreOutputDefer) in
      if t \<in> {''response.created'', ''response.in_progress'', ''response.queued'', ''keepalive'', ''ping''} then PreOutputDefer
      else if t \<in> {''response.completed'', ''response.incomplete''} then PreOutputCommit
      else if t \<in> {''response.output_item.added'', ''response.output_item.done''} then commit_if (responsesOutputItemStartsBusiness (obj_get m ''item''))
      else if t \<in> {''response.content_part.added'', ''response.content_part.done''} then
        commit_if (responsesContentPartStartsBusiness (obj_get m ''part'') \<or> responsesContentPartStartsBusiness (obj_get m ''content_part''))
      else if t \<in> {''response.image_generation_call.in_progress'', ''response.image_generation_call.generating'', ''response.mcp_call.in_progress'',
          ''response.tool_call.started''} then PreOutputDefer
      else if t \<in> {''response.output_text.delta'', ''response.output_text.done'', ''response.refusal.delta'', ''response.refusal.done'',
          ''response.reasoning_summary_text.delta'', ''response.reasoning_text.delta'', ''response.reasoning_delta'', ''response.reasoning_summary.delta'',
          ''response.reasoning.encrypted_content.delta'', ''response.reasoning.encrypted_content.done'', ''response.function_call_arguments.delta'',
          ''response.function_call_arguments.done'', ''response.output_text.annotation.added''} then commit_if (responsesEventHasBusinessOutput m)
      else PreOutputCommit)"

definition responsesStreamPreOutputDispositionForLine :: "string \<Rightarrow> disposition" where
  "responsesStreamPreOutputDispositionForLine line = (case sseDataFromLine line of
      NoData \<Rightarrow> PreOutputDefer
    | DoneData \<Rightarrow> PreOutputCommit
    | Data data \<Rightarrow> (case semanticFailureFromJSON data of
          Some f \<Rightarrow> PreOutputFail f
        | None \<Rightarrow> (case unmarshal_map data of None \<Rightarrow> PreOutputCommit | Some m \<Rightarrow> event_disposition m)))"

section \<open>The events of the Responses protocol\<close>

record responses_usage =
  ru_PromptTokens :: int
  ru_CompletionTokens :: int
  ru_TotalTokens :: int
  ru_InputTokens :: int
  ru_OutputTokens :: int
  ru_InputDetails :: "(int \<times> int \<times> int) option"
  ru_OutputReasoning :: "int option"
  ru_CompletionReasoning :: int

definition opt_obj_field :: "obj \<Rightarrow> string \<Rightarrow> obj option option" where
  "opt_obj_field m k = (case obj_get m k of ANil \<Rightarrow> Some None | AObj o' \<Rightarrow> Some (Some o') | _ \<Rightarrow> None)"

definition decode_responses_usage :: "obj \<Rightarrow> responses_usage option" where
  "decode_responses_usage m = Option.bind (int_field m ''prompt_tokens'') (\<lambda>p. Option.bind (int_field m ''completion_tokens'') (\<lambda>c.
     Option.bind (int_field m ''total_tokens'') (\<lambda>t. Option.bind (int_field m ''input_tokens'') (\<lambda>i. Option.bind (int_field m ''output_tokens'') (\<lambda>o'.
     Option.bind (opt_obj_field m ''input_tokens_details'') (\<lambda>id. Option.bind (opt_obj_field m ''output_tokens_details'') (\<lambda>od.
     Option.bind (obj_field m ''completion_tokens_details'') (\<lambda>cd. Option.bind (int_field cd ''reasoning_tokens'') (\<lambda>cr.
     Option.bind (case id of None \<Rightarrow> Some None
         | Some d \<Rightarrow> Option.bind (int_field d ''cached_tokens'') (\<lambda>a. Option.bind (int_field d ''cache_write_tokens'') (\<lambda>b.
             Option.bind (int_field d ''image_tokens'') (\<lambda>g. Some (Some (a, b, g)))))) (\<lambda>idv.
     Option.bind (case od of None \<Rightarrow> Some None | Some d \<Rightarrow> map_option Some (int_field d ''reasoning_tokens'')) (\<lambda>odv.
     Some \<lparr>ru_PromptTokens = p, ru_CompletionTokens = c, ru_TotalTokens = t, ru_InputTokens = i, ru_OutputTokens = o', ru_InputDetails = idv,
       ru_OutputReasoning = odv, ru_CompletionReasoning = cr\<rparr>)))))))))))"

definition completionUsageFromResponsesUsage :: "responses_usage \<Rightarrow> gateway_usage" where
  "completionUsageFromResponsesUsage u =
     (let p = (if ru_PromptTokens u = 0 then ru_InputTokens u else ru_PromptTokens u);
          c = (if ru_CompletionTokens u = 0 then ru_OutputTokens u else ru_CompletionTokens u);
          (cached, written, image) = (case ru_InputDetails u of None \<Rightarrow> (0, 0, 0) | Some d \<Rightarrow> d);
          reasoning = (case ru_OutputReasoning u of None \<Rightarrow> ru_CompletionReasoning u | Some r \<Rightarrow> r)
      in normalized (zero_usage\<lparr>gu_PromptTokens := p, gu_CompletionTokens := c, gu_TotalTokens := (if ru_TotalTokens u = 0 then wrap64 (p + c) else ru_TotalTokens u),
        gu_CachedPromptTokens := cached, gu_CacheWriteTokens := written, gu_InputImageTokens := image, gu_ReasoningTokens := reasoning\<rparr>))"

text \<open>Of an event the type, the annotation and the usage of the response are read; \<open>None\<close> if it does not decode.\<close>

definition decode_stream_event :: "string \<Rightarrow> (string \<times> any \<times> responses_usage option) option" where
  "decode_stream_event data = (case json_parse data of
      Some (AObj m) \<Rightarrow> Option.bind (string_field m ''type'') (\<lambda>t. Option.bind (opt_obj_field m ''response'') (\<lambda>r.
        Option.bind (case r of None \<Rightarrow> Some None | Some o' \<Rightarrow> opt_obj_field o' ''usage'') (\<lambda>u.
        Option.bind (case u of None \<Rightarrow> Some None | Some o' \<Rightarrow> map_option Some (decode_responses_usage o')) (\<lambda>us.
        Some (t, floats (obj_get m ''annotation''), us)))))
    | Some ANil \<Rightarrow> Some ([], ANil, None)
    | _ \<Rightarrow> None)"

definition responsesStreamPreOutputBufferedEvent :: "string \<Rightarrow> bool" where
  "responsesStreamPreOutputBufferedEvent line = (case sseDataFromLine line of
      Data data \<Rightarrow> (case decode_stream_event data of Some (t, _) \<Rightarrow> trim_space t \<noteq> [] | None \<Rightarrow> False)
    | _ \<Rightarrow> False)"

definition note_event :: "string \<Rightarrow> string \<Rightarrow> any \<Rightarrow> capture \<Rightarrow> capture" where
  "note_event data t annotation c =
     (if t = ''response.completed'' then c\<lparr>cap_streamCompleted := True, cap_sawDone := True\<rparr>
      else if t = ''response.incomplete'' then c\<lparr>cap_endReason := ''response_incomplete''\<rparr>
      else if t = ''response.error'' \<or> t = ''response.failed'' then c\<lparr>cap_endReason := ''upstream_stream_error'', cap_errorDetail := truncatedStreamErrorDetail data\<rparr>
      else if t = ''response.output_text.annotation.added'' then appendStreamAnnotation annotation c
      else c)"

definition inspectResponsesStreamLine :: "string \<Rightarrow> capture \<Rightarrow> capture" where
  "inspectResponsesStreamLine line c = (case sseDataFromLine line of
      NoData \<Rightarrow> c
    | DoneData \<Rightarrow> c\<lparr>cap_sawDone := True\<rparr>
    | Data data \<Rightarrow> (case decode_stream_event data of
          None \<Rightarrow> c
        | Some (t, annotation, usage) \<Rightarrow>
            let c = note_event data t annotation c in
            case usage of None \<Rightarrow> c | Some u \<Rightarrow> c\<lparr>cap_usage := completionUsageFromResponsesUsage u\<rparr>))"

section \<open>Usage reports that lack their details\<close>

definition payloadInt64 :: "any \<Rightarrow> int" where
  "payloadInt64 v = (case v of AInt n \<Rightarrow> n | AFloat r \<Rightarrow> float_to_int64 r | ANumber s \<Rightarrow> (case parse_int64 s of Some n \<Rightarrow> n | None \<Rightarrow> 0) | _ \<Rightarrow> 0)"

definition has_key :: "obj \<Rightarrow> string \<Rightarrow> bool" where
  "has_key m k \<longleftrightarrow> map_of m k \<noteq> None"

text \<open>The details object under a key with its number filled in, and whether something changed.\<close>

definition fill_details :: "string \<Rightarrow> string \<Rightarrow> int \<Rightarrow> obj \<Rightarrow> obj \<times> bool" where
  "fill_details key sub n usage = (case obj_get usage key of
      AObj d \<Rightarrow> if has_key d sub then (usage, False) else (obj_set key (AObj (obj_set sub (AInt n) d)) usage, True)
    | _ \<Rightarrow> (obj_set key (AObj [(sub, AInt n)]) usage, True))"

definition normalizeResponsesUsageMap :: "obj \<Rightarrow> obj \<times> bool" where
  "normalizeResponsesUsageMap usage =
     (let reasoningTokens = (case obj_get usage ''completion_tokens_details'' of AObj d \<Rightarrow> payloadInt64 (obj_get d ''reasoning_tokens'') | _ \<Rightarrow> 0);
          (u1, c1) = fill_details ''input_tokens_details'' ''cached_tokens'' 0 usage;
          (u2, c2) = fill_details ''output_tokens_details'' ''reasoning_tokens'' reasoningTokens u1
      in (u2, c1 \<or> c2))"

definition normalize_usage_at :: "obj \<Rightarrow> obj \<times> bool" where
  "normalize_usage_at m = (case obj_get m ''usage'' of
      AObj u \<Rightarrow> let (u', c) = normalizeResponsesUsageMap u in (obj_set ''usage'' (AObj u') m, c)
    | _ \<Rightarrow> (m, False))"

definition normalizeResponsesEnvelopeUsage :: "obj \<Rightarrow> obj \<times> bool" where
  "normalizeResponsesEnvelopeUsage m0 =
     (let (m, c1) = normalize_usage_at m0 in
      case obj_get m ''response'' of
        AObj r \<Rightarrow> let (r', c2) = normalize_usage_at r in (obj_set ''response'' (AObj r') m, c1 \<or> c2)
      | _ \<Rightarrow> (m, c1))"

text \<open>\<open>Some\<close> of the rewritten text if it changed.\<close>

definition normalizeResponsesJSONUsage :: "(float64 \<Rightarrow> string) \<Rightarrow> string \<Rightarrow> string option" where
  "normalizeResponsesJSONUsage fmt data = (case unmarshal_map data of
      None \<Rightarrow> None
    | Some m \<Rightarrow> let (m', changed) = normalizeResponsesEnvelopeUsage m in if changed then json_encode fmt (AObj m') else None)"

definition line_end :: "string \<Rightarrow> string" where
  "line_end line = (if has_suffix line [CHR 0x0D, CHR 0x0A] then [CHR 0x0D, CHR 0x0A] else if has_suffix line [CHR 0x0A] then [CHR 0x0A] else [])"

definition normalizeResponsesStreamDataLine :: "(float64 \<Rightarrow> string) \<Rightarrow> string \<Rightarrow> string" where
  "normalizeResponsesStreamDataLine fmt line = (case sseDataFromLine line of
      Data data \<Rightarrow> (case normalizeResponsesJSONUsage fmt data of None \<Rightarrow> line | Some n \<Rightarrow> ''data: '' @ n @ line_end line)
    | _ \<Rightarrow> line)"

end
