(* ===== verification/Chat_Stream.thy ===== *)
theory Chat_Stream
  imports Stream_Events
begin

text \<open>
  The stream of chat completions, of \<open>gateway/protocol_canonical_stream.go\<close>: its encoder \<open>openAIChatStreamEncoder\<close> and its decoder
  \<open>openAIChatStreamDecoder\<close>. The decoder reads the payload of a chunk the way \<open>json.Unmarshal\<close> fills the struct: a missing or null field keeps
  its zero value, a value of another type is an error; keys are spelled as in the tags and fields that are not used are well typed. The identifiers it invents are an argument.
\<close>

section \<open>The encoder\<close>

datatype chat_wire = Chunk obj | DoneMark

record chat_encoder =
  ce_out :: "chat_wire list"
  ce_capture :: capture
  ce_responseID :: string
  ce_model :: string
  ce_createdAt :: int
  ce_startSent :: bool
  ce_stopSent :: bool
  ce_sawText :: bool
  ce_sawToolCall :: bool
  ce_toolCallIndex :: "(string \<times> int) list"
  ce_toolCallArgs :: "(string \<times> string) list"
  ce_toolCallNameSent :: "string list"

definition newOpenAIChatStreamEncoder :: "int \<Rightarrow> capture \<Rightarrow> chat_encoder" where
  "newOpenAIChatStreamEncoder now c = \<lparr>ce_out = [], ce_capture = c, ce_responseID = [], ce_model = [], ce_createdAt = now, ce_startSent = False,
     ce_stopSent = False, ce_sawText = False, ce_sawToolCall = False, ce_toolCallIndex = [], ce_toolCallArgs = [], ce_toolCallNameSent = []\<rparr>"

definition chat_write :: "enc_env \<Rightarrow> (chat_encoder \<Rightarrow> chat_wire) \<Rightarrow> chat_encoder step" where
  "chat_write env ev e = (if ee_write env (length (ce_out e)) then (None, e\<lparr>ce_out := ce_out e @ [ev e]\<rparr>) else (Some WriteFailed, e))"

definition chunk_of :: "any list \<Rightarrow> obj \<Rightarrow> chat_encoder \<Rightarrow> chat_wire" where
  "chunk_of choices extra e = Chunk ([(''id'', AString (responseIDOrFallback (ce_responseID e))), (''object'', AString ''chat.completion.chunk''),
     (''created'', AInt (ce_createdAt e)), (''model'', AString (ce_model e)), (''choices'', AList choices)] @ extra)"

definition delta_choice :: "obj \<Rightarrow> any" where
  "delta_choice delta = AObj [(''index'', AInt 0), (''delta'', AObj delta)]"

definition write_delta :: "enc_env \<Rightarrow> obj \<Rightarrow> chat_encoder step" where
  "write_delta env delta e = chat_write env (chunk_of [delta_choice delta] []) e"

definition chat_annotate :: "any \<Rightarrow> chat_encoder step" where
  "chat_annotate a e = (None, e\<lparr>ce_capture := appendStreamAnnotation a (ce_capture e)\<rparr>)"

definition chat_mergeMeta :: "stream_event \<Rightarrow> chat_encoder \<Rightarrow> chat_encoder" where
  "chat_mergeMeta ev e =
     (let e = (if ev_ID ev \<noteq> [] then e\<lparr>ce_responseID := ev_ID ev\<rparr> else e);
          e = (if ev_Model ev \<noteq> [] then e\<lparr>ce_model := ev_Model ev\<rparr> else e)
      in if ev_CreatedAt ev > 0 then e\<lparr>ce_createdAt := ev_CreatedAt ev\<rparr> else e)"

definition sendStartIfNeeded :: "enc_env \<Rightarrow> chat_encoder step" where
  "sendStartIfNeeded env e = unless ce_startSent (steps
     [upd (\<lambda>e. e\<lparr>ce_startSent := True\<rparr>), write_delta env [(''role'', AString ''assistant'')]]) e"

definition chat_index :: "string \<Rightarrow> chat_encoder \<Rightarrow> int" where
  "chat_index callID e = (case map_of (ce_toolCallIndex e) callID of Some i \<Rightarrow> i | None \<Rightarrow> 0)"

definition note_tool :: "stream_event \<Rightarrow> string \<Rightarrow> chat_encoder \<Rightarrow> chat_encoder" where
  "note_tool ev callID e =
     (let e = e\<lparr>ce_sawToolCall := True\<rparr>;
          e = (if map_of (ce_toolCallIndex e) callID = None
               then e\<lparr>ce_toolCallIndex := ce_toolCallIndex e @ [(callID, int (length (ce_toolCallIndex e)))]\<rparr> else e)
      in if ev_ToolCallArgumentsDelta ev \<noteq> []
         then e\<lparr>ce_toolCallArgs := AList.update callID ((case map_of (ce_toolCallArgs e) callID of None \<Rightarrow> [] | Some s \<Rightarrow> s) @ ev_ToolCallArgumentsDelta ev)
                (ce_toolCallArgs e)\<rparr> else e)"

definition name_due :: "stream_event \<Rightarrow> string \<Rightarrow> chat_encoder \<Rightarrow> bool" where
  "name_due ev callID e \<longleftrightarrow> ev_ToolCallName ev \<noteq> [] \<and> callID \<notin> set (ce_toolCallNameSent e)"

definition tool_payload :: "stream_event \<Rightarrow> string \<Rightarrow> bool \<Rightarrow> chat_encoder \<Rightarrow> any" where
  "tool_payload ev callID named e = AObj [(''index'', AInt (chat_index callID e)), (''id'', AString callID), (''type'', AString ''function''),
     (''function'', AObj ([(''arguments'', AString (ev_ToolCallArgumentsDelta ev))] @ (if named then [(''name'', AString (ev_ToolCallName ev))] else [])))]"

definition write_tool :: "enc_env \<Rightarrow> stream_event \<Rightarrow> string \<Rightarrow> chat_encoder step" where
  "write_tool env ev callID e =
     (let named = name_due ev callID e; e' = (if named then e\<lparr>ce_toolCallNameSent := ce_toolCallNameSent e @ [callID]\<rparr> else e)
      in write_delta env [(''tool_calls'', AList [tool_payload ev callID named e'])] e')"

definition chat_sendToolCallDelta :: "enc_env \<Rightarrow> stream_event \<Rightarrow> chat_encoder step" where
  "chat_sendToolCallDelta env ev e =
     (let callID = trim_space (ev_ToolCallID ev) in
      if callID = [] then (None, e)
      else steps [sendStartIfNeeded env, upd (note_tool ev callID), write_tool env ev callID] e)"

fun validate_args :: "(string \<times> string) list \<Rightarrow> chat_encoder step" where
  "validate_args [] e = (None, e)"
| "validate_args ((callID, s) # args) e = (case validateToolCallArguments callID s of
      Some err \<Rightarrow> (Some err, e\<lparr>ce_capture := (ce_capture e)\<lparr>cap_endReason := ''tool_call_arguments_invalid_json''\<rparr>\<rparr>)
    | None \<Rightarrow> validate_args args e)"

definition chat_require_usage :: "enc_env \<Rightarrow> chat_encoder step" where
  "chat_require_usage env e = (if ee_RequireUsage env \<and> \<not> gatewayUsageAvailable (cap_usage (ce_capture e))
     then (Some UsageMissing, e\<lparr>ce_capture := (ce_capture e)\<lparr>cap_endReason := ''usage_missing''\<rparr>\<rparr>) else (None, e))"

definition chatCompletionUsagePayload :: "gateway_usage \<Rightarrow> obj" where
  "chatCompletionUsagePayload u0 =
     (let u = normalized u0 in
      [(''prompt_tokens'', AInt (gu_PromptTokens u)), (''completion_tokens'', AInt (gu_CompletionTokens u)), (''total_tokens'', AInt (gu_TotalTokens u)),
       (''prompt_tokens_details'', AObj [(''cached_tokens'', AInt (gu_CachedPromptTokens u))])]
      @ (if gu_ReasoningTokens u > 0 then [(''completion_tokens_details'', AObj [(''reasoning_tokens'', AInt (gu_ReasoningTokens u))])] else []))"

definition finish_chunk :: "string \<Rightarrow> chat_encoder \<Rightarrow> chat_wire" where
  "finish_chunk defaultFinishReason e = chunk_of [AObj [(''index'', AInt 0), (''delta'', AObj []),
     (''finish_reason'', AString (if ce_sawToolCall e \<and> \<not> ce_sawText e then ''tool_calls'' else defaultFinishReason))]] [] e"

definition usage_chunk :: "chat_encoder \<Rightarrow> chat_wire" where
  "usage_chunk e = chunk_of [] [(''usage'', AObj (chatCompletionUsagePayload (cap_usage (ce_capture e))))] e"

definition sendTerminal :: "enc_env \<Rightarrow> string \<Rightarrow> bool \<Rightarrow> string \<Rightarrow> chat_encoder step" where
  "sendTerminal env defaultFinishReason completed endReason e = unless ce_stopSent (steps
     [chat_require_usage env,
      sendStartIfNeeded env,
      chat_write env (finish_chunk defaultFinishReason),
      cond (\<lambda>e. ee_IncludeUsage env \<and> usage_reported (cap_usage (ce_capture e))) (chat_write env usage_chunk),
      chat_write env (\<lambda>_. DoneMark),
      upd (\<lambda>e. e\<lparr>ce_stopSent := True, ce_capture := (ce_capture e)\<lparr>cap_sawDone := True, cap_streamCompleted := completed, cap_endReason := endReason\<rparr>\<rparr>)]) e"

definition chat_sendFinish :: "enc_env \<Rightarrow> chat_encoder step" where
  "chat_sendFinish env e = steps [\<lambda>e. validate_args (ce_toolCallArgs e) e, sendTerminal env ''stop'' True ''done''] e"

definition chat_sendIncomplete :: "enc_env \<Rightarrow> stream_event \<Rightarrow> chat_encoder step" where
  "chat_sendIncomplete env ev e = sendTerminal env (nonEmptyString [ev_FinishReason ev, ''length'']) False ''response_incomplete'' e"

definition chat_sendText :: "enc_env \<Rightarrow> stream_event \<Rightarrow> chat_encoder step" where
  "chat_sendText env ev e = (if ev_Delta ev = [] then (None, e) else steps
     [sendStartIfNeeded env, upd (\<lambda>e. e\<lparr>ce_sawText := True\<rparr>), write_delta env [(''content'', AString (ev_Delta ev))]] e)"

definition chat_sendReasoning :: "enc_env \<Rightarrow> stream_event \<Rightarrow> chat_encoder step" where
  "chat_sendReasoning env ev e =
     (if reasoningPolicyForProtocol env (ev_ReasoningKind ev) \<noteq> ''passthrough'' then chat_annotate (redactedReasoningAnnotation ev) e
      else if ev_Delta ev = [] then (None, e)
      else steps [sendStartIfNeeded env,
        write_delta env [(if ev_ReasoningKind ev = ''thinking_signature'' then ''thinking_signature'' else ''reasoning_content'', AString (ev_Delta ev))]] e)"

definition chat_sendAnnotation :: "enc_env \<Rightarrow> stream_event \<Rightarrow> chat_encoder step" where
  "chat_sendAnnotation env ev e = steps
     [chat_annotate (ev_Annotation ev),
      cond (\<lambda>_. isGrokSite (ee_SiteType env)) (steps [sendStartIfNeeded env, write_delta env [(''citations'', AList [ev_Annotation ev])]])] e"

definition chat_EncodeEvent :: "enc_env \<Rightarrow> stream_event \<Rightarrow> chat_encoder step" where
  "chat_EncodeEvent env ev e = steps [upd (chat_mergeMeta ev),
     (case ev_Type ev of
        EvCreated \<Rightarrow> sendStartIfNeeded env
      | EvTextDelta \<Rightarrow> chat_sendText env ev
      | EvToolCallDelta \<Rightarrow> chat_sendToolCallDelta env ev
      | EvReasoningDelta \<Rightarrow> chat_sendReasoning env ev
      | EvAdvanced \<Rightarrow> chat_annotate (advancedStreamAnnotation ev)
      | EvAnnotationAdded \<Rightarrow> chat_sendAnnotation env ev
      | EvUsage \<Rightarrow> upd (\<lambda>e. e\<lparr>ce_capture := take_usage (ev_Usage ev) (ce_capture e)\<rparr>)
      | EvCompleted \<Rightarrow> chat_sendFinish env
      | EvIncomplete \<Rightarrow> chat_sendIncomplete env ev
      | EvError \<Rightarrow> (\<lambda>e. (Some (UpstreamFailed (nonEmptyString [ev_ErrorMessage ev, ''unknown error''])),
          e\<lparr>ce_capture := (ce_capture e)\<lparr>cap_endReason := ''upstream_stream_error''\<rparr>\<rparr>)))] e"

section \<open>The decoder\<close>

record chat_tool_call =
  tc_Index :: int
  tc_ID :: string
  tc_Name :: string
  tc_Arguments :: string

record chat_choice =
  cc_Content :: any
  cc_ReasoningContent :: string
  cc_Thinking :: string
  cc_ThinkingSignature :: string
  cc_ToolCalls :: "chat_tool_call list"
  cc_FinishReason :: string

record chat_chunk =
  ck_ID :: string
  ck_Created :: int
  ck_Model :: string
  ck_Choices :: "chat_choice list"
  ck_Usage :: gateway_usage

definition decode_tool_call :: "obj \<Rightarrow> chat_tool_call option" where
  "decode_tool_call m = Option.bind (int_field m ''index'') (\<lambda>i. Option.bind (string_field m ''id'') (\<lambda>d. Option.bind (obj_field m ''function'') (\<lambda>f.
     Option.bind (string_field f ''name'') (\<lambda>n. Option.bind (string_field f ''arguments'') (\<lambda>a.
     Some \<lparr>tc_Index = i, tc_ID = d, tc_Name = n, tc_Arguments = a\<rparr>)))))"

definition decode_choice :: "obj \<Rightarrow> chat_choice option" where
  "decode_choice m = Option.bind (obj_field m ''delta'') (\<lambda>d. Option.bind (string_field m ''finish_reason'') (\<lambda>fr.
     Option.bind (string_field d ''reasoning_content'') (\<lambda>rc. Option.bind (string_field d ''thinking'') (\<lambda>th.
     Option.bind (string_field d ''thinking_signature'') (\<lambda>sg. Option.bind (objs_field d ''tool_calls'') (\<lambda>ts.
     Option.bind (opt_list (map decode_tool_call ts)) (\<lambda>tcs.
     Some \<lparr>cc_Content = obj_get d ''content'', cc_ReasoningContent = rc, cc_Thinking = th, cc_ThinkingSignature = sg, cc_ToolCalls = tcs,
       cc_FinishReason = fr\<rparr>)))))))"

definition decode_usage :: "obj \<Rightarrow> gateway_usage option" where
  "decode_usage m = Option.bind (int_field m ''prompt_tokens'') (\<lambda>p. Option.bind (int_field m ''completion_tokens'') (\<lambda>c.
     Option.bind (int_field m ''total_tokens'') (\<lambda>t. Option.bind (int_field m ''cached_tokens'') (\<lambda>cached.
     Option.bind (int_field m ''prompt_cache_hit_tokens'') (\<lambda>hit. Option.bind (int_field m ''prompt_cache_miss_tokens'') (\<lambda>miss.
     Option.bind (int_field m ''cache_write_tokens'') (\<lambda>written. Option.bind (int_field m ''cache_creation_input_tokens'') (\<lambda>creation.
     Option.bind (int_field m ''cache_creation_5m_input_tokens'') (\<lambda>c5. Option.bind (int_field m ''cache_creation_1h_input_tokens'') (\<lambda>c1.
     Option.bind (int_field m ''reasoning_tokens'') (\<lambda>r. Option.bind (int_field m ''image_count'') (\<lambda>images.
     Option.bind (int_field m ''input_text_tokens'') (\<lambda>it. Option.bind (int_field m ''input_image_tokens'') (\<lambda>ii.
     Option.bind (int_field m ''output_image_tokens'') (\<lambda>oi. Option.bind (int_field m ''audio_output_tokens'') (\<lambda>ao.
     Option.bind (obj_field m ''prompt_tokens_details'') (\<lambda>d. Option.bind (int_field d ''cached_tokens'') (\<lambda>dc.
     Option.bind (int_field d ''cache_write_tokens'') (\<lambda>dw.
     Some \<lparr>gu_PromptTokens = p, gu_CompletionTokens = c, gu_TotalTokens = t, gu_ImageCount = images, gu_CachedPromptTokens = cached,
       gu_PromptCacheHitTokens = hit, gu_PromptCacheMissTokens = miss, gu_CacheWriteTokens = written, gu_CacheCreationInputTokens = creation,
       gu_CacheCreation5mInputTokens = c5, gu_CacheCreation1hInputTokens = c1, gu_ReasoningTokens = r, gu_InputTextTokens = it,
       gu_InputImageTokens = ii, gu_OutputImageTokens = oi, gu_AudioOutputTokens = ao,
       gu_PromptTokensDetail = (if obj_get m ''prompt_tokens_details'' = ANil then None else Some (dc, dw))\<rparr>)))))))))))))))))))"

definition decode_chunk :: "obj \<Rightarrow> chat_chunk option" where
  "decode_chunk m = Option.bind (string_field m ''id'') (\<lambda>i. Option.bind (int_field m ''created'') (\<lambda>cr. Option.bind (string_field m ''model'') (\<lambda>mo.
     Option.bind (objs_field m ''choices'') (\<lambda>cs. Option.bind (opt_list (map decode_choice cs)) (\<lambda>ccs. Option.bind (obj_field m ''usage'') (\<lambda>u.
     Option.bind (decode_usage u) (\<lambda>us.
     Some \<lparr>ck_ID = i, ck_Created = cr, ck_Model = mo, ck_Choices = ccs, ck_Usage = us\<rparr>)))))))"

record chat_decoder =
  cd_createdSent :: bool
  cd_terminalEmitted :: bool
  cd_pendingTerminal :: "stream_event option"
  cd_toolCallIDByIndex :: "(int \<times> string) list"
  cd_toolCallNameByIndex :: "(int \<times> string) list"
  cd_created :: nat

definition new_chat_decoder :: chat_decoder where
  "new_chat_decoder = \<lparr>cd_createdSent = False, cd_terminalEmitted = False, cd_pendingTerminal = None, cd_toolCallIDByIndex = [],
     cd_toolCallNameByIndex = [], cd_created = 0\<rparr>"

definition chatFinishReasonIsIncomplete :: "string \<Rightarrow> bool" where
  "chatFinishReasonIsIncomplete r \<longleftrightarrow> trim_space r \<in> {''length'', ''content_filter''}"

definition entry_at :: "(int \<times> string) list \<Rightarrow> int \<Rightarrow> string" where
  "entry_at m i = (case map_of m i of None \<Rightarrow> [] | Some s \<Rightarrow> s)"

text \<open>The identifier of a tool call: its own, the one known for its index, or a new one.\<close>

definition resolve_id :: "(nat \<Rightarrow> string) \<Rightarrow> chat_tool_call \<Rightarrow> chat_decoder \<Rightarrow> string \<times> chat_decoder" where
  "resolve_id newID tc d =
     (let own = trim_space (tc_ID tc); known = trim_space (entry_at (cd_toolCallIDByIndex d) (tc_Index tc)) in
      if own \<noteq> [] then (own, d\<lparr>cd_toolCallIDByIndex := AList.update (tc_Index tc) own (cd_toolCallIDByIndex d)\<rparr>)
      else if known \<noteq> [] then (known, d)
      else let fresh = ''call_'' @ newID (cd_created d) in
        (fresh, d\<lparr>cd_toolCallIDByIndex := AList.update (tc_Index tc) fresh (cd_toolCallIDByIndex d), cd_created := Suc (cd_created d)\<rparr>))"

definition resolve_name :: "chat_tool_call \<Rightarrow> chat_decoder \<Rightarrow> string \<times> chat_decoder" where
  "resolve_name tc d =
     (let own = trim_space (tc_Name tc) in
      if own \<noteq> [] then (own, d\<lparr>cd_toolCallNameByIndex := AList.update (tc_Index tc) own (cd_toolCallNameByIndex d)\<rparr>)
      else (trim_space (entry_at (cd_toolCallNameByIndex d) (tc_Index tc)), d))"

definition decode_tool :: "(nat \<Rightarrow> string) \<Rightarrow> chat_chunk \<Rightarrow> chat_tool_call \<Rightarrow> chat_decoder \<Rightarrow> stream_event \<times> chat_decoder" where
  "decode_tool newID chunk tc d0 =
     (let (callID, d1) = resolve_id newID tc d0; (name, d2) = resolve_name tc d1
      in ((event_of EvToolCallDelta)\<lparr>ev_ID := ck_ID chunk, ev_Model := ck_Model chunk, ev_ToolCallIndex := tc_Index tc, ev_ToolCallID := callID,
           ev_ToolCallName := name, ev_ToolCallArgumentsDelta := tc_Arguments tc\<rparr>, d2))"

fun decode_tools :: "(nat \<Rightarrow> string) \<Rightarrow> chat_chunk \<Rightarrow> chat_tool_call list \<Rightarrow> chat_decoder \<Rightarrow> stream_event list \<times> chat_decoder" where
  "decode_tools newID chunk [] d = ([], d)"
| "decode_tools newID chunk (tc # tcs) d =
     (let (ev, d') = decode_tool newID chunk tc d; (evs, d'') = decode_tools newID chunk tcs d' in (ev # evs, d''))"

text \<open>A choice with a finish reason only sets the end that is to come; of the others the contents are passed on.\<close>

definition decode_choice_events :: "(nat \<Rightarrow> string) \<Rightarrow> chat_chunk \<Rightarrow> chat_choice \<Rightarrow> chat_decoder \<Rightarrow> stream_event list \<times> chat_decoder" where
  "decode_choice_events newID chunk c d =
     (let finishReason = trim_space (cc_FinishReason c); meta = (\<lambda>ev. ev\<lparr>ev_ID := ck_ID chunk, ev_Model := ck_Model chunk\<rparr>) in
      if finishReason \<noteq> [] then
        ([], d\<lparr>cd_pendingTerminal := Some ((meta (event_of (if chatFinishReasonIsIncomplete finishReason then EvIncomplete else EvCompleted)))
           \<lparr>ev_CreatedAt := ck_Created chunk, ev_FinishReason := finishReason\<rparr>)\<rparr>)
      else
        let delta = (case as_string (cc_Content c) of None \<Rightarrow> [] | Some s \<Rightarrow> s);
            reasoning = nonEmptyString [cc_ReasoningContent c, cc_Thinking c];
            signature = cc_ThinkingSignature c;
            (tools, d') = decode_tools newID chunk (cc_ToolCalls c) d
        in ((if delta \<noteq> [] then [(meta (event_of EvTextDelta))\<lparr>ev_Delta := delta\<rparr>] else [])
            @ (if trim_space reasoning \<noteq> [] then [(meta (event_of EvReasoningDelta))\<lparr>ev_Delta := reasoning, ev_ReasoningKind := ''thinking''\<rparr>] else [])
            @ (if signature \<noteq> [] then [(meta (event_of EvReasoningDelta))\<lparr>ev_Delta := signature, ev_ReasoningKind := ''thinking_signature''\<rparr>] else [])
            @ tools, d'))"

fun decode_choices :: "(nat \<Rightarrow> string) \<Rightarrow> chat_chunk \<Rightarrow> chat_choice list \<Rightarrow> chat_decoder \<Rightarrow> stream_event list \<times> chat_decoder" where
  "decode_choices newID chunk [] d = ([], d)"
| "decode_choices newID chunk (c # cs) d =
     (let (evs, d') = decode_choice_events newID chunk c d; (evs', d'') = decode_choices newID chunk cs d' in (evs @ evs', d''))"

text \<open>A line with data: a chunk, which may be malformed, or the end mark.\<close>

definition chat_DecodeLine :: "(nat \<Rightarrow> string) \<Rightarrow> chat_wire \<Rightarrow> chat_decoder \<Rightarrow> stream_event list option \<times> chat_decoder" where
  "chat_DecodeLine newID line d = (case line of
      DoneMark \<Rightarrow>
        if cd_terminalEmitted d then (Some [], d)
        else (case cd_pendingTerminal d of
            Some terminal \<Rightarrow> (Some [terminal], d\<lparr>cd_terminalEmitted := True, cd_pendingTerminal := None\<rparr>)
          | None \<Rightarrow> (Some [event_of EvCompleted], d\<lparr>cd_terminalEmitted := True\<rparr>))
    | Chunk m \<Rightarrow> (case decode_chunk m of
          None \<Rightarrow> (None, d)
        | Some chunk \<Rightarrow>
            let created = (if cd_createdSent d then []
                  else [(event_of EvCreated)\<lparr>ev_ID := ck_ID chunk, ev_Model := ck_Model chunk, ev_CreatedAt := ck_Created chunk\<rparr>]);
                (evs, d') = decode_choices newID chunk (ck_Choices chunk) (d\<lparr>cd_createdSent := True\<rparr>);
                usage = (if usage_reported (ck_Usage chunk) then [(event_of EvUsage)\<lparr>ev_Usage := normalized (ck_Usage chunk)\<rparr>] else [])
            in (Some (created @ evs @ usage), d')))"

definition chat_Flush :: "chat_decoder \<Rightarrow> stream_event list \<times> chat_decoder" where
  "chat_Flush d = (case cd_pendingTerminal d of
      Some terminal \<Rightarrow> if cd_terminalEmitted d then ([], d) else ([terminal], d\<lparr>cd_pendingTerminal := None, cd_terminalEmitted := True\<rparr>)
    | None \<Rightarrow> ([], d))"

text \<open>Decoding a stream; \<open>None\<close> if a line is malformed.\<close>

fun chat_decode :: "(nat \<Rightarrow> string) \<Rightarrow> chat_wire list \<Rightarrow> chat_decoder \<Rightarrow> stream_event list option \<times> chat_decoder" where
  "chat_decode newID [] d = (Some [], d)"
| "chat_decode newID (w # ws) d = (case chat_DecodeLine newID w d of
      (None, d') \<Rightarrow> (None, d')
    | (Some evs, d') \<Rightarrow> (case chat_decode newID ws d' of (None, d'') \<Rightarrow> (None, d'') | (Some evs', d'') \<Rightarrow> (Some (evs @ evs'), d'')))"

section \<open>The contents of a stream\<close>

text \<open>The contents of a stream are its pieces: characters, each with the part of the answer it belongs to. \<open>sent_pieces\<close> are those of an event
  that is to be encoded, as far as the policy passes reasoning on; the decoder trims every piece of thinking.\<close>

datatype piece = PText char | PThinking char | PSignature char | PInput string char

definition pieces :: "stream_event \<Rightarrow> piece list" where
  "pieces ev = (case ev_Type ev of
      EvTextDelta \<Rightarrow> map PText (ev_Delta ev)
    | EvReasoningDelta \<Rightarrow> map (if ev_ReasoningKind ev = ''thinking_signature'' then PSignature else PThinking) (ev_Delta ev)
    | EvToolCallDelta \<Rightarrow> map (PInput (ev_ToolCallID ev)) (ev_ToolCallArgumentsDelta ev)
    | _ \<Rightarrow> [])"

definition sent_pieces :: "enc_env \<Rightarrow> stream_event \<Rightarrow> piece list" where
  "sent_pieces env ev = (case ev_Type ev of
      EvReasoningDelta \<Rightarrow>
        if reasoningPolicyForProtocol env (ev_ReasoningKind ev) \<noteq> ''passthrough'' then []
        else if ev_ReasoningKind ev = ''thinking_signature'' then map PSignature (ev_Delta ev) else map PThinking (trim_space (ev_Delta ev))
    | EvToolCallDelta \<Rightarrow>
        if trim_space (ev_ToolCallID ev) = [] then [] else map (PInput (trim_space (ev_ToolCallID ev))) (ev_ToolCallArgumentsDelta ev)
    | _ \<Rightarrow> pieces ev)"

abbreviation terminal :: "stream_event \<Rightarrow> bool" where
  "terminal ev \<equiv> ev_Type ev \<in> {EvCompleted, EvIncomplete, EvError}"

text \<open>Lines that a decoder in any state reads as the given pieces, without reaching an end.\<close>

definition sent :: "(nat \<Rightarrow> string) \<Rightarrow> chat_wire list \<Rightarrow> piece list \<Rightarrow> bool" where
  "sent newID ws ps \<longleftrightarrow> (\<forall>d. \<exists>evs d'. chat_decode newID ws d = (Some evs, d') \<and> concat (map pieces evs) = ps \<and> list_all (\<lambda>ev. \<not> terminal ev) evs
     \<and> cd_terminalEmitted d' = cd_terminalEmitted d \<and> cd_pendingTerminal d' = cd_pendingTerminal d)"

lemma chat_decode_append:
  assumes "chat_decode newID ws d = (Some evs, d1)"
  shows "chat_decode newID (ws @ vs) d = (case chat_decode newID vs d1 of (None, d2) \<Rightarrow> (None, d2) | (Some evs', d2) \<Rightarrow> (Some (evs @ evs'), d2))"
  using assms
proof (induction ws arbitrary: d evs)
  case (Cons w ws)
  then show ?case by (fastforce split: prod.splits option.splits)
qed (auto split: prod.split option.split)

lemma sent_nil [simp]: "sent newID [] []"
  by (simp add: sent_def)

lemma sent_append:
  assumes "sent newID ws ps" "sent newID vs qs"
  shows "sent newID (ws @ vs) (ps @ qs)"
  unfolding sent_def
proof
  fix d
  from assms(1) obtain evs d1 where 1: "chat_decode newID ws d = (Some evs, d1)" "concat (map pieces evs) = ps" "list_all (\<lambda>ev. \<not> terminal ev) evs"
    "cd_terminalEmitted d1 = cd_terminalEmitted d" "cd_pendingTerminal d1 = cd_pendingTerminal d" unfolding sent_def by metis
  from assms(2) obtain evs' d2 where 2: "chat_decode newID vs d1 = (Some evs', d2)" "concat (map pieces evs') = qs" "list_all (\<lambda>ev. \<not> terminal ev) evs'"
    "cd_terminalEmitted d2 = cd_terminalEmitted d1" "cd_pendingTerminal d2 = cd_pendingTerminal d1" unfolding sent_def by metis
  show "\<exists>evs d'. chat_decode newID (ws @ vs) d = (Some evs, d') \<and> concat (map pieces evs) = ps @ qs \<and> list_all (\<lambda>ev. \<not> terminal ev) evs
     \<and> cd_terminalEmitted d' = cd_terminalEmitted d \<and> cd_pendingTerminal d' = cd_pendingTerminal d"
    using 1 2 by (intro exI[of _ "evs @ evs'"] exI[of _ d2]) (simp add: chat_decode_append)
qed

text \<open>A chunk with one choice that carries a delta.\<close>

lemma decode_usage_zero: "decode_usage [] = Some zero_usage"
  by (simp add: decode_usage_def int_field_def obj_field_def obj_get_def zero_usage_def)

lemma decode_delta_chunk:
  assumes "decode_choice [(''index'', AInt 0), (''delta'', AObj delta)] = Some c"
  shows "\<exists>i cr mo. (case chunk_of [delta_choice delta] [] e of Chunk m \<Rightarrow> decode_chunk m | DoneMark \<Rightarrow> None)
     = Some \<lparr>ck_ID = i, ck_Created = cr, ck_Model = mo, ck_Choices = [c], ck_Usage = zero_usage\<rparr>"
  using assms by (simp add: chunk_of_def delta_choice_def decode_chunk_def string_field_def int_field_def objs_field_def obj_field_def obj_get_def decode_usage_zero)

lemma sent_delta:
  assumes "decode_choice [(''index'', AInt 0), (''delta'', AObj delta)] = Some c"
    and "\<And>chunk d. \<exists>evs d'. decode_choice_events newID chunk c d = (evs, d') \<and> concat (map pieces evs) = ps \<and> list_all (\<lambda>ev. \<not> terminal ev) evs
       \<and> cd_terminalEmitted d' = cd_terminalEmitted d \<and> cd_pendingTerminal d' = cd_pendingTerminal d"
  shows "sent newID [chunk_of [delta_choice delta] [] e] ps"
  unfolding sent_def
proof
  fix d
  obtain m chunk where m: "chunk_of [delta_choice delta] [] e = Chunk m" "decode_chunk m = Some chunk" "ck_Choices chunk = [c]" "ck_Usage chunk = zero_usage"
    using decode_delta_chunk[OF assms(1), of e] by (auto simp: chunk_of_def)
  obtain evs d' where e: "decode_choice_events newID chunk c (d\<lparr>cd_createdSent := True\<rparr>) = (evs, d')" "concat (map pieces evs) = ps"
    "list_all (\<lambda>ev. \<not> terminal ev) evs" "cd_terminalEmitted d' = cd_terminalEmitted d" "cd_pendingTerminal d' = cd_pendingTerminal d"
    using assms(2)[of chunk "d\<lparr>cd_createdSent := True\<rparr>"] by auto
  show "\<exists>evs d'. chat_decode newID [chunk_of [delta_choice delta] [] e] d = (Some evs, d') \<and> concat (map pieces evs) = ps \<and> list_all (\<lambda>ev. \<not> terminal ev) evs
     \<and> cd_terminalEmitted d' = cd_terminalEmitted d \<and> cd_pendingTerminal d' = cd_pendingTerminal d"
    using e m by (simp add: chat_DecodeLine_def usage_reported_def zero_usage_def pieces_def event_of_def)
qed

lemmas field_simps = decode_choice_def string_field_def int_field_def objs_field_def obj_field_def obj_get_def decode_tool_call_def

text \<open>What a choice without finish reason and tool calls gives.\<close>

definition plain_choice :: "any \<Rightarrow> string \<Rightarrow> string \<Rightarrow> chat_choice" where
  "plain_choice v r s = \<lparr>cc_Content = v, cc_ReasoningContent = r, cc_Thinking = [], cc_ThinkingSignature = s, cc_ToolCalls = [], cc_FinishReason = []\<rparr>"

lemma plain_choice_events:
  assumes "as_string v = Some t \<or> t = [] \<and> as_string v = None"
  shows "\<exists>evs d'. decode_choice_events newID chunk (plain_choice v r s) d = (evs, d')
     \<and> concat (map pieces evs) = map PText t @ map PThinking (trim_space r) @ map PSignature s \<and> list_all (\<lambda>ev. \<not> terminal ev) evs
     \<and> cd_terminalEmitted d' = cd_terminalEmitted d \<and> cd_pendingTerminal d' = cd_pendingTerminal d"
proof -
  have "(case as_string v of None \<Rightarrow> [] | Some s \<Rightarrow> s) = t" using assms by auto
  moreover have "nonEmptyString [r, []] = trim_space r" by simp
  ultimately show ?thesis
    by (cases "t = []"; cases "trim_space r = []"; cases "s = []")
      (simp_all add: decode_choice_events_def plain_choice_def Let_def pieces_def event_of_def del: nonEmptyString.simps)
qed

lemmas sent_plain = sent_delta[OF _ plain_choice_events]

lemma sent_role: "sent newID [chunk_of [delta_choice [(''role'', AString ''assistant'')]] [] e] []"
  using sent_plain[of _ ANil "[]" "[]" "[]"] by (simp add: field_simps plain_choice_def)

lemma sent_citations: "sent newID [chunk_of [delta_choice [(''citations'', AList vs)]] [] e] []"
  using sent_plain[of _ ANil "[]" "[]" "[]"] by (simp add: field_simps plain_choice_def)

lemma sent_content: "sent newID [chunk_of [delta_choice [(''content'', AString s)]] [] e] (map PText s)"
  using sent_plain[of _ "AString s" "[]" "[]" s] by (simp add: field_simps plain_choice_def)

lemma sent_signature: "sent newID [chunk_of [delta_choice [(''thinking_signature'', AString s)]] [] e] (map PSignature s)"
  using sent_plain[of _ ANil "[]" s "[]"] by (simp add: field_simps plain_choice_def)

lemma sent_reasoning: "sent newID [chunk_of [delta_choice [(''reasoning_content'', AString s)]] [] e] (map PThinking (trim_space s))"
  using sent_plain[of _ ANil s "[]" "[]"] by (simp add: field_simps plain_choice_def)

lemma resolve_own:
  assumes "trim_space (tc_ID tc) \<noteq> []"
  shows "fst (resolve_id newID tc d) = trim_space (tc_ID tc)" "cd_terminalEmitted (snd (resolve_id newID tc d)) = cd_terminalEmitted d"
    "cd_pendingTerminal (snd (resolve_id newID tc d)) = cd_pendingTerminal d"
  using assms by (simp_all add: resolve_id_def Let_def)

lemma resolve_name_frame: "cd_terminalEmitted (snd (resolve_name tc d)) = cd_terminalEmitted d" "cd_pendingTerminal (snd (resolve_name tc d)) = cd_pendingTerminal d"
  by (simp_all add: resolve_name_def Let_def)

lemma sent_tool:
  assumes "trim_space callID = callID" "callID \<noteq> []"
  shows "sent newID [chunk_of [delta_choice [(''tool_calls'', AList [tool_payload ev callID named e'])]] [] e] (map (PInput callID) (ev_ToolCallArgumentsDelta ev))"
proof (rule sent_delta)
  let ?tc = "\<lparr>tc_Index = chat_index callID e', tc_ID = callID, tc_Name = (if named then ev_ToolCallName ev else []), tc_Arguments = ev_ToolCallArgumentsDelta ev\<rparr>"
  let ?c = "\<lparr>cc_Content = ANil, cc_ReasoningContent = [], cc_Thinking = [], cc_ThinkingSignature = [], cc_ToolCalls = [?tc], cc_FinishReason = []\<rparr>"
  show "decode_choice [(''index'', AInt 0), (''delta'', AObj [(''tool_calls'', AList [tool_payload ev callID named e'])])] = Some ?c"
    by (simp add: field_simps tool_payload_def)
  fix chunk d
  show "\<exists>evs d'. decode_choice_events newID chunk ?c d = (evs, d') \<and> concat (map pieces evs) = map (PInput callID) (ev_ToolCallArgumentsDelta ev)
     \<and> list_all (\<lambda>ev. \<not> terminal ev) evs \<and> cd_terminalEmitted d' = cd_terminalEmitted d \<and> cd_pendingTerminal d' = cd_pendingTerminal d"
    using resolve_own[of ?tc newID d] assms
    by (auto simp: decode_choice_events_def Let_def decode_tool_def pieces_def event_of_def resolve_name_frame split: prod.split
      dest: arg_cong[where f = "\<lambda>p. cd_terminalEmitted (snd p)"] arg_cong[where f = "\<lambda>p. cd_pendingTerminal (snd p)"])
qed

section \<open>What the encoder writes is read back\<close>

definition adds :: "(nat \<Rightarrow> string) \<Rightarrow> chat_encoder \<Rightarrow> piece list \<Rightarrow> chat_encoder \<Rightarrow> bool" where
  "adds newID e ps e' \<longleftrightarrow> (\<exists>ws. ce_out e' = ce_out e @ ws \<and> sent newID ws ps)"

lemma adds_same: "ce_out e' = ce_out e \<Longrightarrow> adds newID e [] e'"
  by (simp add: adds_def)

lemma adds_trans: "adds newID e ps e1 \<Longrightarrow> adds newID e1 qs e2 \<Longrightarrow> adds newID e (ps @ qs) e2"
  unfolding adds_def by (metis append.assoc sent_append)

lemma adds_out: "adds newID e ps e1 \<Longrightarrow> ce_out e0 = ce_out e \<Longrightarrow> adds newID e0 ps e1"
  by (simp add: adds_def)

lemma adds_delta:
  assumes "write_delta env delta e = (None, e')" "sent newID [chunk_of [delta_choice delta] [] e] ps" "ce_out e0 = ce_out e"
  shows "adds newID e0 ps e'"
  using assms by (auto simp: adds_def write_delta_def chat_write_def split: if_splits)

lemma start_adds: "sendStartIfNeeded env e = (None, e') \<Longrightarrow> adds newID e [] e'"
  by (auto simp: sendStartIfNeeded_def unless_def intro: adds_same adds_delta[OF _ sent_role] split: if_splits)

text \<open>The start of the stream, then one delta.\<close>

lemma start_delta_adds:
  assumes "steps [sendStartIfNeeded env, upd f, write_delta env delta] e = (None, e')"
    and "\<And>e. ce_out (f e) = ce_out e" and "\<And>e. sent newID [chunk_of [delta_choice delta] [] e] ps"
  shows "adds newID e ps e'"
proof -
  obtain e1 where "sendStartIfNeeded env e = (None, e1)" and "write_delta env delta (f e1) = (None, e')" using assms(1) by auto
  then show ?thesis using adds_trans[OF start_adds adds_delta[OF _ assms(3)]] assms(2) by (metis append_Nil)
qed

lemma mergeMeta_out [simp]: "ce_out (chat_mergeMeta ev e) = ce_out e"
  by (simp add: chat_mergeMeta_def Let_def)

lemma note_tool_out [simp]: "ce_out (note_tool ev i e) = ce_out e"
  by (simp add: note_tool_def Let_def)

lemma chat_annotate_adds: "chat_annotate a e = (None, e') \<Longrightarrow> adds newID e [] e'"
  by (auto simp: chat_annotate_def intro: adds_same)

lemma chat_text_adds:
  assumes "chat_sendText env ev e = (None, e')"
  shows "adds newID e (map PText (ev_Delta ev)) e'"
proof (cases "ev_Delta ev = []")
  case False
  with assms have "steps [sendStartIfNeeded env, upd (\<lambda>e. e\<lparr>ce_sawText := True\<rparr>), write_delta env [(''content'', AString (ev_Delta ev))]] e = (None, e')"
    by (simp add: chat_sendText_def)
  then show ?thesis by (rule start_delta_adds[OF _ _ sent_content]) simp
qed (use assms in \<open>auto simp: chat_sendText_def intro: adds_same\<close>)

lemma chat_reasoning_adds:
  assumes "chat_sendReasoning env ev e = (None, e')" "ev_Type ev = EvReasoningDelta"
  shows "adds newID e (sent_pieces env ev) e'"
proof -
  consider (redacted) "reasoningPolicyForProtocol env (ev_ReasoningKind ev) \<noteq> ''passthrough''" | (none) "ev_Delta ev = []"
    | (signature) "reasoningPolicyForProtocol env (ev_ReasoningKind ev) = ''passthrough''" "ev_Delta ev \<noteq> []" "ev_ReasoningKind ev = ''thinking_signature''"
    | (thinking) "reasoningPolicyForProtocol env (ev_ReasoningKind ev) = ''passthrough''" "ev_Delta ev \<noteq> []" "ev_ReasoningKind ev \<noteq> ''thinking_signature''"
    by blast
  then show ?thesis
  proof cases
    case signature
    then show ?thesis
      using start_delta_adds[OF _ _ sent_signature, where f = "\<lambda>e. e"] assms by (simp add: chat_sendReasoning_def sent_pieces_def)
  next
    case thinking
    then show ?thesis
      using start_delta_adds[OF _ _ sent_reasoning, where f = "\<lambda>e. e"] assms by (simp add: chat_sendReasoning_def sent_pieces_def)
  qed (use assms in \<open>auto simp: chat_sendReasoning_def sent_pieces_def intro: adds_same chat_annotate_adds split: if_splits\<close>)
qed

lemma annotation_adds:
  assumes "chat_sendAnnotation env ev e = (None, e')"
  shows "adds newID e [] e'"
proof (cases "isGrokSite (ee_SiteType env)")
  case True
  then obtain e1 where e1: "chat_annotate (ev_Annotation ev) e = (None, e1)"
    and "steps [sendStartIfNeeded env, upd (\<lambda>e. e), write_delta env [(''citations'', AList [ev_Annotation ev])]] e1 = (None, e')"
    using assms by (auto simp: chat_sendAnnotation_def cond_def)
  from adds_trans[OF chat_annotate_adds[OF e1] start_delta_adds[OF this(2) _ sent_citations]] show ?thesis by simp
next
  case False
  then show ?thesis using assms by (auto simp: chat_sendAnnotation_def cond_def intro: chat_annotate_adds)
qed

lemma chat_tool_adds:
  assumes "chat_sendToolCallDelta env ev e = (None, e')" "ev_Type ev = EvToolCallDelta"
  shows "adds newID e (sent_pieces env ev) e'"
proof (cases "trim_space (ev_ToolCallID ev) = []")
  case True
  then show ?thesis using assms by (auto simp: chat_sendToolCallDelta_def sent_pieces_def intro: adds_same)
next
  case False
  let ?i = "trim_space (ev_ToolCallID ev)"
  obtain e1 where e1: "sendStartIfNeeded env e = (None, e1)" and w: "write_tool env ev ?i (note_tool ev ?i e1) = (None, e')"
    using assms False by (auto simp: chat_sendToolCallDelta_def Let_def)
  have "adds newID e1 (map (PInput ?i) (ev_ToolCallArgumentsDelta ev)) e'"
    using w False by (auto simp: write_tool_def Let_def intro!: adds_delta[OF _ sent_tool] split: if_splits)
  from adds_trans[OF start_adds[OF e1] this] show ?thesis using assms(2) False by (simp add: sent_pieces_def)
qed

lemma chat_encode_adds:
  assumes "chat_EncodeEvent env ev e = (None, e')" "\<not> terminal ev"
  shows "adds newID e (sent_pieces env ev) e'"
proof (rule adds_out[where e = "chat_mergeMeta ev e"])
  let ?e = "chat_mergeMeta ev e"
  consider (tool) "ev_Type ev = EvToolCallDelta" | (reasoning) "ev_Type ev = EvReasoningDelta" | (other) "ev_Type ev \<notin> {EvToolCallDelta, EvReasoningDelta}" by blast
  then show "adds newID ?e (sent_pieces env ev) e'"
  proof cases
    case other
    then have "sent_pieces env ev = pieces ev" by (simp add: sent_pieces_def split: event_type.split)
    then show ?thesis using assms other by (cases "ev_Type ev")
      (auto simp: chat_EncodeEvent_def pieces_def intro: adds_same start_adds chat_text_adds chat_annotate_adds annotation_adds)
  qed (use assms in \<open>auto simp: chat_EncodeEvent_def intro: chat_reasoning_adds chat_tool_adds\<close>)
qed simp

lemma encode_all_adds:
  assumes "steps (map (chat_EncodeEvent env) es) e = (None, e')" "list_all (\<lambda>ev. \<not> terminal ev) es"
  shows "adds newID e (concat (map (sent_pieces env) es)) e'"
  using assms
proof (induction es arbitrary: e)
  case (Cons ev es)
  then obtain e1 where "chat_EncodeEvent env ev e = (None, e1)" "steps (map (chat_EncodeEvent env) es) e1 = (None, e')" by auto
  then show ?case using Cons adds_trans[OF chat_encode_adds Cons.IH] by auto
qed (auto intro: adds_same)

text \<open>Only the end of the stream sets \<open>stopSent\<close>; what has been seen decides the reason that is given.\<close>

definition has_text :: "stream_event \<Rightarrow> bool" where
  "has_text ev \<longleftrightarrow> ev_Type ev = EvTextDelta \<and> ev_Delta ev \<noteq> []"

definition has_tool :: "stream_event \<Rightarrow> bool" where
  "has_tool ev \<longleftrightarrow> ev_Type ev = EvToolCallDelta \<and> trim_space (ev_ToolCallID ev) \<noteq> []"

abbreviation seen :: "chat_encoder \<Rightarrow> bool \<times> bool \<times> bool" where
  "seen e \<equiv> (ce_sawText e, ce_sawToolCall e, ce_stopSent e)"

lemma seen_write: "chat_write env f e = (None, e') \<Longrightarrow> seen e' = seen e"
  by (auto simp: chat_write_def split: if_splits)

lemma seen_delta: "write_delta env delta e = (None, e') \<Longrightarrow> seen e' = seen e"
  using seen_write by (simp add: write_delta_def)

lemma seen_start: "sendStartIfNeeded env e = (None, e') \<Longrightarrow> seen e' = seen e"
  by (auto simp: sendStartIfNeeded_def unless_def dest: seen_delta split: if_splits)

lemma seen_mergeMeta [simp]: "ce_sawText (chat_mergeMeta ev e) = ce_sawText e" "ce_sawToolCall (chat_mergeMeta ev e) = ce_sawToolCall e"
  "ce_stopSent (chat_mergeMeta ev e) = ce_stopSent e"
  by (simp_all add: chat_mergeMeta_def Let_def)

lemma seen_tool:
  assumes "chat_sendToolCallDelta env ev e = (None, e')" "ev_Type ev = EvToolCallDelta"
  shows "seen e' = (ce_sawText e, ce_sawToolCall e \<or> has_tool ev, ce_stopSent e)"
proof (cases "trim_space (ev_ToolCallID ev) = []")
  case False
  let ?i = "trim_space (ev_ToolCallID ev)"
  obtain e1 where e1: "sendStartIfNeeded env e = (None, e1)" and w: "write_tool env ev ?i (note_tool ev ?i e1) = (None, e')"
    using assms False by (auto simp: chat_sendToolCallDelta_def Let_def)
  have "seen e' = seen (note_tool ev ?i e1)" using w by (auto simp: write_tool_def Let_def dest!: seen_delta split: if_splits)
  then show ?thesis using seen_start[OF e1] False assms(2) by (simp add: note_tool_def Let_def has_tool_def)
qed (use assms in \<open>auto simp: chat_sendToolCallDelta_def has_tool_def\<close>)

lemma seen_encode:
  assumes "chat_EncodeEvent env ev e = (None, e')" "\<not> terminal ev"
  shows "seen e' = (ce_sawText e \<or> has_text ev, ce_sawToolCall e \<or> has_tool ev, ce_stopSent e)"
proof (cases "ev_Type ev")
  case EvToolCallDelta
  then show ?thesis using assms seen_tool[of env ev "chat_mergeMeta ev e" e'] by (simp add: chat_EncodeEvent_def has_text_def)
qed (use assms in \<open>auto simp: chat_EncodeEvent_def chat_sendText_def chat_sendReasoning_def chat_sendAnnotation_def chat_annotate_def cond_def has_text_def has_tool_def
   dest!: seen_start seen_delta split: if_splits\<close>)

lemma seen_encode_all:
  assumes "steps (map (chat_EncodeEvent env) es) e = (None, e')" "list_all (\<lambda>ev. \<not> terminal ev) es"
  shows "seen e' = (ce_sawText e \<or> list_ex has_text es, ce_sawToolCall e \<or> list_ex has_tool es, ce_stopSent e)"
  using assms
proof (induction es arbitrary: e)
  case (Cons ev es)
  then obtain e1 where e1: "chat_EncodeEvent env ev e = (None, e1)" "steps (map (chat_EncodeEvent env) es) e1 = (None, e')" by auto
  have t: "\<not> terminal ev" "list_all (\<lambda>ev. \<not> terminal ev) es" using Cons.prems(2) by simp_all
  show ?case using Cons.IH[OF e1(2) t(2)] seen_encode[OF e1(1) t(1)] by simp
qed simp

section \<open>The end of the stream\<close>

definition reason_sent :: "string \<Rightarrow> chat_encoder \<Rightarrow> string" where
  "reason_sent r e = (if ce_sawToolCall e \<and> \<not> ce_sawText e then ''tool_calls'' else r)"

lemma validate_args_out: "validate_args args e = (None, e') \<Longrightarrow> e' = e"
  by (induction args) (auto split: option.splits)

lemma require_usage_same: "chat_require_usage env e = (None, e') \<Longrightarrow> e' = e"
  by (auto simp: chat_require_usage_def split: if_splits)

lemma sent_usage: "sent newID [usage_chunk e] []"
proof -
  obtain us where "decode_usage (chatCompletionUsagePayload (cap_usage (ce_capture e))) = Some us"
    by (simp add: decode_usage_def chatCompletionUsagePayload_def int_field_def obj_field_def obj_get_def Let_def)
  then obtain m chunk where m: "usage_chunk e = Chunk m" "decode_chunk m = Some chunk" "ck_Choices chunk = []"
    by (simp add: usage_chunk_def chunk_of_def decode_chunk_def string_field_def int_field_def objs_field_def obj_field_def obj_get_def)
  show ?thesis unfolding sent_def using m(3)
    by (simp add: m(1,2) chat_DecodeLine_def pieces_def[of "event_of _"] pieces_def[of "(event_of _)\<lparr>ev_Usage := _\<rparr>"] pieces_def event_of_def)
qed

text \<open>The chunk with the reason only sets the end that is to come.\<close>

definition end_event :: "string \<Rightarrow> string \<Rightarrow> int \<Rightarrow> string \<Rightarrow> stream_event" where
  "end_event i mo cr r = (event_of (if chatFinishReasonIsIncomplete r then EvIncomplete else EvCompleted))
     \<lparr>ev_ID := i, ev_Model := mo, ev_CreatedAt := cr, ev_FinishReason := trim_space r\<rparr>"

lemma decode_finish:
  assumes "trim_space (reason_sent r e) \<noteq> []"
  shows "\<exists>evs d' i mo cr. chat_decode newID [finish_chunk r e] d = (Some evs, d') \<and> concat (map pieces evs) = [] \<and> list_all (\<lambda>ev. \<not> terminal ev) evs
     \<and> cd_terminalEmitted d' = cd_terminalEmitted d \<and> cd_pendingTerminal d' = Some (end_event i mo cr (reason_sent r e))"
proof -
  let ?c = "\<lparr>cc_Content = ANil, cc_ReasoningContent = [], cc_Thinking = [], cc_ThinkingSignature = [], cc_ToolCalls = [], cc_FinishReason = reason_sent r e\<rparr>"
  have "decode_choice [(''index'', AInt 0), (''delta'', AObj []), (''finish_reason'', AString (reason_sent r e))] = Some ?c"
    by (simp add: field_simps)
  then have "\<exists>m chunk. finish_chunk r e = Chunk m \<and> decode_chunk m = Some chunk \<and> ck_Choices chunk = [?c] \<and> ck_Usage chunk = zero_usage"
    by (auto simp: finish_chunk_def chunk_of_def decode_chunk_def string_field_def int_field_def objs_field_def obj_field_def obj_get_def decode_usage_zero
      simp flip: reason_sent_def)
  then obtain m chunk where m: "finish_chunk r e = Chunk m" "decode_chunk m = Some chunk" "ck_Choices chunk = [?c]" "ck_Usage chunk = zero_usage" by blast
  have i: "chatFinishReasonIsIncomplete (trim_space x) = chatFinishReasonIsIncomplete x" for x by (simp add: chatFinishReasonIsIncomplete_def)
  show ?thesis
    using m assms by (fastforce simp: chat_DecodeLine_def decode_choice_events_def usage_reported_def zero_usage_def pieces_def Let_def end_event_def i event_of_def)
qed

lemma terminal_written:
  assumes "sendTerminal env r completed endReason e = (None, e')" "\<not> ce_stopSent e"
  shows "\<exists>e1 us. adds newID e [] e1 \<and> seen e1 = seen e \<and> set us \<subseteq> range usage_chunk \<and> ce_out e' = ce_out e1 @ [finish_chunk r e1] @ us @ [DoneMark]"
proof -
  let ?b = "\<lambda>e. ee_IncludeUsage env \<and> usage_reported (cap_usage (ce_capture e))"
  obtain e0 e1 e2 e3 e4 where c: "chat_require_usage env e = (None, e0)" "sendStartIfNeeded env e0 = (None, e1)" "chat_write env (finish_chunk r) e1 = (None, e2)"
    "cond ?b (chat_write env usage_chunk) e2 = (None, e3)" "chat_write env (\<lambda>_. DoneMark) e3 = (None, e4)" "ce_out e' = ce_out e4"
    using assms by (auto simp: sendTerminal_def unless_def)
  have "e0 = e" using c(1) by (rule require_usage_same)
  then have "adds newID e [] e1" "seen e1 = seen e" using start_adds[OF c(2)] seen_start[OF c(2)] by simp_all
  moreover have "\<exists>us. ce_out e3 = ce_out e2 @ us \<and> set us \<subseteq> range usage_chunk"
    using c(4) by (auto simp: cond_def chat_write_def split: if_splits)
  ultimately show ?thesis using c(3,5,6) by (fastforce simp: chat_write_def split: if_splits)
qed

lemma sent_usages: "set us \<subseteq> range usage_chunk \<Longrightarrow> sent newID us []"
proof (induction us)
  case (Cons w us)
  then show ?case using sent_append[of newID "[w]" "[]" us "[]"] sent_usage by auto
qed simp

text \<open>Completion and incompletion as the encoder is asked for them.\<close>

definition asked_reason :: "stream_event \<Rightarrow> string" where
  "asked_reason fin = (if ev_Type fin = EvIncomplete then nonEmptyString [ev_FinishReason fin, ''length''] else ''stop'')"

lemma asked_reason_trimmed: "trim_space (asked_reason fin) = asked_reason fin" "asked_reason fin \<noteq> []"
proof -
  have "trim_space ''stop'' = ''stop''" "trim_space ''length'' = ''length''" by code_simp+
  then show "trim_space (asked_reason fin) = asked_reason fin" "asked_reason fin \<noteq> []" by (auto simp: asked_reason_def)
qed

lemma end_encoded:
  assumes "chat_EncodeEvent env fin e = (None, e')" "ev_Type fin \<in> {EvCompleted, EvIncomplete}"
  obtains completed endReason where "sendTerminal env (asked_reason fin) completed endReason (chat_mergeMeta fin e) = (None, e')"
proof (cases "ev_Type fin = EvIncomplete")
  case True
  then have "sendTerminal env (asked_reason fin) False ''response_incomplete'' (chat_mergeMeta fin e) = (None, e')"
    using assms by (simp add: chat_EncodeEvent_def chat_sendIncomplete_def asked_reason_def del: nonEmptyString.simps)
  then show ?thesis by (rule that)
next
  case False
  then have "sendTerminal env (asked_reason fin) True ''done'' (chat_mergeMeta fin e) = (None, e')"
    using assms by (auto simp: chat_EncodeEvent_def chat_sendFinish_def asked_reason_def dest!: validate_args_out)
  then show ?thesis by (rule that)
qed

text \<open>What is read at the end.\<close>

lemma end_read:
  assumes "trim_space (reason_sent r e) = reason_sent r e" "reason_sent r e \<noteq> []" "set us \<subseteq> range usage_chunk" "\<not> cd_terminalEmitted d1"
  shows "\<exists>evs t d. chat_decode newID ([finish_chunk r e] @ us @ [DoneMark]) d1 = (Some (evs @ [t]), d) \<and> concat (map pieces evs) = []
     \<and> list_all (\<lambda>ev. \<not> terminal ev) evs \<and> ev_FinishReason t = reason_sent r e
     \<and> ev_Type t = (if chatFinishReasonIsIncomplete (reason_sent r e) then EvIncomplete else EvCompleted)"
proof -
  let ?r = "reason_sent r e"
  obtain evs2 d2 i mo cr where 2: "chat_decode newID [finish_chunk r e] d1 = (Some evs2, d2)" "concat (map pieces evs2) = []"
    "list_all (\<lambda>ev. \<not> terminal ev) evs2" "\<not> cd_terminalEmitted d2" "cd_pendingTerminal d2 = Some (end_event i mo cr ?r)"
    using decode_finish[of r e newID d1] assms(1,2,4) by auto
  obtain evs3 d3 where 3: "chat_decode newID us d2 = (Some evs3, d3)" "concat (map pieces evs3) = []" "list_all (\<lambda>ev. \<not> terminal ev) evs3"
    "\<not> cd_terminalEmitted d3" "cd_pendingTerminal d3 = Some (end_event i mo cr ?r)"
    using sent_usages[OF assms(3), of newID] 2(4,5) unfolding sent_def by metis
  have 4: "chat_decode newID [DoneMark] d3 = (Some [end_event i mo cr ?r], d3\<lparr>cd_terminalEmitted := True, cd_pendingTerminal := None\<rparr>)"
    using 3(4,5) by (simp add: chat_DecodeLine_def)
  have "chat_decode newID ([finish_chunk r e] @ us @ [DoneMark]) d1
      = (Some ((evs2 @ evs3) @ [end_event i mo cr ?r]), d3\<lparr>cd_terminalEmitted := True, cd_pendingTerminal := None\<rparr>)"
    by (simp only: chat_decode_append[OF 2(1)] chat_decode_append[OF 3(1)] 4 prod.case option.case append.assoc)
  moreover have "concat (map pieces (evs2 @ evs3)) = []" "list_all (\<lambda>ev. \<not> terminal ev) (evs2 @ evs3)" using 2(2,3) 3(2,3) by simp_all
  moreover have "ev_FinishReason (end_event i mo cr ?r) = ?r" "ev_Type (end_event i mo cr ?r) = (if chatFinishReasonIsIncomplete ?r then EvIncomplete else EvCompleted)"
    using assms(1) by (simp_all add: end_event_def event_of_def)
  ultimately show ?thesis by blast
qed

text \<open>C16. What the chat encoder writes for a stream that ends, the chat decoder reads back: the same characters of text, of signatures and
  of tool arguments, in the same order, and one final event. Thinking comes back with each delta trimmed. The end that is read is
  the one that was asked for, unless tool calls were sent without text: then the reason is \<open>tool_calls\<close> and the end always reads as complete.\<close>

theorem chat_stream_round_trip:
  assumes "steps (map (chat_EncodeEvent env) (es @ [fin])) (newOpenAIChatStreamEncoder now cap) = (None, e)"
    and "list_all (\<lambda>ev. ev_Type ev \<notin> {EvCompleted, EvIncomplete, EvError}) es" and "ev_Type fin \<in> {EvCompleted, EvIncomplete}"
  shows "\<exists>evs t d. chat_decode newID (ce_out e) new_chat_decoder = (Some (evs @ [t]), d)
     \<and> concat (map pieces evs) = concat (map (sent_pieces env) es)
     \<and> list_all (\<lambda>ev. ev_Type ev \<notin> {EvCompleted, EvIncomplete, EvError}) evs
     \<and> ev_FinishReason t = (if list_ex has_tool es \<and> \<not> list_ex has_text es then ''tool_calls'' else asked_reason fin)
     \<and> ev_Type t = (if chatFinishReasonIsIncomplete (ev_FinishReason t) then EvIncomplete else EvCompleted)"
proof -
  let ?new = "newOpenAIChatStreamEncoder now cap" and ?es = "concat (map (sent_pieces env) es)"
  obtain e1 where e1: "steps (map (chat_EncodeEvent env) es) ?new = (None, e1)" and fin: "chat_EncodeEvent env fin e1 = (None, e)"
    using assms(1) by (auto simp: steps_snoc)
  have seen1: "seen e1 = (list_ex has_text es, list_ex has_tool es, False)"
    using seen_encode_all[OF e1 assms(2)] by (simp add: newOpenAIChatStreamEncoder_def)
  obtain completed endReason where t: "sendTerminal env (asked_reason fin) completed endReason (chat_mergeMeta fin e1) = (None, e)"
    using end_encoded[OF fin assms(3)] .
  have "\<not> ce_stopSent (chat_mergeMeta fin e1)" using seen1 by simp
  from terminal_written[OF t this, of newID] obtain e2 us where e2: "adds newID (chat_mergeMeta fin e1) [] e2" "seen e2 = seen e1" "set us \<subseteq> range usage_chunk"
    "ce_out e = ce_out e2 @ [finish_chunk (asked_reason fin) e2] @ us @ [DoneMark]"
    unfolding seen_mergeMeta by blast
  let ?r = "reason_sent (asked_reason fin) e2"
  have r: "?r = (if list_ex has_tool es \<and> \<not> list_ex has_text es then ''tool_calls'' else asked_reason fin)"
    using e2(2) seen1 by (simp add: reason_sent_def)
  have "trim_space ''tool_calls'' = ''tool_calls''" by code_simp
  then have rt: "trim_space ?r = ?r" "?r \<noteq> []" using asked_reason_trimmed[of fin] unfolding reason_sent_def by auto
  have "adds newID ?new (?es @ []) e2"
    by (rule adds_trans[OF encode_all_adds[OF e1 assms(2)] adds_out[OF e2(1)]]) simp
  then have "sent newID (ce_out e2) ?es" by (simp add: adds_def newOpenAIChatStreamEncoder_def)
  then obtain evs1 d1 where 1: "chat_decode newID (ce_out e2) new_chat_decoder = (Some evs1, d1)" "concat (map pieces evs1) = ?es"
    "list_all (\<lambda>ev. \<not> terminal ev) evs1" "\<not> cd_terminalEmitted d1" unfolding sent_def by (auto simp: new_chat_decoder_def dest: spec[of _ new_chat_decoder])
  obtain evs2 t d where 2: "chat_decode newID ([finish_chunk (asked_reason fin) e2] @ us @ [DoneMark]) d1 = (Some (evs2 @ [t]), d)"
    "concat (map pieces evs2) = []" "list_all (\<lambda>ev. \<not> terminal ev) evs2" "ev_FinishReason t = ?r" "ev_Type t = (if chatFinishReasonIsIncomplete ?r then EvIncomplete else EvCompleted)"
    using end_read[OF rt e2(3) 1(4)] by blast
  have "chat_decode newID (ce_out e) new_chat_decoder = (Some ((evs1 @ evs2) @ [t]), d)"
    unfolding e2(4) by (simp only: chat_decode_append[OF 1(1)] 2(1) prod.case option.case append.assoc)
  moreover have "concat (map pieces (evs1 @ evs2)) = ?es" "list_all (\<lambda>ev. \<not> terminal ev) (evs1 @ evs2)" using 1(2,3) 2(2,3) by simp_all
  moreover have "ev_FinishReason t = (if list_ex has_tool es \<and> \<not> list_ex has_text es then ''tool_calls'' else asked_reason fin)"
    "ev_Type t = (if chatFinishReasonIsIncomplete (ev_FinishReason t) then EvIncomplete else EvCompleted)" using 2(4,5) r by simp_all
  ultimately show ?thesis by (intro exI conjI)
qed

definition demo_chat_env :: enc_env where
  "demo_chat_env = \<lparr>ee_write = (\<lambda>_. True), ee_events = [], ee_reasoning = [(''default'', ''passthrough'')],
     ee_IncludeUsage = True, ee_RequireUsage = False, ee_SiteType = ''openai'', ee_CustomTools = [], ee_ResponseTools = []\<rparr>"

definition demo_chat_events :: "stream_event list" where
  "demo_chat_events = [(event_of EvReasoningDelta)\<lparr>ev_ReasoningKind := ''thinking'', ev_Delta := ''a ''\<rparr>,
     (event_of EvToolCallDelta)\<lparr>ev_ToolCallID := ''c1'', ev_ToolCallName := ''f'', ev_ToolCallArgumentsDelta := ''{''\<rparr>]"

definition demo_cut :: stream_event where
  "demo_cut = (event_of EvIncomplete)\<lparr>ev_FinishReason := ''length''\<rparr>"

text \<open>A stream that the upstream cut inside the arguments of a tool call, after thinking that ends in a space: the space is lost and the end
  reads as complete.\<close>

theorem chat_stream_round_trip_witness:
  "\<exists>e evs t d. steps (map (chat_EncodeEvent demo_chat_env) (demo_chat_events @ [demo_cut])) (newOpenAIChatStreamEncoder 0 new_capture) = (None, e)
     \<and> chat_decode (\<lambda>_. ''x'') (ce_out e) new_chat_decoder = (Some (evs @ [t]), d)
     \<and> concat (map pieces evs) = [PThinking (CHR ''a''), PInput ''c1'' (CHR ''{'')] \<and> ev_FinishReason t = ''tool_calls'' \<and> ev_Type t = EvCompleted"
proof -
  let ?new = "newOpenAIChatStreamEncoder 0 new_capture"
  have "fst (steps (map (chat_EncodeEvent demo_chat_env) (demo_chat_events @ [demo_cut])) ?new) = None" by code_simp
  then obtain e where e: "steps (map (chat_EncodeEvent demo_chat_env) (demo_chat_events @ [demo_cut])) ?new = (None, e)" by (metis prod.collapse)
  have "list_all (\<lambda>ev. ev_Type ev \<notin> {EvCompleted, EvIncomplete, EvError}) demo_chat_events" "ev_Type demo_cut \<in> {EvCompleted, EvIncomplete}"
    by code_simp+
  from chat_stream_round_trip[OF e this, of "\<lambda>_. ''x''"] obtain evs t d where c: "chat_decode (\<lambda>_. ''x'') (ce_out e) new_chat_decoder = (Some (evs @ [t]), d)"
    "concat (map pieces evs) = concat (map (sent_pieces demo_chat_env) demo_chat_events)"
    "ev_FinishReason t = (if list_ex has_tool demo_chat_events \<and> \<not> list_ex has_text demo_chat_events then ''tool_calls'' else asked_reason demo_cut)"
    "ev_Type t = (if chatFinishReasonIsIncomplete (ev_FinishReason t) then EvIncomplete else EvCompleted)" by blast
  have "concat (map (sent_pieces demo_chat_env) demo_chat_events) = [PThinking (CHR ''a''), PInput ''c1'' (CHR ''{'')]"
    "list_ex has_tool demo_chat_events" "\<not> list_ex has_text demo_chat_events" "\<not> chatFinishReasonIsIncomplete ''tool_calls''"
    by code_simp+
  then show ?thesis using e c by auto
qed

text \<open>The usage report of the last chunk: the totals and the cached tokens come back, the reasoning tokens do not, since the encoder puts them
  into \<open>completion_tokens_details\<close>, which the decoder does not read.\<close>

lemma chat_usage_read_back:
  assumes "usage_ok u" "decode_usage (chatCompletionUsagePayload u) = Some v"
  shows "gu_PromptTokens (normalized v) = gu_PromptTokens (normalized u)" "gu_CompletionTokens (normalized v) = gu_CompletionTokens u"
    "gu_TotalTokens (normalized v) = gu_TotalTokens (normalized u)" "gu_CachedPromptTokens (normalized v) = gu_CachedPromptTokens (normalized u)"
    "gu_ReasoningTokens (normalized v) = 0"
proof -
  note n = normalized_eq[OF assms(1)] and b = norm_bounds[OF assms(1)]
  have v: "v = zero_usage\<lparr>gu_PromptTokens := norm_prompt u, gu_CompletionTokens := gu_CompletionTokens u, gu_TotalTokens := norm_total u,
      gu_PromptTokensDetail := Some (norm_cached u, 0)\<rparr>"
    using assms(2) by (auto simp: decode_usage_def chatCompletionUsagePayload_def int_field_def obj_field_def obj_get_def Let_def n zero_usage_def split: if_splits)
  let ?w = "v\<lparr>gu_CachedPromptTokens := norm_cached u\<rparr>"
  have z: "wrap64 0 = 0" by (simp add: wrap64_def)
  have nn: "0 \<le> norm_cached u" "0 \<le> gu_CompletionTokens u" using b assms(1) by (simp_all add: count_ok_def usage_ok_def)
  have "settle_prompt v = v" by (simp add: settle_prompt_def v zero_usage_def)
  moreover have "settle_cached v = ?w" using nn by (simp add: settle_cached_def v zero_usage_def Let_def)
  moreover have "settle_written ?w = ?w" "settle_creation ?w = ?w" by (simp_all add: settle_written_def settle_creation_def v zero_usage_def z)
  moreover have "clamp_to_prompt ?w = ?w" using b(9) by (auto simp: clamp_to_prompt_def v zero_usage_def Let_def)
  moreover have "norm_total u = 0 \<Longrightarrow> norm_prompt u + gu_CompletionTokens u = 0" by (auto simp: norm_total_def split: if_splits)
  then have "settle_total ?w = ?w" by (auto simp: settle_total_def v zero_usage_def z)
  ultimately have w: "normalized v = ?w" by (simp add: normalized_def)
  show "gu_PromptTokens (normalized v) = gu_PromptTokens (normalized u)" "gu_CompletionTokens (normalized v) = gu_CompletionTokens u"
    "gu_TotalTokens (normalized v) = gu_TotalTokens (normalized u)" "gu_CachedPromptTokens (normalized v) = gu_CachedPromptTokens (normalized u)"
    "gu_ReasoningTokens (normalized v) = 0"
    by (simp_all add: w) (simp_all add: v n zero_usage_def)
qed

section \<open>What the converting loop relies on\<close>

abbreviation chat_grown :: "chat_wire list \<Rightarrow> chat_encoder \<Rightarrow> bool" where
  "chat_grown ws \<equiv> grown ce_out ws"

lemma chat_grown_frame [simp]: "chat_grown ws (e\<lparr>ce_capture := c\<rparr>) = chat_grown ws e" "chat_grown ws (chat_mergeMeta ev e) = chat_grown ws e"
  by (simp_all add: grown_def)

lemma chat_write_grows: "keeps (chat_grown ws) (chat_write env w)"
  by (auto simp: keeps_def chat_write_def grown_def)

lemma chat_write_delta_grows: "keeps (chat_grown ws) (write_delta env delta)"
  using chat_write_grows by (simp add: keeps_def write_delta_def)

lemma chat_start_grows: "keeps (chat_grown ws) (sendStartIfNeeded env)"
  unfolding sendStartIfNeeded_def[abs_def]
  by (simp add: keeps_simps chat_write_delta_grows grown_def)

lemma chat_annotate_grows: "keeps (chat_grown ws) (chat_annotate a)"
  by (simp add: keeps_def chat_annotate_def grown_def)

lemmas chat_grows = chat_write_grows chat_write_delta_grows chat_start_grows chat_annotate_grows

lemma chat_write_tool_grows: "keeps (chat_grown ws) (write_tool env ev callID)"
  using chat_write_delta_grows by (simp add: keeps_def write_tool_def Let_def grown_def)

lemma chat_tool_grows: "keeps (chat_grown ws) (chat_sendToolCallDelta env ev)"
proof -
  have "keeps (chat_grown ws) (steps [sendStartIfNeeded env, upd (note_tool ev c), write_tool env ev c])" for c
    by (intro keeps_steps) (simp add: chat_grows chat_write_tool_grows keeps_upd grown_def)
  then show ?thesis by (simp add: keeps_def chat_sendToolCallDelta_def Let_def)
qed

lemma chat_reasoning_grows: "keeps (chat_grown ws) (chat_sendReasoning env ev)"
proof -
  have "keeps (chat_grown ws) (steps [sendStartIfNeeded env, write_delta env d])" for d by (intro keeps_steps) (simp add: chat_grows)
  then show ?thesis using chat_annotate_grows[of ws] by (simp add: keeps_def chat_sendReasoning_def)
qed

lemma chat_text_grows: "keeps (chat_grown ws) (chat_sendText env ev)"
proof -
  have "keeps (chat_grown ws) (steps [sendStartIfNeeded env, upd (\<lambda>e. e\<lparr>ce_sawText := True\<rparr>), write_delta env d])" for d
    by (intro keeps_steps) (simp add: chat_grows keeps_upd grown_def)
  then show ?thesis by (simp add: keeps_def chat_sendText_def)
qed

lemma chat_annotation_grows: "keeps (chat_grown ws) (chat_sendAnnotation env ev)"
  unfolding chat_sendAnnotation_def[abs_def] by (intro keeps_steps) (simp add: chat_grows keeps_unless keeps_steps)

lemma chat_checks_grow: "keeps (chat_grown ws) (chat_require_usage env)" "keeps (chat_grown ws) (validate_args args)"
proof -
  show "keeps (chat_grown ws) (chat_require_usage env)" by (simp add: keeps_def chat_require_usage_def grown_def)
  show "keeps (chat_grown ws) (validate_args args)"
    by (induction args) (auto simp: keeps_def grown_def split: option.splits)
qed

lemma chat_terminal_grows: "keeps (chat_grown ws) (sendTerminal env r b t)"
  unfolding sendTerminal_def[abs_def]
  by (intro keeps_unless keeps_steps) (simp add: chat_grows chat_checks_grow keeps_upd keeps_unless grown_def)

lemma chat_finish_grows: "keeps (chat_grown ws) (chat_sendFinish env)" "keeps (chat_grown ws) (chat_sendIncomplete env ev)"
  unfolding chat_sendFinish_def[abs_def] chat_sendIncomplete_def[abs_def]
  by (simp_all add: keeps_steps keeps_at chat_checks_grow chat_terminal_grows)

lemma chat_encode_grows: "keeps (chat_grown ws) (chat_EncodeEvent env ev)"
  unfolding chat_EncodeEvent_def[abs_def]
  by (simp add: keeps_simps chat_grows chat_text_grows chat_tool_grows chat_reasoning_grows chat_annotation_grows chat_finish_grows)

interpretation chat_enc: stream_encoder "chat_EncodeEvent env" ce_capture "\<lambda>c e. e\<lparr>ce_capture := c\<rparr>" ce_out for env
  by unfold_locales (simp_all add: chat_encode_grows)

end
