(* ===== verification/Anthropic_Stream.thy ===== *)
theory Anthropic_Stream
  imports Stream_Events
begin

text \<open>
  The encoder of the Anthropic messages stream, \<open>anthropicMessagesStreamEncoder\<close> of \<open>gateway/protocol_canonical_stream.go\<close>: every operation as
  a step on the encoder's state, whose output is the list of events on the wire. The specification is a client of the stream
  (\<open>anth_client\<close>): it numbers the blocks in the order in which they start, takes text, thinking, signatures and tool input only for an
  open block of the right kind, and a message ends only when all blocks are closed.
\<close>

section \<open>The encoder\<close>

record anth_tool =
  at_Index :: int
  at_CallID :: string
  at_Name :: string
  at_Arguments :: string
  at_Started :: bool

record anth_encoder =
  an_out :: "wire list"
  an_capture :: capture
  an_responseID :: string
  an_model :: string
  an_createdAt :: int
  an_started :: bool
  an_completed :: bool
  an_nextIndex :: int
  an_textIndex :: int
  an_textStarted :: bool
  an_textBuffer :: string
  an_thinkingIndex :: int
  an_thinkingStarted :: bool
  an_thinkingStopped :: bool
  an_thinkingBuffer :: string
  an_thinkingSignature :: string
  an_toolCalls :: "(string \<times> anth_tool) list"
  an_toolCallOrder :: "string list"

definition newAnthropicMessagesStreamEncoder :: "string \<Rightarrow> int \<Rightarrow> capture \<Rightarrow> anth_encoder" where
  "newAnthropicMessagesStreamEncoder newID now c = \<lparr>an_out = [], an_capture = c, an_responseID = ''msg_'' @ newID, an_model = [], an_createdAt = now,
     an_started = False, an_completed = False, an_nextIndex = 0, an_textIndex = -1, an_textStarted = False, an_textBuffer = [],
     an_thinkingIndex = -1, an_thinkingStarted = False, an_thinkingStopped = False, an_thinkingBuffer = [], an_thinkingSignature = [],
     an_toolCalls = [], an_toolCallOrder = []\<rparr>"

definition anth_write :: "enc_env \<Rightarrow> (anth_encoder \<Rightarrow> wire) \<Rightarrow> anth_encoder step" where
  "anth_write env ev e = (if ee_write env (length (an_out e)) then (None, e\<lparr>an_out := an_out e @ [ev e]\<rparr>) else (Some WriteFailed, e))"

definition anth_annotate :: "any \<Rightarrow> anth_encoder step" where
  "anth_annotate a e = (upd (\<lambda>e. e\<lparr>an_capture := appendStreamAnnotation a (an_capture e)\<rparr>)) e"

definition anth_mergeMeta :: "stream_event \<Rightarrow> anth_encoder \<Rightarrow> anth_encoder" where
  "anth_mergeMeta ev e =
     (let e = (if ev_ID ev \<noteq> [] then e\<lparr>an_responseID := ev_ID ev\<rparr> else e);
          e = (if ev_Model ev \<noteq> [] then e\<lparr>an_model := ev_Model ev\<rparr> else e)
      in if ev_CreatedAt ev > 0 then e\<lparr>an_createdAt := ev_CreatedAt ev\<rparr> else e)"

definition anthropicUsagePayload :: "gateway_usage \<Rightarrow> obj" where
  "anthropicUsagePayload u0 =
     (let u = normalized u0 in
      [(''input_tokens'', AInt (gu_PromptTokens u)), (''output_tokens'', AInt (gu_CompletionTokens u)),
       (''cache_creation_input_tokens'', AInt (gu_CacheCreationInputTokens u)), (''cache_read_input_tokens'', AInt (gu_CachedPromptTokens u))]
      @ (if hasCacheCreationBreakdown u
         then [(''cache_creation'', AObj [(''ephemeral_5m_input_tokens'', AInt (gu_CacheCreation5mInputTokens u)),
                 (''ephemeral_1h_input_tokens'', AInt (gu_CacheCreation1hInputTokens u))])] else []))"

definition start_usage :: "gateway_usage \<Rightarrow> gateway_usage" where
  "start_usage u = zero_usage\<lparr>gu_PromptTokens := gu_PromptTokens u, gu_CachedPromptTokens := gu_CachedPromptTokens u,
     gu_CacheCreationInputTokens := gu_CacheCreationInputTokens u\<rparr>"

definition message_start :: "enc_env \<Rightarrow> anth_encoder \<Rightarrow> wire" where
  "message_start env e = (protocolEventName env EvCreated ''message_start'',
     [(''type'', AString ''message_start''),
      (''message'', AObj [(''id'', AString (responseIDOrFallback (an_responseID e))), (''type'', AString ''message''), (''role'', AString ''assistant''),
         (''model'', AString (an_model e)), (''content'', AList []), (''stop_reason'', ANil), (''stop_sequence'', ANil),
         (''usage'', AObj (anthropicUsagePayload (start_usage (cap_usage (an_capture e)))))])])"

definition anth_sendMessageStartIfNeeded :: "enc_env \<Rightarrow> anth_encoder step" where
  "anth_sendMessageStartIfNeeded env e = unless an_started (steps
     [upd (\<lambda>e. e\<lparr>an_started := True\<rparr>), anth_write env (message_start env)]) e"

definition block_start :: "int \<Rightarrow> obj \<Rightarrow> wire" where
  "block_start i block = (''content_block_start'', [(''type'', AString ''content_block_start''), (''index'', AInt i), (''content_block'', AObj block)])"

definition block_stop :: "int \<Rightarrow> wire" where
  "block_stop i = (''content_block_stop'', [(''type'', AString ''content_block_stop''), (''index'', AInt i)])"

definition block_delta :: "string \<Rightarrow> int \<Rightarrow> obj \<Rightarrow> wire" where
  "block_delta name i delta = (name, [(''type'', AString ''content_block_delta''), (''index'', AInt i), (''delta'', AObj delta)])"

definition anth_sendThinkingStartIfNeeded :: "enc_env \<Rightarrow> anth_encoder step" where
  "anth_sendThinkingStartIfNeeded env e =
     steps
     [anth_sendMessageStartIfNeeded env,
      unless (\<lambda>e. an_thinkingStarted e \<and> \<not> an_thinkingStopped e) (steps
       [upd (\<lambda>e. e\<lparr>an_thinkingIndex := an_nextIndex e, an_nextIndex := an_nextIndex e + 1\<rparr>),
        anth_write env (\<lambda>e. block_start (an_thinkingIndex e) [(''type'', AString ''thinking''), (''thinking'', AString [])]),
        upd (\<lambda>e. e\<lparr>an_thinkingStarted := True, an_thinkingStopped := False\<rparr>)])] e"

definition anth_stopThinkingIfOpen :: "enc_env \<Rightarrow> anth_encoder step" where
  "anth_stopThinkingIfOpen env e =
     unless (\<lambda>e. \<not> an_thinkingStarted e \<or> an_thinkingStopped e) (steps
     [anth_write env (\<lambda>e. block_stop (an_thinkingIndex e)),
      upd (\<lambda>e. e\<lparr>an_thinkingStopped := True\<rparr>)]) e"

definition anth_sendReasoningEvent :: "enc_env \<Rightarrow> stream_event \<Rightarrow> anth_encoder step" where
  "anth_sendReasoningEvent env ev e =
     (if reasoningPolicyForProtocol env (ev_ReasoningKind ev) \<noteq> ''passthrough'' then anth_annotate (redactedReasoningAnnotation ev)
      else if ev_ReasoningKind ev = ''thinking'' then
        (if ev_Delta ev = [] then steps [] else steps
          [anth_sendThinkingStartIfNeeded env,
           upd (\<lambda>e. e\<lparr>an_thinkingBuffer := an_thinkingBuffer e @ ev_Delta ev\<rparr>),
           anth_write env (\<lambda>e. block_delta (protocolEventName env EvReasoningDelta ''content_block_delta'') (an_thinkingIndex e)
             [(''type'', AString ''thinking_delta''), (''thinking'', AString (ev_Delta ev))])])
      else if ev_ReasoningKind ev = ''thinking_signature'' then
        (if ev_Delta ev = [] then steps [] else steps
          [anth_sendThinkingStartIfNeeded env,
           upd (\<lambda>e. e\<lparr>an_thinkingSignature := an_thinkingSignature e @ ev_Delta ev\<rparr>),
           anth_write env (\<lambda>e. block_delta (protocolEventName env EvReasoningDelta ''content_block_delta'') (an_thinkingIndex e)
             [(''type'', AString ''signature_delta''), (''signature'', AString (ev_Delta ev))])])
      else anth_annotate (redactedReasoningAnnotation ev)) e"

definition anth_openText :: "enc_env \<Rightarrow> anth_encoder step" where
  "anth_openText env e =
     unless an_textStarted (steps
     [upd (\<lambda>e. e\<lparr>an_textIndex := an_nextIndex e, an_nextIndex := an_nextIndex e + 1\<rparr>),
      anth_write env (\<lambda>e. block_start (an_textIndex e) [(''type'', AString ''text''), (''text'', AString [])]),
      upd (\<lambda>e. e\<lparr>an_textStarted := True\<rparr>)]) e"

definition anth_sendTextDelta :: "enc_env \<Rightarrow> string \<Rightarrow> anth_encoder step" where
  "anth_sendTextDelta env delta e =
     (if delta = [] then steps [] else steps
       [anth_sendMessageStartIfNeeded env,
        anth_stopThinkingIfOpen env,
        anth_openText env,
        upd (\<lambda>e. e\<lparr>an_textBuffer := an_textBuffer e @ delta\<rparr>),
        anth_write env (\<lambda>e. block_delta (protocolEventName env EvTextDelta ''content_block_delta'') (an_textIndex e)
          [(''type'', AString ''text_delta''), (''text'', AString delta)])]) e"

definition raw_string :: "any \<Rightarrow> string" where
  "raw_string v = (case as_string v of None \<Rightarrow> [] | Some s \<Rightarrow> s)"

definition addToolCallMetadataToAnthropicBlock :: "obj \<Rightarrow> obj \<Rightarrow> obj" where
  "addToolCallMetadataToAnthropicBlock block metadata =
     (let signature = nonEmptyString [raw_string (obj_get metadata ''thought_signature''), raw_string (obj_get metadata ''thoughtSignature'')]
      in if signature \<noteq> [] then obj_set ''thought_signature'' (AString signature) block else block)"

definition anth_tool_of :: "string \<Rightarrow> anth_encoder \<Rightarrow> anth_tool" where
  "anth_tool_of callID e = (case map_of (an_toolCalls e) callID of Some t \<Rightarrow> t
     | None \<Rightarrow> \<lparr>at_Index = 0, at_CallID = [], at_Name = [], at_Arguments = [], at_Started = False\<rparr>)"

definition anth_set_tool :: "string \<Rightarrow> (anth_tool \<Rightarrow> anth_tool) \<Rightarrow> anth_encoder \<Rightarrow> anth_encoder" where
  "anth_set_tool callID f e = e\<lparr>an_toolCalls := AList.update callID (f (anth_tool_of callID e)) (an_toolCalls e)\<rparr>"

definition anth_new_tool :: "string \<Rightarrow> anth_encoder \<Rightarrow> anth_encoder" where
  "anth_new_tool callID e = (if map_of (an_toolCalls e) callID \<noteq> None then e
     else e\<lparr>an_toolCalls := AList.update callID \<lparr>at_Index = an_nextIndex e, at_CallID = callID, at_Name = [], at_Arguments = [], at_Started = False\<rparr>
              (an_toolCalls e),
            an_nextIndex := an_nextIndex e + 1, an_toolCallOrder := an_toolCallOrder e @ [callID]\<rparr>)"

definition anth_openTool :: "enc_env \<Rightarrow> stream_event \<Rightarrow> string \<Rightarrow> anth_encoder step" where
  "anth_openTool env ev callID e =
     steps
     [upd (anth_new_tool callID),
      upd (\<lambda>e. if ev_ToolCallName ev \<noteq> [] then anth_set_tool callID (\<lambda>t. t\<lparr>at_Name := ev_ToolCallName ev\<rparr>) e else e),
      unless (\<lambda>e. at_Started (anth_tool_of callID e)) (steps
       [anth_write env (\<lambda>e. block_start (at_Index (anth_tool_of callID e)) (addToolCallMetadataToAnthropicBlock
          [(''type'', AString ''tool_use''), (''id'', AString (at_CallID (anth_tool_of callID e))), (''name'', AString (at_Name (anth_tool_of callID e))),
           (''input'', AObj [])] (ev_ToolCallMetadata ev))),
        upd (anth_set_tool callID (\<lambda>t. t\<lparr>at_Started := True\<rparr>))])] e"

definition anth_sendToolCallDelta :: "enc_env \<Rightarrow> stream_event \<Rightarrow> anth_encoder step" where
  "anth_sendToolCallDelta env ev e =
     (let callID = trim_space (ev_ToolCallID ev) in
      if callID = [] then steps [] else steps
       [anth_sendMessageStartIfNeeded env,
        anth_stopThinkingIfOpen env,
        anth_openTool env ev callID,
        unless (\<lambda>_. ev_ToolCallArgumentsDelta ev = []) (steps
         [upd (anth_set_tool callID (\<lambda>t. t\<lparr>at_Arguments := at_Arguments t @ ev_ToolCallArgumentsDelta ev\<rparr>)),
          anth_write env (\<lambda>e. block_delta (protocolEventName env EvToolCallDelta ''content_block_delta'') (at_Index (anth_tool_of callID e))
            [(''type'', AString ''input_json_delta''), (''partial_json'', AString (ev_ToolCallArgumentsDelta ev))])])]) e"

fun anth_validate :: "string list \<Rightarrow> anth_encoder step" where
  "anth_validate [] e = (None, e)"
| "anth_validate (callID # ids) e = (case map_of (an_toolCalls e) callID of
      None \<Rightarrow> anth_validate ids e
    | Some t \<Rightarrow> (case validateToolCallArguments callID (at_Arguments t) of
          Some err \<Rightarrow> (Some err, e\<lparr>an_capture := (an_capture e)\<lparr>cap_endReason := ''tool_call_arguments_invalid_json''\<rparr>\<rparr>)
        | None \<Rightarrow> anth_validate ids e))"

definition anth_validateToolCallArguments :: "anth_encoder step" where
  "anth_validateToolCallArguments e = anth_validate (an_toolCallOrder e) e"

fun anth_stop_tools :: "enc_env \<Rightarrow> string list \<Rightarrow> anth_encoder step" where
  "anth_stop_tools env [] e = (None, e)"
| "anth_stop_tools env (callID # ids) e = (case map_of (an_toolCalls e) callID of
      None \<Rightarrow> anth_stop_tools env ids e
    | Some t \<Rightarrow> steps [anth_write env (\<lambda>_. block_stop (at_Index t)), anth_stop_tools env ids] e)"

definition anth_hasToolCalls :: "anth_encoder \<Rightarrow> bool" where
  "anth_hasToolCalls e = list_ex (\<lambda>i. map_of (an_toolCalls e) i \<noteq> None) (an_toolCallOrder e)"

definition message_delta :: "string \<Rightarrow> string \<Rightarrow> anth_encoder \<Rightarrow> wire" where
  "message_delta stopReason stopSequence e = (''message_delta'', [(''type'', AString ''message_delta''),
     (''delta'', AObj [(''stop_reason'', AString (if anth_hasToolCalls e \<and> stopReason = ''end_turn'' then ''tool_use'' else stopReason)),
        (''stop_sequence'', emptyToNil stopSequence)]),
     (''usage'', AObj (anthropicUsagePayload (cap_usage (an_capture e))))])"

definition anth_require_usage :: "enc_env \<Rightarrow> anth_encoder step" where
  "anth_require_usage env e = (if ee_RequireUsage env \<and> \<not> gatewayUsageAvailable (cap_usage (an_capture e))
     then (Some UsageMissing, e\<lparr>an_capture := (an_capture e)\<lparr>cap_endReason := ''usage_missing''\<rparr>\<rparr>) else (None, e))"

definition anth_sendFinish :: "enc_env \<Rightarrow> string \<Rightarrow> string \<Rightarrow> bool \<Rightarrow> string \<Rightarrow> anth_encoder step" where
  "anth_sendFinish env stopReason stopSequence completed endReason e =
     unless an_completed (steps
     [anth_require_usage env,
      anth_validateToolCallArguments,
      anth_sendMessageStartIfNeeded env,
      cond an_textStarted (anth_write env (\<lambda>e. block_stop (an_textIndex e))),
      anth_stopThinkingIfOpen env,
      (\<lambda>e. anth_stop_tools env (an_toolCallOrder e) e),
      anth_write env (message_delta stopReason stopSequence),
      anth_write env (\<lambda>e. (protocolEventName env EvCompleted ''message_stop'',
        [(''type'', AString (protocolEventName env EvCompleted ''message_stop''))])),
      upd (\<lambda>e. e\<lparr>an_completed := True, an_capture := (an_capture e)\<lparr>cap_sawDone := True, cap_streamCompleted := completed, cap_endReason := endReason\<rparr>\<rparr>)]) e"

definition anth_EncodeEvent :: "enc_env \<Rightarrow> stream_event \<Rightarrow> anth_encoder step" where
  "anth_EncodeEvent env ev e = steps [upd (anth_mergeMeta ev),
     (case ev_Type ev of
        EvCreated \<Rightarrow> anth_sendMessageStartIfNeeded env
      | EvTextDelta \<Rightarrow> anth_sendTextDelta env (ev_Delta ev)
      | EvToolCallDelta \<Rightarrow> anth_sendToolCallDelta env ev
      | EvReasoningDelta \<Rightarrow> anth_sendReasoningEvent env ev
      | EvAdvanced \<Rightarrow> anth_annotate (advancedStreamAnnotation ev)
      | EvAnnotationAdded \<Rightarrow> anth_annotate (ev_Annotation ev)
      | EvUsage \<Rightarrow> upd (\<lambda>e. e\<lparr>an_capture := take_usage (ev_Usage ev) (an_capture e)\<rparr>)
      | EvCompleted \<Rightarrow> anth_sendFinish env (if ev_StopSequence ev \<noteq> [] then ''stop_sequence'' else ''end_turn'') (ev_StopSequence ev) True ''done''
      | EvIncomplete \<Rightarrow> anth_sendFinish env ''max_tokens'' [] False ''response_incomplete''
      | EvError \<Rightarrow> (\<lambda>e. (Some (UpstreamFailed (nonEmptyString [ev_ErrorMessage ev, ''unknown error''])),
          e\<lparr>an_capture := (an_capture e)\<lparr>cap_endReason := ''upstream_stream_error''\<rparr>\<rparr>)))] e"

section \<open>A client\<close>

text \<open>What a client of the stream keeps: the kind of every block in the order of their indices and whether it is open, and the contents
  received so far.\<close>

datatype block_kind = TextBlock | ThinkingBlock | ToolBlock string

record anth_client =
  cl_Started :: bool
  cl_Blocks :: "(block_kind \<times> bool) list"
  cl_Text :: string
  cl_Thinking :: string
  cl_Signature :: string
  cl_Inputs :: "(string \<times> string) list"
  cl_Stop :: "string option"
  cl_Done :: bool

definition new_client :: anth_client where
  "new_client = \<lparr>cl_Started = False, cl_Blocks = [], cl_Text = [], cl_Thinking = [], cl_Signature = [], cl_Inputs = [], cl_Stop = None, cl_Done = False\<rparr>"

definition str_at :: "obj \<Rightarrow> string \<Rightarrow> string" where
  "str_at m k = raw_string (obj_get m k)"

definition index_at :: "obj \<Rightarrow> nat option" where
  "index_at m = (case obj_get m ''index'' of AInt i \<Rightarrow> if 0 \<le> i then Some (nat i) else None | _ \<Rightarrow> None)"

definition block_kind_of :: "obj \<Rightarrow> block_kind option" where
  "block_kind_of b = (if str_at b ''type'' = ''text'' then Some TextBlock else if str_at b ''type'' = ''thinking'' then Some ThinkingBlock
     else if str_at b ''type'' = ''tool_use'' then Some (ToolBlock (str_at b ''id'')) else None)"

definition input_of :: "anth_client \<Rightarrow> string \<Rightarrow> string" where
  "input_of c i = (case map_of (cl_Inputs c) i of None \<Rightarrow> [] | Some s \<Rightarrow> s)"

definition take_delta :: "block_kind \<Rightarrow> obj \<Rightarrow> anth_client \<Rightarrow> anth_client option" where
  "take_delta k d c =
     (let t = str_at d ''type'' in
      case k of
        TextBlock \<Rightarrow> if t = ''text_delta'' then Some (c\<lparr>cl_Text := cl_Text c @ str_at d ''text''\<rparr>) else None
      | ThinkingBlock \<Rightarrow>
          if t = ''thinking_delta'' then Some (c\<lparr>cl_Thinking := cl_Thinking c @ str_at d ''thinking''\<rparr>)
          else if t = ''signature_delta'' then Some (c\<lparr>cl_Signature := cl_Signature c @ str_at d ''signature''\<rparr>) else None
      | ToolBlock i \<Rightarrow>
          if t = ''input_json_delta'' then Some (c\<lparr>cl_Inputs := AList.update i (input_of c i @ str_at d ''partial_json'') (cl_Inputs c)\<rparr>) else None)"

definition take_block_event :: "string \<Rightarrow> obj \<Rightarrow> anth_client \<Rightarrow> anth_client option" where
  "take_block_event t p c =
     (case index_at p of
        None \<Rightarrow> None
      | Some i \<Rightarrow>
          if cl_Stop c \<noteq> None then None
          else if t = ''content_block_start'' then
            (if i \<noteq> length (cl_Blocks c) then None
             else map_option (\<lambda>k. c\<lparr>cl_Blocks := cl_Blocks c @ [(k, True)]\<rparr>) (block_kind_of (as_obj (obj_get p ''content_block''))))
          else if i \<ge> length (cl_Blocks c) \<or> \<not> snd (cl_Blocks c ! i) then None
          else if t = ''content_block_delta'' then take_delta (fst (cl_Blocks c ! i)) (as_obj (obj_get p ''delta'')) c
          else Some (c\<lparr>cl_Blocks := (cl_Blocks c)[i := (fst (cl_Blocks c ! i), False)]\<rparr>))"

definition take_event :: "wire \<Rightarrow> anth_client \<Rightarrow> anth_client option" where
  "take_event w c =
     (let p = snd w; t = str_at p ''type'' in
      if cl_Done c then None
      else if t = ''message_start'' then (if cl_Started c then None else Some (c\<lparr>cl_Started := True\<rparr>))
      else if \<not> cl_Started c then None
      else if t \<in> {''content_block_start'', ''content_block_delta'', ''content_block_stop''} then take_block_event t p c
      else if t = ''message_delta'' then
        (if cl_Stop c \<noteq> None \<or> list_ex snd (cl_Blocks c) then None
         else Some (c\<lparr>cl_Stop := Some (str_at (as_obj (obj_get p ''delta'')) ''stop_reason'')\<rparr>))
      else if t = ''message_stop'' then (if cl_Stop c = None then None else Some (c\<lparr>cl_Done := True\<rparr>))
      else None)"

text \<open>Reading a stream from its beginning; \<open>None\<close> is a violation of the protocol.\<close>

definition anth_read :: "wire list \<Rightarrow> anth_client option" where
  "anth_read ws = fold (\<lambda>w c. Option.bind c (take_event w)) ws (Some new_client)"

lemma anth_read_snoc [simp]: "anth_read (ws @ [w]) = Option.bind (anth_read ws) (take_event w)" "anth_read [] = Some new_client"
  by (simp_all add: anth_read_def)

lemmas payload_simps = message_start_def message_delta_def str_at_def raw_string_def obj_get_def index_at_def block_start_def block_stop_def block_delta_def

lemma take_start:
  assumes "\<not> cl_Done c" "cl_Started c" "cl_Stop c = None" "block_kind_of b = Some k"
  shows "take_event (block_start (int (length (cl_Blocks c))) b) c = Some (c\<lparr>cl_Blocks := cl_Blocks c @ [(k, True)]\<rparr>)"
  using assms by (simp add: take_event_def take_block_event_def payload_simps)

definition open_at :: "anth_client \<Rightarrow> int \<Rightarrow> block_kind \<Rightarrow> bool" where
  "open_at c i k \<longleftrightarrow> 0 \<le> i \<and> nat i < length (cl_Blocks c) \<and> cl_Blocks c ! nat i = (k, True)"

lemma take_delta_event:
  assumes "\<not> cl_Done c" "cl_Started c" "cl_Stop c = None" "open_at c i k"
  shows "take_event (block_delta name i d) c = take_delta k d c"
  using assms by (simp add: take_event_def take_block_event_def open_at_def payload_simps)

lemma take_stop:
  assumes "\<not> cl_Done c" "cl_Started c" "cl_Stop c = None" "open_at c i k"
  shows "take_event (block_stop i) c = Some (c\<lparr>cl_Blocks := (cl_Blocks c)[nat i := (k, False)]\<rparr>)"
  using assms by (simp add: take_event_def take_block_event_def open_at_def payload_simps)

section \<open>The simulation\<close>

text \<open>The encoder's state and what a client has read so far.\<close>

definition thinking_open :: "anth_encoder \<Rightarrow> bool" where
  "thinking_open e \<longleftrightarrow> an_thinkingStarted e \<and> \<not> an_thinkingStopped e"

definition tool_at :: "anth_encoder \<Rightarrow> string \<Rightarrow> int \<Rightarrow> bool" where
  "tool_at e i k \<longleftrightarrow> (\<exists>t. map_of (an_toolCalls e) i = Some t \<and> at_Index t = k)"

definition contents_agree :: "anth_encoder \<Rightarrow> anth_client \<Rightarrow> bool" where
  "contents_agree e c \<longleftrightarrow> cl_Text c = an_textBuffer e \<and> cl_Thinking c = an_thinkingBuffer e \<and> cl_Signature c = an_thinkingSignature e
     \<and> (\<forall>i. input_of c i = at_Arguments (anth_tool_of i e))"

definition blocks_agree :: "anth_encoder \<Rightarrow> anth_client \<Rightarrow> bool" where
  "blocks_agree e c \<longleftrightarrow> an_nextIndex e = int (length (cl_Blocks c))
     \<and> (an_textStarted e \<longrightarrow> open_at c (an_textIndex e) TextBlock)
     \<and> (thinking_open e \<longrightarrow> open_at c (an_thinkingIndex e) ThinkingBlock)
     \<and> (\<forall>i t. map_of (an_toolCalls e) i = Some t \<longrightarrow> at_Started t \<and> at_CallID t = i \<and> open_at c (at_Index t) (ToolBlock i))
     \<and> (\<forall>k < length (cl_Blocks c). snd (cl_Blocks c ! k) \<longrightarrow> an_textStarted e \<and> int k = an_textIndex e
          \<or> thinking_open e \<and> int k = an_thinkingIndex e \<or> (\<exists>i. tool_at e i (int k)))"

definition sim :: "anth_encoder \<Rightarrow> anth_client \<Rightarrow> bool" where
  "sim e c \<longleftrightarrow> cl_Started c = an_started e \<and> cl_Stop c = None \<and> \<not> cl_Done c \<and> \<not> an_completed e \<and> blocks_agree e c \<and> contents_agree e c
     \<and> set (an_toolCallOrder e) = dom (map_of (an_toolCalls e)) \<and> distinct (an_toolCallOrder e)"

definition reads :: "anth_encoder \<Rightarrow> bool" where
  "reads e \<longleftrightarrow> (\<exists>c. anth_read (an_out e) = Some c \<and> sim e c)"

lemma write_reads:
  assumes "anth_read (an_out e) = Some c" and "anth_write env ev e = (None, e')" and "take_event (ev e) c = Some c'"
  shows "anth_read (an_out e') = Some c' \<and> e' = e\<lparr>an_out := an_out e @ [ev e]\<rparr>"
  using assms by (auto simp: anth_write_def split: if_splits)

lemma new_reads: "reads (newAnthropicMessagesStreamEncoder i now c)"
  by (simp add: reads_def sim_def blocks_agree_def contents_agree_def thinking_open_def tool_at_def newAnthropicMessagesStreamEncoder_def new_client_def
      input_of_def anth_tool_of_def)

text \<open>Changes that concern neither blocks nor contents.\<close>

lemma sim_meta [simp]: "sim (e\<lparr>an_responseID := x\<rparr>) c = sim e c" "sim (e\<lparr>an_model := x\<rparr>) c = sim e c" "sim (e\<lparr>an_createdAt := y\<rparr>) c = sim e c"
  "sim (e\<lparr>an_capture := cap\<rparr>) c = sim e c" "sim (e\<lparr>an_out := ws\<rparr>) c = sim e c"
  by (simp_all add: sim_def blocks_agree_def contents_agree_def thinking_open_def tool_at_def anth_tool_of_def)

lemma reads_mergeMeta: "reads e \<Longrightarrow> reads (anth_mergeMeta ev e)"
  by (simp add: reads_def anth_mergeMeta_def Let_def)

lemma reads_annotate: "reads e \<Longrightarrow> anth_annotate a e = (None, e') \<Longrightarrow> reads e'"
  by (auto simp: reads_def anth_annotate_def)

lemma sim_start: "sim e c \<Longrightarrow> sim (e\<lparr>an_started := True\<rparr>) (c\<lparr>cl_Started := True\<rparr>)"
  by (simp add: sim_def blocks_agree_def contents_agree_def thinking_open_def tool_at_def anth_tool_of_def open_at_def input_of_def)

lemma reads_start:
  assumes "reads e" and "anth_sendMessageStartIfNeeded env e = (None, e')"
  shows "reads e' \<and> an_started e'"
proof (cases "an_started e")
  case True
  then show ?thesis using assms by (simp add: anth_sendMessageStartIfNeeded_def unless_def)
next
  case False
  obtain c where c: "anth_read (an_out e) = Some c" "sim e c" using assms(1) by (auto simp: reads_def)
  let ?e = "e\<lparr>an_started := True\<rparr>"
  have ns: "\<not> cl_Started c" "\<not> cl_Done c" using c(2) False by (simp_all add: sim_def)
  obtain ev where w: "anth_write env ev ?e = (None, e')" and ev: "str_at (snd (ev ?e)) ''type'' = ''message_start''"
    using assms(2) False by (auto simp: anth_sendMessageStartIfNeeded_def unless_def payload_simps)
  have t: "take_event (ev ?e) c = Some (c\<lparr>cl_Started := True\<rparr>)" using ev ns by (simp add: take_event_def Let_def)
  have "anth_read (an_out ?e) = Some c" using c(1) by simp
  from write_reads[OF this w t] sim_start[OF c(2)] show ?thesis by (auto simp: reads_def)
qed

text \<open>A write followed by the update \<open>g\<close> that records it.\<close>

lemma reads_write:
  assumes "anth_read (an_out e) = Some c" and "anth_write env ev e = (None, e1)" and "take_event (ev e) c = Some c'" and "sim (g e) c'"
    and "\<And>ws. g (e\<lparr>an_out := ws\<rparr>) = (g e)\<lparr>an_out := ws\<rparr>"
  shows "reads (g e1)"
proof -
  have e1: "anth_read (an_out e1) = Some c'" "e1 = e\<lparr>an_out := an_out e @ [ev e]\<rparr>" using write_reads[OF assms(1-3)] by blast+
  have g: "g e1 = (g e)\<lparr>an_out := an_out e1\<rparr>" using assms(5)[of "an_out e1"] e1(2) by simp
  then show ?thesis using e1(1) assms(4) by (simp add: reads_def)
qed

lemma write_frame: "anth_write env ev e = (None, e') \<Longrightarrow> e' = e\<lparr>an_out := an_out e @ [ev e]\<rparr>"
  by (auto simp: anth_write_def split: if_splits)

lemma open_at_snoc: "open_at c i k \<Longrightarrow> open_at (c\<lparr>cl_Blocks := cl_Blocks c @ [x]\<rparr>) i k"
  "open_at (c\<lparr>cl_Blocks := cl_Blocks c @ [(k, True)]\<rparr>) (int (length (cl_Blocks c))) k"
  by (simp_all add: open_at_def nth_append)

lemma open_at_close: "open_at c i k \<Longrightarrow> open_at c j k' \<Longrightarrow> k' \<noteq> k \<Longrightarrow> open_at (c\<lparr>cl_Blocks := (cl_Blocks c)[nat i := (k, False)]\<rparr>) j k'"
  by (auto simp: open_at_def nth_list_update)

lemma open_at_frame [simp]: "open_at (c\<lparr>cl_Text := s\<rparr>) i k = open_at c i k" "open_at (c\<lparr>cl_Thinking := s\<rparr>) i k = open_at c i k"
  "open_at (c\<lparr>cl_Signature := s\<rparr>) i k = open_at c i k" "open_at (c\<lparr>cl_Inputs := m\<rparr>) i k = open_at c i k"
  by (simp_all add: open_at_def)

text \<open>Closing the thinking block.\<close>

lemma sim_stop_thinking:
  assumes "sim e c" and "thinking_open e"
  shows "sim (e\<lparr>an_thinkingStopped := True\<rparr>) (c\<lparr>cl_Blocks := (cl_Blocks c)[nat (an_thinkingIndex e) := (ThinkingBlock, False)]\<rparr>)"
proof -
  let ?c = "c\<lparr>cl_Blocks := (cl_Blocks c)[nat (an_thinkingIndex e) := (ThinkingBlock, False)]\<rparr>"
  have th: "open_at c (an_thinkingIndex e) ThinkingBlock" using assms by (simp add: sim_def blocks_agree_def)
  have "blocks_agree (e\<lparr>an_thinkingStopped := True\<rparr>) ?c"
    using assms open_at_close[OF th] th
    by (auto simp: sim_def blocks_agree_def thinking_open_def tool_at_def nth_list_update open_at_def split: if_splits)
  then show ?thesis using assms(1) by (simp add: sim_def contents_agree_def input_of_def anth_tool_of_def)
qed

lemma reads_stop_thinking:
  assumes "reads e" and "an_started e" and "anth_stopThinkingIfOpen env e = (None, e')"
  shows "reads e' \<and> an_started e' \<and> \<not> thinking_open e'"
proof (cases "thinking_open e")
  case False
  then show ?thesis using assms by (auto simp: anth_stopThinkingIfOpen_def unless_def thinking_open_def)
next
  case True
  obtain c where c: "anth_read (an_out e) = Some c" "sim e c" using assms(1) by (auto simp: reads_def)
  have th: "\<not> cl_Done c" "cl_Started c" "cl_Stop c = None" "open_at c (an_thinkingIndex e) ThinkingBlock"
    using c(2) assms(2) True by (simp_all add: sim_def blocks_agree_def)
  obtain e1 where w: "anth_write env (\<lambda>e. block_stop (an_thinkingIndex e)) e = (None, e1)" and e': "e' = e1\<lparr>an_thinkingStopped := True\<rparr>"
    using assms(3) True by (auto simp: anth_stopThinkingIfOpen_def unless_def thinking_open_def)
  have "reads e'" unfolding e'
    by (rule reads_write[OF c(1) w, where g = "\<lambda>e. e\<lparr>an_thinkingStopped := True\<rparr>"]) (use take_stop[OF th] sim_stop_thinking[OF c(2) True] in simp_all)
  then show ?thesis using write_frame[OF w] assms(2) by (simp add: e' thinking_open_def)
qed

text \<open>Opening a block.\<close>

lemma sim_open_text:
  assumes "sim e c" and "\<not> an_textStarted e"
  shows "sim (e\<lparr>an_textIndex := an_nextIndex e, an_nextIndex := an_nextIndex e + 1, an_textStarted := True\<rparr>) (c\<lparr>cl_Blocks := cl_Blocks c @ [(TextBlock, True)]\<rparr>)"
proof -
  have n: "an_nextIndex e = int (length (cl_Blocks c))" using assms(1) by (simp add: sim_def blocks_agree_def)
  have "blocks_agree (e\<lparr>an_textIndex := an_nextIndex e, an_nextIndex := an_nextIndex e + 1, an_textStarted := True\<rparr>) (c\<lparr>cl_Blocks := cl_Blocks c @ [(TextBlock, True)]\<rparr>)"
    using assms open_at_snoc
    by (auto simp: sim_def blocks_agree_def thinking_open_def tool_at_def nth_append n less_Suc_eq split: if_splits)
  then show ?thesis using assms(1) by (simp add: sim_def contents_agree_def input_of_def anth_tool_of_def)
qed

lemma sim_open_thinking:
  assumes "sim e c" and "\<not> thinking_open e"
  shows "sim (e\<lparr>an_thinkingIndex := an_nextIndex e, an_nextIndex := an_nextIndex e + 1, an_thinkingStarted := True, an_thinkingStopped := False\<rparr>)
    (c\<lparr>cl_Blocks := cl_Blocks c @ [(ThinkingBlock, True)]\<rparr>)"
proof -
  have n: "an_nextIndex e = int (length (cl_Blocks c))" using assms(1) by (simp add: sim_def blocks_agree_def)
  have "blocks_agree (e\<lparr>an_thinkingIndex := an_nextIndex e, an_nextIndex := an_nextIndex e + 1, an_thinkingStarted := True, an_thinkingStopped := False\<rparr>)
      (c\<lparr>cl_Blocks := cl_Blocks c @ [(ThinkingBlock, True)]\<rparr>)"
    using assms open_at_snoc
    by (auto simp: sim_def blocks_agree_def thinking_open_def tool_at_def nth_append n less_Suc_eq split: if_splits)
  then show ?thesis using assms(1) by (simp add: sim_def contents_agree_def input_of_def anth_tool_of_def)
qed

lemma reads_open_thinking:
  assumes "reads e" and "anth_sendThinkingStartIfNeeded env e = (None, e')"
  shows "reads e' \<and> an_started e' \<and> thinking_open e'"
proof -
  obtain e0 where s: "anth_sendMessageStartIfNeeded env e = (None, e0)"
    and r: "unless (\<lambda>e. an_thinkingStarted e \<and> \<not> an_thinkingStopped e) (steps
       [upd (\<lambda>e. e\<lparr>an_thinkingIndex := an_nextIndex e, an_nextIndex := an_nextIndex e + 1\<rparr>),
        anth_write env (\<lambda>e. block_start (an_thinkingIndex e) [(''type'', AString ''thinking''), (''thinking'', AString [])]),
        upd (\<lambda>e. e\<lparr>an_thinkingStarted := True, an_thinkingStopped := False\<rparr>)]) e0 = (None, e')"
    using assms(2) by (auto simp: anth_sendThinkingStartIfNeeded_def)
  from reads_start[OF assms(1) s] obtain c where c: "anth_read (an_out e0) = Some c" "sim e0 c" "an_started e0" by (auto simp: reads_def)
  show ?thesis
  proof (cases "thinking_open e0")
    case True
    then show ?thesis using r c by (auto simp: unless_def thinking_open_def reads_def)
  next
    case False
    let ?e = "e0\<lparr>an_thinkingIndex := an_nextIndex e0, an_nextIndex := an_nextIndex e0 + 1\<rparr>"
    obtain e1 where w: "anth_write env (\<lambda>e. block_start (an_thinkingIndex e) [(''type'', AString ''thinking''), (''thinking'', AString [])]) ?e = (None, e1)"
      and e': "e' = e1\<lparr>an_thinkingStarted := True, an_thinkingStopped := False\<rparr>"
      using r False by (auto simp: unless_def thinking_open_def)
    have n: "\<not> cl_Done c" "cl_Started c" "cl_Stop c = None" "an_nextIndex e0 = int (length (cl_Blocks c))" using c(2,3) by (simp_all add: sim_def blocks_agree_def)
    have k: "block_kind_of [(''type'', AString ''thinking''), (''thinking'', AString [])] = Some ThinkingBlock" by (simp add: block_kind_of_def payload_simps)
    have "anth_read (an_out ?e) = Some c" using c(1) by simp
    then have "reads e'" unfolding e'
      by (rule reads_write[OF _ w, where g = "\<lambda>e. e\<lparr>an_thinkingStarted := True, an_thinkingStopped := False\<rparr>"])
        (use take_start[OF n(1-3) k] n(4) sim_open_thinking[OF c(2) False] in simp_all)
    then show ?thesis using write_frame[OF w] c(3) by (simp add: e' thinking_open_def)
  qed
qed

text \<open>Contents.\<close>

lemma sim_text: "sim e c \<Longrightarrow> sim (e\<lparr>an_textBuffer := an_textBuffer e @ s\<rparr>) (c\<lparr>cl_Text := cl_Text c @ s\<rparr>)"
  by (simp add: sim_def blocks_agree_def contents_agree_def thinking_open_def tool_at_def anth_tool_of_def input_of_def)

lemma sim_thinking: "sim e c \<Longrightarrow> sim (e\<lparr>an_thinkingBuffer := an_thinkingBuffer e @ s\<rparr>) (c\<lparr>cl_Thinking := cl_Thinking c @ s\<rparr>)"
  "sim e c \<Longrightarrow> sim (e\<lparr>an_thinkingSignature := an_thinkingSignature e @ s\<rparr>) (c\<lparr>cl_Signature := cl_Signature c @ s\<rparr>)"
  by (simp_all add: sim_def blocks_agree_def contents_agree_def thinking_open_def tool_at_def anth_tool_of_def input_of_def)

text \<open>A state that can take a delta for the block \<open>i\<close>.\<close>

lemma reads_delta:
  assumes "reads e" and "an_started e" and w: "anth_write env ev (f e) = (None, e')"
    and "\<And>c. sim e c \<Longrightarrow> open_at c i k \<and> take_delta k d c = Some (h c) \<and> sim (f e) (h c)"
    and "an_out (f e) = an_out e" and "ev (f e) = block_delta name i d"
  shows "reads e'"
proof -
  obtain c where c: "anth_read (an_out e) = Some c" "sim e c" using assms(1) by (auto simp: reads_def)
  have n: "\<not> cl_Done c" "cl_Started c" "cl_Stop c = None" using c(2) assms(2) by (simp_all add: sim_def)
  have "open_at c i k" "take_delta k d c = Some (h c)" "sim (f e) (h c)" using assms(4)[OF c(2)] by simp_all
  then have "take_event (ev (f e)) c = Some (h c)" using take_delta_event[OF n] assms(6) by simp
  then show ?thesis
    using reads_write[where g = "\<lambda>e. e", OF _ w] c(1) assms(5) \<open>sim (f e) (h c)\<close> by simp
qed

lemma sim_open: "sim e c \<Longrightarrow> an_textStarted e \<Longrightarrow> open_at c (an_textIndex e) TextBlock"
  "sim e c \<Longrightarrow> thinking_open e \<Longrightarrow> open_at c (an_thinkingIndex e) ThinkingBlock"
  "sim e c \<Longrightarrow> map_of (an_toolCalls e) i = Some t \<Longrightarrow> at_Started t \<and> at_CallID t = i \<and> open_at c (at_Index t) (ToolBlock i)"
  by (simp_all add: sim_def blocks_agree_def)

lemma reasoning_steps:
  assumes "anth_sendReasoningEvent env ev e = (None, e')"
  obtains (annotate) a where "anth_annotate a e = (None, e')" "thinking_of env ''thinking'' ev = []" "thinking_of env ''thinking_signature'' ev = []"
    | (skip) "e' = e" "ev_Delta ev = []"
    | (thinking) e1 where "anth_sendThinkingStartIfNeeded env e = (None, e1)"
        "anth_write env (\<lambda>e. block_delta (protocolEventName env EvReasoningDelta ''content_block_delta'') (an_thinkingIndex e)
             [(''type'', AString ''thinking_delta''), (''thinking'', AString (ev_Delta ev))])
           (e1\<lparr>an_thinkingBuffer := an_thinkingBuffer e1 @ ev_Delta ev\<rparr>) = (None, e')"
        "ev_ReasoningKind ev = ''thinking''" "reasoningPolicyForProtocol env (ev_ReasoningKind ev) = ''passthrough''"
    | (signature) e1 where "anth_sendThinkingStartIfNeeded env e = (None, e1)"
        "anth_write env (\<lambda>e. block_delta (protocolEventName env EvReasoningDelta ''content_block_delta'') (an_thinkingIndex e)
             [(''type'', AString ''signature_delta''), (''signature'', AString (ev_Delta ev))])
           (e1\<lparr>an_thinkingSignature := an_thinkingSignature e1 @ ev_Delta ev\<rparr>) = (None, e')"
        "ev_ReasoningKind ev = ''thinking_signature''" "reasoningPolicyForProtocol env (ev_ReasoningKind ev) = ''passthrough''"
  using assms by (auto simp: anth_sendReasoningEvent_def thinking_of_def split: if_splits)

lemma reads_reasoning:
  assumes "reads e" and "anth_sendReasoningEvent env ev e = (None, e')"
  shows "reads e'"
proof -
  from assms(2) show ?thesis
  proof (cases rule: reasoning_steps)
    case (annotate a)
    then show ?thesis using assms(1) reads_annotate by blast
  next
    case skip
    then show ?thesis using assms(1) by simp
  next
    case (thinking e1)
    note r = reads_open_thinking[OF assms(1) thinking(1)]
    show ?thesis
      by (rule reads_delta[where f = "\<lambda>e. e\<lparr>an_thinkingBuffer := an_thinkingBuffer e @ ev_Delta ev\<rparr>" and k = ThinkingBlock
            and h = "\<lambda>c. c\<lparr>cl_Thinking := cl_Thinking c @ ev_Delta ev\<rparr>", OF _ _ thinking(2)])
        (use r sim_open(2) sim_thinking(1) in \<open>auto simp: take_delta_def payload_simps\<close>)
  next
    case (signature e1)
    note r = reads_open_thinking[OF assms(1) signature(1)]
    show ?thesis
      by (rule reads_delta[where f = "\<lambda>e. e\<lparr>an_thinkingSignature := an_thinkingSignature e @ ev_Delta ev\<rparr>" and k = ThinkingBlock
            and h = "\<lambda>c. c\<lparr>cl_Signature := cl_Signature c @ ev_Delta ev\<rparr>", OF _ _ signature(2)])
        (use r sim_open(2) sim_thinking(2) in \<open>auto simp: take_delta_def payload_simps\<close>)
  qed
qed

lemma reads_open_text:
  assumes "reads e" and "an_started e"
    and "anth_openText env e = (None, e')"
  shows "reads e' \<and> an_started e' \<and> an_textStarted e'"
proof (cases "an_textStarted e")
  case True
  then show ?thesis using assms by (simp add: anth_openText_def unless_def)
next
  case False
  obtain c where c: "anth_read (an_out e) = Some c" "sim e c" using assms(1) by (auto simp: reads_def)
  let ?e = "e\<lparr>an_textIndex := an_nextIndex e, an_nextIndex := an_nextIndex e + 1\<rparr>"
  obtain e1 where w: "anth_write env (\<lambda>e. block_start (an_textIndex e) [(''type'', AString ''text''), (''text'', AString [])]) ?e = (None, e1)"
    and e': "e' = e1\<lparr>an_textStarted := True\<rparr>"
    using assms(3) False by (auto simp: anth_openText_def unless_def)
  have n: "\<not> cl_Done c" "cl_Started c" "cl_Stop c = None" "an_nextIndex e = int (length (cl_Blocks c))" using c(2) assms(2) by (simp_all add: sim_def blocks_agree_def)
  have k: "block_kind_of [(''type'', AString ''text''), (''text'', AString [])] = Some TextBlock" by (simp add: block_kind_of_def payload_simps)
  have "anth_read (an_out ?e) = Some c" using c(1) by simp
  then have "reads e'" unfolding e'
    by (rule reads_write[OF _ w, where g = "\<lambda>e. e\<lparr>an_textStarted := True\<rparr>"])
      (use take_start[OF n(1-3) k] n(4) sim_open_text[OF c(2) False] in simp_all)
  then show ?thesis using write_frame[OF w] assms(2) by (simp add: e')
qed

lemma text_steps:
  assumes "anth_sendTextDelta env s e = (None, e')" and "s \<noteq> []"
  shows "\<exists>e1 e2 e3. anth_sendMessageStartIfNeeded env e = (None, e1) \<and> anth_stopThinkingIfOpen env e1 = (None, e2) \<and> anth_openText env e2 = (None, e3)
    \<and> anth_write env (\<lambda>e. block_delta (protocolEventName env EvTextDelta ''content_block_delta'') (an_textIndex e)
          [(''type'', AString ''text_delta''), (''text'', AString s)]) (e3\<lparr>an_textBuffer := an_textBuffer e3 @ s\<rparr>) = (None, e')"
  using assms by (simp only: anth_sendTextDelta_def if_False steps_none steps_nil upd_none) blast

lemma reads_text:
  assumes "reads e" and "anth_sendTextDelta env s e = (None, e')"
  shows "reads e'"
proof (cases "s = []")
  case True
  then show ?thesis using assms by (simp add: anth_sendTextDelta_def)
next
  case False
  from text_steps[OF assms(2) False] obtain e1 e2 e3 where e1: "anth_sendMessageStartIfNeeded env e = (None, e1)"
    and e2: "anth_stopThinkingIfOpen env e1 = (None, e2)" and e3: "anth_openText env e2 = (None, e3)"
    and w: "anth_write env (\<lambda>e. block_delta (protocolEventName env EvTextDelta ''content_block_delta'') (an_textIndex e)
          [(''type'', AString ''text_delta''), (''text'', AString s)]) (e3\<lparr>an_textBuffer := an_textBuffer e3 @ s\<rparr>) = (None, e')" by blast
  note r = reads_start[OF assms(1) e1]
  note r2 = reads_stop_thinking[OF _ _ e2]
  have r3: "reads e3 \<and> an_started e3 \<and> an_textStarted e3" using reads_open_text[OF _ _ e3] r r2 by blast
  show ?thesis
    by (rule reads_delta[where f = "\<lambda>e. e\<lparr>an_textBuffer := an_textBuffer e @ s\<rparr>" and k = TextBlock
          and h = "\<lambda>c. c\<lparr>cl_Text := cl_Text c @ s\<rparr>", OF _ _ w])
      (use r3 sim_open(1) sim_text in \<open>auto simp: take_delta_def payload_simps\<close>)
qed

text \<open>A new tool call opens its block.\<close>

definition fresh_tool :: "anth_encoder \<Rightarrow> string \<Rightarrow> string \<Rightarrow> anth_tool" where
  "fresh_tool e callID name = \<lparr>at_Index = an_nextIndex e, at_CallID = callID, at_Name = name, at_Arguments = [], at_Started = True\<rparr>"

lemma sim_new_tool:
  assumes "sim e c" and "map_of (an_toolCalls e) callID = None"
  shows "sim (e\<lparr>an_toolCalls := AList.update callID (fresh_tool e callID name) (an_toolCalls e), an_nextIndex := an_nextIndex e + 1,
       an_toolCallOrder := an_toolCallOrder e @ [callID]\<rparr>) (c\<lparr>cl_Blocks := cl_Blocks c @ [(ToolBlock callID, True)]\<rparr>)"
    (is "sim ?e ?c")
proof -
  have n: "an_nextIndex e = int (length (cl_Blocks c))" using assms(1) by (simp add: sim_def blocks_agree_def)
  have tools: "map_of (an_toolCalls ?e) i = (if i = callID then Some (fresh_tool e callID name) else map_of (an_toolCalls e) i)" for i
    by (simp add: update_conv')
  have keep: "tool_at e i k \<Longrightarrow> tool_at ?e i k" for i k using assms(2) by (auto simp: tool_at_def update_conv')
  have new: "tool_at ?e callID (an_nextIndex e)" by (simp add: tool_at_def update_conv' fresh_tool_def)
  have ba: "blocks_agree e c" using assms(1) by (simp add: sim_def)
  have "blocks_agree ?e ?c"
    unfolding blocks_agree_def
  proof (intro conjI allI impI)
    show "an_nextIndex ?e = int (length (cl_Blocks ?c))" by (simp add: n)
    show "open_at ?c (an_textIndex ?e) TextBlock" if "an_textStarted ?e" using ba that open_at_snoc(1) by (simp add: blocks_agree_def)
    show "open_at ?c (an_thinkingIndex ?e) ThinkingBlock" if "thinking_open ?e" using ba that open_at_snoc(1) by (simp add: blocks_agree_def thinking_open_def)
  next
    fix i t assume t: "map_of (an_toolCalls ?e) i = Some t"
    have "at_Started t \<and> at_CallID t = i \<and> open_at ?c (at_Index t) (ToolBlock i)"
      using t ba open_at_snoc unfolding tools by (auto simp: blocks_agree_def fresh_tool_def n split: if_splits)
    then show "at_Started t" "at_CallID t = i" "open_at ?c (at_Index t) (ToolBlock i)" by simp_all
  next
    fix k assume k: "k < length (cl_Blocks ?c)" "snd (cl_Blocks ?c ! k)"
    show "an_textStarted ?e \<and> int k = an_textIndex ?e \<or> thinking_open ?e \<and> int k = an_thinkingIndex ?e \<or> (\<exists>i. tool_at ?e i (int k))"
    proof (cases "k = length (cl_Blocks c)")
      case True
      then show ?thesis using new n by auto
    next
      case False
      then have "k < length (cl_Blocks c)" "snd (cl_Blocks c ! k)" using k by (simp_all add: nth_append)
      then have "an_textStarted e \<and> int k = an_textIndex e \<or> thinking_open e \<and> int k = an_thinkingIndex e \<or> (\<exists>i. tool_at e i (int k))"
        using ba by (simp add: blocks_agree_def)
      then show ?thesis using keep by (auto simp: thinking_open_def)
    qed
  qed
  moreover have "contents_agree ?e ?c"
    using assms by (auto simp: sim_def contents_agree_def input_of_def anth_tool_of_def update_conv' fresh_tool_def)
  moreover have "set (an_toolCallOrder ?e) = dom (map_of (an_toolCalls ?e)) \<and> distinct (an_toolCallOrder ?e)"
    using assms by (auto simp: sim_def update_conv' dom_def split: if_splits)
  ultimately show ?thesis using assms(1) by (simp add: sim_def)
qed

text \<open>Changes of the name and of the arguments of a known tool call.\<close>

lemma sim_set_tool:
  assumes s: "sim e c" and m: "map_of (an_toolCalls e) callID = Some t"
    and f: "at_Index (f t) = at_Index t" "at_CallID (f t) = at_CallID t" "at_Started (f t) = at_Started t"
    and b: "cl_Blocks c' = cl_Blocks c" "cl_Started c' = cl_Started c" "cl_Stop c' = None" "\<not> cl_Done c'" "contents_agree (anth_set_tool callID f e) c'"
  shows "sim (anth_set_tool callID f e) c'"
proof -
  let ?e = "anth_set_tool callID f e"
  have tool: "anth_tool_of callID e = t" using m by (simp add: anth_tool_of_def)
  have tools: "map_of (an_toolCalls ?e) i = (if i = callID then Some (f t) else map_of (an_toolCalls e) i)" for i
    by (simp add: anth_set_tool_def tool update_conv')
  have at: "tool_at ?e i k = tool_at e i k" for i k using m f(1) by (auto simp: tool_at_def tools)
  have op: "open_at c' j k = open_at c j k" for j k using b(1) by (simp add: open_at_def)
  have same: "an_nextIndex ?e = an_nextIndex e" "an_textStarted ?e = an_textStarted e" "an_textIndex ?e = an_textIndex e"
    "thinking_open ?e = thinking_open e" "an_thinkingIndex ?e = an_thinkingIndex e" "an_started ?e = an_started e" "an_completed ?e = an_completed e"
    "an_toolCallOrder ?e = an_toolCallOrder e"
    by (simp_all add: anth_set_tool_def thinking_open_def)
  have each: "at_Started t' \<and> at_CallID t' = i \<and> open_at c' (at_Index t') (ToolBlock i)" if "map_of (an_toolCalls ?e) i = Some t'" for i t'
    using that sim_open(3)[OF s] m f unfolding tools op by (auto split: if_splits)
  have "dom (map_of (an_toolCalls ?e)) = dom (map_of (an_toolCalls e))" using m unfolding tools[abs_def] by (auto simp: dom_def)
  then show ?thesis
    using s b each unfolding sim_def blocks_agree_def same at op by (simp add: b(1))
qed

lemma contents_set_tool:
  "contents_agree (anth_set_tool callID f e) c \<longleftrightarrow> cl_Text c = an_textBuffer e \<and> cl_Thinking c = an_thinkingBuffer e
     \<and> cl_Signature c = an_thinkingSignature e
     \<and> (\<forall>i. input_of c i = at_Arguments (if i = callID then f (anth_tool_of callID e) else anth_tool_of i e))"
  by (auto simp: contents_agree_def anth_set_tool_def anth_tool_of_def update_conv')

lemma sim_name_tool:
  assumes "sim e c" and "map_of (an_toolCalls e) callID = Some t"
  shows "sim (anth_set_tool callID (\<lambda>t. t\<lparr>at_Name := n\<rparr>) e) c"
proof (rule sim_set_tool[OF assms])
  have "contents_agree e c" using assms(1) by (simp add: sim_def)
  then show "contents_agree (anth_set_tool callID (\<lambda>t. t\<lparr>at_Name := n\<rparr>) e) c" unfolding contents_set_tool by (simp add: contents_agree_def)
qed (use assms(1) in \<open>simp_all add: sim_def\<close>)

lemma sim_argue_tool:
  assumes "sim e c" and "map_of (an_toolCalls e) callID = Some t"
  shows "sim (anth_set_tool callID (\<lambda>t. t\<lparr>at_Arguments := at_Arguments t @ s\<rparr>) e)
    (c\<lparr>cl_Inputs := AList.update callID (input_of c callID @ s) (cl_Inputs c)\<rparr>)"
proof (rule sim_set_tool[OF assms])
  have ca: "contents_agree e c" using assms(1) by (simp add: sim_def)
  have "input_of (c\<lparr>cl_Inputs := AList.update callID (input_of c callID @ s) (cl_Inputs c)\<rparr>) i = (if i = callID then input_of c callID @ s else input_of c i)" for i
    by (simp add: input_of_def update_conv')
  then show "contents_agree (anth_set_tool callID (\<lambda>t. t\<lparr>at_Arguments := at_Arguments t @ s\<rparr>) e)
      (c\<lparr>cl_Inputs := AList.update callID (input_of c callID @ s) (cl_Inputs c)\<rparr>)"
    using ca unfolding contents_set_tool by (simp add: contents_agree_def)
qed (use assms(1) in \<open>simp_all add: sim_def\<close>)

text \<open>The block of a tool call is named and opened once.\<close>

lemma tool_block_kind: "block_kind_of (addToolCallMetadataToAnthropicBlock [(''type'', AString ''tool_use''), (''id'', AString i), (''name'', n), (''input'', AObj [])] m)
   = Some (ToolBlock i)"
  by (simp add: addToolCallMetadataToAnthropicBlock_def block_kind_of_def str_at_def raw_string_def Let_def) (simp add: obj_get_def)

lemma open_known_tool:
  assumes "reads e" and "map_of (an_toolCalls e) callID = Some t" and "anth_openTool env ev callID e = (None, e')"
  shows "reads e' \<and> an_started e' = an_started e \<and> (\<exists>t'. map_of (an_toolCalls e') callID = Some t')"
proof -
  obtain c where c: "anth_read (an_out e) = Some c" "sim e c" using assms(1) by (auto simp: reads_def)
  let ?e = "if ev_ToolCallName ev \<noteq> [] then anth_set_tool callID (\<lambda>t. t\<lparr>at_Name := ev_ToolCallName ev\<rparr>) e else e"
  have s: "sim ?e c" using c(2) sim_name_tool[OF c(2) assms(2)] by simp
  have frame: "an_out ?e = an_out e" "an_started ?e = an_started e" "\<exists>t'. map_of (an_toolCalls ?e) callID = Some t'"
    using assms(2) by (simp_all add: anth_set_tool_def update_conv')
  then have "at_Started (anth_tool_of callID ?e)" using sim_open(3)[OF s] by (auto simp: anth_tool_of_def)
  then have "e' = ?e" using assms(2,3) by (simp add: anth_openTool_def anth_new_tool_def unless_def)
  then show ?thesis using c(1) s frame by (auto simp: reads_def)
qed

lemma open_new_tool:
  assumes "reads e" and "an_started e" and new: "map_of (an_toolCalls e) callID = None" and "anth_openTool env ev callID e = (None, e')"
  shows "reads e' \<and> an_started e' \<and> (\<exists>t'. map_of (an_toolCalls e') callID = Some t')"
proof -
  obtain c where c: "anth_read (an_out e) = Some c" "sim e c" using assms(1) by (auto simp: reads_def)
  let ?t = "(fresh_tool e callID (ev_ToolCallName ev))\<lparr>at_Started := False\<rparr>"
  let ?e = "e\<lparr>an_toolCalls := AList.update callID ?t (an_toolCalls e), an_nextIndex := an_nextIndex e + 1, an_toolCallOrder := an_toolCallOrder e @ [callID]\<rparr>"
  have tool: "anth_tool_of callID ?e = ?t" by (simp add: anth_tool_of_def update_conv')
  have e: "(if ev_ToolCallName ev \<noteq> [] then anth_set_tool callID (\<lambda>t. t\<lparr>at_Name := ev_ToolCallName ev\<rparr>) (anth_new_tool callID e) else anth_new_tool callID e) = ?e"
    using new by (simp add: anth_set_tool_def anth_new_tool_def anth_tool_of_def update_conv' fresh_tool_def)
  let ?block = "addToolCallMetadataToAnthropicBlock [(''type'', AString ''tool_use''), (''id'', AString callID), (''name'', AString (ev_ToolCallName ev)),
      (''input'', AObj [])] (ev_ToolCallMetadata ev)"
  obtain e1 where w: "anth_write env (\<lambda>e. block_start (at_Index (anth_tool_of callID e)) (addToolCallMetadataToAnthropicBlock
          [(''type'', AString ''tool_use''), (''id'', AString (at_CallID (anth_tool_of callID e))), (''name'', AString (at_Name (anth_tool_of callID e))),
           (''input'', AObj [])] (ev_ToolCallMetadata ev))) ?e = (None, e1)"
    and e': "e' = anth_set_tool callID (\<lambda>t. t\<lparr>at_Started := True\<rparr>) e1"
    using assms(4) tool unfolding anth_openTool_def by (auto simp only: steps_none steps_nil upd_none unless_def e) (auto simp: fresh_tool_def)
  have n: "\<not> cl_Done c" "cl_Started c" "cl_Stop c = None" "an_nextIndex e = int (length (cl_Blocks c))" using c(2) assms(2) by (simp_all add: sim_def blocks_agree_def)
  have g: "anth_set_tool callID (\<lambda>t. t\<lparr>at_Started := True\<rparr>) ?e = e\<lparr>an_toolCalls := AList.update callID (fresh_tool e callID (ev_ToolCallName ev)) (an_toolCalls e),
      an_nextIndex := an_nextIndex e + 1, an_toolCallOrder := an_toolCallOrder e @ [callID]\<rparr>"
    unfolding anth_set_tool_def tool by (simp add: fresh_tool_def)
  have "reads e'" unfolding e'
  proof (rule reads_write[OF _ w])
    show "anth_read (an_out ?e) = Some c" using c(1) by simp
    show "take_event (block_start (at_Index (anth_tool_of callID ?e)) (addToolCallMetadataToAnthropicBlock
          [(''type'', AString ''tool_use''), (''id'', AString (at_CallID (anth_tool_of callID ?e))), (''name'', AString (at_Name (anth_tool_of callID ?e))),
           (''input'', AObj [])] (ev_ToolCallMetadata ev))) c = Some (c\<lparr>cl_Blocks := cl_Blocks c @ [(ToolBlock callID, True)]\<rparr>)"
      using take_start[OF n(1-3) tool_block_kind] n(4) unfolding tool by (simp add: fresh_tool_def)
    show "sim (anth_set_tool callID (\<lambda>t. t\<lparr>at_Started := True\<rparr>) ?e) (c\<lparr>cl_Blocks := cl_Blocks c @ [(ToolBlock callID, True)]\<rparr>)"
      unfolding g by (rule sim_new_tool[OF c(2) new])
  qed (simp add: anth_set_tool_def anth_tool_of_def)
  then show ?thesis using write_frame[OF w] assms(2) by (simp add: e' anth_set_tool_def update_conv')
qed

lemma tool_steps:
  assumes "anth_sendToolCallDelta env ev e = (None, e')" and "trim_space (ev_ToolCallID ev) \<noteq> []"
  shows "\<exists>e1 e2 e3. anth_sendMessageStartIfNeeded env e = (None, e1) \<and> anth_stopThinkingIfOpen env e1 = (None, e2)
      \<and> anth_openTool env ev (trim_space (ev_ToolCallID ev)) e2 = (None, e3)
      \<and> (if ev_ToolCallArgumentsDelta ev = [] then e' = e3 else
          anth_write env (\<lambda>e. block_delta (protocolEventName env EvToolCallDelta ''content_block_delta'') (at_Index (anth_tool_of (trim_space (ev_ToolCallID ev)) e))
              [(''type'', AString ''input_json_delta''), (''partial_json'', AString (ev_ToolCallArgumentsDelta ev))])
            (anth_set_tool (trim_space (ev_ToolCallID ev)) (\<lambda>t. t\<lparr>at_Arguments := at_Arguments t @ ev_ToolCallArgumentsDelta ev\<rparr>) e3) = (None, e'))"
  using assms unfolding anth_sendToolCallDelta_def Let_def unless_def
  by (simp only: if_False steps_none steps_nil upd_none) (auto split: if_splits)

lemma reads_tool:
  assumes "reads e" and "anth_sendToolCallDelta env ev e = (None, e')"
  shows "reads e'"
proof (cases "trim_space (ev_ToolCallID ev) = []")
  case True
  then show ?thesis using assms by (simp add: anth_sendToolCallDelta_def Let_def)
next
  case False
  define callID where "callID = trim_space (ev_ToolCallID ev)"
  let ?name = "protocolEventName env EvToolCallDelta ''content_block_delta''"
  from tool_steps[OF assms(2) False, folded callID_def] obtain e1 e2 e3 where e1: "anth_sendMessageStartIfNeeded env e = (None, e1)"
    and e2: "anth_stopThinkingIfOpen env e1 = (None, e2)" and e3: "anth_openTool env ev callID e2 = (None, e3)" and args: "if ev_ToolCallArgumentsDelta ev = [] then e' = e3 else
          anth_write env (\<lambda>e. block_delta ?name (at_Index (anth_tool_of callID e)) [(''type'', AString ''input_json_delta''), (''partial_json'', AString (ev_ToolCallArgumentsDelta ev))])
            (anth_set_tool callID (\<lambda>t. t\<lparr>at_Arguments := at_Arguments t @ ev_ToolCallArgumentsDelta ev\<rparr>) e3) = (None, e')" by blast
  have r2: "reads e2 \<and> an_started e2" using reads_start[OF assms(1) e1] reads_stop_thinking[OF _ _ e2] by blast
  have "reads e3 \<and> an_started e3 \<and> (\<exists>t'. map_of (an_toolCalls e3) callID = Some t')"
    using r2 open_known_tool[OF _ _ e3] open_new_tool[OF _ _ _ e3] by (cases "map_of (an_toolCalls e2) callID") auto
  then obtain t where r3: "reads e3" "an_started e3" "map_of (an_toolCalls e3) callID = Some t" by blast
  show ?thesis
  proof (cases "ev_ToolCallArgumentsDelta ev = []")
    case True
    then show ?thesis using args r3 by simp
  next
    case nonempty: False
    let ?f = "anth_set_tool callID (\<lambda>t. t\<lparr>at_Arguments := at_Arguments t @ ev_ToolCallArgumentsDelta ev\<rparr>)"
    have w: "anth_write env (\<lambda>e. block_delta ?name (at_Index (anth_tool_of callID e)) [(''type'', AString ''input_json_delta''), (''partial_json'', AString (ev_ToolCallArgumentsDelta ev))])
            (?f e3) = (None, e')" using args nonempty by simp
    have ix: "at_Index (anth_tool_of callID (?f e3)) = at_Index t" using r3(3) by (simp add: anth_set_tool_def anth_tool_of_def update_conv')
    show ?thesis
      by (rule reads_delta[where k = "ToolBlock callID" and i = "at_Index t" and f = ?f
            and h = "\<lambda>c. c\<lparr>cl_Inputs := AList.update callID (input_of c callID @ ev_ToolCallArgumentsDelta ev) (cl_Inputs c)\<rparr>", OF r3(1,2) w])
        (use sim_open(3)[OF _ r3(3)] sim_argue_tool[OF _ r3(3)] in \<open>auto simp: take_delta_def payload_simps ix[unfolded payload_simps]\<close>, simp_all add: anth_set_tool_def)
  qed
qed

section \<open>The end of a message\<close>

text \<open>While the blocks are closed: what has been read, and which of the blocks \<open>K\<close> are still open.\<close>

definition closing :: "anth_encoder \<Rightarrow> anth_encoder \<Rightarrow> (int \<Rightarrow> bool) \<Rightarrow> anth_client \<Rightarrow> bool" where
  "closing e0 e K c \<longleftrightarrow> (\<exists>ws. e = e0\<lparr>an_out := ws\<rparr>) \<and> anth_read (an_out e) = Some c \<and> cl_Started c \<and> \<not> cl_Done c \<and> cl_Stop c = None
     \<and> contents_agree e0 c \<and> (\<forall>i < length (cl_Blocks c). snd (cl_Blocks c ! i) \<longrightarrow> K (int i))"

lemma closing_stop:
  assumes c: "closing e0 e K c" and op: "open_at c i k" and w: "anth_write env ev e = (None, e')" and ev: "ev e = block_stop i"
  shows "closing e0 e' (\<lambda>j. K j \<and> j \<noteq> i) (c\<lparr>cl_Blocks := (cl_Blocks c)[nat i := (k, False)]\<rparr>)"
proof -
  have n: "\<not> cl_Done c" "cl_Started c" "cl_Stop c = None" "anth_read (an_out e) = Some c" using c by (simp_all add: closing_def)
  have "take_event (ev e) c = Some (c\<lparr>cl_Blocks := (cl_Blocks c)[nat i := (k, False)]\<rparr>)" unfolding ev by (rule take_stop[OF n(1-3) op])
  from write_reads[OF n(4) w this] show ?thesis
    using c op by (auto simp: closing_def contents_agree_def input_of_def nth_list_update open_at_def simp del: anth_read_snoc split: if_splits)
qed

lemma closing_weaken: "closing e0 e K c \<Longrightarrow> (\<And>i. i < length (cl_Blocks c) \<Longrightarrow> K (int i) \<Longrightarrow> L (int i)) \<Longrightarrow> closing e0 e L c"
  by (auto simp: closing_def)

lemma closing_tools:
  assumes "closing e0 e K c" and "distinct ids"
    and "\<And>i. i \<in> set ids \<Longrightarrow> \<exists>t. map_of (an_toolCalls e0) i = Some t \<and> open_at c (at_Index t) (ToolBlock i)"
    and "anth_stop_tools env ids e = (None, e')"
  shows "\<exists>c'. closing e0 e' (\<lambda>j. K j \<and> \<not> (\<exists>i \<in> set ids. tool_at e0 i j)) c'"
  using assms
proof (induction ids arbitrary: e K c)
  case Nil
  then show ?case by (auto simp: tool_at_def)
next
  case (Cons i ids)
  obtain t where t: "map_of (an_toolCalls e0) i = Some t" "open_at c (at_Index t) (ToolBlock i)" using Cons.prems(3)[of i] by auto
  have "map_of (an_toolCalls e) i = Some t" using Cons.prems(1) t(1) by (auto simp: closing_def)
  then obtain e1 where w: "anth_write env (\<lambda>_. block_stop (at_Index t)) e = (None, e1)" and rest: "anth_stop_tools env ids e1 = (None, e')"
    using Cons.prems(4) by auto
  let ?c = "c\<lparr>cl_Blocks := (cl_Blocks c)[nat (at_Index t) := (ToolBlock i, False)]\<rparr>"
  have c1: "closing e0 e1 (\<lambda>j. K j \<and> j \<noteq> at_Index t) ?c" by (rule closing_stop[OF Cons.prems(1) t(2) w]) simp
  have later: "\<exists>t'. map_of (an_toolCalls e0) j = Some t' \<and> open_at ?c (at_Index t') (ToolBlock j)" if "j \<in> set ids" for j
    using that Cons.prems(2) Cons.prems(3)[of j] open_at_close[OF t(2)] by auto
  have "distinct ids" using Cons.prems(2) by simp
  from Cons.IH[OF c1 this later rest] obtain c' where "closing e0 e' (\<lambda>j. (K j \<and> j \<noteq> at_Index t) \<and> \<not> (\<exists>i \<in> set ids. tool_at e0 i j)) c'" by auto
  then have "closing e0 e' (\<lambda>j. K j \<and> \<not> (\<exists>i \<in> set (i # ids). tool_at e0 i j)) c'"
    by (rule closing_weaken) (use t(1) in \<open>auto simp: tool_at_def\<close>)
  then show ?case by blast
qed

text \<open>The checks before the end change nothing when they pass.\<close>

lemma checks_frame: "anth_validate ids e = (None, e') \<Longrightarrow> e' = e" "anth_require_usage env e = (None, e') \<Longrightarrow> e' = e"
proof -
  show "anth_validate ids e = (None, e') \<Longrightarrow> e' = e" by (induction ids) (auto split: option.splits)
  show "anth_require_usage env e = (None, e') \<Longrightarrow> e' = e" by (auto simp: anth_require_usage_def split: if_splits)
qed

lemma start_frame: "anth_sendMessageStartIfNeeded env e = (None, e') \<Longrightarrow> contents_agree e' c = contents_agree e c"
  by (auto simp: anth_sendMessageStartIfNeeded_def unless_def contents_agree_def anth_tool_of_def dest!: write_frame split: if_splits)

lemma closing_begin:
  assumes "reads e" and "an_started e"
  obtains c where "closing e e (\<lambda>j. an_textStarted e \<and> j = an_textIndex e \<or> thinking_open e \<and> j = an_thinkingIndex e \<or> (\<exists>i. tool_at e i j)) c"
    and "sim e c"
proof -
  obtain c where c: "anth_read (an_out e) = Some c" "sim e c" using assms(1) by (auto simp: reads_def)
  have "\<exists>ws. e = e\<lparr>an_out := ws\<rparr>" by (rule exI[of _ "an_out e"]) simp
  moreover have "cl_Started c \<and> \<not> cl_Done c \<and> cl_Stop c = None \<and> contents_agree e c" using c(2) assms(2) by (simp add: sim_def)
  moreover have "\<forall>i < length (cl_Blocks c). snd (cl_Blocks c ! i) \<longrightarrow> an_textStarted e \<and> int i = an_textIndex e
      \<or> thinking_open e \<and> int i = an_thinkingIndex e \<or> (\<exists>t. tool_at e t (int i))" using c(2) by (simp add: sim_def blocks_agree_def)
  ultimately have "closing e e (\<lambda>j. an_textStarted e \<and> j = an_textIndex e \<or> thinking_open e \<and> j = an_thinkingIndex e \<or> (\<exists>i. tool_at e i j)) c"
    using c(1) unfolding closing_def by blast
  then show ?thesis using that c(2) by blast
qed

text \<open>The text and the thinking block are closed first.\<close>

lemma closing_text:
  assumes c: "closing e e K c" and s: "sim e c" and w: "cond an_textStarted (anth_write env (\<lambda>e. block_stop (an_textIndex e))) e = (None, e')"
  shows "\<exists>c'. closing e e' (\<lambda>j. K j \<and> \<not> (an_textStarted e \<and> j = an_textIndex e)) c' \<and> (\<forall>i k. k \<noteq> TextBlock \<and> open_at c i k \<longrightarrow> open_at c' i k)"
proof (cases "an_textStarted e")
  case True
  have w': "anth_write env (\<lambda>e. block_stop (an_textIndex e)) e = (None, e')" using w True by (simp add: cond_def)
  have "closing e e' (\<lambda>j. K j \<and> j \<noteq> an_textIndex e) (c\<lparr>cl_Blocks := (cl_Blocks c)[nat (an_textIndex e) := (TextBlock, False)]\<rparr>)"
    by (rule closing_stop[OF c sim_open(1)[OF s True] w']) simp
  then show ?thesis using open_at_close[OF sim_open(1)[OF s True]] True by auto
next
  case False
  then show ?thesis using w c by (auto simp: cond_def)
qed

lemma closing_thinking:
  assumes c: "closing e0 e K c" and op: "thinking_open e0 \<Longrightarrow> open_at c (an_thinkingIndex e0) ThinkingBlock" and w: "anth_stopThinkingIfOpen env e = (None, e')"
  shows "\<exists>e1 c'. closing e1 e' (\<lambda>j. K j \<and> \<not> (thinking_open e0 \<and> j = an_thinkingIndex e0)) c' \<and> an_toolCalls e1 = an_toolCalls e0
    \<and> an_toolCallOrder e1 = an_toolCallOrder e0 \<and> (\<forall>c. contents_agree e1 c = contents_agree e0 c)
    \<and> (\<forall>i k. k \<noteq> ThinkingBlock \<and> open_at c i k \<longrightarrow> open_at c' i k)"
proof (cases "thinking_open e0")
  case False
  then have "e' = e" using w c by (auto simp: anth_stopThinkingIfOpen_def unless_def thinking_open_def closing_def)
  then show ?thesis using c False by auto
next
  case True
  let ?c = "c\<lparr>cl_Blocks := (cl_Blocks c)[nat (an_thinkingIndex e0) := (ThinkingBlock, False)]\<rparr>"
  have same: "thinking_open e" "an_thinkingIndex e = an_thinkingIndex e0" using c True by (auto simp: closing_def thinking_open_def)
  obtain e1 where w1: "anth_write env (\<lambda>e. block_stop (an_thinkingIndex e)) e = (None, e1)" and e': "e' = e1\<lparr>an_thinkingStopped := True\<rparr>"
    using w same(1) by (auto simp: anth_stopThinkingIfOpen_def unless_def thinking_open_def)
  have "closing e0 e1 (\<lambda>j. K j \<and> j \<noteq> an_thinkingIndex e0) ?c" by (rule closing_stop[OF c op[OF True] w1]) (simp add: same)
  moreover have "\<exists>ws. e' = (e0\<lparr>an_thinkingStopped := True\<rparr>)\<lparr>an_out := ws\<rparr>" if "e1 = e0\<lparr>an_out := ws\<rparr>" for ws
    by (rule exI[of _ ws]) (simp add: e' that)
  ultimately have "closing (e0\<lparr>an_thinkingStopped := True\<rparr>) e' (\<lambda>j. K j \<and> \<not> (thinking_open e0 \<and> j = an_thinkingIndex e0)) ?c"
    unfolding closing_def using True by (auto simp: e' contents_agree_def anth_tool_of_def)
  moreover have "contents_agree (e0\<lparr>an_thinkingStopped := True\<rparr>) d = contents_agree e0 d" for d by (simp add: contents_agree_def anth_tool_of_def)
  ultimately show ?thesis using open_at_close[OF op[OF True]]
    by (intro exI[of _ "e0\<lparr>an_thinkingStopped := True\<rparr>"] exI[of _ ?c]) simp
qed

lemma closing_end:
  assumes c: "closing e0 e (\<lambda>_. False) c" and d: "anth_write env d e = (None, e1)" and t: "str_at (snd (d e)) ''type'' = ''message_delta''"
    and s: "anth_write env (\<lambda>e. (''message_stop'', [(''type'', AString ''message_stop'')])) e1 = (None, e2)"
  shows "\<exists>c'. anth_read (an_out e2) = Some c' \<and> cl_Done c' \<and> \<not> list_ex snd (cl_Blocks c') \<and> contents_agree e0 c'"
proof -
  have n: "\<not> cl_Done c" "cl_Started c" "cl_Stop c = None" "anth_read (an_out e) = Some c" "contents_agree e0 c" using c by (simp_all add: closing_def)
  have "\<not> snd x" if "x \<in> set (cl_Blocks c)" for x using that c by (metis closing_def in_set_conv_nth)
  then have closed: "\<not> list_ex snd (cl_Blocks c)" by (auto simp: list_ex_iff)
  let ?c = "c\<lparr>cl_Stop := Some (str_at (as_obj (obj_get (snd (d e)) ''delta'')) ''stop_reason'')\<rparr>"
  have "take_event (d e) c = Some ?c" using n t closed by (simp add: take_event_def)
  from write_reads[OF n(4) d this] have r1: "anth_read (an_out e1) = Some ?c" by blast
  have "take_event (''message_stop'', [(''type'', AString ''message_stop'')]) ?c = Some (?c\<lparr>cl_Done := True\<rparr>)" using n by (simp add: take_event_def payload_simps)
  from write_reads[OF r1 s this] show ?thesis using n(5) closed by (auto simp: contents_agree_def input_of_def)
qed

lemma finish_reads:
  assumes e: "reads e" and fin: "anth_sendFinish env reason stopSequence completed endReason e = (None, e')"
    and name: "protocolEventName env EvCompleted ''message_stop'' = ''message_stop''"
  shows "\<exists>c. anth_read (an_out e') = Some c \<and> cl_Done c \<and> \<not> list_ex snd (cl_Blocks c) \<and> contents_agree e c"
proof -
  have nc: "\<not> an_completed e" using e by (auto simp: reads_def sim_def)
  obtain e1 e2 e3 e4 e5 e6 d where e1: "anth_sendMessageStartIfNeeded env e = (None, e1)"
    and e2: "cond an_textStarted (anth_write env (\<lambda>e. block_stop (an_textIndex e))) e1 = (None, e2)"
    and e3: "anth_stopThinkingIfOpen env e2 = (None, e3)" and e4: "anth_stop_tools env (an_toolCallOrder e3) e3 = (None, e4)"
    and e5: "anth_write env d e4 = (None, e5)" and d: "str_at (snd (d e4)) ''type'' = ''message_delta''"
    and e6: "anth_write env (\<lambda>e. (''message_stop'', [(''type'', AString ''message_stop'')])) e5 = (None, e6)" and e': "an_out e' = an_out e6"
    using fin nc
    by (auto simp: anth_sendFinish_def unless_def name anth_validateToolCallArguments_def str_at_def raw_string_def obj_get_def message_delta_def
        dest!: checks_frame)
  have r1: "reads e1" "an_started e1" using reads_start[OF e e1] by simp_all
  obtain c1 where c1: "closing e1 e1 (\<lambda>j. an_textStarted e1 \<and> j = an_textIndex e1 \<or> thinking_open e1 \<and> j = an_thinkingIndex e1 \<or> (\<exists>i. tool_at e1 i j)) c1"
    "sim e1 c1" using closing_begin[OF r1] by blast
  obtain c2 where c2: "closing e1 e2 (\<lambda>j. thinking_open e1 \<and> j = an_thinkingIndex e1 \<or> (\<exists>i. tool_at e1 i j)) c2"
    "\<And>i k. k \<noteq> TextBlock \<Longrightarrow> open_at c1 i k \<Longrightarrow> open_at c2 i k"
    using closing_text[OF c1 e2] closing_weaken by (metis (no_types, lifting))
  have op: "thinking_open e1 \<Longrightarrow> open_at c2 (an_thinkingIndex e1) ThinkingBlock" using c2(2) sim_open(2)[OF c1(2)] by simp
  obtain e0 c3 where c3: "closing e0 e3 (\<lambda>j. \<exists>i. tool_at e1 i j) c3" "an_toolCalls e0 = an_toolCalls e1" "an_toolCallOrder e0 = an_toolCallOrder e1"
    "\<And>c. contents_agree e0 c = contents_agree e1 c" "\<And>i k. k \<noteq> ThinkingBlock \<Longrightarrow> open_at c2 i k \<Longrightarrow> open_at c3 i k"
    using closing_thinking[OF c2(1) op e3] closing_weaken by (metis (no_types, lifting))
  have order: "set (an_toolCallOrder e1) = dom (map_of (an_toolCalls e1))" "distinct (an_toolCallOrder e1)" using c1(2) by (simp_all add: sim_def)
  have ids: "an_toolCallOrder e3 = an_toolCallOrder e1" using c3(1,3) by (auto simp: closing_def)
  have opens: "\<exists>t. map_of (an_toolCalls e0) i = Some t \<and> open_at c3 (at_Index t) (ToolBlock i)" if "i \<in> set (an_toolCallOrder e3)" for i
    using that order(1) c3(2,5) c2(2) sim_open(3)[OF c1(2)] unfolding ids by (auto simp: dom_def)
  obtain c4 where "closing e0 e4 (\<lambda>j. (\<exists>i. tool_at e1 i j) \<and> \<not> (\<exists>i \<in> set (an_toolCallOrder e3). tool_at e0 i j)) c4"
    using closing_tools[OF c3(1) _ opens e4] order(2) unfolding ids by blast
  then have "closing e0 e4 (\<lambda>_. False) c4"
    by (rule closing_weaken) (use order(1) c3(2) in \<open>fastforce simp: ids tool_at_def dom_def\<close>)
  from closing_end[OF this e5 d e6] show ?thesis
    using c3(4) start_frame[OF e1] e' by auto
qed
section \<open>What is read back\<close>

definition contents :: "anth_encoder \<Rightarrow> string \<times> string \<times> string \<times> (string \<Rightarrow> string)" where
  "contents e = (an_textBuffer e, an_thinkingBuffer e, an_thinkingSignature e, \<lambda>i. at_Arguments (anth_tool_of i e))"

lemma contents_frame [simp]: "contents (e\<lparr>an_out := ws\<rparr>) = contents e" "contents (e\<lparr>an_started := b\<rparr>) = contents e" "contents (e\<lparr>an_capture := cap\<rparr>) = contents e"
  "contents (e\<lparr>an_responseID := s\<rparr>) = contents e" "contents (e\<lparr>an_model := s\<rparr>) = contents e" "contents (e\<lparr>an_createdAt := n\<rparr>) = contents e"
  "contents (e\<lparr>an_textIndex := n\<rparr>) = contents e" "contents (e\<lparr>an_nextIndex := n\<rparr>) = contents e" "contents (e\<lparr>an_thinkingIndex := n\<rparr>) = contents e"
  "contents (e\<lparr>an_textStarted := b\<rparr>) = contents e" "contents (e\<lparr>an_thinkingStopped := b\<rparr>) = contents e" "contents (e\<lparr>an_thinkingStarted := b\<rparr>) = contents e"
  by (simp_all add: contents_def anth_tool_of_def)

lemma write_contents: "anth_write env ev e = (None, e') \<Longrightarrow> contents e' = contents e"
  by (drule write_frame) simp

lemma start_contents: "anth_sendMessageStartIfNeeded env e = (None, e') \<Longrightarrow> contents e' = contents e"
  by (auto simp: anth_sendMessageStartIfNeeded_def unless_def dest!: write_contents split: if_splits)

lemma stop_thinking_contents: "anth_stopThinkingIfOpen env e = (None, e') \<Longrightarrow> contents e' = contents e"
  by (auto simp: anth_stopThinkingIfOpen_def unless_def dest!: write_contents split: if_splits)

lemma open_thinking_contents: "anth_sendThinkingStartIfNeeded env e = (None, e') \<Longrightarrow> contents e' = contents e"
  by (auto simp: anth_sendThinkingStartIfNeeded_def unless_def dest!: write_contents start_contents split: if_splits)

lemma mergeMeta_contents [simp]: "contents (anth_mergeMeta ev e) = contents e"
  by (simp add: anth_mergeMeta_def Let_def)

lemma set_tool_contents: "contents (anth_set_tool callID f e) = (an_textBuffer e, an_thinkingBuffer e, an_thinkingSignature e,
     (\<lambda>i. at_Arguments (anth_tool_of i e))(callID := at_Arguments (f (anth_tool_of callID e))))"
  by (auto simp: contents_def anth_set_tool_def anth_tool_of_def update_conv')

lemma new_tool_contents: "contents (anth_new_tool callID e) = contents e"
  by (auto simp: contents_def anth_new_tool_def anth_tool_of_def update_conv')

text \<open>Each event adds what it carries.\<close>

definition adds :: "enc_env \<Rightarrow> stream_event \<Rightarrow> anth_encoder \<Rightarrow> anth_encoder \<Rightarrow> bool" where
  "adds env ev e e' \<longleftrightarrow> contents e' = (an_textBuffer e @ text_of ev, an_thinkingBuffer e @ thinking_of env ''thinking'' ev,
     an_thinkingSignature e @ thinking_of env ''thinking_signature'' ev, \<lambda>i. at_Arguments (anth_tool_of i e) @ input_part i ev)"

lemma adds_nothing: "contents e' = contents e \<Longrightarrow> text_of ev = [] \<Longrightarrow> thinking_of env ''thinking'' ev = [] \<Longrightarrow> thinking_of env ''thinking_signature'' ev = []
    \<Longrightarrow> (\<And>i. input_part i ev = []) \<Longrightarrow> adds env ev e e'"
  by (simp add: adds_def contents_def)

lemma open_text_contents: "anth_openText env e = (None, e') \<Longrightarrow> contents e' = contents e"
  by (auto simp: anth_openText_def unless_def dest!: write_contents split: if_splits)

lemma named_contents: "contents (anth_set_tool callID (\<lambda>t. t\<lparr>at_Name := n\<rparr>) e) = contents e"
  "contents (anth_set_tool callID (\<lambda>t. t\<lparr>at_Started := b\<rparr>) e) = contents e"
  unfolding set_tool_contents by (simp_all add: contents_def fun_eq_iff)

lemma open_tool_contents: "anth_openTool env ev callID e = (None, e') \<Longrightarrow> contents e' = contents e"
  by (auto simp: anth_openTool_def unless_def named_contents new_tool_contents dest!: write_contents split: if_splits)

lemmas opening_contents = start_contents stop_thinking_contents open_thinking_contents open_text_contents open_tool_contents write_contents

lemma text_adds:
  assumes "anth_sendTextDelta env (ev_Delta ev) e = (None, e')" and "ev_Type ev = EvTextDelta"
  shows "adds env ev e e'"
proof (cases "ev_Delta ev = []")
  case True
  then show ?thesis using assms by (intro adds_nothing) (simp_all add: anth_sendTextDelta_def text_of_def thinking_of_def input_part_def)
next
  case False
  from text_steps[OF assms(1) this] obtain e3 where "contents e3 = contents e" "contents e' = contents (e3\<lparr>an_textBuffer := an_textBuffer e3 @ ev_Delta ev\<rparr>)"
    by (auto dest!: opening_contents)
  then show ?thesis
    using assms(2) by (auto simp: adds_def contents_def text_of_def thinking_of_def input_part_def anth_tool_of_def fun_eq_iff)
qed

lemma reasoning_adds:
  assumes "anth_sendReasoningEvent env ev e = (None, e')" and "ev_Type ev = EvReasoningDelta"
  shows "adds env ev e e'"
  using assms(1)
proof (cases rule: reasoning_steps)
  case (annotate a)
  then show ?thesis using assms(2) by (intro adds_nothing) (auto simp: anth_annotate_def text_of_def input_part_def)
next
  case skip
  then show ?thesis using assms(2) by (intro adds_nothing) (auto simp: thinking_of_def text_of_def input_part_def)
next
  case (thinking e1)
  then have "contents e1 = contents e" "contents e' = contents (e1\<lparr>an_thinkingBuffer := an_thinkingBuffer e1 @ ev_Delta ev\<rparr>)" by (auto dest: opening_contents)
  then show ?thesis
    using assms(2) thinking(3,4) by (auto simp: adds_def contents_def text_of_def thinking_of_def input_part_def anth_tool_of_def fun_eq_iff)
next
  case (signature e1)
  then have "contents e1 = contents e" "contents e' = contents (e1\<lparr>an_thinkingSignature := an_thinkingSignature e1 @ ev_Delta ev\<rparr>)" by (auto dest: opening_contents)
  then show ?thesis
    using assms(2) signature(3,4) by (auto simp: adds_def contents_def text_of_def thinking_of_def input_part_def anth_tool_of_def fun_eq_iff)
qed

lemma tool_adds:
  assumes "anth_sendToolCallDelta env ev e = (None, e')" and "ev_Type ev = EvToolCallDelta"
  shows "adds env ev e e'"
proof (cases "trim_space (ev_ToolCallID ev) = []")
  case True
  then show ?thesis using assms by (intro adds_nothing) (auto simp: anth_sendToolCallDelta_def text_of_def thinking_of_def input_part_def Let_def)
next
  case False
  define callID where "callID = trim_space (ev_ToolCallID ev)"
  from tool_steps[OF assms(1) False, folded callID_def] obtain e3 where e3: "contents e3 = contents e"
    and e': "if ev_ToolCallArgumentsDelta ev = [] then e' = e3
      else contents e' = contents (anth_set_tool callID (\<lambda>t. t\<lparr>at_Arguments := at_Arguments t @ ev_ToolCallArgumentsDelta ev\<rparr>) e3)"
    by (auto dest!: opening_contents split: if_splits)
  show ?thesis
  proof (cases "ev_ToolCallArgumentsDelta ev = []")
    case True
    then show ?thesis using e3 e' assms(2) by (intro adds_nothing) (auto simp: text_of_def thinking_of_def input_part_def)
  next
    case nonempty: False
    then have "contents e' = contents (anth_set_tool callID (\<lambda>t. t\<lparr>at_Arguments := at_Arguments t @ ev_ToolCallArgumentsDelta ev\<rparr>) e3)" using e' by simp
    then show ?thesis
      unfolding adds_def set_tool_contents using e3 assms(2) False
      by (auto simp: contents_def text_of_def thinking_of_def input_part_def callID_def fun_eq_iff)
  qed
qed

lemma encode_adds:
  assumes "anth_EncodeEvent env ev e = (None, e')" and "ev_Type ev \<notin> {EvCompleted, EvIncomplete}"
  shows "adds env ev e e'"
proof -
  let ?e = "anth_mergeMeta ev e"
  have "adds env ev ?e e'"
  proof (cases "ev_Type ev \<in> {EvTextDelta, EvToolCallDelta, EvReasoningDelta}")
    case True
    then show ?thesis using assms text_adds[of env ev ?e e'] tool_adds[of env ev ?e e'] reasoning_adds[of env ev ?e e']
      by (auto simp: anth_EncodeEvent_def)
  next
    case False
    then show ?thesis using assms
      by (intro adds_nothing) (auto simp: anth_EncodeEvent_def anth_annotate_def text_of_def thinking_of_def input_part_def dest!: start_contents split: event_type.splits)
  qed
  then show ?thesis using mergeMeta_contents[of ev e] by (auto simp: adds_def contents_def fun_eq_iff)
qed

lemma encode_reads:
  assumes "reads e" and "anth_EncodeEvent env ev e = (None, e')" and "ev_Type ev \<notin> {EvCompleted, EvIncomplete}"
  shows "reads e'"
proof -
  have r: "reads (anth_mergeMeta ev e)" by (rule reads_mergeMeta[OF assms(1)])
  show ?thesis
    using assms(2,3) reads_start[OF r] reads_text[OF r] reads_tool[OF r] reads_reasoning[OF r] reads_annotate[OF r] r
    by (cases "ev_Type ev") (auto simp: anth_EncodeEvent_def reads_def)
qed

lemma encode_all_reads:
  "reads e \<Longrightarrow> steps (map (anth_EncodeEvent env) es) e = (None, e') \<Longrightarrow> list_all (\<lambda>ev. ev_Type ev \<notin> {EvCompleted, EvIncomplete}) es
    \<Longrightarrow> reads e' \<and> contents e' = (an_textBuffer e @ concat (map text_of es), an_thinkingBuffer e @ concat (map (thinking_of env ''thinking'') es),
       an_thinkingSignature e @ concat (map (thinking_of env ''thinking_signature'') es), \<lambda>i. at_Arguments (anth_tool_of i e) @ concat (map (input_part i) es))"
proof (induction es arbitrary: e)
  case Nil
  then show ?case by (simp add: contents_def)
next
  case (Cons ev es)
  then obtain e1 where e1: "anth_EncodeEvent env ev e = (None, e1)" "steps (map (anth_EncodeEvent env) es) e1 = (None, e')" by auto
  have nt: "ev_Type ev \<notin> {EvCompleted, EvIncomplete}" using Cons.prems(3) by simp
  have r1: "reads e1" by (rule encode_reads[OF Cons.prems(1) e1(1) nt])
  have "list_all (\<lambda>ev. ev_Type ev \<notin> {EvCompleted, EvIncomplete}) es" using Cons.prems(3) by simp
  from Cons.IH[OF r1 e1(2) this] encode_adds[OF e1(1) nt] show ?case
    by (simp add: adds_def contents_def fun_eq_iff)
qed

section \<open>Properties\<close>

text \<open>The end of a stream on a state whose contents are known.\<close>

lemma finish_read_back:
  assumes "reads e1" "contents e1 = (t, th, sg, ins)" "anth_EncodeEvent env fin e1 = (None, e)" "ev_Type fin \<in> {EvCompleted, EvIncomplete}"
    "protocolEventName env EvCompleted ''message_stop'' = ''message_stop''"
  shows "\<exists>c. anth_read (an_out e) = Some c \<and> cl_Done c \<and> list_all (\<lambda>b. \<not> snd b) (cl_Blocks c)
    \<and> cl_Text c = t \<and> cl_Thinking c = th \<and> cl_Signature c = sg \<and> (\<forall>i. input_of c i = ins i)"
proof -
  have "\<exists>reason stop completed endReason. anth_sendFinish env reason stop completed endReason (anth_mergeMeta fin e1) = (None, e)"
    using assms(3,4) by (auto simp: anth_EncodeEvent_def) blast+
  then obtain c where c: "anth_read (an_out e) = Some c" "cl_Done c" "\<not> list_ex snd (cl_Blocks c)" "contents_agree (anth_mergeMeta fin e1) c"
    using finish_reads[OF reads_mergeMeta[OF assms(1)] _ assms(5)] by blast
  have "contents (anth_mergeMeta fin e1) = (cl_Text c, cl_Thinking c, cl_Signature c, input_of c)"
    using c(4) by (auto simp: contents_agree_def contents_def fun_eq_iff)
  then show ?thesis using c(1-3) assms(2) by (auto simp: fun_eq_iff list_all_iff list_ex_iff)
qed

text \<open>C15. A client of the Anthropic stream reads back what the upstream sent. For every sequence of events that ends with the end of the
  stream and is encoded without an error, the events written obey the protocol: one message start first, blocks numbered as they start,
  deltas only for open blocks of their kind, every block closed before the message ends, nothing after. And what the client has then
  assembled is the text, the thinking that the policy passes on, and for every tool call the input, of the events in their order.\<close>

theorem anthropic_stream_read_back:
  assumes "steps (map (anth_EncodeEvent env) (es @ [fin])) (newAnthropicMessagesStreamEncoder newID now cap) = (None, e)"
    and "list_all (\<lambda>ev. ev_Type ev \<notin> {EvCompleted, EvIncomplete}) es" and "ev_Type fin \<in> {EvCompleted, EvIncomplete}"
    and "protocolEventName env EvCompleted ''message_stop'' = ''message_stop''"
  shows "\<exists>c. anth_read (an_out e) = Some c \<and> cl_Done c \<and> list_all (\<lambda>b. \<not> snd b) (cl_Blocks c)
    \<and> cl_Text c = concat (map text_of es) \<and> cl_Thinking c = concat (map (thinking_of env ''thinking'') es)
    \<and> cl_Signature c = concat (map (thinking_of env ''thinking_signature'') es)
    \<and> (\<forall>i. input_of c i = concat (map (input_part i) es))"
proof -
  let ?new = "newAnthropicMessagesStreamEncoder newID now cap"
  obtain e1 where e1: "steps (map (anth_EncodeEvent env) es) ?new = (None, e1)" and e: "anth_EncodeEvent env fin e1 = (None, e)"
    using assms(1) by (auto simp: steps_snoc)
  from encode_all_reads[OF new_reads e1 assms(2)] have r: "reads e1" and c1: "contents e1 = (concat (map text_of es), concat (map (thinking_of env ''thinking'') es),
       concat (map (thinking_of env ''thinking_signature'') es), \<lambda>i. concat (map (input_part i) es))"
    by (simp_all add: newAnthropicMessagesStreamEncoder_def anth_tool_of_def)
  from finish_read_back[OF r c1 e assms(3,4)] show ?thesis .
qed

definition demo_anth_env :: enc_env where
  "demo_anth_env = \<lparr>ee_write = (\<lambda>_. True), ee_events = [(''completed'', ''message_stop'')], ee_reasoning = [(''thinking'', ''passthrough'')],
     ee_IncludeUsage = True, ee_RequireUsage = False, ee_SiteType = ''openai'', ee_CustomTools = [], ee_ResponseTools = []\<rparr>"

definition demo_events :: "stream_event list" where
  "demo_events = [(event_of EvReasoningDelta)\<lparr>ev_ReasoningKind := ''thinking'', ev_Delta := ''hm''\<rparr>, (event_of EvTextDelta)\<lparr>ev_Delta := ''He''\<rparr>,
     (event_of EvToolCallDelta)\<lparr>ev_ToolCallID := ''c1'', ev_ToolCallName := ''f'', ev_ToolCallArgumentsDelta := ''{''\<rparr>,
     (event_of EvTextDelta)\<lparr>ev_Delta := ''llo''\<rparr>, (event_of EvToolCallDelta)\<lparr>ev_ToolCallID := ''c1'', ev_ToolCallArgumentsDelta := ''}''\<rparr>]"

lemma demo_anth_run:
  "fst (steps (map (anth_EncodeEvent demo_anth_env) (demo_events @ [event_of EvCompleted])) (newAnthropicMessagesStreamEncoder ''x'' 0 new_capture)) = None"
  by code_simp

theorem anthropic_stream_read_back_witness:
  "\<exists>e c. steps (map (anth_EncodeEvent demo_anth_env) (demo_events @ [event_of EvCompleted])) (newAnthropicMessagesStreamEncoder ''x'' 0 new_capture) = (None, e)
     \<and> anth_read (an_out e) = Some c \<and> cl_Done c \<and> cl_Text c = ''Hello'' \<and> cl_Thinking c = ''hm'' \<and> input_of c ''c1'' = ''{}''"
proof -
  obtain e where e: "steps (map (anth_EncodeEvent demo_anth_env) (demo_events @ [event_of EvCompleted])) (newAnthropicMessagesStreamEncoder ''x'' 0 new_capture) = (None, e)"
    using demo_anth_run by (metis prod.collapse)
  have "list_all (\<lambda>ev. ev_Type ev \<notin> {EvCompleted, EvIncomplete}) demo_events" "ev_Type (event_of EvCompleted) \<in> {EvCompleted, EvIncomplete}"
    "protocolEventName demo_anth_env EvCompleted ''message_stop'' = ''message_stop''"
    by code_simp+
  from anthropic_stream_read_back[OF e this] obtain c where c: "anth_read (an_out e) = Some c" "cl_Done c" "cl_Text c = concat (map text_of demo_events)"
    "cl_Thinking c = concat (map (thinking_of demo_anth_env ''thinking'') demo_events)" "input_of c ''c1'' = concat (map (input_part ''c1'') demo_events)" by blast
  have "concat (map text_of demo_events) = ''Hello'' \<and> concat (map (thinking_of demo_anth_env ''thinking'') demo_events) = ''hm''
      \<and> concat (map (input_part ''c1'') demo_events) = ''{}''" by code_simp
  then show ?thesis using e c by auto
qed

section \<open>What the converting loop relies on\<close>

abbreviation anth_grown :: "wire list \<Rightarrow> anth_encoder \<Rightarrow> bool" where
  "anth_grown ws \<equiv> grown an_out ws"

lemma anth_grown_frame [simp]: "anth_grown ws (e\<lparr>an_capture := c\<rparr>) = anth_grown ws e" "anth_grown ws (e\<lparr>an_started := b\<rparr>) = anth_grown ws e"
  "anth_grown ws (e\<lparr>an_completed := b\<rparr>) = anth_grown ws e" "anth_grown ws (e\<lparr>an_nextIndex := n\<rparr>) = anth_grown ws e"
  "anth_grown ws (e\<lparr>an_textIndex := n\<rparr>) = anth_grown ws e" "anth_grown ws (e\<lparr>an_textStarted := b\<rparr>) = anth_grown ws e"
  "anth_grown ws (e\<lparr>an_textBuffer := t\<rparr>) = anth_grown ws e" "anth_grown ws (e\<lparr>an_thinkingIndex := n\<rparr>) = anth_grown ws e"
  "anth_grown ws (e\<lparr>an_thinkingStarted := b\<rparr>) = anth_grown ws e" "anth_grown ws (e\<lparr>an_thinkingStopped := b\<rparr>) = anth_grown ws e"
  "anth_grown ws (e\<lparr>an_thinkingBuffer := t\<rparr>) = anth_grown ws e" "anth_grown ws (e\<lparr>an_thinkingSignature := t\<rparr>) = anth_grown ws e"
  "anth_grown ws (anth_set_tool i f e) = anth_grown ws e" "anth_grown ws (anth_new_tool i e) = anth_grown ws e" "anth_grown ws (anth_mergeMeta ev e) = anth_grown ws e"
  by (simp_all add: grown_def anth_set_tool_def anth_new_tool_def anth_mergeMeta_def Let_def)

lemma anth_write_grows: "keeps (anth_grown ws) (anth_write env w)"
  by (auto simp: keeps_def anth_write_def grown_def)

lemma anth_annotate_grows: "keeps (anth_grown ws) (anth_annotate a)"
  by (simp add: keeps_def anth_annotate_def upd_def)

lemma anth_start_grows: "keeps (anth_grown ws) (anth_sendMessageStartIfNeeded env)"
  unfolding anth_sendMessageStartIfNeeded_def[abs_def] by (simp add: keeps_simps anth_write_grows)

lemma anth_thinking_grows: "keeps (anth_grown ws) (anth_sendThinkingStartIfNeeded env)" "keeps (anth_grown ws) (anth_stopThinkingIfOpen env)"
  unfolding anth_sendThinkingStartIfNeeded_def[abs_def] anth_stopThinkingIfOpen_def[abs_def] by (simp_all add: keeps_simps anth_write_grows anth_start_grows)

lemma anth_open_grows: "keeps (anth_grown ws) (anth_openText env)" "keeps (anth_grown ws) (anth_openTool env ev i)"
  unfolding anth_openText_def[abs_def] anth_openTool_def[abs_def] by (simp_all add: keeps_simps anth_write_grows)

lemmas anth_grows = anth_write_grows anth_annotate_grows anth_start_grows anth_thinking_grows anth_open_grows

lemma anth_contents_grow: "keeps (anth_grown ws) (anth_sendReasoningEvent env ev)" "keeps (anth_grown ws) (anth_sendTextDelta env t)"
  "keeps (anth_grown ws) (anth_sendToolCallDelta env ev)"
  unfolding anth_sendReasoningEvent_def[abs_def] anth_sendTextDelta_def[abs_def] anth_sendToolCallDelta_def[abs_def] Let_def
  by (simp_all add: keeps_simps anth_grows)

lemma anth_checks_grow: "keeps (anth_grown ws) (anth_require_usage env)" "keeps (anth_grown ws) anth_validateToolCallArguments"
proof -
  have "keeps (anth_grown ws) (anth_validate ids)" for ids by (induction ids) (auto simp: keeps_def split: option.splits)
  then show "keeps (anth_grown ws) anth_validateToolCallArguments" by (simp add: keeps_def anth_validateToolCallArguments_def)
  show "keeps (anth_grown ws) (anth_require_usage env)" by (simp add: keeps_def anth_require_usage_def)
qed

lemma anth_stop_tools_grows: "keeps (anth_grown ws) (anth_stop_tools env ids)"
proof (induction ids)
  case (Cons i ids)
  have "keeps (anth_grown ws) (steps [anth_write env (\<lambda>_. block_stop n), anth_stop_tools env ids])" for n by (simp add: keeps_steps anth_write_grows Cons.IH)
  then show ?case using Cons.IH by (simp add: keeps_def split: option.split)
qed (simp add: keeps_def)

lemma anth_finish_grows: "keeps (anth_grown ws) (anth_sendFinish env r q b t)"
  unfolding anth_sendFinish_def[abs_def] by (simp add: keeps_simps keeps_at anth_grows anth_checks_grow anth_stop_tools_grows)

lemma anth_encode_grows: "keeps (anth_grown ws) (anth_EncodeEvent env ev)"
  unfolding anth_EncodeEvent_def[abs_def] by (simp add: keeps_simps anth_grows anth_contents_grow anth_finish_grows)

interpretation anth_enc: stream_encoder "anth_EncodeEvent env" an_capture "\<lambda>c e. e\<lparr>an_capture := c\<rparr>" an_out for env
  by unfold_locales (simp_all add: anth_encode_grows)

end
