(* ===== verification/Stop_Filter.thy ===== *)
theory Stop_Filter
  imports Stream_Events "HOL-Library.Sublist"
begin

text \<open>
  The filter that ends a stream at a stop sequence, \<open>gateway/protocol_stop_sequences.go\<close>. The text arrives in pieces; the filter keeps back
  as much of it as could still be the beginning of a stop sequence. A character stands for a rune, so that the conversions between
  strings and runes are the identity. A filter without sequences is \<open>None\<close>.
\<close>

section \<open>The filter\<close>

record stop_filter =
  sf_sequences :: "string list"
  sf_maxLength :: nat
  sf_pending :: string
  sf_template :: stream_event
  sf_matched :: string
  sf_stopped :: bool

fun collect_sequences :: "string list \<Rightarrow> string list \<Rightarrow> string list" where
  "collect_sequences seqs [] = seqs"
| "collect_sequences seqs (v # vs) = collect_sequences (if v = [] \<or> v \<in> set seqs then seqs else seqs @ [v]) vs"

definition newCanonicalStopSequenceFilter :: "string list \<Rightarrow> stop_filter option" where
  "newCanonicalStopSequenceFilter values =
     (let seqs = collect_sequences [] values in
      if seqs = [] then None
      else Some \<lparr>sf_sequences = seqs, sf_maxLength = fold (\<lambda>q m. if length q > m then length q else m) seqs 0, sf_pending = [],
             sf_template = event_of EvCreated, sf_matched = [], sf_stopped = False\<rparr>)"

text \<open>The leftmost match, and at the same place the first sequence in order.\<close>

fun firstMatch :: "string list \<Rightarrow> string \<Rightarrow> (nat \<times> string) option" where
  "firstMatch seqs [] = None"
| "firstMatch seqs (c # cs) = (case find (has_prefix (c # cs)) seqs of
      Some q \<Rightarrow> Some (0, q)
    | None \<Rightarrow> map_option (\<lambda>(i, q). (Suc i, q)) (firstMatch seqs cs))"

definition emitPrefix :: "nat \<Rightarrow> stop_filter \<Rightarrow> stream_event list \<times> stop_filter" where
  "emitPrefix n f =
     (if n = 0 \<or> sf_pending f = [] then ([], f)
      else let rest = drop n (sf_pending f) in
        ([(sf_template f)\<lparr>ev_Delta := take n (sf_pending f)\<rparr>],
         f\<lparr>sf_pending := rest, sf_template := (if rest = [] then event_of EvCreated else sf_template f)\<rparr>))"

definition flush_filter :: "stop_filter \<Rightarrow> stream_event list \<times> stop_filter" where
  "flush_filter f = (if sf_pending f = [] \<or> sf_stopped f then ([], f) else emitPrefix (length (sf_pending f)) f)"

definition apply_text :: "stream_event \<Rightarrow> stop_filter \<Rightarrow> stream_event list \<times> stop_filter" where
  "apply_text ev f0 =
     (if sf_stopped f0 \<or> ev_Delta ev = [] then ([], f0)
      else let f = f0\<lparr>sf_template := (if sf_pending f0 = [] then ev else sf_template f0), sf_pending := sf_pending f0 @ ev_Delta ev\<rparr> in
        case firstMatch (sf_sequences f) (sf_pending f) of
          Some (i, q) \<Rightarrow> (let (evs, f') = emitPrefix i f in (evs, f'\<lparr>sf_pending := [], sf_matched := q, sf_stopped := True\<rparr>))
        | None \<Rightarrow>
            let keep = sf_maxLength f - 1 in
            if length (sf_pending f) > keep then emitPrefix (length (sf_pending f) - keep) f else ([], f))"

definition end_event :: "stop_filter \<Rightarrow> stream_event \<Rightarrow> stream_event" where
  "end_event f ev = (if sf_stopped f
     then ev\<lparr>ev_Type := EvCompleted, ev_FinishReason := ''stop_sequence'', ev_StopSequence := sf_matched f, ev_ErrorMessage := []\<rparr> else ev)"

definition apply_event :: "stream_event \<Rightarrow> stop_filter \<Rightarrow> stream_event list \<times> stop_filter" where
  "apply_event ev f =
     (if ev_Type ev = EvTextDelta then apply_text ev f
      else if ev_Type ev = EvCreated then ([ev], f)
      else if ev_Type ev = EvUsage then (let (evs, f') = flush_filter f in (evs @ [ev], f'))
      else if ev_Type ev \<in> {EvCompleted, EvIncomplete, EvError} then (let (evs, f') = flush_filter f in (evs @ [end_event f' ev], f'))
      else if sf_stopped f then ([], f)
      else (let (evs, f') = flush_filter f in (evs @ [ev], f')))"

fun apply_events :: "stream_event list \<Rightarrow> stop_filter \<Rightarrow> stream_event list \<times> stop_filter" where
  "apply_events [] f = ([], f)"
| "apply_events (ev # evs) f = (let (out, f') = apply_event ev f; (outs, f'') = apply_events evs f' in (out @ outs, f''))"

section \<open>Matches\<close>

lemma find_match: "find (has_prefix s) seqs = Some q \<Longrightarrow> q \<in> set seqs \<and> has_prefix s q"
  by (auto simp: find_Some_iff)

lemma has_prefix_iff: "has_prefix s q \<longleftrightarrow> (\<exists>v. s = q @ v)"
proof
  assume "has_prefix s q"
  then have "s = q @ drop (length q) s" by (metis append_take_drop_id has_prefix_def)
  then show "\<exists>v. s = q @ v" by blast
qed (auto simp: has_prefix_def)

lemma firstMatch_Some:
  "firstMatch seqs s = Some (i, q) \<Longrightarrow> q \<in> set seqs \<and> i < length s \<and> (\<exists>v. s = take i s @ q @ v)
     \<and> (\<forall>q' u v. q' \<in> set seqs \<longrightarrow> s = u @ q' @ v \<longrightarrow> i \<le> length u)"
proof (induction s arbitrary: i)
  case (Cons c cs)
  show ?case
  proof (cases "find (has_prefix (c # cs)) seqs")
    case (Some r)
    then have "i = 0" "r = q" using Cons.prems by simp_all
    then show ?thesis using find_match[OF Some] by (auto simp: has_prefix_iff)
  next
    case None
    then obtain j where j: "firstMatch seqs cs = Some (j, q)" "i = Suc j" using Cons.prems by (auto split: option.splits)
    have no: "\<not> has_prefix (c # cs) q'" if "q' \<in> set seqs" for q' using None that by (auto simp: find_None_iff)
    have left: "Suc j \<le> length u" if "q' \<in> set seqs" "c # cs = u @ q' @ v" for q' u v
    proof (cases u)
      case Nil
      then show ?thesis using that no[OF that(1)] by (auto simp: has_prefix_iff)
    next
      case (Cons d ds)
      then show ?thesis using Cons.IH[OF j(1)] that by auto
    qed
    then show ?thesis using Cons.IH[OF j(1)] j(2) by auto
  qed
qed simp

lemma firstMatch_None: "firstMatch seqs s = None \<Longrightarrow> q \<in> set seqs \<Longrightarrow> q \<noteq> [] \<Longrightarrow> \<not> sublist q s"
proof (induction s)
  case (Cons c cs)
  then have no: "\<not> has_prefix (c # cs) q" "firstMatch seqs cs = None" by (auto simp: find_None_iff split: option.splits)
  have "\<not> sublist q cs" by (rule Cons.IH[OF no(2) Cons.prems(2,3)])
  then show ?case using no(1) Cons.prems(3) by (auto simp: sublist_Cons_right has_prefix_iff prefix_def)
qed simp

section \<open>Text that passes\<close>

abbreviation texts :: "stream_event list \<Rightarrow> string" where
  "texts evs \<equiv> concat (map text_of evs)"

definition filter_ok :: "stop_filter \<Rightarrow> bool" where
  "filter_ok f \<longleftrightarrow> sf_sequences f \<noteq> [] \<and> (\<forall>q \<in> set (sf_sequences f). q \<noteq> [] \<and> length q \<le> sf_maxLength f)
     \<and> (sf_pending f \<noteq> [] \<longrightarrow> ev_Type (sf_template f) = EvTextDelta)"

text \<open>After the text \<open>t\<close> of which \<open>out\<close> has passed: nothing matched yet and only a possible beginning of a match is kept back.\<close>

definition waiting :: "stop_filter \<Rightarrow> string \<Rightarrow> string \<Rightarrow> bool" where
  "waiting f t out \<longleftrightarrow> filter_ok f \<and> \<not> sf_stopped f \<and> t = out @ sf_pending f \<and> (\<forall>q \<in> set (sf_sequences f). \<not> sublist q t)
     \<and> (out = [] \<or> sf_maxLength f - 1 \<le> length (sf_pending f))"

text \<open>Or a sequence was found: what has passed is the text before it, and no sequence begins earlier.\<close>

definition found :: "stop_filter \<Rightarrow> string \<Rightarrow> string \<Rightarrow> bool" where
  "found f t out \<longleftrightarrow> sf_stopped f \<and> sf_pending f = [] \<and> sf_matched f \<in> set (sf_sequences f) \<and> (\<exists>rest. t = out @ sf_matched f @ rest)
     \<and> (\<forall>q u v. q \<in> set (sf_sequences f) \<longrightarrow> out @ sf_matched f = u @ q @ v \<longrightarrow> length out \<le> length u)"

lemma emitPrefix_parts:
  assumes "emitPrefix n f = (evs, f')" and "sf_pending f \<noteq> [] \<longrightarrow> ev_Type (sf_template f) = EvTextDelta"
  shows "texts evs = take n (sf_pending f)" "sf_pending f' = drop n (sf_pending f)" "list_all (\<lambda>e. ev_Type e = EvTextDelta) evs"
    "f' = f\<lparr>sf_pending := sf_pending f', sf_template := sf_template f'\<rparr>" "sf_pending f' \<noteq> [] \<longrightarrow> sf_template f' = sf_template f"
  using assms by (auto simp: emitPrefix_def text_of_def Let_def split: if_splits)

text \<open>A match in the text with the new piece begins in what was kept back.\<close>

lemma match_in_pending:
  assumes w: "waiting f t out" and q: "q \<in> set (sf_sequences f)" and m: "t @ d = u @ q @ v"
  shows "length out \<le> length u"
proof (rule ccontr)
  assume "\<not> length out \<le> length u"
  then have lt: "length u < length out" by simp
  have q0: "q \<noteq> []" "length q \<le> sf_maxLength f" using w q by (auto simp: waiting_def filter_ok_def)
  have keep: "sf_maxLength f - 1 \<le> length (sf_pending f)" and t: "t = out @ sf_pending f" using w lt by (auto simp: waiting_def)
  have "length (u @ q) \<le> length t" using lt q0 keep t by (cases q) auto
  moreover have "u @ q = take (length (u @ q)) (t @ d)" using m by simp
  ultimately have "u @ q = take (length (u @ q)) t" by simp
  then have "t = u @ q @ drop (length (u @ q)) t" by (metis append.assoc append_take_drop_id)
  then have "sublist q t" by (metis sublist_appendI)
  then show False using w q by (auto simp: waiting_def)
qed

lemma apply_text_step:
  assumes w: "waiting f t out" and ev: "ev_Type ev = EvTextDelta" and a: "apply_text ev f = (evs, f')"
  shows "(waiting f' (t @ ev_Delta ev) (out @ texts evs) \<or> found f' (t @ ev_Delta ev) (out @ texts evs)) \<and> sf_sequences f' = sf_sequences f
    \<and> list_all (\<lambda>e. ev_Type e = EvTextDelta) evs"
proof (cases "ev_Delta ev = []")
  case True
  then show ?thesis using w a by (auto simp: apply_text_def)
next
  case False
  let ?d = "ev_Delta ev"
  define g where "g = f\<lparr>sf_template := (if sf_pending f = [] then ev else sf_template f), sf_pending := sf_pending f @ ?d\<rparr>"
  have t: "t = out @ sf_pending f" and ns: "\<not> sf_stopped f" and ok: "filter_ok f" using w by (simp_all add: waiting_def)
  have tmpl: "sf_pending g \<noteq> [] \<longrightarrow> ev_Type (sf_template g) = EvTextDelta" using ok ev by (auto simp: g_def filter_ok_def)
  have g: "sf_pending g = sf_pending f @ ?d" "sf_sequences g = sf_sequences f" "sf_maxLength g = sf_maxLength f" "\<not> sf_stopped g" using ns by (simp_all add: g_def)
  have td: "t @ ?d = out @ sf_pending g" by (simp add: t g)
  have a': "(case firstMatch (sf_sequences g) (sf_pending g) of
          Some (i, q) \<Rightarrow> (let (evs, f') = emitPrefix i g in (evs, f'\<lparr>sf_pending := [], sf_matched := q, sf_stopped := True\<rparr>))
        | None \<Rightarrow> let keep = sf_maxLength g - 1 in
            if length (sf_pending g) > keep then emitPrefix (length (sf_pending g) - keep) g else ([], g)) = (evs, f')"
    using a ns False by (simp only: apply_text_def g_def Let_def if_False simp_thms)
  show ?thesis
  proof (cases "firstMatch (sf_sequences g) (sf_pending g)")
    case (Some p)
    obtain i q where p: "p = (i, q)" by fastforce
    obtain h where em: "emitPrefix i g = (evs, h)" and f': "f' = h\<lparr>sf_pending := [], sf_matched := q, sf_stopped := True\<rparr>"
      using a' Some p by (auto split: prod.splits)
    note parts = emitPrefix_parts[OF em tmpl]
    note m = firstMatch_Some[OF Some[unfolded p]]
    obtain v where v: "sf_pending g = take i (sf_pending g) @ q @ v" using m by blast
    have seqs: "sf_sequences f' = sf_sequences f" by (subst f', subst parts(4)) (simp add: g)
    have "length (out @ take i (sf_pending g)) \<le> length u" if "q' \<in> set (sf_sequences f)" "(out @ take i (sf_pending g)) @ q = u @ q' @ v'" for q' u v'
    proof -
      have whole: "t @ ?d = u @ q' @ (v' @ v)" using that(2) v td by (metis append.assoc)
      have lo: "length out \<le> length u" by (rule match_in_pending[OF w that(1) whole])
      then obtain u' where u': "u = out @ u'" using whole td by (metis append_eq_append_conv_if append_eq_conv_conj)
      have "sf_pending g = u' @ q' @ (v' @ v)" using whole td u' by simp
      moreover have "q' \<in> set (sf_sequences g)" using that(1) g(2) by simp
      ultimately have "i \<le> length u'" using m by blast
      then show ?thesis using u' m by simp
    qed
    then have "found f' (t @ ?d) (out @ texts evs)"
      unfolding found_def parts(1) seqs using m v td g(2) by (auto simp: f')
    then show ?thesis using seqs parts(3) by blast
  next
    case None
    have clean: "\<not> sublist q (t @ ?d)" if "q \<in> set (sf_sequences f)" for q
    proof
      assume "sublist q (t @ ?d)"
      then obtain u v where uv: "t @ ?d = u @ q @ v" by (auto simp: sublist_def)
      have lo: "length out \<le> length u" by (rule match_in_pending[OF w that uv])
      then obtain u' where "u = out @ u'" using uv td by (metis append_eq_append_conv_if append_eq_conv_conj)
      then have "sublist q (sf_pending g)" using uv td by auto
      then show False using firstMatch_None[OF None] that g(2) ok by (auto simp: filter_ok_def)
    qed
    let ?keep = "sf_maxLength g - 1"
    show ?thesis
    proof (cases "length (sf_pending g) > ?keep")
      case True
      then have em: "emitPrefix (length (sf_pending g) - ?keep) g = (evs, f')" using a' None by (simp add: Let_def)
      note parts = emitPrefix_parts[OF em tmpl]
      have same: "sf_sequences f' = sf_sequences f" "sf_maxLength f' = sf_maxLength f" "\<not> sf_stopped f'" by (subst parts(4), simp add: g)+
      have "filter_ok f'" using ok tmpl parts(2,5) same by (auto simp: filter_ok_def)
      moreover have "t @ ?d = (out @ texts evs) @ sf_pending f'" using td parts(1,2) by simp
      moreover have "sf_maxLength f' - 1 \<le> length (sf_pending f')" using parts(2) True same g(3) by simp
      ultimately have "waiting f' (t @ ?d) (out @ texts evs)" using clean same unfolding waiting_def by simp
      then show ?thesis using same parts(3) by blast
    next
      case short: False
      then have f': "f' = g" "evs = []" using a' None by (simp_all add: Let_def)
      have "filter_ok g" using ok tmpl g by (auto simp: filter_ok_def)
      moreover have "out = [] \<or> sf_maxLength g - 1 \<le> length (sf_pending g)" using w g by (auto simp: waiting_def)
      ultimately have "waiting g (t @ ?d) out" using clean td g unfolding waiting_def by auto
      then show ?thesis using f' g by simp
    qed
  qed
qed

section \<open>Properties\<close>

lemma found_stays:
  "found f t out \<Longrightarrow> list_all (\<lambda>e. ev_Type e = EvTextDelta) evs \<Longrightarrow> apply_events evs f = ([], f) \<and> found f (t @ texts evs) out"
proof (induction evs arbitrary: t)
  case (Cons ev evs)
  have "apply_event ev f = ([], f)" using Cons.prems by (simp add: apply_event_def apply_text_def found_def)
  moreover have "found f (t @ text_of ev) out" using Cons.prems(1) unfolding found_def by (metis append.assoc)
  ultimately show ?case using Cons.IH[of "t @ text_of ev"] Cons.prems(2) by simp
qed simp

lemma apply_events_texts:
  assumes "waiting f t out" and "list_all (\<lambda>e. ev_Type e = EvTextDelta) evs" and "apply_events evs f = (outs, f')"
  shows "(waiting f' (t @ texts evs) (out @ texts outs) \<or> found f' (t @ texts evs) (out @ texts outs)) \<and> sf_sequences f' = sf_sequences f"
  using assms
proof (induction evs arbitrary: f t out outs)
  case (Cons ev evs)
  obtain o1 f1 where a: "apply_event ev f = (o1, f1)" by fastforce
  obtain o2 where r: "apply_events evs f1 = (o2, f')" and outs: "outs = o1 @ o2" using Cons.prems(3) a by (auto split: prod.splits)
  have ty: "ev_Type ev = EvTextDelta" and rest: "list_all (\<lambda>e. ev_Type e = EvTextDelta) evs" and d: "text_of ev = ev_Delta ev"
    using Cons.prems(2) by (simp_all add: text_of_def)
  have "apply_text ev f = (o1, f1)" using a ty by (simp add: apply_event_def)
  note step = apply_text_step[OF Cons.prems(1) ty this]
  show ?case
  proof (cases "waiting f1 (t @ ev_Delta ev) (out @ texts o1)")
    case True
    from Cons.IH[OF True rest r] step show ?thesis by (simp add: d outs)
  next
    case False
    then have f: "found f1 (t @ ev_Delta ev) (out @ texts o1)" using step by blast
    from found_stays[OF f rest] r have "o2 = []" "f' = f1" "found f1 ((t @ ev_Delta ev) @ texts evs) (out @ texts o1)" by simp_all
    then show ?thesis using step by (simp add: d outs)
  qed
qed simp

lemma apply_events_snoc: "apply_events (evs @ [ev]) f = (case apply_events evs f of (o1, f1) \<Rightarrow> (case apply_event ev f1 of (o2, f2) \<Rightarrow> (o1 @ o2, f2)))"
  by (induction evs arbitrary: f) (auto split: prod.split)

lemma collect_nonempty: "list_all (\<lambda>q. q \<noteq> []) seqs \<Longrightarrow> list_all (\<lambda>q. q \<noteq> []) (collect_sequences seqs vs) \<and> set (collect_sequences seqs vs) = set seqs \<union> {v \<in> set vs. v \<noteq> []}"
proof (induction vs arbitrary: seqs)
  case (Cons v vs)
  show ?case using Cons.IH[of "if v = [] \<or> v \<in> set seqs then seqs else seqs @ [v]"] Cons.prems by (auto split: if_splits)
qed simp

lemma fold_max: "length q \<le> fold (\<lambda>q m. if length q > m then length q else m) seqs m0 \<or> q \<notin> set seqs" "m0 \<le> fold (\<lambda>q m. if length q > m then length q else m) seqs m0"
proof (induction seqs arbitrary: m0)
  case (Cons p seqs)
  { case 1 then show ?case using Cons.IH(1)[of "if length p > m0 then length p else m0"] Cons.IH(2)[of "if length p > m0 then length p else m0"] by auto }
  { case 2 then show ?case using Cons.IH(2)[of "if length p > m0 then length p else m0"] by auto }
qed simp_all

lemma new_filter_waiting:
  assumes "newCanonicalStopSequenceFilter values = Some f"
  shows "waiting f [] [] \<and> set (sf_sequences f) = {v \<in> set values. v \<noteq> []}"
proof -
  have c: "list_all (\<lambda>q. q \<noteq> []) (collect_sequences [] values)" "set (collect_sequences [] values) = {v \<in> set values. v \<noteq> []}"
    using collect_nonempty[of "[]" "values"] by simp_all
  have f: "collect_sequences [] values \<noteq> []" "sf_sequences f = collect_sequences [] values" "sf_pending f = []" "\<not> sf_stopped f"
    "sf_maxLength f = fold (\<lambda>q m. if length q > m then length q else m) (sf_sequences f) 0"
    using assms by (auto simp: newCanonicalStopSequenceFilter_def Let_def split: if_splits)
  have "filter_ok f" using f c(1) fold_max(1)[of _ "sf_sequences f" 0] by (fastforce simp: filter_ok_def list_all_iff)
  then show ?thesis using f c by (auto simp: waiting_def filter_ok_def)
qed

text \<open>The end of the stream passes on what was kept back, or becomes the end at the sequence.\<close>

lemma end_step:
  assumes "waiting f t out \<or> found f t out" and "ev_Type fin \<in> {EvCompleted, EvIncomplete, EvError}" and "apply_event fin f = (evs, f')"
  shows "(\<not> sf_stopped f \<and> out @ texts evs = t \<and> last evs = fin) \<or> (sf_stopped f \<and> evs = [fin\<lparr>ev_Type := EvCompleted, ev_FinishReason := ''stop_sequence'',
      ev_StopSequence := sf_matched f, ev_ErrorMessage := []\<rparr>])"
proof -
  have type: "ev_Type fin \<noteq> EvTextDelta" "ev_Type fin \<noteq> EvCreated" "ev_Type fin \<noteq> EvUsage" "text_of fin = []" using assms(2) by (auto simp: text_of_def)
  show ?thesis
  proof (cases "sf_stopped f")
    case True
    then show ?thesis using assms(2,3) type by (auto simp: apply_event_def flush_filter_def end_event_def split: if_splits)
  next
    case False
    then have w: "waiting f t out" using assms(1) by (auto simp: found_def)
    obtain es g where fl: "flush_filter f = (es, g)" by fastforce
    have "texts es = sf_pending f \<and> \<not> sf_stopped g"
    proof (cases "sf_pending f = []")
      case True
      then show ?thesis using fl False by (auto simp: flush_filter_def)
    next
      case pending: False
      then have em: "emitPrefix (length (sf_pending f)) f = (es, g)" using fl False by (simp add: flush_filter_def)
      have "sf_pending f \<noteq> [] \<longrightarrow> ev_Type (sf_template f) = EvTextDelta" using w by (simp add: waiting_def filter_ok_def)
      note parts = emitPrefix_parts[OF em this]
      have "\<not> sf_stopped g" by (subst parts(4)) (simp add: False)
      then show ?thesis using parts(1) by simp
    qed
    moreover have "evs = es @ [end_event g fin]" using assms(2,3) type fl False by (auto simp: apply_event_def split: if_splits)
    ultimately show ?thesis using w False type by (auto simp: end_event_def waiting_def)
  qed
qed


definition stop_pieces :: "stream_event list" where
  "stop_pieces = map (\<lambda>s. (event_of EvTextDelta)\<lparr>ev_Delta := s\<rparr>) [''abST'', ''O'', ''Pcd'']"


end
