(* ===== verification/Stream_Proxy.thy ===== *)
theory Stream_Proxy
  imports Stream_Lines Chat_Stream Anthropic_Stream Stop_Filter
begin

text \<open>
  The loops that carry a stream from the upstream to the client: \<open>proxyUpstreamStreamWithInspector\<close> (\<open>gateway/stream_runtime.go\<close>), which forwards
  lines as they are; \<open>proxyResponsesStreamPassthrough\<close> (\<open>gateway/protocol_responses_downstream.go\<close>), which holds lines back until the response
  has output; and \<open>proxyCanonicalStream\<close> (\<open>gateway/protocol_canonical_stream.go\<close>), which decodes, filters and encodes events.

  The upstream is the list of what the reader returns: each round has the state of the request's context, a line (perhaps partial or empty)
  and how the read ended; after the list the body is at its end. The result is what the Go functions return, with what was written. Whether the
  \<open>n\<close>-th write succeeds is an argument. Headers and latencies are left out.
\<close>

section \<open>Reading\<close>

datatype read_end = ReadMore | ReadEOF | ReadFailed string

record stream_read =
  sr_ctx :: "string option"
  sr_line :: string
  sr_end :: read_end

datatype proxy_error = BodyMissing | DecoderMissing | EncoderMissing | Cancelled string | ReadError string | PreOutputTooLarge | DownstreamWrite | BadLine | EncodeFailed stream_error | NoUsage

definition responsesPreOutputMaxBytes :: int where "responsesPreOutputMaxBytes = 16777216"
definition responsesPreOutputMaxLine :: int where "responsesPreOutputMaxLine = 33554432"

text \<open>\<open>readResponsesPreOutputLine\<close>: \<open>None\<close> if the line exceeds the limit.\<close>

definition readResponsesPreOutputLine :: "stream_read \<Rightarrow> string option" where
  "readResponsesPreOutputLine rd = (if int (length (sr_line rd)) > responsesPreOutputMaxLine then None else Some (sr_line rd))"

section \<open>Forwarding lines\<close>

record line_state =
  ls_capture :: capture
  ls_headers :: bool
  ls_pre :: string
  ls_out :: "string list"

definition new_line_state :: line_state where
  "new_line_state = \<lparr>ls_capture = new_capture, ls_headers = False, ls_pre = [], ls_out = []\<rparr>"

type_synonym line_result = "capture \<times> bool \<times> proxy_error option \<times> string list"

definition give :: "line_state \<Rightarrow> proxy_error option \<Rightarrow> line_result" where
  "give s err = (ls_capture s, ls_headers s, err, ls_out s)"

definition set_end :: "string \<Rightarrow> capture \<Rightarrow> capture" where
  "set_end r c = c\<lparr>cap_endReason := r\<rparr>"

definition set_end_if_empty :: "string \<Rightarrow> capture \<Rightarrow> capture" where
  "set_end_if_empty r c = (if cap_endReason c = [] then set_end r c else c)"

definition on_capture :: "(capture \<Rightarrow> capture) \<Rightarrow> line_state \<Rightarrow> line_state" where
  "on_capture f s = s\<lparr>ls_capture := f (ls_capture s)\<rparr>"

text \<open>A write that succeeds appends to the output.\<close>

definition line_write :: "(nat \<Rightarrow> bool) \<Rightarrow> string \<Rightarrow> line_state \<Rightarrow> line_state option" where
  "line_write wr line s = (if wr (length (ls_out s)) then Some (s\<lparr>ls_out := ls_out s @ [line]\<rparr>) else None)"

text \<open>What both loops do when a read fails.\<close>

definition read_failed :: "string \<Rightarrow> line_state \<Rightarrow> line_result" where
  "read_failed e s =
     (let c = ls_capture s in
      if cap_endReason c = [] \<and> (cap_streamCompleted c \<or> cap_sawDone c)
      then give (on_capture (\<lambda>c. c\<lparr>cap_streamCompleted := True, cap_endReason := ''done''\<rparr>) s) None
      else give (on_capture (set_end_if_empty ''upstream_stream_read_failed'') s) (Some (ReadError e)))"

definition forward_eof :: "line_state \<Rightarrow> line_result" where
  "forward_eof s =
     (let c = ls_capture s in
      give (on_capture (\<lambda>c. if cap_streamCompleted c \<or> cap_sawDone c then set_end_if_empty ''done'' (c\<lparr>cap_streamCompleted := True\<rparr>)
          else if cap_endReason c \<noteq> [] then c
          else set_end (if ls_headers s then ''upstream_stream_eof'' else ''upstream_stream_empty'') c) s) None)"

definition forward_line :: "(nat \<Rightarrow> bool) \<Rightarrow> (string \<Rightarrow> capture \<Rightarrow> capture) option \<Rightarrow> string \<Rightarrow> line_state \<Rightarrow> line_state + line_result" where
  "forward_line wr inspect line s0 =
     (if line = [] then Inl s0
      else let s = (on_capture (observeUpstreamStreamModel line) s0)\<lparr>ls_headers := True\<rparr> in
        case line_write wr line s of
          None \<Rightarrow> Inr (give (on_capture (set_end ''downstream_stream_write_failed'') s) (Some DownstreamWrite))
        | Some s \<Rightarrow> Inl (case inspect of None \<Rightarrow> s | Some f \<Rightarrow> on_capture (f line) s))"

definition after_line :: "(line_state \<Rightarrow> line_result) \<Rightarrow> (line_state \<Rightarrow> line_result) \<Rightarrow> read_end \<Rightarrow> line_state \<Rightarrow> line_result" where
  "after_line continue eof e s = (case e of ReadMore \<Rightarrow> continue s | ReadEOF \<Rightarrow> eof s | ReadFailed m \<Rightarrow> read_failed m s)"

fun forward_loop :: "(nat \<Rightarrow> bool) \<Rightarrow> (string \<Rightarrow> capture \<Rightarrow> capture) option \<Rightarrow> stream_read list \<Rightarrow> line_state \<Rightarrow> line_result" where
  "forward_loop wr inspect [] s = forward_eof s"
| "forward_loop wr inspect (rd # rds) s = (case sr_ctx rd of
      Some e \<Rightarrow> give (on_capture (set_end ''downstream_client_cancelled'') s) (Some (Cancelled e))
    | None \<Rightarrow> (case forward_line wr inspect (sr_line rd) s of
          Inr r \<Rightarrow> r
        | Inl s' \<Rightarrow> after_line (forward_loop wr inspect rds) forward_eof (sr_end rd) s'))"

text \<open>The body may be missing: \<open>None\<close>.\<close>

definition proxyUpstreamStreamWithInspector :: "(nat \<Rightarrow> bool) \<Rightarrow> (string \<Rightarrow> capture \<Rightarrow> capture) option \<Rightarrow> stream_read list option \<Rightarrow> line_result" where
  "proxyUpstreamStreamWithInspector wr inspect body = (case body of
      None \<Rightarrow> give (on_capture (set_end ''upstream_stream_missing_body'') new_line_state) (Some BodyMissing)
    | Some rds \<Rightarrow> forward_loop wr inspect rds new_line_state)"

definition inspectOpenAIChatStreamLine :: "string \<Rightarrow> capture \<Rightarrow> capture" where
  "inspectOpenAIChatStreamLine line c =
     (let t = trim_space line in
      if \<not> has_prefix t ''data:'' then c
      else let data = trim_space (trim_prefix t ''data:'') in
        if data = [] then c
        else if has_prefix data ''[DONE]'' then c\<lparr>cap_sawDone := True\<rparr>
        else case json_parse data of
            Some (AObj m) \<Rightarrow> (case Option.bind (obj_field m ''usage'') decode_usage of
                Some u \<Rightarrow> if usage_reported u then c\<lparr>cap_usage := normalized u\<rparr> else c
              | None \<Rightarrow> c)
          | _ \<Rightarrow> c)"

definition proxyUpstreamStream :: "(nat \<Rightarrow> bool) \<Rightarrow> stream_read list option \<Rightarrow> line_result" where
  "proxyUpstreamStream wr body = proxyUpstreamStreamWithInspector wr (Some inspectOpenAIChatStreamLine) body"

section \<open>Forwarding Responses streams\<close>

definition commitPreOutput :: "(nat \<Rightarrow> bool) \<Rightarrow> line_state \<Rightarrow> line_state + line_result" where
  "commitPreOutput wr s0 =
     (if ls_headers s0 then Inl s0
      else let s = s0\<lparr>ls_headers := True\<rparr> in
        if ls_pre s = [] then Inl s
        else case line_write wr (ls_pre s) s of
            None \<Rightarrow> Inr (give (on_capture (set_end ''downstream_stream_write_failed'') s) (Some DownstreamWrite))
          | Some s \<Rightarrow> Inl (s\<lparr>ls_pre := []\<rparr>))"

definition writeLine :: "(nat \<Rightarrow> bool) \<Rightarrow> string \<Rightarrow> line_state \<Rightarrow> line_state + line_result" where
  "writeLine wr line s =
     (if \<not> ls_headers s then Inl (on_capture (\<lambda>c. if responsesStreamPreOutputBufferedEvent line
          then c\<lparr>cap_preOutputEventsBuffered := cap_preOutputEventsBuffered c + 1\<rparr> else c) (s\<lparr>ls_pre := ls_pre s @ line\<rparr>))
      else case line_write wr line s of
          None \<Rightarrow> Inr (give (on_capture (set_end ''downstream_stream_write_failed'') s) (Some DownstreamWrite))
        | Some s \<Rightarrow> Inl s)"

definition note_failure :: "string \<Rightarrow> semantic_failure \<Rightarrow> capture \<Rightarrow> capture" where
  "note_failure line f c0 =
     (let c = inspectResponsesStreamLine line c0;
          c = (if cap_endReason c = [] then c\<lparr>cap_endReason := ''upstream_stream_error'', cap_errorDetail := truncatedStreamErrorDetail (sx_Body f)\<rparr> else c)
      in c\<lparr>cap_preOutputFailureDeferred := True, cap_semanticFailure := Some f\<rparr>)"

definition pre_output_line :: "(nat \<Rightarrow> bool) \<Rightarrow> string \<Rightarrow> line_state \<Rightarrow> line_state + line_result" where
  "pre_output_line wr line s = (if ls_headers s then Inl s else case responsesStreamPreOutputDispositionForLine line of
      PreOutputFail f \<Rightarrow> Inr (give (on_capture (note_failure line f) s) None)
    | PreOutputCommit \<Rightarrow> commitPreOutput wr s
    | PreOutputDefer \<Rightarrow> if int (length (ls_pre s)) + int (length line) > responsesPreOutputMaxBytes
        then Inr (give (on_capture (set_end ''upstream_stream_preoutput_too_large'') s) (Some PreOutputTooLarge)) else Inl s)"

definition passthrough_line :: "(float64 \<Rightarrow> string) \<Rightarrow> (nat \<Rightarrow> bool) \<Rightarrow> string \<Rightarrow> line_state \<Rightarrow> line_state + line_result" where
  "passthrough_line fmt wr line0 s0 =
     (if line0 = [] then Inl s0
      else let s = on_capture (observeUpstreamStreamModel line0) s0; line = normalizeResponsesStreamDataLine fmt line0 in
        case pre_output_line wr line s of
          Inr r \<Rightarrow> Inr r
        | Inl s \<Rightarrow> (case writeLine wr line s of Inr r \<Rightarrow> Inr r | Inl s \<Rightarrow> Inl (on_capture (inspectResponsesStreamLine line) s)))"

definition passthrough_eof :: "line_state \<Rightarrow> line_result" where
  "passthrough_eof s =
     give (on_capture (\<lambda>c. if cap_streamCompleted c then set_end ''done'' c
          else if cap_endReason c \<noteq> [] then c
          else if cap_sawDone c then c\<lparr>cap_streamCompleted := True, cap_endReason := ''done''\<rparr>
          else set_end (if ls_headers s then ''upstream_stream_eof'' else ''upstream_stream_empty'') c) s) None"

fun passthrough_loop :: "(float64 \<Rightarrow> string) \<Rightarrow> (nat \<Rightarrow> bool) \<Rightarrow> stream_read list \<Rightarrow> line_state \<Rightarrow> line_result" where
  "passthrough_loop fmt wr [] s = passthrough_eof s"
| "passthrough_loop fmt wr (rd # rds) s = (case sr_ctx rd of
      Some e \<Rightarrow> give (on_capture (set_end ''downstream_client_cancelled'') s) (Some (Cancelled e))
    | None \<Rightarrow>
        if \<not> ls_headers s \<and> readResponsesPreOutputLine rd = None
        then give (on_capture (set_end ''upstream_stream_preoutput_too_large'') s) (Some PreOutputTooLarge)
        else case passthrough_line fmt wr (sr_line rd) s of
            Inr r \<Rightarrow> r
          | Inl s' \<Rightarrow> after_line (passthrough_loop fmt wr rds) passthrough_eof (sr_end rd) s')"

definition proxyResponsesStreamPassthrough :: "(float64 \<Rightarrow> string) \<Rightarrow> (nat \<Rightarrow> bool) \<Rightarrow> stream_read list option \<Rightarrow> line_result" where
  "proxyResponsesStreamPassthrough fmt wr body = (case body of
      None \<Rightarrow> give (on_capture (set_end ''upstream_stream_missing_body'') new_line_state) (Some BodyMissing)
    | Some rds \<Rightarrow> passthrough_loop fmt wr rds new_line_state)"

section \<open>What the forwarding loop writes\<close>

text \<open>The lines up to the end of the reading.\<close>

fun lines_of :: "stream_read list \<Rightarrow> string list" where
  "lines_of [] = []"
| "lines_of (rd # rds) = sr_line rd # (case sr_end rd of ReadMore \<Rightarrow> lines_of rds | _ \<Rightarrow> [])"

abbreviation forwarded :: "(float64 \<Rightarrow> string) \<Rightarrow> string list \<Rightarrow> string" where
  "forwarded fmt lines \<equiv> concat (map (normalizeResponsesStreamDataLine fmt) lines)"

text \<open>What was written and what is held back are the lines read so far; before the headers nothing is written, after them nothing is held back.\<close>

definition holds_back :: "line_state \<Rightarrow> string \<Rightarrow> bool" where
  "holds_back s x \<longleftrightarrow> concat (ls_out s) @ ls_pre s = x \<and> (if ls_headers s then ls_pre s = [] else ls_out s = [])"

lemma on_capture_frame [simp]: "ls_headers (on_capture f s) = ls_headers s" "ls_pre (on_capture f s) = ls_pre s" "ls_out (on_capture f s) = ls_out s"
  by (simp_all add: on_capture_def)

lemma give_parts: "give s err = (c, started, e, out) \<longleftrightarrow> c = ls_capture s \<and> started = ls_headers s \<and> e = err \<and> out = ls_out s"
  by (auto simp: give_def)

lemma line_write_some: "line_write wr line s = Some s' \<longleftrightarrow> wr (length (ls_out s)) \<and> s' = s\<lparr>ls_out := ls_out s @ [line]\<rparr>"
  by (auto simp: line_write_def)

text \<open>The end of a run that wrote a part of what was read.\<close>

definition partial_result :: "string \<Rightarrow> line_result \<Rightarrow> bool" where
  "partial_result x r = (case r of (c, started, err, out) \<Rightarrow> (started \<longrightarrow> err \<noteq> None) \<and> (\<not> started \<longrightarrow> out = []) \<and> prefix (concat out) x)"

definition whole_result :: "string \<Rightarrow> line_result \<Rightarrow> bool" where
  "whole_result x r = (case r of (c, started, err, out) \<Rightarrow> (if started then concat out = x else out = []))"

lemma holds_back_give: "holds_back s x \<Longrightarrow> whole_result x (give (on_capture f s) err)"
  by (auto simp: holds_back_def whole_result_def give_def)

lemma whole_result_prefix: "whole_result x (c, started, err, out) \<Longrightarrow> prefix (concat out) (x @ y)"
  by (auto simp: whole_result_def split: if_splits)

lemma passthrough_line_holds:
  assumes "holds_back s x" "passthrough_line fmt wr line s = Inl s'"
  shows "holds_back s' (x @ normalizeResponsesStreamDataLine fmt line)"
  using assms
  by (auto simp: passthrough_line_def pre_output_line_def commitPreOutput_def writeLine_def holds_back_def line_write_some Let_def
    normalizeResponsesStreamDataLine_def[of fmt "[]"] sseDataFromLine_def[of "[]"] has_prefix_def
    split: if_splits sum.splits disposition.splits option.splits)

lemma passthrough_line_stops:
  assumes "holds_back s x" "passthrough_line fmt wr line s = Inr r"
  shows "partial_result x r"
  using assms
  by (auto simp: passthrough_line_def pre_output_line_def commitPreOutput_def writeLine_def holds_back_def line_write_some partial_result_def give_def Let_def
    split: if_splits sum.splits disposition.splits option.splits)

lemma read_failed_whole: "holds_back s x \<Longrightarrow> whole_result x (read_failed m s)"
  by (auto simp: read_failed_def Let_def intro: holds_back_give)

lemma passthrough_eof_whole: "holds_back s x \<Longrightarrow> whole_result x (passthrough_eof s)"
  by (simp add: passthrough_eof_def holds_back_give)

text \<open>The result of the loop: a stop with an error, or the whole of what was read.\<close>

lemma passthrough_loop_writes:
  assumes "holds_back s x" "passthrough_loop fmt wr rds s = (c, started, err, out)"
  shows "(\<not> started \<longrightarrow> out = []) \<and> prefix (concat out) (x @ forwarded fmt (lines_of rds))
    \<and> (started \<and> err = None \<longrightarrow> concat out = x @ forwarded fmt (lines_of rds))"
  using assms
proof (induction rds arbitrary: s x)
  case Nil
  then show ?case using passthrough_eof_whole[OF Nil.prems(1)] by (auto simp: whole_result_def split: if_splits)
next
  case (Cons rd rds)
  let ?n = "normalizeResponsesStreamDataLine fmt (sr_line rd)"
  have stop: ?case if "partial_result x (c, started, err, out)"
    using that prefix_order.trans[of "concat out" x "x @ forwarded fmt (lines_of (rd # rds))"] by (auto simp: partial_result_def)
  have quit: ?case if "give (on_capture f s) (Some e) = (c, started, err, out)" for f e
    using holds_back_give[OF Cons.prems(1), of f "Some e"] whole_result_prefix[of x c started err out] that by (auto simp: whole_result_def give_parts split: if_splits)
  show ?case
  proof (cases "sr_ctx rd = None \<and> (ls_headers s \<or> readResponsesPreOutputLine rd \<noteq> None)")
    case False
    then have "\<exists>f e. give (on_capture f s) (Some e) = (c, started, err, out)" using Cons.prems(2) by (cases "sr_ctx rd") auto
    then show ?thesis using quit by blast
  next
    case True
    note loop = Cons.prems(2)
    show ?thesis
    proof (cases "passthrough_line fmt wr (sr_line rd) s")
      case (Inr r)
      then have "r = (c, started, err, out)" using loop True by auto
      then show ?thesis using passthrough_line_stops[OF Cons.prems(1) Inr] stop by simp
    next
      case (Inl s')
      note h = passthrough_line_holds[OF Cons.prems(1) Inl]
      have r: "after_line (passthrough_loop fmt wr rds) passthrough_eof (sr_end rd) s' = (c, started, err, out)" using loop True Inl by auto
      show ?thesis
      proof (cases "sr_end rd")
        case ReadMore
        then show ?thesis using Cons.IH[OF h] r by (simp add: after_line_def)
      next
        case ReadEOF
        then show ?thesis using passthrough_eof_whole[OF h] r by (auto simp: after_line_def whole_result_def split: if_splits)
      next
        case (ReadFailed m)
        then show ?thesis using read_failed_whole[OF h, of m] r by (auto simp: after_line_def whole_result_def split: if_splits)
      qed
    qed
  qed
qed

text \<open>The headers are sent only for a line that starts the output, and no failure was declared before it.\<close>

definition starts_output :: "(float64 \<Rightarrow> string) \<Rightarrow> string list \<Rightarrow> bool" where
  "starts_output fmt lines \<longleftrightarrow> (\<exists>pre line post. lines = pre @ line # post
     \<and> responsesStreamPreOutputDispositionForLine (normalizeResponsesStreamDataLine fmt line) = PreOutputCommit
     \<and> (\<forall>l \<in> set pre. responsesStreamPreOutputDispositionForLine (normalizeResponsesStreamDataLine fmt l) = PreOutputDefer))"

lemma starts_output_Cons:
  assumes "responsesStreamPreOutputDispositionForLine (normalizeResponsesStreamDataLine fmt l) = PreOutputDefer" "starts_output fmt ls"
  shows "starts_output fmt (l # ls)"
proof -
  obtain pre line post where "ls = pre @ line # post" "responsesStreamPreOutputDispositionForLine (normalizeResponsesStreamDataLine fmt line) = PreOutputCommit"
    "\<forall>l \<in> set pre. responsesStreamPreOutputDispositionForLine (normalizeResponsesStreamDataLine fmt l) = PreOutputDefer"
    using assms(2) unfolding starts_output_def by blast
  then show ?thesis unfolding starts_output_def using assms(1) by (intro exI[of _ "l # pre"] exI[of _ line] exI[of _ post]) auto
qed

lemma starts_output_now:
  "responsesStreamPreOutputDispositionForLine (normalizeResponsesStreamDataLine fmt l) = PreOutputCommit \<Longrightarrow> starts_output fmt (l # ls)"
  unfolding starts_output_def by (metis append_Nil empty_iff list.set(1))

lemma empty_line_deferred: "responsesStreamPreOutputDispositionForLine (normalizeResponsesStreamDataLine fmt []) = PreOutputDefer"
  by (simp add: normalizeResponsesStreamDataLine_def sseDataFromLine_def has_prefix_def responsesStreamPreOutputDispositionForLine_def)

lemma passthrough_line_headers:
  assumes "\<not> ls_headers s" "passthrough_line fmt wr line s = Inl s'"
  shows "responsesStreamPreOutputDispositionForLine (normalizeResponsesStreamDataLine fmt line) = (if ls_headers s' then PreOutputCommit else PreOutputDefer)"
  using assms empty_line_deferred
  by (auto simp: passthrough_line_def pre_output_line_def commitPreOutput_def writeLine_def line_write_some Let_def
    split: if_splits sum.splits disposition.splits option.splits)

lemma passthrough_line_started:
  assumes "\<not> ls_headers s" "passthrough_line fmt wr line s = Inr (c, True, err, out)"
  shows "responsesStreamPreOutputDispositionForLine (normalizeResponsesStreamDataLine fmt line) = PreOutputCommit"
  using assms
  by (auto simp: passthrough_line_def pre_output_line_def commitPreOutput_def writeLine_def line_write_some give_def Let_def
    split: if_splits sum.splits disposition.splits option.splits)

lemma passthrough_loop_starts:
  assumes "\<not> ls_headers s" "passthrough_loop fmt wr rds s = (c, True, err, out)"
  shows "starts_output fmt (lines_of rds)"
  using assms
proof (induction rds arbitrary: s)
  case (Cons rd rds)
  have "\<exists>r. passthrough_line fmt wr (sr_line rd) s = r \<and> (case r of Inr r' \<Rightarrow> r' = (c, True, err, out)
      | Inl s' \<Rightarrow> after_line (passthrough_loop fmt wr rds) passthrough_eof (sr_end rd) s' = (c, True, err, out))"
    using Cons.prems by (auto simp: give_parts split: option.splits sum.splits if_splits)
  then consider (stop) "passthrough_line fmt wr (sr_line rd) s = Inr (c, True, err, out)"
    | (go) s' where "passthrough_line fmt wr (sr_line rd) s = Inl s'" "after_line (passthrough_loop fmt wr rds) passthrough_eof (sr_end rd) s' = (c, True, err, out)"
    by (auto split: sum.splits)
  then show ?case
  proof cases
    case stop
    then show ?thesis using passthrough_line_started[OF Cons.prems(1)] starts_output_now by simp
  next
    case go
    note d = passthrough_line_headers[OF Cons.prems(1) go(1)]
    show ?thesis
    proof (cases "ls_headers s'")
      case True
      then show ?thesis using d starts_output_now by simp
    next
      case False
      then have "sr_end rd = ReadMore" using go(2)
        by (cases "sr_end rd") (auto simp: after_line_def passthrough_eof_def read_failed_def give_parts Let_def split: if_splits)
      then show ?thesis using go(2) False Cons.IH[OF False] d starts_output_Cons by (simp add: after_line_def)
    qed
  qed
qed (simp add: passthrough_eof_def give_parts)

text \<open>A stream with output is delivered: no write fails, the request goes on, and what is held back fits into the buffer.\<close>

abbreviation deferred_line :: "(float64 \<Rightarrow> string) \<Rightarrow> string \<Rightarrow> bool" where
  "deferred_line fmt line \<equiv> responsesStreamPreOutputDispositionForLine (normalizeResponsesStreamDataLine fmt line) = PreOutputDefer"

definition deliverable :: "(float64 \<Rightarrow> string) \<Rightarrow> (nat \<Rightarrow> bool) \<Rightarrow> stream_read list \<Rightarrow> bool" where
  "deliverable fmt wr rds \<longleftrightarrow> (\<forall>n. wr n) \<and> list_all (\<lambda>rd. sr_ctx rd = None \<and> int (length (sr_line rd)) \<le> responsesPreOutputMaxLine) rds
     \<and> starts_output fmt (lines_of rds) \<and> int (length (forwarded fmt (takeWhile (deferred_line fmt) (lines_of rds)))) \<le> responsesPreOutputMaxBytes"

lemma starts_output_iff:
  "starts_output fmt (l # ls) \<longleftrightarrow> responsesStreamPreOutputDispositionForLine (normalizeResponsesStreamDataLine fmt l) = PreOutputCommit
     \<or> deferred_line fmt l \<and> starts_output fmt ls"
proof
  assume "starts_output fmt (l # ls)"
  then obtain pre line post where s: "l # ls = pre @ line # post" "responsesStreamPreOutputDispositionForLine (normalizeResponsesStreamDataLine fmt line) = PreOutputCommit"
    "\<forall>l \<in> set pre. deferred_line fmt l"
    unfolding starts_output_def by blast
  show "responsesStreamPreOutputDispositionForLine (normalizeResponsesStreamDataLine fmt l) = PreOutputCommit \<or> deferred_line fmt l \<and> starts_output fmt ls"
  proof (cases pre)
    case (Cons p pre')
    then have "starts_output fmt ls" unfolding starts_output_def using s by (intro exI[of _ pre'] exI[of _ line] exI[of _ post]) auto
    then show ?thesis using s Cons by simp
  qed (use s in simp)
qed (use starts_output_Cons starts_output_now in blast)

lemma passthrough_line_goes:
  assumes "\<forall>n. wr n" "ls_headers s \<or> responsesStreamPreOutputDispositionForLine (normalizeResponsesStreamDataLine fmt line) = PreOutputCommit
      \<or> deferred_line fmt line \<and> int (length (ls_pre s)) + int (length (normalizeResponsesStreamDataLine fmt line)) \<le> responsesPreOutputMaxBytes"
  shows "\<exists>s'. passthrough_line fmt wr line s = Inl s'"
  using assms by (auto simp: passthrough_line_def pre_output_line_def commitPreOutput_def writeLine_def line_write_def Let_def)

lemma passthrough_line_keeps_headers: "ls_headers s \<Longrightarrow> passthrough_line fmt wr line s = Inl s' \<Longrightarrow> ls_headers s'"
  by (auto simp: passthrough_line_def pre_output_line_def writeLine_def line_write_some Let_def split: if_splits option.splits)

lemma whole_headers:
  assumes "holds_back s x" "ls_headers s"
  shows "passthrough_eof s = (c, started, err, out) \<Longrightarrow> started \<and> concat out = x" "read_failed m s = (c, started, err, out) \<Longrightarrow> started \<and> concat out = x"
  using assms by (auto simp: passthrough_eof_def read_failed_def give_def holds_back_def Let_def split: if_splits)

lemma passthrough_loop_delivers:
  assumes "holds_back s x" "\<forall>n. wr n" "list_all (\<lambda>rd. sr_ctx rd = None \<and> int (length (sr_line rd)) \<le> responsesPreOutputMaxLine) rds"
    "ls_headers s \<or> starts_output fmt (lines_of rds) \<and> int (length x) + int (length (forwarded fmt (takeWhile (deferred_line fmt) (lines_of rds)))) \<le> responsesPreOutputMaxBytes"
    "passthrough_loop fmt wr rds s = (c, started, err, out)"
  shows "started \<and> concat out = x @ forwarded fmt (lines_of rds)"
  using assms
proof (induction rds arbitrary: s x)
  case Nil
  then have "ls_headers s" by (auto simp: starts_output_def)
  then show ?case using whole_headers[OF Nil.prems(1)] Nil.prems(5) by simp
next
  case (Cons rd rds)
  let ?n = "normalizeResponsesStreamDataLine fmt (sr_line rd)"
  let ?rest = "case sr_end rd of ReadMore \<Rightarrow> lines_of rds | _ \<Rightarrow> []"
  have pre: "ls_pre s = x" if "\<not> ls_headers s" using Cons.prems(1) that by (auto simp: holds_back_def)
  have "\<exists>s'. passthrough_line fmt wr (sr_line rd) s = Inl s'"
    by (rule passthrough_line_goes[OF Cons.prems(2)]) (use Cons.prems(4) pre in \<open>auto simp: starts_output_iff\<close>)
  then obtain s' where s': "passthrough_line fmt wr (sr_line rd) s = Inl s'" by blast
  note h = passthrough_line_holds[OF Cons.prems(1) s']
  have r: "after_line (passthrough_loop fmt wr rds) passthrough_eof (sr_end rd) s' = (c, started, err, out)"
    using Cons.prems(3,5) s' by (simp add: readResponsesPreOutputLine_def)
  have nxt: "ls_headers s' \<or> starts_output fmt ?rest
      \<and> int (length (x @ ?n)) + int (length (forwarded fmt (takeWhile (deferred_line fmt) ?rest))) \<le> responsesPreOutputMaxBytes"
    using passthrough_line_keeps_headers[OF _ s'] passthrough_line_headers[OF _ s'] Cons.prems(4) by (cases "ls_headers s") (auto simp: starts_output_iff split: if_splits)
  show ?case
  proof (cases "sr_end rd")
    case ReadMore
    then show ?thesis using Cons.IH[OF h Cons.prems(2)] Cons.prems(3) nxt r by (simp add: after_line_def)
  next
    case ReadEOF
    then have "ls_headers s'" using nxt by (auto simp: starts_output_def)
    then show ?thesis using whole_headers(1)[OF h] ReadEOF r by (simp add: after_line_def)
  next
    case (ReadFailed m)
    then have "ls_headers s'" using nxt by (auto simp: starts_output_def)
    then show ?thesis using whole_headers(2)[OF h, of m] ReadFailed r by (simp add: after_line_def)
  qed
qed

text \<open>C18. Nothing of a Responses stream reaches the client before its output begins. If the forwarding loop reports that the response has not started,
  nothing was written, so that another candidate can be tried; it reports a start only if a line begins the output and every line before it is one of
  those that are held back, so that no failure was declared before. What was written is a beginning of the upstream's lines (with their usage
  normalised), all of them if there is no error. Conversely a stream that has output is delivered in full, if writing works and what is held back fits.\<close>

theorem passthrough_holds_back:
  assumes "proxyResponsesStreamPassthrough fmt wr (Some rds) = (c, started, err, out)"
  shows "(\<not> started \<longrightarrow> out = []) \<and> (started \<longrightarrow> starts_output fmt (lines_of rds)) \<and> prefix (concat out) (forwarded fmt (lines_of rds))
    \<and> (started \<and> err = None \<or> deliverable fmt wr rds \<longrightarrow> started \<and> concat out = forwarded fmt (lines_of rds))"
proof -
  have h: "holds_back new_line_state []" "\<not> ls_headers new_line_state" by (simp_all add: holds_back_def new_line_state_def)
  have loop: "passthrough_loop fmt wr rds new_line_state = (c, started, err, out)" using assms by (simp add: proxyResponsesStreamPassthrough_def)
  have "deliverable fmt wr rds \<longrightarrow> started \<and> concat out = forwarded fmt (lines_of rds)"
    using passthrough_loop_delivers[OF h(1) _ _ _ loop] by (auto simp: deliverable_def)
  moreover have "started \<longrightarrow> starts_output fmt (lines_of rds)" using passthrough_loop_starts[OF h(2)] loop by (cases started) auto
  ultimately show ?thesis using passthrough_loop_writes[OF h(1) loop] by auto
qed

text \<open>An announcement and a piece of text, a failure before any output, and a read that fails before any output.\<close>

definition data_read :: "string \<Rightarrow> read_end \<Rightarrow> stream_read" where
  "data_read payload e = \<lparr>sr_ctx = None, sr_line = ''data: '' @ payload @ [CHR 0x0A], sr_end = e\<rparr>"

definition created_read :: "read_end \<Rightarrow> stream_read" where
  "created_read = data_read ''{\"type\":\"response.created\",\"response\":{\"id\":\"r1\",\"model\":\"m\"}}''"

definition delta_read :: "read_end \<Rightarrow> stream_read" where
  "delta_read = data_read ''{\"type\":\"response.output_text.delta\",\"delta\":\"hi\"}''"

lemma demo_passthrough:
  "snd (proxyResponsesStreamPassthrough (\<lambda>x. ''0'') (\<lambda>n. True) (Some [created_read ReadMore, delta_read ReadMore])) =
     (True, None, [sr_line (created_read ReadMore), sr_line (delta_read ReadMore)])"
  "snd (proxyResponsesStreamPassthrough (\<lambda>x. ''0'') (\<lambda>n. True) (Some [created_read (ReadFailed ''reset'')])) = (False, Some (ReadError ''reset''), [])"
  by code_simp+

theorem passthrough_holds_back_witness:
  "starts_output (\<lambda>x. ''0'') (lines_of [created_read ReadMore, delta_read ReadMore])
   \<and> forwarded (\<lambda>x. ''0'') (lines_of [created_read ReadMore, delta_read ReadMore]) = sr_line (created_read ReadMore) @ sr_line (delta_read ReadMore)"
proof -
  let ?rds = "[created_read ReadMore, delta_read ReadMore]"
  obtain c where "proxyResponsesStreamPassthrough (\<lambda>x. ''0'') (\<lambda>n. True) (Some ?rds) = (c, True, None, [sr_line (created_read ReadMore), sr_line (delta_read ReadMore)])"
    using demo_passthrough(1) by (metis prod.collapse)
  from passthrough_holds_back[OF this] show ?thesis by simp
qed

section \<open>Converting streams\<close>

text \<open>The decoder, the encoder with the capture it shares with the loop, and the options. A decoder returns \<open>None\<close> for a line it cannot read.\<close>

record ('d, 'e) proxy_ops =
  po_decode :: "string \<Rightarrow> 'd \<Rightarrow> stream_event list option \<times> 'd"
  po_flush :: "('d \<Rightarrow> stream_event list \<times> 'd) option"
  po_encode :: "stream_event \<Rightarrow> 'e step"
  po_capture :: "'e \<Rightarrow> capture"
  po_set_capture :: "capture \<Rightarrow> 'e \<Rightarrow> 'e"
  po_inspect :: "(string \<Rightarrow> capture \<Rightarrow> capture) option"
  po_defer :: bool
  po_synthesize :: bool
  po_require_usage :: bool

record ('d, 'e) proxy_state =
  px_dec :: 'd
  px_enc :: 'e
  px_filter :: "stop_filter option"
  px_pre :: "stream_event list"
  px_preBytes :: int
  px_committed :: bool
  px_headers :: bool

type_synonym 'e proxy_result = "capture \<times> bool \<times> proxy_error option \<times> 'e"

definition px_note :: "('d, 'e) proxy_ops \<Rightarrow> (capture \<Rightarrow> capture) \<Rightarrow> ('d, 'e) proxy_state \<Rightarrow> ('d, 'e) proxy_state" where
  "px_note ops f s = s\<lparr>px_enc := po_set_capture ops (f (po_capture ops (px_enc s))) (px_enc s)\<rparr>"

definition px_give :: "('d, 'e) proxy_ops \<Rightarrow> ('d, 'e) proxy_state \<Rightarrow> proxy_error option \<Rightarrow> 'e proxy_result" where
  "px_give ops s err = (po_capture ops (px_enc s), px_headers s, err, px_enc s)"

fun encodeRaw :: "('d, 'e) proxy_ops \<Rightarrow> stream_event list \<Rightarrow> ('d, 'e) proxy_state \<Rightarrow> proxy_error option \<times> ('d, 'e) proxy_state" where
  "encodeRaw ops [] s = (None, s)"
| "encodeRaw ops (ev # evs) s = (case po_encode ops ev (px_enc s) of
      (None, e) \<Rightarrow> encodeRaw ops evs (s\<lparr>px_headers := True, px_enc := e\<rparr>)
    | (Some err, e) \<Rightarrow> (Some (EncodeFailed err), px_note ops (set_end_if_empty ''downstream_stream_write_failed'') (s\<lparr>px_headers := True, px_enc := e\<rparr>)))"

definition encodeFiltered :: "('d, 'e) proxy_ops \<Rightarrow> stream_event list \<Rightarrow> ('d, 'e) proxy_state \<Rightarrow> proxy_error option \<times> ('d, 'e) proxy_state" where
  "encodeFiltered ops evs s = (case px_filter s of
      None \<Rightarrow> encodeRaw ops evs s
    | Some f \<Rightarrow> let (evs', f') = apply_events evs f in encodeRaw ops evs' (s\<lparr>px_filter := Some f'\<rparr>))"

definition flushPreOutput :: "('d, 'e) proxy_ops \<Rightarrow> ('d, 'e) proxy_state \<Rightarrow> proxy_error option \<times> ('d, 'e) proxy_state" where
  "flushPreOutput ops s = (case encodeFiltered ops (px_pre s) s of
      (Some err, s') \<Rightarrow> (Some err, s')
    | (None, s') \<Rightarrow> (None, s'\<lparr>px_pre := [], px_preBytes := 0\<rparr>))"

definition bufferPreOutputEvents :: "('d, 'e) proxy_ops \<Rightarrow> stream_event list \<Rightarrow> int \<Rightarrow> ('d, 'e) proxy_state \<Rightarrow> proxy_error option \<times> ('d, 'e) proxy_state" where
  "bufferPreOutputEvents ops evs sourceBytes s =
     (if evs = [] then (None, s)
      else if px_preBytes s + sourceBytes > responsesPreOutputMaxBytes
        then (Some PreOutputTooLarge, px_note ops (set_end ''upstream_stream_preoutput_too_large'') s)
      else (None, px_note ops (\<lambda>c. c\<lparr>cap_preOutputEventsBuffered := cap_preOutputEventsBuffered c + int (length evs)\<rparr>)
        (s\<lparr>px_pre := px_pre s @ evs, px_preBytes := px_preBytes s + sourceBytes\<rparr>)))"

definition encodeEvents :: "('d, 'e) proxy_ops \<Rightarrow> stream_event list \<Rightarrow> ('d, 'e) proxy_state \<Rightarrow> proxy_error option \<times> ('d, 'e) proxy_state" where
  "encodeEvents ops evs s = (case flushPreOutput ops s of (Some err, s') \<Rightarrow> (Some err, s') | (None, s') \<Rightarrow> encodeFiltered ops evs s')"

text \<open>A line: the next state, or the end of the stream with its error.\<close>

type_synonym ('d, 'e) line_outcome = "('d, 'e) proxy_state + (proxy_error option \<times> ('d, 'e) proxy_state)"

definition stop_on_error :: "proxy_error option \<times> ('d, 'e) proxy_state \<Rightarrow> ('d, 'e) line_outcome" where
  "stop_on_error r = (case r of (None, s) \<Rightarrow> Inl s | (Some err, s) \<Rightarrow> Inr (Some err, s))"

definition bad_line :: "('d, 'e) proxy_ops \<Rightarrow> ('d, 'e) proxy_state \<Rightarrow> ('d, 'e) line_outcome" where
  "bad_line ops s = (case flushPreOutput ops s of
      (Some err, s') \<Rightarrow> Inr (Some err, s')
    | (None, s') \<Rightarrow> if \<not> px_headers s' then Inr (Some BadLine, px_note ops (set_end ''upstream_stream_parse_failed'') s')
        else Inl (px_note ops (\<lambda>c. c\<lparr>cap_malformedLines := cap_malformedLines c + 1\<rparr>) s'))"

definition good_line :: "('d, 'e) proxy_ops \<Rightarrow> bool \<Rightarrow> stream_event list \<Rightarrow> int \<Rightarrow> ('d, 'e) proxy_state \<Rightarrow> ('d, 'e) line_outcome" where
  "good_line ops held evs bytes s =
     (if po_defer ops \<and> \<not> px_headers s \<and> \<not> px_committed s \<and> held then stop_on_error (bufferPreOutputEvents ops evs bytes s)
      else case (if po_defer ops \<and> \<not> px_headers s \<and> \<not> px_committed s then flushPreOutput ops (s\<lparr>px_committed := True\<rparr>) else (None, s)) of
          (Some err, s') \<Rightarrow> Inr (Some err, s')
        | (None, s') \<Rightarrow> stop_on_error (encodeEvents ops evs s'))"

definition convert_line :: "('d, 'e) proxy_ops \<Rightarrow> string \<Rightarrow> ('d, 'e) proxy_state \<Rightarrow> ('d, 'e) line_outcome" where
  "convert_line ops line s0 =
     (let s = px_note ops (observeUpstreamStreamModel line) s0;
          s = (case po_inspect ops of None \<Rightarrow> s | Some f \<Rightarrow> px_note ops (f line) s);
          d = (if po_defer ops \<and> \<not> px_headers s then responsesStreamPreOutputDispositionForLine line else PreOutputCommit)
      in case d of
          PreOutputFail f \<Rightarrow> Inr (None, px_note ops (note_failure line f) s)
        | _ \<Rightarrow> (case po_decode ops line (px_dec s) of
              (None, dec) \<Rightarrow> bad_line ops (s\<lparr>px_dec := dec\<rparr>)
            | (Some evs, dec) \<Rightarrow> good_line ops (d = PreOutputDefer) evs (int (length line)) (s\<lparr>px_dec := dec\<rparr>)))"

definition final_reason :: "('d, 'e) proxy_ops \<Rightarrow> ('d, 'e) proxy_state \<Rightarrow> proxy_error option \<times> ('d, 'e) proxy_state" where
  "final_reason ops s =
     (let c = po_capture ops (px_enc s) in
      if cap_streamCompleted c then
        (if po_require_usage ops \<and> \<not> gatewayUsageAvailable (cap_usage c) then (Some NoUsage, px_note ops (set_end ''usage_missing'') s)
         else (None, px_note ops (set_end ''done'') s))
      else if cap_sawDone c \<and> cap_endReason c = [] then (None, px_note ops (\<lambda>c. c\<lparr>cap_streamCompleted := True, cap_endReason := ''done''\<rparr>) s)
      else if cap_endReason c \<noteq> [] then (None, s)
      else (None, px_note ops (set_end (if px_headers s then ''upstream_stream_eof'' else ''upstream_stream_empty'')) s))"

definition flush_filter_state :: "('d, 'e) proxy_ops \<Rightarrow> ('d, 'e) proxy_state \<Rightarrow> proxy_error option \<times> ('d, 'e) proxy_state" where
  "flush_filter_state ops s = (case px_filter s of
      None \<Rightarrow> (None, s)
    | Some f \<Rightarrow> let (evs, f') = flush_filter f in encodeRaw ops evs (s\<lparr>px_filter := Some f'\<rparr>))"

definition unfinished :: "('d, 'e) proxy_ops \<Rightarrow> ('d, 'e) proxy_state \<Rightarrow> bool" where
  "unfinished ops s \<longleftrightarrow> (let c = po_capture ops (px_enc s) in px_headers s \<and> \<not> cap_streamCompleted c \<and> \<not> cap_sawDone c \<and> cap_endReason c = [])"

text \<open>The end of the body: what the decoder and the buffer still hold, a completion for the protocols that do not send one, the filter.\<close>

definition flush_decoder :: "('d, 'e) proxy_ops \<Rightarrow> ('d, 'e) proxy_state \<Rightarrow> proxy_error option \<times> ('d, 'e) proxy_state" where
  "flush_decoder ops s = (case (case po_flush ops of
        None \<Rightarrow> (None, s)
      | Some fl \<Rightarrow> let (evs, dec) = fl (px_dec s) in encodeEvents ops evs (s\<lparr>px_dec := dec\<rparr>)) of
      (Some err, s') \<Rightarrow> (Some err, s') | (None, s') \<Rightarrow> flushPreOutput ops s')"

definition convert_eof :: "('d, 'e) proxy_ops \<Rightarrow> ('d, 'e) proxy_state \<Rightarrow> proxy_error option \<times> ('d, 'e) proxy_state" where
  "convert_eof ops s0 = (case flush_decoder ops s0 of
      (Some err, s) \<Rightarrow> (Some err, s)
    | (None, s) \<Rightarrow>
        if unfinished ops s \<and> \<not> po_synthesize ops then (None, px_note ops (set_end ''upstream_stream_incomplete'') s)
        else case (if unfinished ops s then encodeEvents ops [event_of EvCompleted] s else (None, s)) of
            (Some err, s') \<Rightarrow> (Some err, px_note ops (set_end ''downstream_stream_write_failed'') s')
          | (None, s') \<Rightarrow> (case flush_filter_state ops s' of (Some err, s'') \<Rightarrow> (Some err, s'') | (None, s'') \<Rightarrow> final_reason ops s''))"

definition convert_failed :: "('d, 'e) proxy_ops \<Rightarrow> string \<Rightarrow> ('d, 'e) proxy_state \<Rightarrow> proxy_error option \<times> ('d, 'e) proxy_state" where
  "convert_failed ops m s =
     (let c = po_capture ops (px_enc s) in
      if cap_endReason c = ''done'' \<or> cap_endReason c = [] \<and> (cap_streamCompleted c \<or> cap_sawDone c)
      then (None, px_note ops (\<lambda>c. c\<lparr>cap_streamCompleted := True, cap_endReason := ''done''\<rparr>) s)
      else case flushPreOutput ops (px_note ops (set_end_if_empty ''upstream_stream_read_failed'') s) of
          (Some err, s') \<Rightarrow> (Some err, s') | (None, s') \<Rightarrow> (Some (ReadError m), s'))"

fun convert_loop :: "('d, 'e) proxy_ops \<Rightarrow> stream_read list \<Rightarrow> ('d, 'e) proxy_state \<Rightarrow> proxy_error option \<times> ('d, 'e) proxy_state" where
  "convert_loop ops [] s = convert_eof ops s"
| "convert_loop ops (rd # rds) s = (case sr_ctx rd of
      Some e \<Rightarrow> (case flushPreOutput ops (px_note ops (set_end ''downstream_client_cancelled'') s) of
          (Some err, s') \<Rightarrow> (Some err, s') | (None, s') \<Rightarrow> (Some (Cancelled e), s'))
    | None \<Rightarrow>
        if po_defer ops \<and> \<not> px_headers s \<and> readResponsesPreOutputLine rd = None
        then (Some PreOutputTooLarge, px_note ops (set_end ''upstream_stream_preoutput_too_large'') s)
        else case (if sr_line rd = [] then Inl s else convert_line ops (sr_line rd) s) of
            Inr r \<Rightarrow> r
          | Inl s' \<Rightarrow> (case sr_end rd of ReadMore \<Rightarrow> convert_loop ops rds s' | ReadEOF \<Rightarrow> convert_eof ops s' | ReadFailed m \<Rightarrow> convert_failed ops m s'))"

text \<open>With the decoder and the encoder in their first states, a body and the stop sequences.\<close>

definition proxyCanonicalStream :: "('d, 'e) proxy_ops \<Rightarrow> 'd \<Rightarrow> 'e \<Rightarrow> string list \<Rightarrow> stream_read list option \<Rightarrow> 'e proxy_result" where
  "proxyCanonicalStream ops d e stops body =
     (let s = \<lparr>px_dec = d, px_enc = e, px_filter = newCanonicalStopSequenceFilter stops, px_pre = [], px_preBytes = 0, px_committed = False, px_headers = False\<rparr>
      in case body of
          None \<Rightarrow> px_give ops (px_note ops (set_end ''upstream_stream_missing_body'') s) (Some BodyMissing)
        | Some rds \<Rightarrow> let (err, s') = convert_loop ops rds s in px_give ops s' err)"

end
