(* ===== verification/Stream_Pipeline.thy ===== *)
theory Stream_Pipeline
  imports Stream_Proxy
begin

text \<open>
  What the converting loop \<open>proxyCanonicalStream\<close> does with its decoder, its filter and its encoder, and what a client of the converted stream
  reads: the loop holds events back, flushes, filters and finishes in many places, and all of it amounts to one pipeline from the lines
  of the upstream to the encoder.
\<close>

section \<open>The pipeline\<close>

text \<open>The events of the lines; a line that does not decode has none.\<close>

fun decode_lines :: "('d, 'e) proxy_ops \<Rightarrow> string list \<Rightarrow> 'd \<Rightarrow> stream_event list \<times> 'd" where
  "decode_lines ops [] d = ([], d)"
| "decode_lines ops (l # ls) d =
     (if l = [] then decode_lines ops ls d
      else case po_decode ops l d of
          (None, d') \<Rightarrow> decode_lines ops ls d'
        | (Some evs, d') \<Rightarrow> (let (evs', d'') = decode_lines ops ls d' in (evs @ evs', d'')))"

fun filt :: "stop_filter option \<Rightarrow> stream_event list \<Rightarrow> stream_event list \<times> stop_filter option" where
  "filt None evs = (evs, None)"
| "filt (Some f) evs = (let (out, f') = apply_events evs f in (out, Some f'))"

fun held_text :: "stop_filter option \<Rightarrow> stream_event list" where
  "held_text None = []"
| "held_text (Some f) = fst (flush_filter f)"

definition filtered :: "stop_filter option \<Rightarrow> stream_event list \<Rightarrow> stream_event list" where
  "filtered F evs = fst (filt F evs) @ held_text (snd (filt F evs))"

definition flushed :: "('d, 'e) proxy_ops \<Rightarrow> 'd \<Rightarrow> stream_event list" where
  "flushed ops d = (case po_flush ops of None \<Rightarrow> [] | Some fl \<Rightarrow> fst (fl d))"

text \<open>What reaches the encoder: the filtered events of the lines and of the decoder's flush, and the completion \<open>k\<close> that may be added.\<close>

definition pipeline :: "('d, 'e) proxy_ops \<Rightarrow> stop_filter option \<Rightarrow> string list \<Rightarrow> 'd \<Rightarrow> stream_event list \<Rightarrow> stream_event list" where
  "pipeline ops F lines d k = (let (evs, d') = decode_lines ops lines d in filtered F (evs @ flushed ops d' @ k))"

lemma apply_events_append: "apply_events (a @ b) f = (case apply_events a f of (o1, f1) \<Rightarrow> (case apply_events b f1 of (o2, f2) \<Rightarrow> (o1 @ o2, f2)))"
  by (induction a arbitrary: f) (auto split: prod.split)

lemma filt_append: "filt F (a @ b) = (fst (filt F a) @ fst (filt (snd (filt F a)) b), snd (filt (snd (filt F a)) b))"
  by (cases F) (auto simp: apply_events_append split: prod.split)

lemma filtered_prefix: "prefix (fst (filt F a)) (filtered F (a @ b))"
  by (simp add: filtered_def filt_append)

section \<open>Feeding the encoder\<close>

text \<open>The encoder is fed events, with changes of the capture in between; after an error it is fed no more.\<close>

inductive fed :: "('d, 'e) proxy_ops \<Rightarrow> 'e \<Rightarrow> stream_event list \<Rightarrow> stream_error option \<Rightarrow> 'e \<Rightarrow> bool" for ops e0 where
  fed_start: "fed ops e0 [] None e0"
| fed_note: "fed ops e0 evs r e \<Longrightarrow> fed ops e0 evs r (po_set_capture ops c e)"
| fed_event: "fed ops e0 evs None e \<Longrightarrow> po_encode ops ev e = (r, e') \<Longrightarrow> fed ops e0 (evs @ [ev]) r e'"

text \<open>The state after all events \<open>d\<close> have passed the filter.\<close>

definition point :: "('d, 'e) proxy_ops \<Rightarrow> 'e \<Rightarrow> stop_filter option \<Rightarrow> stream_event list \<Rightarrow> ('d, 'e) proxy_state \<Rightarrow> bool" where
  "point ops e0 F d s \<longleftrightarrow> fed ops e0 (fst (filt F d)) None (px_enc s) \<and> px_filter s = snd (filt F d) \<and> (px_headers s \<longleftrightarrow> fst (filt F d) \<noteq> [])"

text \<open>The end of a run that has fed a beginning of \<open>all\<close>.\<close>

fun encode_error :: "proxy_error option \<Rightarrow> stream_error option" where
  "encode_error (Some (EncodeFailed x)) = Some x"
| "encode_error _ = None"

definition fed_part :: "('d, 'e) proxy_ops \<Rightarrow> 'e \<Rightarrow> stream_event list \<Rightarrow> proxy_error option \<Rightarrow> ('d, 'e) proxy_state \<Rightarrow> bool" where
  "fed_part ops e0 all err s \<longleftrightarrow> (\<exists>evs. fed ops e0 evs (encode_error err) (px_enc s) \<and> prefix evs all \<and> (px_headers s \<longleftrightarrow> evs \<noteq> []))"

lemma px_note_frame [simp]: "px_dec (px_note ops f s) = px_dec s" "px_filter (px_note ops f s) = px_filter s" "px_pre (px_note ops f s) = px_pre s"
  "px_headers (px_note ops f s) = px_headers s" "px_preBytes (px_note ops f s) = px_preBytes s" "px_committed (px_note ops f s) = px_committed s"
  "px_enc (px_note ops f s) = po_set_capture ops (f (po_capture ops (px_enc s))) (px_enc s)"
  by (simp_all add: px_note_def)

lemma point_note [simp]: "point ops e0 F d s \<Longrightarrow> point ops e0 F d (px_note ops f s)"
  by (simp add: point_def fed_note)

lemma point_frame [simp]: "point ops e0 F d (s\<lparr>px_dec := x\<rparr>) = point ops e0 F d s" "point ops e0 F d (s\<lparr>px_committed := b\<rparr>) = point ops e0 F d s"
  "point ops e0 F d (s\<lparr>px_pre := evs\<rparr>) = point ops e0 F d s" "point ops e0 F d (s\<lparr>px_preBytes := n\<rparr>) = point ops e0 F d s"
  by (simp_all add: point_def)

lemma fed_part_note: "fed_part ops e0 all err s \<Longrightarrow> fed_part ops e0 all err (px_note ops f s)"
  unfolding fed_part_def using fed_note by fastforce

lemma fed_part_mono: "fed_part ops e0 a err s \<Longrightarrow> prefix a b \<Longrightarrow> fed_part ops e0 b err s"
  unfolding fed_part_def using prefix_order.trans by blast

lemma point_part: "point ops e0 F d s \<Longrightarrow> encode_error err = None \<Longrightarrow> fed_part ops e0 (filtered F (d @ x)) err s"
  unfolding fed_part_def point_def using filtered_prefix by (intro exI[of _ "fst (filt F d)"]) auto

text \<open>Encoding events, which changes only the encoder and the headers.\<close>

definition same_queue :: "('d, 'e) proxy_state \<Rightarrow> ('d, 'e) proxy_state \<Rightarrow> bool" where
  "same_queue s s' \<longleftrightarrow> px_dec s' = px_dec s \<and> px_pre s' = px_pre s \<and> px_preBytes s' = px_preBytes s \<and> px_committed s' = px_committed s"

lemma encodeRaw_fed:
  assumes "fed ops e0 done' None (px_enc s)" "px_headers s \<longleftrightarrow> done' \<noteq> []" "encodeRaw ops evs s = (err, s')"
  shows "case err of None \<Rightarrow> fed ops e0 (done' @ evs) None (px_enc s') \<and> (px_headers s' \<longleftrightarrow> done' @ evs \<noteq> []) \<and> same_queue s s' \<and> px_filter s' = px_filter s
    | Some er \<Rightarrow> fed_part ops e0 (done' @ evs) err s' \<and> encode_error err \<noteq> None \<and> px_headers s'"
  using assms
proof (induction evs arbitrary: s done')
  case Nil
  then show ?case by (auto simp: same_queue_def)
next
  case (Cons ev evs)
  obtain r e where r: "po_encode ops ev (px_enc s) = (r, e)" by fastforce
  note f = fed_event[OF Cons.prems(1) r]
  show ?case
  proof (cases r)
    case None
    with Cons.prems(3) r have "encodeRaw ops evs (s\<lparr>px_headers := True, px_enc := e\<rparr>) = (err, s')" by simp
    from Cons.IH[OF _ _ this, of "done' @ [ev]"] f None show ?thesis by (auto simp: same_queue_def split: option.splits)
  next
    case (Some x)
    with Cons.prems(3) r have s': "err = Some (EncodeFailed x)" "s' = px_note ops (set_end_if_empty ''downstream_stream_write_failed'') (s\<lparr>px_headers := True, px_enc := e\<rparr>)" by auto
    have "fed ops e0 (done' @ [ev]) (Some x) (px_enc s')" using f Some by (simp add: s' fed_note)
    then have "fed_part ops e0 (done' @ ev # evs) err s'" unfolding fed_part_def by (intro exI[of _ "done' @ [ev]"]) (auto simp: s' prefix_def)
    then show ?thesis by (simp add: s')
  qed
qed

text \<open>A step that passes the events \<open>evs\<close> on: the point after them, or an error of the encoder.\<close>

definition passes :: "('d, 'e) proxy_ops \<Rightarrow> 'e \<Rightarrow> stop_filter option \<Rightarrow> stream_event list \<Rightarrow> proxy_error option \<times> ('d, 'e) proxy_state \<Rightarrow> bool" where
  "passes ops e0 F d r = (case r of
      (None, s') \<Rightarrow> point ops e0 F d s'
    | (Some er, s') \<Rightarrow> fed_part ops e0 (fst (filt F d)) (Some er) s' \<and> encode_error (Some er) \<noteq> None)"

lemma encodeFiltered_raw:
  "encodeFiltered ops evs s = encodeRaw ops (fst (filt (px_filter s) evs)) (s\<lparr>px_filter := snd (filt (px_filter s) evs)\<rparr>)"
proof (cases "px_filter s")
  case None
  then have "s\<lparr>px_filter := None\<rparr> = s" by (cases s) simp
  then show ?thesis unfolding encodeFiltered_def None by (simp only: option.case filt.simps fst_conv snd_conv)
qed (simp add: encodeFiltered_def Let_def split: prod.split)

lemma encodeFiltered_passes:
  assumes "point ops e0 F d s"
  shows "passes ops e0 F (d @ evs) (encodeFiltered ops evs s)" "encodeFiltered ops evs s = (None, s') \<Longrightarrow> same_queue s s'"
proof -
  let ?s = "s\<lparr>px_filter := snd (filt F (d @ evs))\<rparr>"
  let ?evs = "fst (filt (snd (filt F d)) evs)"
  have "px_filter s = snd (filt F d)" using assms by (simp add: point_def)
  then have run: "encodeFiltered ops evs s = encodeRaw ops ?evs ?s" by (simp add: encodeFiltered_raw filt_append)
  obtain err s1 where r: "encodeRaw ops ?evs ?s = (err, s1)" by fastforce
  have f: "fed ops e0 (fst (filt F d)) None (px_enc ?s)" "px_headers ?s \<longleftrightarrow> fst (filt F d) \<noteq> []" using assms by (simp_all add: point_def)
  from encodeRaw_fed[OF f r] show "passes ops e0 F (d @ evs) (encodeFiltered ops evs s)" "encodeFiltered ops evs s = (None, s') \<Longrightarrow> same_queue s s'"
    unfolding run r by (auto simp: passes_def point_def filt_append same_queue_def split: option.splits)
qed

lemma passes_some: "passes ops e0 F d (Some er, s') \<longleftrightarrow> fed_part ops e0 (fst (filt F d)) (Some er) s' \<and> encode_error (Some er) \<noteq> None"
  by (simp add: passes_def)

lemma passes_none: "passes ops e0 F d (None, s') \<longleftrightarrow> point ops e0 F d s'"
  by (simp add: passes_def)

lemma flushPreOutput_passes:
  assumes "point ops e0 F d s"
  shows "passes ops e0 F (d @ px_pre s) (flushPreOutput ops s)"
    "flushPreOutput ops s = (None, s') \<Longrightarrow> px_pre s' = [] \<and> px_dec s' = px_dec s \<and> px_committed s' = px_committed s"
proof -
  obtain err s1 where r: "encodeFiltered ops (px_pre s) s = (err, s1)" by fastforce
  note e = encodeFiltered_passes[OF assms, of "px_pre s", unfolded r]
  show "passes ops e0 F (d @ px_pre s) (flushPreOutput ops s)"
    using e(1) by (cases err) (simp_all add: flushPreOutput_def r passes_some passes_none)
  show "flushPreOutput ops s = (None, s') \<Longrightarrow> px_pre s' = [] \<and> px_dec s' = px_dec s \<and> px_committed s' = px_committed s"
    using e(2)[of s1] by (cases err) (auto simp: flushPreOutput_def r same_queue_def)
qed

lemma passes_mono: "passes ops e0 F d (Some er, s') \<Longrightarrow> passes ops e0 F (d @ x) (Some er, s')"
  unfolding passes_some using fed_part_mono[of ops e0 "fst (filt F d)" "Some er" s' "fst (filt F (d @ x))"] by (simp add: filt_append)

lemma encodeEvents_passes:
  assumes "point ops e0 F d s"
  shows "passes ops e0 F (d @ px_pre s @ evs) (encodeEvents ops evs s)"
    "encodeEvents ops evs s = (None, s') \<Longrightarrow> px_pre s' = [] \<and> px_dec s' = px_dec s"
proof -
  obtain err s1 where r: "flushPreOutput ops s = (err, s1)" by fastforce
  note f = flushPreOutput_passes(1)[OF assms, unfolded r] flushPreOutput_passes(2)[OF assms, unfolded r, of s1]
  have "passes ops e0 F (d @ px_pre s @ evs) (encodeEvents ops evs s) \<and> (encodeEvents ops evs s = (None, s') \<longrightarrow> px_pre s' = [] \<and> px_dec s' = px_dec s)"
  proof (cases err)
    case None
    with f have p: "point ops e0 F (d @ px_pre s) s1" and q: "px_pre s1 = [] \<and> px_dec s1 = px_dec s" by (simp_all add: passes_none)
    from encodeFiltered_passes(1)[OF p, of evs] encodeFiltered_passes(2)[OF p, of evs s'] q show ?thesis by (simp add: encodeEvents_def r None same_queue_def)
  next
    case (Some er)
    then show ?thesis using passes_mono[of ops e0 F "d @ px_pre s" er s1 evs] f(1) by (simp add: encodeEvents_def r)
  qed
  then show "passes ops e0 F (d @ px_pre s @ evs) (encodeEvents ops evs s)"
    "encodeEvents ops evs s = (None, s') \<Longrightarrow> px_pre s' = [] \<and> px_dec s' = px_dec s" by blast+
qed


section \<open>Lines\<close>

text \<open>The state after the events \<open>x\<close> were decoded: some have passed the filter, the others are held back.\<close>

definition reached :: "('d, 'e) proxy_ops \<Rightarrow> 'e \<Rightarrow> stop_filter option \<Rightarrow> stream_event list \<Rightarrow> ('d, 'e) proxy_state \<Rightarrow> bool" where
  "reached ops e0 F x s \<longleftrightarrow> (\<exists>d. x = d @ px_pre s \<and> point ops e0 F d s)"

text \<open>A step on a state that has decoded \<open>x\<close>: the state after \<open>x @ evs\<close>, or the end of the run with a part of it fed.\<close>

definition goes :: "('d, 'e) proxy_ops \<Rightarrow> 'e \<Rightarrow> stop_filter option \<Rightarrow> stream_event list \<Rightarrow> 'd \<Rightarrow> ('d, 'e) line_outcome \<Rightarrow> bool" where
  "goes ops e0 F x dec r = (case r of
      Inl s' \<Rightarrow> reached ops e0 F x s' \<and> px_dec s' = dec
    | Inr (err, s') \<Rightarrow> fed_part ops e0 (fst (filt F x)) err s' \<and> (err = None \<longrightarrow> \<not> px_headers s'))"

lemma reached_note: "reached ops e0 F x s \<Longrightarrow> reached ops e0 F x (px_note ops f s)"
  unfolding reached_def by auto

lemma reached_frame [simp]: "reached ops e0 F x (s\<lparr>px_dec := d\<rparr>) = reached ops e0 F x s" "reached ops e0 F x (s\<lparr>px_committed := b\<rparr>) = reached ops e0 F x s"
  by (simp_all add: reached_def)

lemma point_reached: "point ops e0 F x s \<Longrightarrow> px_pre s = [] \<Longrightarrow> reached ops e0 F x s"
  by (simp add: reached_def)

lemma reached_part:
  assumes "reached ops e0 F x s" "encode_error err = None"
  shows "fed_part ops e0 (fst (filt F x)) err s"
proof -
  obtain d where d: "x = d @ px_pre s" "point ops e0 F d s" using assms(1) by (auto simp: reached_def)
  then show ?thesis using assms(2) unfolding fed_part_def by (intro exI[of _ "fst (filt F d)"]) (auto simp: point_def filt_append)
qed

lemma flush_reached:
  assumes "reached ops e0 F x s" "flushPreOutput ops s = (err, s')"
  shows "case err of None \<Rightarrow> point ops e0 F x s' \<and> px_pre s' = [] \<and> px_dec s' = px_dec s | Some er \<Rightarrow> fed_part ops e0 (fst (filt F x)) err s'"
proof -
  obtain d where d: "x = d @ px_pre s" "point ops e0 F d s" using assms(1) by (auto simp: reached_def)
  from flushPreOutput_passes(1)[OF d(2)] flushPreOutput_passes(2)[OF d(2), of s'] show ?thesis unfolding assms(2) d(1) by (cases err) (simp_all add: passes_none passes_some)
qed

lemma encode_reached:
  assumes "reached ops e0 F x s" "encodeEvents ops evs s = (err, s')"
  shows "case err of None \<Rightarrow> point ops e0 F (x @ evs) s' \<and> px_pre s' = [] \<and> px_dec s' = px_dec s | Some er \<Rightarrow> fed_part ops e0 (fst (filt F (x @ evs))) err s'"
proof -
  obtain d where d: "x = d @ px_pre s" "point ops e0 F d s" using assms(1) by (auto simp: reached_def)
  from encodeEvents_passes(1)[OF d(2), of evs] encodeEvents_passes(2)[OF d(2), of evs s'] show ?thesis unfolding assms(2) d(1) by (cases err) (simp_all add: passes_none passes_some)
qed

lemma part_longer: "fed_part ops e0 (fst (filt F x)) err s \<Longrightarrow> fed_part ops e0 (fst (filt F (x @ y))) err s"
  by (erule fed_part_mono) (simp add: filt_append)

lemma bad_line_goes:
  assumes "reached ops e0 F x s"
  shows "goes ops e0 F x (px_dec s) (bad_line ops s)"
proof -
  obtain err s1 where r: "flushPreOutput ops s = (err, s1)" by fastforce
  note f = flush_reached[OF assms r]
  show ?thesis
  proof (cases err)
    case None
    with f have p: "point ops e0 F x s1" "px_pre s1 = []" "px_dec s1 = px_dec s" by simp_all
    note q = reached_note[OF point_reached[OF p(1,2)]]
    show ?thesis using q reached_part[OF q, of "Some BadLine"] p(3) by (auto simp: bad_line_def r None goes_def)
  qed (use f in \<open>simp add: bad_line_def r goes_def\<close>)
qed

lemma stop_goes:
  assumes "case err of None \<Rightarrow> reached ops e0 F x s' \<and> px_dec s' = dec | Some er \<Rightarrow> fed_part ops e0 (fst (filt F x)) err s'"
  shows "goes ops e0 F x dec (stop_on_error (err, s'))"
  using assms by (cases err) (simp_all add: stop_on_error_def goes_def)

lemma encodeEvents_goes:
  assumes "reached ops e0 F x s"
  shows "goes ops e0 F (x @ evs) (px_dec s) (stop_on_error (encodeEvents ops evs s))"
proof -
  obtain err s1 where r: "encodeEvents ops evs s = (err, s1)" by fastforce
  from encode_reached[OF assms r] show ?thesis unfolding r by (intro stop_goes) (auto intro: point_reached split: option.splits)
qed

lemma buffer_goes:
  assumes "reached ops e0 F x s"
  shows "goes ops e0 F (x @ evs) (px_dec s) (stop_on_error (bufferPreOutputEvents ops evs n s))"
proof -
  have "reached ops e0 F (x @ evs) (s\<lparr>px_pre := px_pre s @ evs, px_preBytes := m\<rparr>)" for m
    using assms by (auto simp: reached_def)
  then show ?thesis
    using reached_part[OF reached_note[OF assms], of "Some PreOutputTooLarge"] assms
    by (auto simp: bufferPreOutputEvents_def intro!: stop_goes reached_note part_longer)
qed

lemma good_line_goes:
  assumes "reached ops e0 F x s"
  shows "goes ops e0 F (x @ evs) (px_dec s) (good_line ops held evs n s)"
proof -
  obtain err s1 where r: "flushPreOutput ops (s\<lparr>px_committed := True\<rparr>) = (err, s1)" by fastforce
  have "reached ops e0 F x (s\<lparr>px_committed := True\<rparr>)" using assms by simp
  note f = flush_reached[OF this r]
  show ?thesis
  proof (cases err)
    case None
    with f have "reached ops e0 F x s1" "px_dec s1 = px_dec s" by (simp_all add: point_reached)
    then show ?thesis using encodeEvents_goes[of ops e0 F x s1 evs] encodeEvents_goes[OF assms, of evs] buffer_goes[OF assms, of evs n]
      by (auto simp: good_line_def r None)
  next
    case (Some er)
    then show ?thesis using f part_longer[of ops e0 F x err s1 evs] encodeEvents_goes[OF assms, of evs] buffer_goes[OF assms, of evs n]
      by (auto simp: good_line_def r goes_def)
  qed
qed

abbreviation line_events :: "('d, 'e) proxy_ops \<Rightarrow> string \<Rightarrow> 'd \<Rightarrow> stream_event list" where
  "line_events ops line d \<equiv> (case fst (po_decode ops line d) of None \<Rightarrow> [] | Some evs \<Rightarrow> evs)"

lemma convert_line_goes:
  assumes "reached ops e0 F x s"
  shows "goes ops e0 F (x @ line_events ops line (px_dec s)) (snd (po_decode ops line (px_dec s))) (convert_line ops line s)"
proof -
  define s1 where "s1 = (case po_inspect ops of None \<Rightarrow> px_note ops (observeUpstreamStreamModel line) s
      | Some f \<Rightarrow> px_note ops (f line) (px_note ops (observeUpstreamStreamModel line) s))"
  define d where "d = (if po_defer ops \<and> \<not> px_headers s1 then responsesStreamPreOutputDispositionForLine line else PreOutputCommit)"
  have s1: "reached ops e0 F x s1" "px_dec s1 = px_dec s" using assms by (auto simp: s1_def reached_note split: option.split)
  obtain o' dec where dec: "po_decode ops line (px_dec s) = (o', dec)" by fastforce
  have run: "convert_line ops line s = (case d of PreOutputFail f \<Rightarrow> Inr (None, px_note ops (note_failure line f) s1)
      | _ \<Rightarrow> (case o' of None \<Rightarrow> bad_line ops (s1\<lparr>px_dec := dec\<rparr>)
        | Some evs \<Rightarrow> good_line ops (d = PreOutputDefer) evs (int (length line)) (s1\<lparr>px_dec := dec\<rparr>)))"
    unfolding convert_line_def Let_def s1_def[symmetric] d_def[symmetric] s1(2) dec by (simp split: disposition.split option.split)
  have s2: "reached ops e0 F x (s1\<lparr>px_dec := dec\<rparr>)" using s1 by simp
  show ?thesis
  proof (cases "\<exists>f. d = PreOutputFail f")
    case True
    then obtain f where f: "d = PreOutputFail f" by blast
    then have "\<not> px_headers s1" by (auto simp: d_def split: if_splits)
    then show ?thesis using part_longer[OF reached_part[OF reached_note[OF s1(1)], of None]] by (simp add: run f goes_def)
  next
    case False
    then have "convert_line ops line s = (case o' of None \<Rightarrow> bad_line ops (s1\<lparr>px_dec := dec\<rparr>)
        | Some evs \<Rightarrow> good_line ops (d = PreOutputDefer) evs (int (length line)) (s1\<lparr>px_dec := dec\<rparr>))"
      unfolding run by (cases d) auto
    then show ?thesis using bad_line_goes[OF s2] good_line_goes[OF s2] by (cases o') (simp_all add: dec)
  qed
qed

section \<open>The end of a stream\<close>

definition lawful :: "('d, 'e) proxy_ops \<Rightarrow> bool" where
  "lawful ops \<longleftrightarrow> (\<forall>c e. po_capture ops (po_set_capture ops c e) = c)"

abbreviation reason_of :: "('d, 'e) proxy_ops \<Rightarrow> ('d, 'e) proxy_state \<Rightarrow> string" where
  "reason_of ops s \<equiv> cap_endReason (po_capture ops (px_enc s))"

definition completions :: "('d, 'e) proxy_ops \<Rightarrow> stream_event list set" where
  "completions ops = (if po_synthesize ops then {[], [event_of EvCompleted]} else {[]})"

text \<open>The end of a run: a part of \<open>all\<close> was fed, all of it if the run has no error and is not reported as incomplete.\<close>

definition ends :: "('d, 'e) proxy_ops \<Rightarrow> 'e \<Rightarrow> stream_event list \<Rightarrow> proxy_error option \<Rightarrow> ('d, 'e) proxy_state \<Rightarrow> bool" where
  "ends ops e0 all err s \<longleftrightarrow> fed_part ops e0 all err s
     \<and> (err = None \<and> reason_of ops s \<noteq> ''upstream_stream_incomplete'' \<longrightarrow> fed ops e0 all None (px_enc s))"

lemma filter_flush:
  assumes "point ops e0 F y s" "flush_filter_state ops s = (err, s')"
  shows "case err of None \<Rightarrow> fed ops e0 (filtered F y) None (px_enc s') \<and> (px_headers s' \<longleftrightarrow> filtered F y \<noteq> []) | Some er \<Rightarrow> fed_part ops e0 (filtered F y) err s'"
proof (cases "px_filter s")
  case None
  then show ?thesis using assms by (auto simp: flush_filter_state_def point_def filtered_def)
next
  case (Some f)
  obtain evs f' where fl: "flush_filter f = (evs, f')" by fastforce
  have r: "encodeRaw ops evs (s\<lparr>px_filter := Some f'\<rparr>) = (err, s')" using assms(2) by (simp add: flush_filter_state_def Some fl)
  have "snd (filt F y) = Some f" using assms(1) Some by (simp add: point_def)
  then have all: "filtered F y = fst (filt F y) @ evs" by (simp add: filtered_def fl)
  have "fed ops e0 (fst (filt F y)) None (px_enc (s\<lparr>px_filter := Some f'\<rparr>))" "px_headers (s\<lparr>px_filter := Some f'\<rparr>) \<longleftrightarrow> fst (filt F y) \<noteq> []"
    using assms(1) by (simp_all add: point_def)
  from encodeRaw_fed[OF this r] show ?thesis unfolding all by (cases err) simp_all
qed

lemma final_reason_fed:
  assumes "fed ops e0 all None (px_enc s)" "px_headers s \<longleftrightarrow> all \<noteq> []" "final_reason ops s = (err, s')"
  shows "ends ops e0 all err s'"
proof -
  have "encode_error err = None \<and> fed ops e0 all None (px_enc s') \<and> px_headers s' = px_headers s"
    using assms(1,3) by (auto simp: final_reason_def Let_def fed_note split: if_splits)
  then show ?thesis using assms(2) unfolding ends_def fed_part_def by auto
qed

lemma part_ends: "fed_part ops e0 (fst (filt F x)) (Some er) s \<Longrightarrow> ends ops e0 (filtered F (x @ y)) (Some er) s"
  unfolding ends_def using fed_part_mono[OF _ filtered_prefix] by simp

lemma flush_decoder_reached:
  assumes "reached ops e0 F x s" "flush_decoder ops s = (err, s')"
  shows "case err of None \<Rightarrow> point ops e0 F (x @ flushed ops (px_dec s)) s' \<and> px_pre s' = [] | Some er \<Rightarrow> fed_part ops e0 (fst (filt F (x @ flushed ops (px_dec s)))) err s'"
proof -
  define r where "r = (case po_flush ops of None \<Rightarrow> (None, s) | Some fl \<Rightarrow> let (evs, dec) = fl (px_dec s) in encodeEvents ops evs (s\<lparr>px_dec := dec\<rparr>))"
  obtain err1 s1 where r1: "r = (err1, s1)" by fastforce
  let ?x = "x @ flushed ops (px_dec s)"
  have mid: "case err1 of None \<Rightarrow> reached ops e0 F ?x s1 | Some er \<Rightarrow> fed_part ops e0 (fst (filt F ?x)) err1 s1"
  proof (cases "po_flush ops")
    case None
    then show ?thesis using assms(1) r1 by (simp add: r_def flushed_def)
  next
    case (Some fl)
    obtain evs dec where e: "fl (px_dec s) = (evs, dec)" by fastforce
    have "reached ops e0 F x (s\<lparr>px_dec := dec\<rparr>)" using assms(1) by simp
    from encode_reached[OF this, of evs err1 s1] show ?thesis using r1 by (cases err1) (simp_all add: r_def flushed_def Some e point_reached)
  qed
  have d: "flush_decoder ops s = (case r of (Some err, s') \<Rightarrow> (Some err, s') | (None, s') \<Rightarrow> flushPreOutput ops s')" by (simp add: flush_decoder_def r_def)
  show ?thesis
  proof (cases err1)
    case None
    with mid have m: "reached ops e0 F ?x s1" by simp
    from flush_reached[OF m, of err s'] show ?thesis using assms(2) d r1 None by (cases err) simp_all
  qed (use mid assms(2) d r1 in auto)
qed

lemma convert_eof_ends:
  assumes "lawful ops" "reached ops e0 F x s" "convert_eof ops s = (err, s')"
  shows "\<exists>k \<in> completions ops. ends ops e0 (filtered F (x @ flushed ops (px_dec s) @ k)) err s'"
proof -
  let ?x = "x @ flushed ops (px_dec s)"
  have nok: "[] \<in> completions ops" by (simp add: completions_def)
  have finish: "ends ops e0 (filtered F y) err s'"
    if p: "point ops e0 F y s1" and r: "(case flush_filter_state ops s1 of (Some err, s'') \<Rightarrow> (Some err, s'') | (None, s'') \<Rightarrow> final_reason ops s'') = (err, s')" for y s1
  proof -
    obtain err2 s2 where f: "flush_filter_state ops s1 = (err2, s2)" by fastforce
    show ?thesis using filter_flush[OF p f] r f final_reason_fed[of ops e0 "filtered F y" s2 err s'] by (cases err2) (auto simp: ends_def)
  qed
  obtain err1 s1 where d: "flush_decoder ops s = (err1, s1)" by fastforce
  note fd = flush_decoder_reached[OF assms(2) d]
  show ?thesis
  proof (cases err1)
    case (Some er)
    then have "err = Some er" "s' = s1" using assms(3) by (simp_all add: convert_eof_def d)
    then show ?thesis using fd Some part_ends[of ops e0 F ?x er s1 "[]"] by (intro bexI[OF _ nok]) simp
  next
    case None
    with fd have p: "point ops e0 F ?x s1" and pre: "px_pre s1 = []" by simp_all
    consider (incomplete) "unfinished ops s1" "\<not> po_synthesize ops" | (added) "unfinished ops s1" "po_synthesize ops" | (whole) "\<not> unfinished ops s1" by blast
    then show ?thesis
    proof cases
      case incomplete
      then have r: "err = None" "s' = px_note ops (set_end ''upstream_stream_incomplete'') s1" using assms(3) by (simp_all add: convert_eof_def d None)
      have "reason_of ops s' = ''upstream_stream_incomplete''" using assms(1) by (simp add: r lawful_def set_end_def)
      moreover have "fed_part ops e0 (filtered F (?x @ [])) None s'" unfolding r by (intro fed_part_note point_part[OF p]) simp
      ultimately show ?thesis using nok r(1) by (intro bexI[of _ "[]"]) (auto simp: ends_def)
    next
      case added
      obtain err2 s2 where e: "encodeEvents ops [event_of EvCompleted] s1 = (err2, s2)" by fastforce
      note enc = encode_reached[OF point_reached[OF p pre] e]
      have k: "[event_of EvCompleted] \<in> completions ops" using added by (simp add: completions_def)
      show ?thesis
      proof (cases err2)
        case (Some er)
        then have r: "err = Some er" "s' = px_note ops (set_end ''downstream_stream_write_failed'') s2" using assms(3) added e by (simp_all add: convert_eof_def d None)
        have "fed_part ops e0 (fst (filt F (?x @ [event_of EvCompleted]))) (Some er) s'" unfolding r by (rule fed_part_note) (use enc Some in simp)
        from part_ends[OF this, of "[]"] show ?thesis by (intro bexI[OF _ k]) (simp add: r(1))
      next
        case None
        then show ?thesis using enc finish[of "?x @ [event_of EvCompleted]" s2] assms(3) added e by (intro bexI[OF _ k]) (simp add: convert_eof_def d \<open>err1 = None\<close>)
      qed
    next
      case whole
      then have "ends ops e0 (filtered F ?x) err s'" using finish[OF p] assms(3) by (simp add: convert_eof_def d None)
      then show ?thesis using nok by (intro bexI[of _ "[]"]) auto
    qed
  qed
qed

section \<open>The whole run\<close>

text \<open>All events of a run that has decoded \<open>x\<close> and has still to read the lines \<open>ls\<close>.\<close>

definition all_events :: "('d, 'e) proxy_ops \<Rightarrow> stop_filter option \<Rightarrow> stream_event list \<Rightarrow> string list \<Rightarrow> 'd \<Rightarrow> stream_event list \<Rightarrow> stream_event list" where
  "all_events ops F x ls d k = filtered F (x @ fst (decode_lines ops ls d) @ flushed ops (snd (decode_lines ops ls d)) @ k)"

definition run_ends :: "('d, 'e) proxy_ops \<Rightarrow> 'e \<Rightarrow> bool \<Rightarrow> stream_event list \<Rightarrow> proxy_error option \<Rightarrow> ('d, 'e) proxy_state \<Rightarrow> bool" where
  "run_ends ops e0 whole all err s \<longleftrightarrow> fed_part ops e0 all err s
     \<and> (whole \<and> err = None \<and> px_headers s \<and> reason_of ops s \<noteq> ''upstream_stream_incomplete'' \<longrightarrow> fed ops e0 all None (px_enc s))"

definition whole_body :: "stream_read list \<Rightarrow> bool" where
  "whole_body rds = list_all (\<lambda>rd. case sr_end rd of ReadFailed _ \<Rightarrow> False | _ \<Rightarrow> True) rds"

lemma all_events_Cons:
  "all_events ops F x (l # ls) d k = (if l = [] then all_events ops F x ls d k
     else all_events ops F (x @ line_events ops l d) ls (snd (po_decode ops l d)) k)"
  by (auto simp: all_events_def split: prod.split option.split)

lemma all_events_part: "fed_part ops e0 (fst (filt F x)) err s \<Longrightarrow> fed_part ops e0 (all_events ops F x ls d k) err s"
  unfolding all_events_def by (erule fed_part_mono) (rule filtered_prefix)

lemma part_run_ends:
  assumes "fed_part ops e0 (fst (filt F x)) err s" "err = None \<Longrightarrow> \<not> px_headers s \<or> \<not> whole"
  shows "run_ends ops e0 whole (all_events ops F x ls d k) err s"
  using assms all_events_part by (auto simp: run_ends_def)

lemma flush_then_fail:
  assumes "reached ops e0 F x s" "encode_error (Some er) = None"
    "(case flushPreOutput ops s of (Some e, s') \<Rightarrow> (Some e, s') | (None, s') \<Rightarrow> (Some er, s')) = (err, s')"
  shows "run_ends ops e0 whole (all_events ops F x ls d k) err s'"
proof -
  obtain err1 s1 where f: "flushPreOutput ops s = (err1, s1)" by fastforce
  note fr = flush_reached[OF assms(1) f]
  have "err \<noteq> None \<and> fed_part ops e0 (fst (filt F x)) err s'"
  proof (cases err1)
    case None
    with fr have "reached ops e0 F x s1" by (simp add: point_reached)
    from reached_part[OF this assms(2)] show ?thesis using assms(3) f None by auto
  qed (use fr assms(3) f in auto)
  then show ?thesis by (intro part_run_ends) auto
qed

lemma convert_failed_ends:
  assumes "reached ops e0 F x s" "convert_failed ops m s = (err, s')"
  shows "run_ends ops e0 False (all_events ops F x ls d k) err s'"
proof (cases "reason_of ops s = ''done'' \<or> reason_of ops s = [] \<and> (cap_streamCompleted (po_capture ops (px_enc s)) \<or> cap_sawDone (po_capture ops (px_enc s)))")
  case True
  then show ?thesis using assms(2) reached_part[OF reached_note[OF assms(1)], of None] by (intro part_run_ends) (auto simp: convert_failed_def Let_def)
next
  case False
  then have "(case flushPreOutput ops (px_note ops (set_end_if_empty ''upstream_stream_read_failed'') s) of (Some e, s') \<Rightarrow> (Some e, s')
      | (None, s') \<Rightarrow> (Some (ReadError m), s')) = (err, s')"
    using assms(2) by (simp only: convert_failed_def Let_def if_False)
  then show ?thesis by (intro flush_then_fail[OF reached_note[OF assms(1)], of "ReadError m"]) simp_all
qed

lemma convert_loop_ends:
  assumes "lawful ops" "reached ops e0 F x s" "convert_loop ops rds s = (err, s')"
  shows "\<exists>k \<in> completions ops. run_ends ops e0 (whole_body rds) (all_events ops F x (lines_of rds) (px_dec s) k) err s'"
  using assms(2,3)
proof (induction rds arbitrary: s x)
  case Nil
  then show ?case using convert_eof_ends[OF assms(1) Nil.prems(1), of err s'] by (auto simp: run_ends_def ends_def all_events_def)
next
  case (Cons rd rds)
  let ?goal = "\<exists>k \<in> completions ops. run_ends ops e0 (whole_body (rd # rds)) (all_events ops F x (lines_of (rd # rds)) (px_dec s) k) err s'"
  have nok: "[] \<in> completions ops" by (simp add: completions_def)
  show ?goal
  proof (cases "sr_ctx rd = None \<and> \<not> (po_defer ops \<and> \<not> px_headers s \<and> readResponsesPreOutputLine rd = None)")
    case False
    then show ?thesis
    proof (cases "sr_ctx rd")
      case None
      then have "err = Some PreOutputTooLarge" "s' = px_note ops (set_end ''upstream_stream_preoutput_too_large'') s" using Cons.prems(2) False by auto
      then show ?thesis using reached_part[OF reached_note[OF Cons.prems(1)], of "Some PreOutputTooLarge"] by (intro bexI[OF _ nok] part_run_ends) auto
    next
      case (Some e)
      then show ?thesis using Cons.prems(2) by (intro bexI[OF _ nok] flush_then_fail[OF reached_note[OF Cons.prems(1)], of "Cancelled e"]) simp_all
    qed
  next
    case True
    define r where "r = (if sr_line rd = [] then Inl s else convert_line ops (sr_line rd) s)"
    let ?x = "if sr_line rd = [] then x else x @ line_events ops (sr_line rd) (px_dec s)"
    let ?d = "if sr_line rd = [] then px_dec s else snd (po_decode ops (sr_line rd) (px_dec s))"
    have all: "all_events ops F x (sr_line rd # ls) (px_dec s) k = all_events ops F ?x ls ?d k" for ls k by (simp add: all_events_Cons)
    have g: "goes ops e0 F ?x ?d r"
      using convert_line_goes[OF Cons.prems(1)] Cons.prems(1) by (auto simp: r_def goes_def)
    have loop: "(case r of Inr p \<Rightarrow> p | Inl s1 \<Rightarrow> (case sr_end rd of ReadMore \<Rightarrow> convert_loop ops rds s1 | ReadEOF \<Rightarrow> convert_eof ops s1
        | ReadFailed m \<Rightarrow> convert_failed ops m s1)) = (err, s')"
      using Cons.prems(2) True by (auto simp: r_def)
    show ?thesis
    proof (cases r)
      case (Inr p)
      then have "p = (err, s')" using loop by simp
      then have "fed_part ops e0 (fst (filt F ?x)) err s' \<and> (err = None \<longrightarrow> \<not> px_headers s')" using g Inr by (simp add: goes_def)
      then show ?thesis unfolding lines_of.simps all by (intro bexI[OF _ nok] part_run_ends) auto
    next
      case (Inl s1)
      then have s1: "reached ops e0 F ?x s1" "px_dec s1 = ?d" using g by (simp_all add: goes_def)
      show ?thesis
      proof (cases "sr_end rd")
        case ReadMore
        then have "convert_loop ops rds s1 = (err, s')" using loop Inl by simp
        from Cons.IH[OF s1(1) this] show ?thesis unfolding s1(2) lines_of.simps all by (simp add: ReadMore whole_body_def)
      next
        case ReadEOF
        then have "convert_eof ops s1 = (err, s')" using loop Inl by simp
        from convert_eof_ends[OF assms(1) s1(1) this] show ?thesis
          unfolding s1(2) lines_of.simps all by (auto simp: ReadEOF run_ends_def ends_def all_events_def)
      next
        case (ReadFailed m)
        then have "convert_failed ops m s1 = (err, s')" using loop Inl by simp
        from convert_failed_ends[OF s1(1) this] show ?thesis
          unfolding lines_of.simps all by (intro bexI[OF _ nok]) (simp add: ReadFailed whole_body_def)
      qed
    qed
  qed
qed

end
