(* ===== verification/Stream_Decoders.thy ===== *)
theory Stream_Decoders
  imports Stream_Lines Anthropic_Stream Chat_Stream
begin

text \<open>
  The decoders of Responses streams and of Anthropic streams, \<open>openAIResponsesStreamDecoder\<close> and \<open>anthropicMessagesStreamDecoder\<close> of
  \<open>gateway/protocol_canonical_stream.go\<close>, with the usage reports of Anthropic upstreams (\<open>gateway/protocol_anthropic_messages.go\<close>).

  A decoder maps a line and its state to events, \<open>None\<close> if the line does not decode. The fields \<open>Refusal\<close> and \<open>ReasoningIndex\<close> of events, which no
  code reads, are left out. Struct fields that are not used are well typed; the clock and the formatting of floats are arguments.
\<close>

section \<open>The Responses decoder\<close>

text \<open>The text of a member of an object, which \<open>flexibleJSONString\<close> keeps if the value is not a string. The last member of the name counts.\<close>

fun raw_members :: "nat \<Rightarrow> string \<Rightarrow> string \<Rightarrow> string \<Rightarrow> string" where
  "raw_members 0 key acc s = acc"
| "raw_members (Suc n) key acc s = (case skip_space s of
      [] \<Rightarrow> acc
    | q # qs \<Rightarrow> (case json_chars qs of
          None \<Rightarrow> acc
        | Some (k, r) \<Rightarrow>
            let v = skip_space (drop 1 (skip_space r)) in
            case json_value (json_fuel v) 1 v of
              None \<Rightarrow> acc
            | Some (_, r') \<Rightarrow>
                let acc' = (if k = key then take (length v - length r') v else acc) in
                case skip_space r' of x # xs \<Rightarrow> if x = CHR '','' then raw_members n key acc' xs else acc' | [] \<Rightarrow> acc'))"

definition raw_member :: "string \<Rightarrow> string \<Rightarrow> string" where
  "raw_member key data = raw_members (length data) key [] (drop 1 (skip_space data))"

definition flexibleJSONString :: "string \<Rightarrow> obj \<Rightarrow> string \<Rightarrow> string" where
  "flexibleJSONString data m key = (case obj_get m key of ANil \<Rightarrow> [] | AString s \<Rightarrow> s | _ \<Rightarrow> raw_member key data)"

record responses_item =
  ri_Type :: string
  ri_ID :: string
  ri_CallID :: string
  ri_Name :: string
  ri_Arguments :: string

record responses_response =
  rr_ID :: string
  rr_CreatedAt :: int
  rr_Model :: string
  rr_Usage :: "responses_usage option"
  rr_Error :: any

record responses_event =
  re_Type :: string
  re_Delta :: string
  re_Text :: string
  re_Arguments :: string
  re_Item :: "responses_item option"
  re_ItemID :: string
  re_Response :: "responses_response option"
  re_Error :: "(string \<times> string \<times> string) option"
  re_Annotation :: any

definition decode_item :: "obj \<Rightarrow> responses_item option" where
  "decode_item m = Option.bind (string_field m ''type'') (\<lambda>t. Option.bind (string_field m ''id'') (\<lambda>i. Option.bind (string_field m ''call_id'') (\<lambda>c.
     Option.bind (string_field m ''name'') (\<lambda>n. Option.bind (string_field m ''arguments'') (\<lambda>a.
     Some \<lparr>ri_Type = t, ri_ID = i, ri_CallID = c, ri_Name = n, ri_Arguments = a\<rparr>)))))"

text \<open>A pointer to a struct stays nil for a missing or null value.\<close>

definition opt_struct :: "(obj \<Rightarrow> 'a option) \<Rightarrow> obj \<Rightarrow> string \<Rightarrow> 'a option option" where
  "opt_struct dec m k = Option.bind (opt_obj_field m k) (\<lambda>o'. case o' of None \<Rightarrow> Some None | Some x \<Rightarrow> map_option Some (dec x))"

definition decode_response :: "obj \<Rightarrow> responses_response option" where
  "decode_response m = Option.bind (string_field m ''id'') (\<lambda>i. Option.bind (int_field m ''created_at'') (\<lambda>c. Option.bind (string_field m ''model'') (\<lambda>mo.
     Option.bind (opt_struct decode_responses_usage m ''usage'') (\<lambda>u.
     Some \<lparr>rr_ID = i, rr_CreatedAt = c, rr_Model = mo, rr_Usage = u, rr_Error = floats (obj_get m ''error'')\<rparr>))))"

definition decode_api_error :: "obj \<Rightarrow> (string \<times> string \<times> string) option" where
  "decode_api_error m = Option.bind (string_field m ''message'') (\<lambda>msg. Option.bind (string_field m ''code'') (\<lambda>c. Option.bind (string_field m ''type'') (\<lambda>t.
     Some (msg, c, t))))"

definition decode_responses_event :: "string \<Rightarrow> responses_event option" where
  "decode_responses_event data = Option.bind (case json_parse data of Some (AObj m) \<Rightarrow> Some m | Some ANil \<Rightarrow> Some [] | _ \<Rightarrow> None) (\<lambda>m.
     Option.bind (string_field m ''type'') (\<lambda>t. Option.bind (string_field m ''delta'') (\<lambda>dl. Option.bind (string_field m ''text'') (\<lambda>tx.
     Option.bind (opt_struct decode_item m ''item'') (\<lambda>it. Option.bind (string_field m ''item_id'') (\<lambda>iid.
     Option.bind (opt_struct decode_response m ''response'') (\<lambda>rs. Option.bind (opt_struct decode_api_error m ''error'') (\<lambda>er.
     Some \<lparr>re_Type = t, re_Delta = dl, re_Text = tx, re_Arguments = flexibleJSONString data m ''arguments'', re_Item = it, re_ItemID = iid,
       re_Response = rs, re_Error = er, re_Annotation = floats (obj_get m ''annotation'')\<rparr>))))))))"

subsection \<open>Events of other kinds\<close>

fun nestedStringFromMap :: "any \<Rightarrow> string list \<Rightarrow> string" where
  "nestedStringFromMap v [] = (case v of AString s \<Rightarrow> trim_space s | _ \<Rightarrow> [])"
| "nestedStringFromMap v (k # ks) = (case v of AObj m \<Rightarrow> nestedStringFromMap (obj_get m k) ks | _ \<Rightarrow> [])"

definition isKnownResponsesStreamEvent :: "string \<Rightarrow> bool" where
  "isKnownResponsesStreamEvent eventName \<longleftrightarrow> eventName \<in> {''response.created'', ''response.in_progress'', ''response.completed'', ''response.incomplete'',
     ''response.error'', ''response.failed'', ''response.output_text.delta'', ''response.output_text.done'', ''response.refusal.delta'', ''response.refusal.done'',
     ''response.output_text.annotation.added'', ''response.reasoning_summary_text.delta'', ''response.reasoning_text.delta'', ''response.reasoning_delta'',
     ''response.reasoning_summary.delta'', ''response.reasoning.encrypted_content.delta'', ''response.reasoning.encrypted_content.done'',
     ''response.function_call_arguments.delta'', ''response.function_call_arguments.done''}"

definition kind_tokens :: "(string list \<times> string) list" where
  "kind_tokens = [([''function_call_output'', ''tool_result''], ''tool_result''), ([''mcp''], ''mcp''), ([''approval'', ''authorization''], ''approval''),
     ([''computer''], ''computer_use''), ([''web_search''], ''web_search''), ([''shell'', ''terminal'', ''command''], ''shell''),
     ([''apply_patch'', ''patch''], ''patch''), ([''file''], ''file''), ([''code_interpreter'', ''code_execution''], ''code_execution''),
     ([''image_generation'', ''partial_image'', ''image''], ''image''), ([''audio''], ''audio''), ([''transcript''], ''transcript''), ([''todo''], ''todo''),
     ([''plan''], ''plan''), ([''subagent''], ''subagent'')]"

definition advancedKindFromTokens :: "string \<Rightarrow> string" where
  "advancedKindFromTokens tokens = (case find (\<lambda>(words, kind). list_ex (str_contains tokens) words) kind_tokens of
      Some (words, kind) \<Rightarrow> kind | None \<Rightarrow> ''provider_event'')"

definition advancedPhaseFromResponsesStreamEvent :: "string \<Rightarrow> string" where
  "advancedPhaseFromResponsesStreamEvent eventName0 =
     (let eventName = to_lower (trim_space eventName0); ends_in = list_ex (has_suffix eventName) in
      if ends_in [''.added'', ''.created'', ''.started'', ''_started''] then ''started''
      else if ends_in [''.delta'', ''_delta'', ''.partial_image'', ''.in_progress''] then ''delta''
      else if ends_in [''.done'', ''_done'', ''.completed''] then ''done''
      else if ends_in [''.failed'', ''_failed'', ''.error''] then ''failed''
      else ''event'')"

definition advancedKindFromResponsesStreamEvent :: "responses_event \<Rightarrow> obj \<Rightarrow> string option" where
  "advancedKindFromResponsesStreamEvent ev raw =
     (let eventName = to_lower (trim_space (re_Type ev));
          own = (case re_Item ev of None \<Rightarrow> [] | Some it \<Rightarrow> to_lower (trim_space (ri_Type it)));
          itemType = (if own = [] then to_lower (trim_space (nestedStringFromMap (AObj raw) [''item'', ''type''])) else own);
          partType = to_lower (trim_space (nestedStringFromMap (AObj raw) [''part'', ''type'']))
      in if has_prefix eventName ''response.output_item.'' then
           (if itemType \<in> {[], ''message'', ''function_call''} then None else Some (advancedKindFromTokens (eventName @ '' '' @ itemType)))
         else if has_prefix eventName ''response.content_part.'' then
           (if partType \<in> {[], ''output_text'', ''refusal''} then None else Some (advancedKindFromTokens (eventName @ '' '' @ partType)))
         else if isKnownResponsesStreamEvent eventName then None
         else if has_prefix eventName ''response.'' then Some (advancedKindFromTokens (eventName @ '' '' @ itemType @ '' '' @ partType))
         else None)"

text \<open>The untyped view is nil for null.\<close>

definition advancedEventFromResponsesStreamEvent :: "responses_event \<Rightarrow> obj option \<Rightarrow> stream_event option" where
  "advancedEventFromResponsesStreamEvent ev raw0 =
     (let eventName = trim_space (re_Type ev) in
      case raw0 of
        None \<Rightarrow> None
      | Some raw \<Rightarrow>
          if eventName = [] then None
          else case advancedKindFromResponsesStreamEvent ev raw of
              None \<Rightarrow> None
            | Some kind \<Rightarrow> Some ((event_of EvAdvanced)\<lparr>ev_AdvancedKind := kind, ev_AdvancedPhase := advancedPhaseFromResponsesStreamEvent eventName,
                ev_AdvancedEventName := eventName, ev_AdvancedPayload := Some (sanitizeAdvancedMap raw),
                ev_ToolCallID := nonEmptyString [re_ItemID ev, nestedStringFromMap (AObj raw) [''item'', ''call_id''],
                  nestedStringFromMap (AObj raw) [''item'', ''id''], nestedStringFromMap (AObj raw) [''call_id'']],
                ev_ToolCallName := nonEmptyString [nestedStringFromMap (AObj raw) [''item'', ''name''], nestedStringFromMap (AObj raw) [''name'']]\<rparr>))"

definition responsesAdvancedStreamEvent :: "string \<Rightarrow> responses_event \<Rightarrow> stream_event list option" where
  "responsesAdvancedStreamEvent data ev = (case json_parse data of
      Some (AObj m) \<Rightarrow> Some (case advancedEventFromResponsesStreamEvent ev (Some (as_obj (floats (AObj m)))) of None \<Rightarrow> [] | Some e \<Rightarrow> [e])
    | Some ANil \<Rightarrow> Some (case advancedEventFromResponsesStreamEvent ev None of None \<Rightarrow> [] | Some e \<Rightarrow> [e])
    | _ \<Rightarrow> None)"

definition reasoningKindFromResponsesEvent :: "string \<Rightarrow> string" where
  "reasoningKindFromResponsesEvent eventName =
     (if str_contains eventName ''encrypted_content'' then ''encrypted_reasoning''
      else if str_contains eventName ''summary'' then ''reasoning_summary'' else ''reasoning'')"

definition errorMessageFromResponsesStreamEvent :: "(float64 \<Rightarrow> string) \<Rightarrow> responses_event \<Rightarrow> string" where
  "errorMessageFromResponsesStreamEvent fmt ev = (case re_Error ev of
      Some (message, code, t) \<Rightarrow> nonEmptyString [message, code, t, re_Type ev]
    | None \<Rightarrow>
        let encoded = (case re_Response ev of
              None \<Rightarrow> None
            | Some r \<Rightarrow> if rr_Error r = ANil then None else json_encode fmt (rr_Error r))
        in case encoded of
            Some s \<Rightarrow> if s \<noteq> [] then s else nonEmptyString [re_Type ev, ''upstream stream failed'']
          | None \<Rightarrow> nonEmptyString [re_Type ev, ''upstream stream failed''])"

subsection \<open>Decoding a line\<close>

text \<open>The maps of the decoder are created with the first line that has data; a missing entry reads as the empty text.\<close>

record responses_decoder =
  rd_toolCallIDByItemID :: "(string \<times> string) list"
  rd_toolCallNameByCallID :: "(string \<times> string) list"
  rd_toolCallArgsByCallID :: "(string \<times> string) list"

definition new_responses_decoder :: responses_decoder where
  "new_responses_decoder = \<lparr>rd_toolCallIDByItemID = [], rd_toolCallNameByCallID = [], rd_toolCallArgsByCallID = []\<rparr>"

definition entry_of :: "(string \<times> string) list \<Rightarrow> string \<Rightarrow> string" where
  "entry_of m k = (case map_of m k of None \<Rightarrow> [] | Some v \<Rightarrow> v)"

definition args_of :: "responses_decoder \<Rightarrow> string \<Rightarrow> string" where
  "args_of d callID = entry_of (rd_toolCallArgsByCallID d) callID"

definition set_args :: "string \<Rightarrow> string \<Rightarrow> responses_decoder \<Rightarrow> responses_decoder" where
  "set_args callID a d = d\<lparr>rd_toolCallArgsByCallID := AList.update callID a (rd_toolCallArgsByCallID d)\<rparr>"

text \<open>The part of a snapshot of the arguments that is new; a snapshot that does not extend what is known is passed on as a whole.\<close>

definition args_delta :: "string \<Rightarrow> string \<Rightarrow> string" where
  "args_delta prev nxt = (if has_prefix nxt prev then drop (length prev) nxt else nxt)"

definition tool_event :: "string \<Rightarrow> string \<Rightarrow> string \<Rightarrow> stream_event" where
  "tool_event callID name delta = (event_of EvToolCallDelta)\<lparr>ev_ToolCallID := callID, ev_ToolCallName := name, ev_ToolCallArgumentsDelta := delta\<rparr>"

definition item_call_id :: "responses_item \<Rightarrow> string" where
  "item_call_id it = (if trim_space (ri_CallID it) = [] then trim_space (ri_ID it) else trim_space (ri_CallID it))"

definition decode_function_item :: "responses_item \<Rightarrow> responses_decoder \<Rightarrow> stream_event list \<times> responses_decoder" where
  "decode_function_item it d0 =
     (let callID = item_call_id it;
          d1 = (if ri_ID it \<noteq> [] \<and> callID \<noteq> [] then d0\<lparr>rd_toolCallIDByItemID := AList.update (ri_ID it) callID (rd_toolCallIDByItemID d0)\<rparr> else d0);
          name = trim_space (ri_Name it);
          d2 = (if name \<noteq> [] then d1\<lparr>rd_toolCallNameByCallID := AList.update callID name (rd_toolCallNameByCallID d1)\<rparr> else d1);
          nextArgs = ri_Arguments it
      in if nextArgs = [] then ([tool_event callID name []], d2)
         else ([tool_event callID name (args_delta (args_of d2 callID) nextArgs)], set_args callID nextArgs d2))"

definition event_call_id :: "responses_event \<Rightarrow> responses_decoder \<Rightarrow> string" where
  "event_call_id ev d = (let known = trim_space (entry_of (rd_toolCallIDByItemID d) (re_ItemID ev)) in if known = [] then trim_space (re_ItemID ev) else known)"

definition decode_arguments_delta :: "responses_event \<Rightarrow> responses_decoder \<Rightarrow> stream_event list \<times> responses_decoder" where
  "decode_arguments_delta ev d =
     (let callID = event_call_id ev d
      in ([tool_event callID (entry_of (rd_toolCallNameByCallID d) callID) (re_Delta ev)], set_args callID (args_of d callID @ re_Delta ev) d))"

definition decode_arguments_done :: "responses_event \<Rightarrow> responses_decoder \<Rightarrow> stream_event list \<times> responses_decoder" where
  "decode_arguments_done ev d =
     (let callID = event_call_id ev d; nextArgs = trim_space (re_Arguments ev); prevArgs = args_of d callID
      in if nextArgs = [] \<or> nextArgs = prevArgs then ([], d)
         else ([tool_event callID (entry_of (rd_toolCallNameByCallID d) callID) (args_delta prevArgs nextArgs)], set_args callID nextArgs d))"

definition usage_events :: "responses_event \<Rightarrow> stream_event list" where
  "usage_events ev = (case re_Response ev of
      None \<Rightarrow> []
    | Some r \<Rightarrow> (case rr_Usage r of None \<Rightarrow> [] | Some u \<Rightarrow> [(event_of EvUsage)\<lparr>ev_Usage := completionUsageFromResponsesUsage u\<rparr>]))"

definition response_meta :: "responses_event \<Rightarrow> stream_event \<Rightarrow> stream_event" where
  "response_meta ev e = (case re_Response ev of
      None \<Rightarrow> e
    | Some r \<Rightarrow> e\<lparr>ev_ID := rr_ID r, ev_Model := rr_Model r, ev_CreatedAt := rr_CreatedAt r\<rparr>)"

definition decode_response_event :: "(float64 \<Rightarrow> string) \<Rightarrow> string \<Rightarrow> responses_event \<Rightarrow> responses_decoder \<Rightarrow> stream_event list option \<times> responses_decoder" where
  "decode_response_event fmt data ev d =
     (let t = re_Type ev; advanced = (responsesAdvancedStreamEvent data ev, d) in
      if t = ''response.created'' then (Some (if re_Response ev = None then [] else [response_meta ev (event_of EvCreated)]), d)
      else if t = ''response.output_text.delta'' \<or> t = ''response.refusal.delta'' then (Some [(event_of EvTextDelta)\<lparr>ev_Delta := re_Delta ev\<rparr>], d)
      else if t = ''response.refusal.done'' then
        (let s = nonEmptyString [re_Text ev, re_Delta ev] in (Some (if s \<noteq> [] then [(event_of EvTextDelta)\<lparr>ev_Delta := s\<rparr>] else []), d))
      else if t = ''response.output_text.annotation.added'' then (Some [(event_of EvAnnotationAdded)\<lparr>ev_Annotation := re_Annotation ev\<rparr>], d)
      else if t \<in> {''response.reasoning_summary_text.delta'', ''response.reasoning_text.delta'', ''response.reasoning_delta'', ''response.reasoning_summary.delta'',
          ''response.reasoning.encrypted_content.delta'', ''response.reasoning.encrypted_content.done''}
        then (Some [(event_of EvReasoningDelta)\<lparr>ev_Delta := re_Delta ev, ev_ReasoningKind := reasoningKindFromResponsesEvent t, ev_ReasoningEventName := t\<rparr>], d)
      else if t = ''response.output_item.added'' \<or> t = ''response.output_item.done'' then
        (case re_Item ev of
           None \<Rightarrow> advanced
         | Some it \<Rightarrow> if ri_Type it \<noteq> ''function_call'' then advanced else apfst Some (decode_function_item it d))
      else if t = ''response.function_call_arguments.delta'' then apfst Some (decode_arguments_delta ev d)
      else if t = ''response.function_call_arguments.done'' then apfst Some (decode_arguments_done ev d)
      else if t = ''response.completed'' then (Some (usage_events ev @ [response_meta ev (event_of EvCompleted)]), d)
      else if t = ''response.incomplete'' then
        (Some (usage_events ev @ [(response_meta ev (event_of EvIncomplete))\<lparr>ev_FinishReason := ''length'', ev_ErrorMessage := ''response incomplete''\<rparr>]), d)
      else if t = ''response.error'' \<or> t = ''response.failed'' then
        (Some [(event_of EvError)\<lparr>ev_ErrorMessage := errorMessageFromResponsesStreamEvent fmt ev\<rparr>], d)
      else if t = ''response.in_progress'' then (Some [], d)
      else advanced)"

definition responses_DecodeLine :: "(float64 \<Rightarrow> string) \<Rightarrow> string \<Rightarrow> responses_decoder \<Rightarrow> stream_event list option \<times> responses_decoder" where
  "responses_DecodeLine fmt line d = (case sseDataFromLine line of
      NoData \<Rightarrow> (Some [], d)
    | DoneData \<Rightarrow> (Some [event_of EvCompleted], d)
    | Data data \<Rightarrow> (case decode_responses_event data of None \<Rightarrow> (None, d) | Some ev \<Rightarrow> decode_response_event fmt data ev d))"

section \<open>The Anthropic decoder\<close>

record anthropic_usage =
  au_InputTokens :: int
  au_OutputTokens :: int
  au_CacheCreationInputTokens :: int
  au_CacheReadInputTokens :: int
  au_CacheCreation :: "(int \<times> int) option"

definition decode_anthropic_usage :: "obj \<Rightarrow> anthropic_usage option" where
  "decode_anthropic_usage m = Option.bind (int_field m ''input_tokens'') (\<lambda>i. Option.bind (int_field m ''output_tokens'') (\<lambda>o'.
     Option.bind (int_field m ''cache_creation_input_tokens'') (\<lambda>c. Option.bind (int_field m ''cache_read_input_tokens'') (\<lambda>r.
     Option.bind (opt_struct (\<lambda>b. Option.bind (int_field b ''ephemeral_5m_input_tokens'') (\<lambda>x. Option.bind (int_field b ''ephemeral_1h_input_tokens'') (\<lambda>y.
       Some (x, y)))) m ''cache_creation'') (\<lambda>b.
     Some \<lparr>au_InputTokens = i, au_OutputTokens = o', au_CacheCreationInputTokens = c, au_CacheReadInputTokens = r, au_CacheCreation = b\<rparr>)))))"

definition gatewayUsageFromAnthropicUsage :: "anthropic_usage \<Rightarrow> gateway_usage" where
  "gatewayUsageFromAnthropicUsage u =
     (let (c5, c1) = (case au_CacheCreation u of Some b \<Rightarrow> b | None \<Rightarrow> (au_CacheCreationInputTokens u, 0));
          both = wrap64 (c5 + c1);
          created = (if both = 0 then au_CacheCreationInputTokens u else both);
          prompt = wrap64 (au_InputTokens u + au_CacheReadInputTokens u + created)
      in zero_usage\<lparr>gu_PromptTokens := prompt, gu_CompletionTokens := au_OutputTokens u, gu_TotalTokens := wrap64 (prompt + au_OutputTokens u),
        gu_CachedPromptTokens := au_CacheReadInputTokens u, gu_CacheCreationInputTokens := created, gu_CacheCreation5mInputTokens := c5,
        gu_CacheCreation1hInputTokens := c1\<rparr>)"

definition completionUsageFromGatewayUsage :: "gateway_usage \<Rightarrow> gateway_usage" where
  "completionUsageFromGatewayUsage u = normalized (zero_usage\<lparr>gu_PromptTokens := gu_PromptTokens u, gu_CompletionTokens := gu_CompletionTokens u,
     gu_TotalTokens := gu_TotalTokens u, gu_CachedPromptTokens := gu_CachedPromptTokens u, gu_CacheWriteTokens := gu_CacheWriteTokens u,
     gu_CacheCreationInputTokens := gu_CacheCreationInputTokens u, gu_ReasoningTokens := gu_ReasoningTokens u\<rparr>)"

definition reports_input :: "gateway_usage \<Rightarrow> bool" where
  "reports_input u \<longleftrightarrow> gu_PromptTokens u > 0 \<or> gu_CachedPromptTokens u > 0 \<or> gu_CacheCreationInputTokens u > 0"

definition mergeAnthropicStreamUsage :: "gateway_usage \<Rightarrow> gateway_usage \<Rightarrow> gateway_usage" where
  "mergeAnthropicStreamUsage current delta =
     (let a = (if reports_input delta
               then current\<lparr>gu_PromptTokens := gu_PromptTokens delta, gu_CachedPromptTokens := gu_CachedPromptTokens delta,
                 gu_CacheCreationInputTokens := gu_CacheCreationInputTokens delta, gu_CacheCreation5mInputTokens := gu_CacheCreation5mInputTokens delta,
                 gu_CacheCreation1hInputTokens := gu_CacheCreation1hInputTokens delta\<rparr> else current);
          b = (if gu_CompletionTokens delta > 0 then a\<lparr>gu_CompletionTokens := gu_CompletionTokens delta\<rparr> else a)
      in normalized (b\<lparr>gu_TotalTokens := 0\<rparr>))"

definition anthropicStopReasonToFinishReason :: "string \<Rightarrow> string" where
  "anthropicStopReasonToFinishReason reason =
     (let r = trim_space reason in
      if r = ''max_tokens'' then ''length'' else if r = ''tool_use'' then ''tool_calls'' else if r \<in> {''stop_sequence'', ''end_turn''} then ''stop'' else r)"

definition anthropicStreamErrorMessage :: "obj option \<Rightarrow> string" where
  "anthropicStreamErrorMessage v = (case v of
      None \<Rightarrow> ''anthropic stream returned an error''
    | Some m \<Rightarrow> nonEmptyString [anyString (obj_get m ''message''), anyString (obj_get m ''type''), ''anthropic stream returned an error''])"

record anthropic_decoder =
  ad_responseID :: string
  ad_model :: string
  ad_stopReason :: string
  ad_usage :: gateway_usage
  ad_toolIDByIndex :: "(int \<times> string) list"
  ad_toolNameByIndex :: "(int \<times> string) list"
  ad_thinkingByIndex :: "int list"

definition new_anthropic_decoder :: anthropic_decoder where
  "new_anthropic_decoder = \<lparr>ad_responseID = [], ad_model = [], ad_stopReason = [], ad_usage = zero_usage, ad_toolIDByIndex = [], ad_toolNameByIndex = [], ad_thinkingByIndex = []\<rparr>"

record anthropic_event =
  ae_Type :: string
  ae_Index :: int
  ae_Message :: obj
  ae_ContentBlock :: obj
  ae_Delta :: obj
  ae_Usage :: anthropic_usage
  ae_Error :: "obj option"

text \<open>A field of the type \<open>map[string]any\<close>.\<close>

definition map_field :: "obj \<Rightarrow> string \<Rightarrow> obj option option" where
  "map_field m k = map_option (map_option (\<lambda>o'. as_obj (floats (AObj o')))) (opt_obj_field m k)"

definition decode_anthropic_event :: "string \<Rightarrow> anthropic_event option" where
  "decode_anthropic_event data = Option.bind (case json_parse data of Some (AObj m) \<Rightarrow> Some m | Some ANil \<Rightarrow> Some [] | _ \<Rightarrow> None) (\<lambda>m.
     Option.bind (string_field m ''type'') (\<lambda>t. Option.bind (int_field m ''index'') (\<lambda>i. Option.bind (map_field m ''message'') (\<lambda>msg.
     Option.bind (map_field m ''content_block'') (\<lambda>cb. Option.bind (map_field m ''delta'') (\<lambda>dl. Option.bind (obj_field m ''usage'') (\<lambda>uo.
     Option.bind (decode_anthropic_usage uo) (\<lambda>u. Option.bind (map_field m ''error'') (\<lambda>er.
     let nil = (\<lambda>x. case x of None \<Rightarrow> [] | Some o' \<Rightarrow> o') in
     Some \<lparr>ae_Type = t, ae_Index = i, ae_Message = nil msg, ae_ContentBlock = nil cb, ae_Delta = nil dl, ae_Usage = u, ae_Error = er\<rparr>)))))))))"

text \<open>A usage report inside a map is encoded again and decoded into the struct.\<close>

definition usage_of_map :: "(float64 \<Rightarrow> string) \<Rightarrow> obj \<Rightarrow> anthropic_usage option" where
  "usage_of_map fmt m = (case map_of m ''usage'' of
      None \<Rightarrow> None
    | Some v \<Rightarrow> Option.bind (Option.bind (json_encode fmt v) json_parse) (\<lambda>x. case x of AObj o' \<Rightarrow> decode_anthropic_usage o' | ANil \<Rightarrow> decode_anthropic_usage [] | _ \<Rightarrow> None))"

definition input_reported :: "anthropic_usage \<Rightarrow> bool" where
  "input_reported u \<longleftrightarrow> au_InputTokens u > 0 \<or> au_CacheReadInputTokens u > 0 \<or> au_CacheCreationInputTokens u > 0"

definition take_report :: "anthropic_usage \<Rightarrow> anthropic_decoder \<Rightarrow> stream_event list \<times> anthropic_decoder" where
  "take_report u d =
     (let d' = d\<lparr>ad_usage := mergeAnthropicStreamUsage (ad_usage d) (gatewayUsageFromAnthropicUsage u)\<rparr>
      in ([(event_of EvUsage)\<lparr>ev_Usage := completionUsageFromGatewayUsage (ad_usage d')\<rparr>], d'))"

definition decode_message_start :: "(float64 \<Rightarrow> string) \<Rightarrow> int \<Rightarrow> anthropic_event \<Rightarrow> anthropic_decoder \<Rightarrow> stream_event list \<times> anthropic_decoder" where
  "decode_message_start fmt now ev d0 =
     (let d = d0\<lparr>ad_responseID := trim_space (anyString (obj_get (ae_Message ev) ''id'')), ad_model := trim_space (anyString (obj_get (ae_Message ev) ''model''))\<rparr>;
          created = (event_of EvCreated)\<lparr>ev_ID := ad_responseID d, ev_Model := ad_model d, ev_CreatedAt := now\<rparr>
      in case usage_of_map fmt (ae_Message ev) of
           None \<Rightarrow> ([created], d)
         | Some u \<Rightarrow> if input_reported u then apfst (Cons created) (take_report u d) else ([created], d))"

definition note_thinking :: "int \<Rightarrow> anthropic_decoder \<Rightarrow> anthropic_decoder" where
  "note_thinking i d = d\<lparr>ad_thinkingByIndex := List.insert i (ad_thinkingByIndex d)\<rparr>"

definition decode_block_start :: "anthropic_event \<Rightarrow> anthropic_decoder \<Rightarrow> stream_event list \<times> anthropic_decoder" where
  "decode_block_start ev d =
     (let t = trim_space (anyString (obj_get (ae_ContentBlock ev) ''type'')); i = ae_Index ev in
      if t = ''thinking'' then ([], note_thinking i d)
      else if t = ''redacted_thinking'' then
        ([(event_of EvReasoningDelta)\<lparr>ev_ReasoningKind := ''thinking_redacted'', ev_ReasoningEventName := ''content_block_start''\<rparr>], note_thinking i d)
      else if t = ''tool_use'' then
        (let callID = trim_space (anyString (obj_get (ae_ContentBlock ev) ''id'')); name = trim_space (anyString (obj_get (ae_ContentBlock ev) ''name'')) in
         ([(tool_event callID name [])\<lparr>ev_ToolCallIndex := i\<rparr>],
          d\<lparr>ad_toolIDByIndex := AList.update i callID (ad_toolIDByIndex d), ad_toolNameByIndex := AList.update i name (ad_toolNameByIndex d)\<rparr>))
      else ([], d))"

definition decode_block_delta :: "anthropic_event \<Rightarrow> anthropic_decoder \<Rightarrow> stream_event list \<times> anthropic_decoder" where
  "decode_block_delta ev d =
     (let t = trim_space (anyString (obj_get (ae_Delta ev) ''type'')); i = ae_Index ev; part = (\<lambda>k. raw_string (obj_get (ae_Delta ev) k));
          reasoning = (\<lambda>kind s. [(event_of EvReasoningDelta)\<lparr>ev_Delta := s, ev_ReasoningKind := kind, ev_ReasoningEventName := ae_Type ev\<rparr>]) in
      if t = ''text_delta'' then ([(event_of EvTextDelta)\<lparr>ev_Delta := part ''text''\<rparr>], d)
      else if t = ''thinking_delta'' then (reasoning ''thinking'' (part ''thinking''), note_thinking i d)
      else if t = ''signature_delta'' then (reasoning ''thinking_signature'' (part ''signature''), note_thinking i d)
      else if t = ''input_json_delta'' then
        ([(tool_event (entry_at (ad_toolIDByIndex d) i) (entry_at (ad_toolNameByIndex d) i) (part ''partial_json''))\<lparr>ev_ToolCallIndex := i\<rparr>], d)
      else ([], d))"

definition decode_message_delta :: "anthropic_event \<Rightarrow> anthropic_decoder \<Rightarrow> stream_event list \<times> anthropic_decoder" where
  "decode_message_delta ev d0 =
     (let d = d0\<lparr>ad_stopReason := trim_space (anyString (obj_get (ae_Delta ev) ''stop_reason''))\<rparr>
      in if au_OutputTokens (ae_Usage ev) > 0 \<or> input_reported (ae_Usage ev) then take_report (ae_Usage ev) d else ([], d))"

definition decode_message_stop :: "anthropic_decoder \<Rightarrow> stream_event list" where
  "decode_message_stop d =
     (let finishReason = anthropicStopReasonToFinishReason (ad_stopReason d)
      in [(event_of (if chatFinishReasonIsIncomplete finishReason then EvIncomplete else EvCompleted))\<lparr>ev_FinishReason := finishReason\<rparr>])"

definition decode_anthropic :: "(float64 \<Rightarrow> string) \<Rightarrow> int \<Rightarrow> anthropic_event \<Rightarrow> anthropic_decoder \<Rightarrow> stream_event list \<times> anthropic_decoder" where
  "decode_anthropic fmt now ev d =
     (let t = ae_Type ev in
      if t = ''message_start'' then decode_message_start fmt now ev d
      else if t = ''content_block_start'' then decode_block_start ev d
      else if t = ''content_block_delta'' then decode_block_delta ev d
      else if t = ''message_delta'' then decode_message_delta ev d
      else if t = ''message_stop'' then (decode_message_stop d, d)
      else if t = ''error'' then ([(event_of EvError)\<lparr>ev_ErrorMessage := anthropicStreamErrorMessage (ae_Error ev)\<rparr>], d)
      else ([], d))"

text \<open>The end mark of other protocols has no data that could be decoded.\<close>

definition anthropic_DecodeLine :: "(float64 \<Rightarrow> string) \<Rightarrow> int \<Rightarrow> string \<Rightarrow> anthropic_decoder \<Rightarrow> stream_event list option \<times> anthropic_decoder" where
  "anthropic_DecodeLine fmt now line d = (case sseDataFromLine line of
      NoData \<Rightarrow> (Some [], d)
    | DoneData \<Rightarrow> (None, d)
    | Data data \<Rightarrow> (case decode_anthropic_event data of None \<Rightarrow> (None, d) | Some ev \<Rightarrow> apfst Some (decode_anthropic fmt now ev d)))"

text \<open>\<open>inspectAnthropicMessagesStreamLine\<close>, for streams that are passed through.\<close>

definition inspectAnthropicMessagesStreamLine :: "(float64 \<Rightarrow> string) \<Rightarrow> string \<Rightarrow> capture \<Rightarrow> capture" where
  "inspectAnthropicMessagesStreamLine fmt line c = (case sseDataFromLine line of
      Data data \<Rightarrow> (case decode_anthropic_event data of
          None \<Rightarrow> c
        | Some ev \<Rightarrow>
            let t = ae_Type ev; delta = gatewayUsageFromAnthropicUsage (ae_Usage ev) in
            if t = ''message_start'' then
              (case usage_of_map fmt (ae_Message ev) of
                 None \<Rightarrow> c
               | Some u \<Rightarrow> c\<lparr>cap_usage := completionUsageFromGatewayUsage (gatewayUsageFromAnthropicUsage u)\<rparr>)
            else if t = ''message_delta'' then
              (if au_OutputTokens (ae_Usage ev) > 0 \<or> input_reported (ae_Usage ev)
               then let a = (if reports_input delta
                       then (cap_usage c)\<lparr>gu_PromptTokens := gu_PromptTokens delta, gu_CachedPromptTokens := gu_CachedPromptTokens delta,
                         gu_CacheCreationInputTokens := gu_CacheCreationInputTokens delta\<rparr> else cap_usage c);
                     b = (if gu_CompletionTokens delta > 0 then a\<lparr>gu_CompletionTokens := gu_CompletionTokens delta\<rparr> else a)
                 in c\<lparr>cap_usage := normalized (b\<lparr>gu_TotalTokens := 0\<rparr>)\<rparr>
               else c)
            else if t = ''message_stop'' then c\<lparr>cap_sawDone := True, cap_streamCompleted := True, cap_endReason := ''done''\<rparr>
            else if t = ''error'' then c\<lparr>cap_endReason := ''upstream_stream_error''\<rparr>
            else c)
    | _ \<Rightarrow> c)"

section \<open>Arguments of tool calls\<close>

text \<open>The events of the lines that decode.\<close>

fun responses_events :: "(float64 \<Rightarrow> string) \<Rightarrow> string list \<Rightarrow> responses_decoder \<Rightarrow> stream_event list \<times> responses_decoder" where
  "responses_events fmt [] d = ([], d)"
| "responses_events fmt (l # ls) d =
     (let (evs, d') = responses_DecodeLine fmt l d; (evs', d'') = responses_events fmt ls d'
      in ((case evs of None \<Rightarrow> [] | Some x \<Rightarrow> x) @ evs', d''))"

text \<open>The snapshot of the arguments of a call that an event carries, and whether it extends what is known of them.\<close>

definition snapshot :: "responses_event \<Rightarrow> responses_decoder \<Rightarrow> (string \<times> string) option" where
  "snapshot ev d =
     (if re_Type ev = ''response.output_item.added'' \<or> re_Type ev = ''response.output_item.done'' then
        (case re_Item ev of
           Some it \<Rightarrow> if ri_Type it = ''function_call'' \<and> ri_Arguments it \<noteq> [] then Some (item_call_id it, ri_Arguments it) else None
         | None \<Rightarrow> None)
      else if re_Type ev = ''response.function_call_arguments.done'' \<and> trim_space (re_Arguments ev) \<noteq> [] then Some (event_call_id ev d, trim_space (re_Arguments ev))
      else None)"

definition extends_known :: "responses_event \<Rightarrow> responses_decoder \<Rightarrow> bool" where
  "extends_known ev d = (case snapshot ev d of None \<Rightarrow> True | Some (callID, a) \<Rightarrow> has_prefix a (args_of d callID))"

definition line_extends :: "string \<Rightarrow> responses_decoder \<Rightarrow> bool" where
  "line_extends line d = (case sseDataFromLine line of
      Data data \<Rightarrow> (case decode_responses_event data of Some ev \<Rightarrow> extends_known ev d | None \<Rightarrow> True)
    | _ \<Rightarrow> True)"

fun snapshots_extend :: "(float64 \<Rightarrow> string) \<Rightarrow> string list \<Rightarrow> responses_decoder \<Rightarrow> bool" where
  "snapshots_extend fmt [] d = True"
| "snapshots_extend fmt (l # ls) d = (line_extends l d \<and> snapshots_extend fmt ls (snd (responses_DecodeLine fmt l d)))"

text \<open>A step that tells the client of a call what it learns of its arguments.\<close>

definition tells :: "responses_decoder \<Rightarrow> stream_event list \<Rightarrow> responses_decoder \<Rightarrow> bool" where
  "tells d evs d' \<longleftrightarrow> (\<forall>i. i \<noteq> [] \<longrightarrow> args_of d' i = args_of d i @ concat (map (input_part i) evs))"

lemma args_frame [simp]: "args_of (d\<lparr>rd_toolCallIDByItemID := x\<rparr>) = args_of d" "args_of (d\<lparr>rd_toolCallNameByCallID := x\<rparr>) = args_of d"
  "args_of (set_args c a d) = (args_of d)(c := a)"
  by (auto simp: args_of_def set_args_def entry_of_def update_conv')

lemma args_delta_known: "has_prefix a p \<Longrightarrow> p @ args_delta p a = a"
  by (auto simp: args_delta_def has_prefix_def) (metis append_take_drop_id)

lemma input_tool_event: "trim_space c = c \<Longrightarrow> input_part i (tool_event c n x) = (if i \<noteq> [] \<and> c = i then x else [])"
  by (simp add: input_part_def tool_event_def event_of_def)

lemma tells_tool:
  assumes "trim_space c = c" "args_of d' = (args_of d)(c := args_of d c @ x)"
  shows "tells d [tool_event c n x] d'"
  using assms by (auto simp: tells_def input_tool_event)

lemma call_ids_trimmed: "trim_space (item_call_id it) = item_call_id it" "trim_space (event_call_id ev d) = event_call_id ev d"
  by (simp_all add: item_call_id_def event_call_id_def Let_def trim_space_idem)

lemma function_item_tells:
  assumes "ri_Arguments it \<noteq> [] \<longrightarrow> has_prefix (ri_Arguments it) (args_of d (item_call_id it))" "decode_function_item it d = (evs, d')"
  shows "tells d evs d'"
proof (cases "ri_Arguments it = []")
  case True
  then have "evs = [tool_event (item_call_id it) (trim_space (ri_Name it)) []]" "args_of d' = args_of d"
    using assms(2) by (auto simp: decode_function_item_def Let_def)
  then show ?thesis using tells_tool[OF call_ids_trimmed(1), of d' d it "[]"] by simp
next
  case False
  let ?c = "item_call_id it" and ?x = "args_delta (args_of d (item_call_id it)) (ri_Arguments it)"
  have "evs = [tool_event ?c (trim_space (ri_Name it)) ?x]" "args_of d' = (args_of d)(?c := ri_Arguments it)"
    using assms(2) False by (auto simp: decode_function_item_def Let_def)
  then show ?thesis using tells_tool[OF call_ids_trimmed(1), of d' d it ?x] args_delta_known assms(1) False by simp
qed

lemma arguments_tell:
  "decode_arguments_delta ev d = (evs, d') \<Longrightarrow> tells d evs d'"
  "has_prefix (trim_space (re_Arguments ev)) (args_of d (event_call_id ev d)) \<or> trim_space (re_Arguments ev) = [] \<Longrightarrow> decode_arguments_done ev d = (evs, d') \<Longrightarrow> tells d evs d'"
proof -
  let ?c = "event_call_id ev d"
  show "decode_arguments_delta ev d = (evs, d') \<Longrightarrow> tells d evs d'"
    by (auto simp: decode_arguments_delta_def Let_def intro!: tells_tool[OF call_ids_trimmed(2)])
  assume p: "has_prefix (trim_space (re_Arguments ev)) (args_of d ?c) \<or> trim_space (re_Arguments ev) = []" and r: "decode_arguments_done ev d = (evs, d')"
  show "tells d evs d'"
  proof (cases "trim_space (re_Arguments ev) = [] \<or> trim_space (re_Arguments ev) = args_of d ?c")
    case True
    then show ?thesis using r by (auto simp: decode_arguments_done_def Let_def tells_def)
  next
    case False
    then have "evs = [tool_event ?c (entry_of (rd_toolCallNameByCallID d) ?c) (args_delta (args_of d ?c) (trim_space (re_Arguments ev)))]"
      "args_of d' = (args_of d)(?c := args_of d ?c @ args_delta (args_of d ?c) (trim_space (re_Arguments ev)))"
      using r p args_delta_known by (auto simp: decode_arguments_done_def Let_def)
    then show ?thesis using tells_tool[OF call_ids_trimmed(2)] by simp
  qed
qed

lemma tells_nothing: "list_all (\<lambda>e. ev_Type e \<noteq> EvToolCallDelta) evs \<Longrightarrow> tells d evs d"
  by (auto simp: tells_def input_part_def list_all_iff concat_eq_Nil_conv)

lemma advanced_types: "responsesAdvancedStreamEvent data ev = Some evs \<Longrightarrow> list_all (\<lambda>e. ev_Type e \<noteq> EvToolCallDelta) evs"
proof -
  have e: "ev_Type e = EvAdvanced" if "advancedEventFromResponsesStreamEvent ev raw = Some e" for raw e
    using that unfolding advancedEventFromResponsesStreamEvent_def Let_def event_of_def by (simp split: option.splits if_splits) auto
  assume "responsesAdvancedStreamEvent data ev = Some evs"
  then obtain raw where "evs = (case advancedEventFromResponsesStreamEvent ev raw of None \<Rightarrow> [] | Some e \<Rightarrow> [e])"
    unfolding responsesAdvancedStreamEvent_def by (cases "json_parse data") (auto split: any.splits)
  then show ?thesis using e by (simp split: option.split)
qed

lemma plain_types [simp]: "list_all (\<lambda>e. ev_Type e \<noteq> EvToolCallDelta) (usage_events ev)" "ev_Type (response_meta ev e) = ev_Type e" "ev_Type (event_of t) = t"
  by (simp_all add: usage_events_def response_meta_def event_of_def split: option.split)

text \<open>The types of events that carry arguments; all others leave the state as it is.\<close>

definition tool_types :: "string set" where
  "tool_types = {''response.output_item.added'', ''response.output_item.done'', ''response.function_call_arguments.delta'', ''response.function_call_arguments.done''}"

lemma other_events:
  assumes "re_Type ev \<notin> tool_types" "decode_response_event fmt data ev d = (Some evs, d')"
  shows "d' = d \<and> list_all (\<lambda>e. ev_Type e \<noteq> EvToolCallDelta) evs"
  using assms advanced_types[of data ev evs] unfolding decode_response_event_def Let_def tool_types_def
  by (simp split: if_splits) auto

lemma item_event:
  assumes "re_Type ev = ''response.output_item.added'' \<or> re_Type ev = ''response.output_item.done''"
  shows "decode_response_event fmt data ev d = (case re_Item ev of
      None \<Rightarrow> (responsesAdvancedStreamEvent data ev, d)
    | Some it \<Rightarrow> if ri_Type it \<noteq> ''function_call'' then (responsesAdvancedStreamEvent data ev, d) else apfst Some (decode_function_item it d))"
  using assms by (elim disjE) (simp_all only: decode_response_event_def Let_def, simp_all)

lemma arguments_event:
  "re_Type ev = ''response.function_call_arguments.delta'' \<Longrightarrow> decode_response_event fmt data ev d = apfst Some (decode_arguments_delta ev d)"
  "re_Type ev = ''response.function_call_arguments.done'' \<Longrightarrow> decode_response_event fmt data ev d = apfst Some (decode_arguments_done ev d)"
  by (simp_all add: decode_response_event_def Let_def)

lemma event_tells:
  assumes "extends_known ev d" "decode_response_event fmt data ev d = (Some evs, d')"
  shows "tells d evs d'"
proof -
  consider (item) "re_Type ev = ''response.output_item.added'' \<or> re_Type ev = ''response.output_item.done''"
    | (delta) "re_Type ev = ''response.function_call_arguments.delta''" | (all) "re_Type ev = ''response.function_call_arguments.done''"
    | (other) "re_Type ev \<notin> tool_types" unfolding tool_types_def by blast
  then show ?thesis
  proof cases
    case item
    show ?thesis
    proof (cases "\<exists>it. re_Item ev = Some it \<and> ri_Type it = ''function_call''")
      case True
      then obtain it where it: "re_Item ev = Some it" "ri_Type it = ''function_call''" by blast
      then have "decode_function_item it d = (evs, d')" using assms(2) by (cases "decode_function_item it d") (simp add: item_event[OF item])
      moreover have "ri_Arguments it \<noteq> [] \<longrightarrow> has_prefix (ri_Arguments it) (args_of d (item_call_id it))"
        using assms(1) item it by (auto simp: extends_known_def snapshot_def)
      ultimately show ?thesis using function_item_tells by blast
    next
      case False
      then have "responsesAdvancedStreamEvent data ev = Some evs" "d' = d" using assms(2) by (auto simp: item_event[OF item] split: option.splits if_splits)
      then show ?thesis using tells_nothing advanced_types by blast
    qed
  next
    case delta
    then show ?thesis using arguments_tell(1) assms(2) by (cases "decode_arguments_delta ev d") (simp add: arguments_event)
  next
    case all
    then have "has_prefix (trim_space (re_Arguments ev)) (args_of d (event_call_id ev d)) \<or> trim_space (re_Arguments ev) = []"
      using assms(1) by (auto simp: extends_known_def snapshot_def)
    then show ?thesis using arguments_tell(2) assms(2) all by (cases "decode_arguments_done ev d") (simp add: arguments_event)
  next
    case other
    then show ?thesis using other_events[OF other assms(2)] tells_nothing by blast
  qed
qed

lemma apfst_Some [simp]: "apfst Some p \<noteq> (None, x)" "(None, x) \<noteq> apfst Some p"
  by (cases p, simp)+

lemma line_tells:
  assumes "line_extends l d" "responses_DecodeLine fmt l d = (evs, d')"
  shows "tells d (case evs of None \<Rightarrow> [] | Some x \<Rightarrow> x) d'"
proof (cases evs)
  case None
  have "d' = d" if "decode_response_event fmt data ev d = (None, d')" for data ev
    using that unfolding decode_response_event_def Let_def by (auto split: if_splits option.splits)
  then show ?thesis using assms(2) None by (auto simp: responses_DecodeLine_def tells_def split: sse_data.splits option.splits)
next
  case (Some x)
  then show ?thesis using assms event_tells[of _ d fmt _ x d'] tells_nothing[of "[event_of EvCompleted]" d] tells_nothing[of "[]" d]
    by (auto simp: responses_DecodeLine_def line_extends_def split: sse_data.splits option.splits)
qed

lemma lines_tell: "snapshots_extend fmt ls d \<Longrightarrow> responses_events fmt ls d = (evs, d') \<Longrightarrow> tells d evs d'"
proof (induction ls arbitrary: d evs)
  case Nil
  then show ?case by (simp add: tells_def)
next
  case (Cons l ls)
  obtain e1 d1 where l: "responses_DecodeLine fmt l d = (e1, d1)" by fastforce
  obtain e2 where r: "responses_events fmt ls d1 = (e2, d')" and evs: "evs = (case e1 of None \<Rightarrow> [] | Some x \<Rightarrow> x) @ e2"
    using Cons.prems(2) l by (auto split: prod.splits)
  have "tells d (case e1 of None \<Rightarrow> [] | Some x \<Rightarrow> x) d1" using line_tells[OF _ l] Cons.prems(1) by simp
  moreover have "tells d1 e2 d'" using Cons.IH[OF _ r] Cons.prems(1) l by simp
  ultimately show ?case by (simp add: tells_def evs)
qed

section \<open>Properties\<close>

definition data_line :: "string \<Rightarrow> string" where
  "data_line payload = ''data: '' @ payload @ [CHR 0x0A]"

text \<open>A call whose arguments come in two pieces, and then twice as a whole.\<close>

definition demo_call_lines :: "string list" where
  "demo_call_lines = map data_line [
     ''{\"type\":\"response.output_item.added\",\"item\":{\"type\":\"function_call\",\"id\":\"fc1\",\"call_id\":\"c1\",\"name\":\"f\",\"arguments\":\"\"}}'',
     ''{\"type\":\"response.function_call_arguments.delta\",\"item_id\":\"fc1\",\"delta\":\"[1\"}'',
     ''{\"type\":\"response.function_call_arguments.delta\",\"item_id\":\"fc1\",\"delta\":\",2]\"}'',
     ''{\"type\":\"response.function_call_arguments.done\",\"item_id\":\"fc1\",\"arguments\":\"[1,2]\"}'',
     ''{\"type\":\"response.output_item.done\",\"item\":{\"type\":\"function_call\",\"id\":\"fc1\",\"call_id\":\"c1\",\"name\":\"f\",\"arguments\":\"[1,2]\"}}'']"

lemma demo_call_run:
  "snapshots_extend (\<lambda>x. ''0'') demo_call_lines new_responses_decoder"
  "args_of (snd (responses_events (\<lambda>x. ''0'') demo_call_lines new_responses_decoder)) ''c1'' = ''[1,2]''"
  by code_simp+



text \<open>The complete arguments are trimmed before they are compared with what the deltas gave, the deltas are not: after deltas that end in white space
  the whole arguments are sent a second time, and what the client has assembled is not JSON any more.\<close>

definition demo_spaced_lines :: "string list" where
  "demo_spaced_lines = map data_line [
     ''{\"type\":\"response.function_call_arguments.delta\",\"item_id\":\"fc1\",\"delta\":\"[1] \"}'',
     ''{\"type\":\"response.function_call_arguments.done\",\"item_id\":\"fc1\",\"arguments\":\"[1] \"}'']"


section \<open>Usage of Anthropic streams\<close>

fun decode_anthropics :: "(float64 \<Rightarrow> string) \<Rightarrow> int \<Rightarrow> anthropic_event list \<Rightarrow> anthropic_decoder \<Rightarrow> anthropic_decoder" where
  "decode_anthropics fmt now [] d = d"
| "decode_anthropics fmt now (ev # evs) d = decode_anthropics fmt now evs (snd (decode_anthropic fmt now ev d))"

text \<open>A usage with the counts that Anthropic reports.\<close>

definition counts :: "int \<Rightarrow> int \<Rightarrow> int \<Rightarrow> int \<Rightarrow> int \<Rightarrow> int \<Rightarrow> int \<Rightarrow> gateway_usage" where
  "counts p c t r k f h = zero_usage\<lparr>gu_PromptTokens := p, gu_CompletionTokens := c, gu_TotalTokens := t, gu_CachedPromptTokens := r,
     gu_CacheCreationInputTokens := k, gu_CacheCreation5mInputTokens := f, gu_CacheCreation1hInputTokens := h\<rparr>"

lemma counts_fields [simp]: "gu_PromptTokens (counts p c t r k f h) = p" "gu_CompletionTokens (counts p c t r k f h) = c"
  "gu_CachedPromptTokens (counts p c t r k f h) = r" "gu_CacheCreationInputTokens (counts p c t r k f h) = k" "gu_TotalTokens (counts p c t r k f h) = t"
  "gu_CacheCreation5mInputTokens (counts p c t r k f h) = f" "gu_CacheCreation1hInputTokens (counts p c t r k f h) = h"
  "gu_CacheWriteTokens (counts p c t r k f h) = 0" "gu_ReasoningTokens (counts p c t r k f h) = 0"
  by (simp_all add: counts_def zero_usage_def)

lemma counts_updates [simp]: "(counts p c t r k f h)\<lparr>gu_TotalTokens := t'\<rparr> = counts p c t' r k f h" "(counts p c t r k f h)\<lparr>gu_CompletionTokens := c'\<rparr> = counts p c' t r k f h"
  by (simp_all add: counts_def)

lemma normalized_counts:
  assumes "count_ok p" "count_ok c" "0 \<le> t" "count_ok r" "count_ok k" "count_ok f" "count_ok h" "r \<le> p" "k = 0 \<Longrightarrow> f + h = 0" "t = 0 \<or> t = p + c"
  shows "normalized (counts p c t r k f h) = counts p c (p + c) r k (if f = 0 \<and> h = 0 then k else f) h"
proof -
  have "usage_ok (counts p c t r k f h)" using assms by (simp add: usage_ok_def counts_def zero_usage_def count_ok_def)
  note n = normalized_eq[OF this]
  have "norm_prompt (counts p c t r k f h) = p" "norm_total (counts p c t r k f h) = p + c" "norm_written (counts p c t r k f h) = 0"
    "norm_creation (counts p c t r k f h) = k" "norm_5m (counts p c t r k f h) = (if f = 0 \<and> h = 0 then k else f)"
    using assms by (auto simp: norm_prompt_def norm_total_def norm_written_def norm_creation_def norm_5m_def detail_written_def counts_def zero_usage_def count_ok_def Let_def)
  moreover have "norm_cached (counts p c t r k f h) = r"
    using assms by (auto simp: norm_cached_def norm_prompt_def detail_cached_def counts_def zero_usage_def count_ok_def Let_def)
  ultimately show ?thesis unfolding n by (simp add: counts_def zero_usage_def)
qed

text \<open>A report within the limits: counts far below the limit of an integer, and a breakdown of the written tokens that adds up.\<close>

definition small :: "int \<Rightarrow> bool" where
  "small n \<longleftrightarrow> 0 \<le> n \<and> n < 2 ^ 57"

definition report_ok :: "anthropic_usage \<Rightarrow> bool" where
  "report_ok u \<longleftrightarrow> small (au_InputTokens u) \<and> small (au_OutputTokens u) \<and> small (au_CacheCreationInputTokens u) \<and> small (au_CacheReadInputTokens u)
     \<and> (case au_CacheCreation u of None \<Rightarrow> True | Some (f, h) \<Rightarrow> small f \<and> small h \<and> f + h = au_CacheCreationInputTokens u)"

definition prompt_of :: "anthropic_usage \<Rightarrow> int" where
  "prompt_of u = au_InputTokens u + au_CacheReadInputTokens u + au_CacheCreationInputTokens u"

definition split_of :: "anthropic_usage \<Rightarrow> int \<times> int" where
  "split_of u = (case au_CacheCreation u of Some b \<Rightarrow> b | None \<Rightarrow> (au_CacheCreationInputTokens u, 0))"

lemma report_split:
  assumes "report_ok u"
  shows "fst (split_of u) + snd (split_of u) = au_CacheCreationInputTokens u" "small (fst (split_of u))" "small (snd (split_of u))"
  using assms by (auto simp: report_ok_def split_of_def small_def split: option.splits)

lemma gateway_usage_of_report:
  assumes "report_ok u"
  shows "gatewayUsageFromAnthropicUsage u = counts (prompt_of u) (au_OutputTokens u) (prompt_of u + au_OutputTokens u) (au_CacheReadInputTokens u)
    (au_CacheCreationInputTokens u) (fst (split_of u)) (snd (split_of u))"
proof -
  note s = report_split[OF assms]
  have b: "0 \<le> prompt_of u" "prompt_of u < 2 ^ 59" "0 \<le> au_OutputTokens u" "au_OutputTokens u < 2 ^ 57" "0 \<le> au_CacheCreationInputTokens u" "au_CacheCreationInputTokens u < 2 ^ 57"
    using assms by (auto simp: report_ok_def small_def prompt_of_def)
  have w: "wrap64 n = n" if "0 \<le> n" "n < 2 ^ 60" for n using that by (intro wrap64_eqI) auto
  have wrapped: "wrap64 (prompt_of u) = prompt_of u" "wrap64 (prompt_of u + au_OutputTokens u) = prompt_of u + au_OutputTokens u"
    "wrap64 (au_CacheCreationInputTokens u) = au_CacheCreationInputTokens u"
    using b by (auto intro!: w)
  have created: "(if wrap64 (fst (split_of u) + snd (split_of u)) = 0 then au_CacheCreationInputTokens u else wrap64 (fst (split_of u) + snd (split_of u)))
      = au_CacheCreationInputTokens u"
    by (simp add: s(1) wrapped(3))
  show ?thesis
    unfolding gatewayUsageFromAnthropicUsage_def split_of_def[symmetric] Let_def case_prod_unfold created prompt_of_def[symmetric] wrapped(1,2) counts_def ..
qed

lemma report_counts_ok: "report_ok u \<Longrightarrow> count_ok (prompt_of u) \<and> count_ok (au_OutputTokens u) \<and> count_ok (au_CacheReadInputTokens u)
    \<and> count_ok (au_CacheCreationInputTokens u) \<and> count_ok (fst (split_of u)) \<and> count_ok (snd (split_of u)) \<and> au_CacheReadInputTokens u \<le> prompt_of u"
  using report_split[of u] by (auto simp: report_ok_def small_def count_ok_def prompt_of_def)

lemma merge_first:
  assumes "report_ok u" "input_reported u"
  shows "mergeAnthropicStreamUsage zero_usage (gatewayUsageFromAnthropicUsage u) = counts (prompt_of u) (au_OutputTokens u) (prompt_of u + au_OutputTokens u)
    (au_CacheReadInputTokens u) (au_CacheCreationInputTokens u)
    (if split_of u = (0, 0) then au_CacheCreationInputTokens u else fst (split_of u)) (snd (split_of u))"
proof -
  let ?k = "au_CacheCreationInputTokens u"
  note s = report_split[OF assms(1)] and c = report_counts_ok[OF assms(1)]
  have p: "reports_input (gatewayUsageFromAnthropicUsage u)"
    using assms by (auto simp: gateway_usage_of_report[OF assms(1)] reports_input_def input_reported_def prompt_of_def report_ok_def small_def)
  have "mergeAnthropicStreamUsage zero_usage (gatewayUsageFromAnthropicUsage u)
      = normalized (counts (prompt_of u) (au_OutputTokens u) 0 (au_CacheReadInputTokens u) ?k (fst (split_of u)) (snd (split_of u)))"
    using p c unfolding mergeAnthropicStreamUsage_def Let_def
    by (cases "au_OutputTokens u = 0") (simp_all add: gateway_usage_of_report[OF assms(1)] counts_def count_ok_def zero_usage_def)
  also have "\<dots> = counts (prompt_of u) (au_OutputTokens u) (prompt_of u + au_OutputTokens u) (au_CacheReadInputTokens u) ?k
      (if fst (split_of u) = 0 \<and> snd (split_of u) = 0 then ?k else fst (split_of u)) (snd (split_of u))"
    using c s by (intro normalized_counts) auto
  finally show ?thesis by (simp add: prod_eq_iff)
qed

text \<open>The report of the output at the end leaves the input side as it is.\<close>

definition output_only :: "anthropic_usage \<Rightarrow> bool" where
  "output_only u \<longleftrightarrow> au_InputTokens u = 0 \<and> au_CacheReadInputTokens u = 0 \<and> au_CacheCreationInputTokens u = 0 \<and> au_CacheCreation u = None \<and> 0 < au_OutputTokens u
     \<and> au_OutputTokens u < 2 ^ 57"

lemma merge_output:
  assumes "output_only v" "count_ok p" "count_ok r" "count_ok k" "count_ok f" "count_ok h" "r \<le> p" "k = f + h"
  shows "mergeAnthropicStreamUsage (counts p c t r k f h) (gatewayUsageFromAnthropicUsage v) = counts p (au_OutputTokens v) (p + au_OutputTokens v) r k f h"
proof -
  have ok: "report_ok v" using assms(1) by (simp add: output_only_def report_ok_def small_def)
  have g: "gatewayUsageFromAnthropicUsage v = counts 0 (au_OutputTokens v) (au_OutputTokens v) 0 0 0 0"
    using assms(1) unfolding gateway_usage_of_report[OF ok] by (simp add: output_only_def prompt_of_def split_of_def)
  have "mergeAnthropicStreamUsage (counts p c t r k f h) (gatewayUsageFromAnthropicUsage v) = normalized (counts p (au_OutputTokens v) 0 r k f h)"
    using assms(1) unfolding g mergeAnthropicStreamUsage_def Let_def by (simp add: reports_input_def output_only_def)
  also have "\<dots> = counts p (au_OutputTokens v) (p + au_OutputTokens v) r k (if f = 0 \<and> h = 0 then k else f) h"
    using assms by (intro normalized_counts) (auto simp: output_only_def count_ok_def)
  finally show ?thesis using assms(8) by (auto split: if_splits)
qed

lemma completion_counts:
  assumes "count_ok p" "count_ok c" "count_ok r" "count_ok k" "r \<le> p"
  shows "completionUsageFromGatewayUsage (counts p c (p + c) r k f h) = counts p c (p + c) r k k 0"
proof -
  have "completionUsageFromGatewayUsage (counts p c (p + c) r k f h) = normalized (counts p c (p + c) r k 0 0)"
    by (simp add: completionUsageFromGatewayUsage_def counts_def zero_usage_def)
  also have "\<dots> = counts p c (p + c) r k k 0"
    using assms normalized_counts[of p c "p + c" r k 0 0] by (simp add: count_ok_def)
  finally show ?thesis .
qed

lemma other_events_keep_usage:
  assumes "ae_Type ev \<notin> {''message_start'', ''message_delta''}"
  shows "ad_usage (snd (decode_anthropic fmt now ev d)) = ad_usage d"
  using assms by (auto simp: decode_anthropic_def decode_block_start_def decode_block_delta_def note_thinking_def Let_def)

lemma others_keep_usage: "list_all (\<lambda>ev. ae_Type ev \<notin> {''message_start'', ''message_delta''}) evs \<Longrightarrow> ad_usage (decode_anthropics fmt now evs d) = ad_usage d"
proof (induction evs arbitrary: d)
  case (Cons ev evs)
  then show ?case using other_events_keep_usage[of ev fmt now d] by simp
qed simp

text \<open>A report of 100 tokens, 20 more read from the cache and 5 more written for an hour, and then 50 tokens of output.\<close>

definition demo_start :: anthropic_event where
  "demo_start = the (decode_anthropic_event ''{\"type\":\"message_start\",\"message\":{\"id\":\"m\",\"usage\":{\"input_tokens\":100,\"cache_read_input_tokens\":20,\"cache_creation_input_tokens\":5,\"cache_creation\":{\"ephemeral_1h_input_tokens\":5}}}}'')"

definition demo_delta :: anthropic_event where
  "demo_delta = the (decode_anthropic_event ''{\"type\":\"message_delta\",\"delta\":{\"stop_reason\":\"end_turn\"},\"usage\":{\"output_tokens\":50}}'')"

definition demo_report :: anthropic_usage where
  "demo_report = \<lparr>au_InputTokens = 100, au_OutputTokens = 0, au_CacheCreationInputTokens = 5, au_CacheReadInputTokens = 20, au_CacheCreation = Some (0, 5)\<rparr>"

definition plain_float :: "float64 \<Rightarrow> string" where
  "plain_float x = int_text (\<lfloor>x\<rfloor>)"

text \<open>C24. The usage of an Anthropic stream is accumulated over its two reports. An upstream reports the input side with the start of the message and the
  output with its end; whatever comes between, the usage passed on at the end has the prompt (input, read from and written to the cache), the
  output, their total, and the parts of the prompt that were read from and written to the cache. But all written tokens are counted as written for
  five minutes and none as written for an hour, whatever the breakdown of the report said.\<close>

theorem streamed_anthropic_usage:
  assumes "ae_Type start = ''message_start''" and "usage_of_map fmt (ae_Message start) = Some u" and "report_ok u" and "input_reported u"
    and "list_all (\<lambda>ev. ae_Type ev \<notin> {''message_start'', ''message_delta''}) mid"
    and "ae_Type fin = ''message_delta''" and "output_only (ae_Usage fin)"
  shows "map ev_Usage (fst (decode_anthropic fmt now fin (decode_anthropics fmt now (start # mid) new_anthropic_decoder)))
    = [counts (prompt_of u) (au_OutputTokens (ae_Usage fin)) (prompt_of u + au_OutputTokens (ae_Usage fin)) (au_CacheReadInputTokens u)
        (au_CacheCreationInputTokens u) (au_CacheCreationInputTokens u) 0]"
proof -
  let ?v = "ae_Usage fin" and ?k = "au_CacheCreationInputTokens u"
  let ?f = "if split_of u = (0, 0) then ?k else fst (split_of u)"
  note s = report_split[OF assms(3)] and c = report_counts_ok[OF assms(3)]
  define d where "d = decode_anthropics fmt now (start # mid) new_anthropic_decoder"
  have "ad_usage d = ad_usage (snd (decode_anthropic fmt now start new_anthropic_decoder))"
    using others_keep_usage[OF assms(5)] by (simp add: d_def)
  also have "\<dots> = mergeAnthropicStreamUsage zero_usage (gatewayUsageFromAnthropicUsage u)"
    using assms(1,2,4) by (simp add: decode_anthropic_def decode_message_start_def take_report_def new_anthropic_decoder_def Let_def)
  finally have d: "ad_usage d = counts (prompt_of u) (au_OutputTokens u) (prompt_of u + au_OutputTokens u) (au_CacheReadInputTokens u) ?k ?f (snd (split_of u))"
    using merge_first[OF assms(3,4)] by simp
  have k: "?k = ?f + snd (split_of u)" "count_ok ?f" using s c by (auto simp: prod_eq_iff)
  have o: "count_ok (au_OutputTokens ?v)" using assms(7) by (simp add: output_only_def count_ok_def)
  have "fst (decode_anthropic fmt now fin d) = [(event_of EvUsage)\<lparr>ev_Usage := completionUsageFromGatewayUsage (mergeAnthropicStreamUsage (ad_usage d) (gatewayUsageFromAnthropicUsage ?v))\<rparr>]"
    using assms(6,7) by (simp add: decode_anthropic_def decode_message_delta_def take_report_def output_only_def Let_def)
  moreover have "mergeAnthropicStreamUsage (ad_usage d) (gatewayUsageFromAnthropicUsage ?v)
      = counts (prompt_of u) (au_OutputTokens ?v) (prompt_of u + au_OutputTokens ?v) (au_CacheReadInputTokens u) ?k ?f (snd (split_of u))"
    unfolding d using c k by (intro merge_output[OF assms(7)]) auto
  ultimately show ?thesis using completion_counts[of "prompt_of u" "au_OutputTokens ?v" "au_CacheReadInputTokens u" ?k ?f "snd (split_of u)"] c o
    by (simp add: d_def event_of_def)
qed

theorem streamed_anthropic_usage_witness:
  "map ev_Usage (fst (decode_anthropic plain_float 0 demo_delta (decode_anthropics plain_float 0 [demo_start] new_anthropic_decoder))) = [counts 125 50 175 20 5 5 0]"
proof -
  have "ae_Type demo_start = ''message_start''" "usage_of_map plain_float (ae_Message demo_start) = Some demo_report" "report_ok demo_report" "input_reported demo_report"
    "list_all (\<lambda>ev. ae_Type ev \<notin> {''message_start'', ''message_delta''}) []" "ae_Type demo_delta = ''message_delta''" "output_only (ae_Usage demo_delta)"
    by code_simp+
  note run = streamed_anthropic_usage[OF this, of 0]
  have "au_OutputTokens (ae_Usage demo_delta) = 50" by code_simp
  then show ?thesis using run by (simp add: demo_report_def prompt_of_def)
qed



end
