(* ===== verification/Stream_Convert.thy ===== *)
theory Stream_Convert
  imports Stream_Pipeline Stream_Decoders
begin

text \<open>
  The converting loop with its own decoders and encoders, registered in \<open>streamProtocolSpecs\<close>. What holds of the loop with any encoder that
  keeps what it has written is proved once, in the locale \<open>stream_encoder\<close>, which the encoders of chat completions and of Anthropic messages
  satisfy. For an upstream of chat completions and a client of Anthropic messages it is composed with what the encoder guarantees: the client
  reads what the upstream sent.
\<close>

section \<open>Any encoder\<close>

context stream_encoder
begin

lemma fed_grows:
  assumes "po_encode ops = enc" "po_set_capture ops = set_capture" "fed ops e0 evs r e"
  shows "grown out (out e0) e \<and> (evs = [] \<longrightarrow> out e = out e0)"
  using assms(3)
proof induction
  case fed_start
  then show ?case by (simp add: grown_def)
next
  case (fed_note evs r e c)
  then show ?case by (simp add: assms(2) out_set grown_def)
next
  case (fed_event evs e ev r e')
  then show ?case using out_grows[of "out e0" ev] by (auto simp: assms(1) keeps_def)
qed

text \<open>The last event that was fed: after it only the capture was changed.\<close>

lemma fed_last:
  assumes "po_encode ops = enc" "po_set_capture ops = set_capture" "fed ops e0 (evs @ [ev]) r e"
  shows "\<exists>e1 e2. fed ops e0 evs None e1 \<and> enc ev e1 = (r, e2) \<and> out e = out e2"
  using assms(3)
proof (induction "evs @ [ev]" r e rule: fed.induct)
  case (fed_note r e c)
  then show ?case by (simp add: assms(2) out_set)
next
  case (fed_event e r e')
  then show ?case using assms(1) by auto
qed simp

lemma conversion:
  assumes "po_encode ops = enc" "po_capture ops = capture_of" "po_set_capture ops = set_capture"
    "proxyCanonicalStream ops d e0 stops (Some rds) = (c, started, err, e)"
  shows "\<exists>k \<in> completions ops. \<exists>evs. fed ops e0 evs (encode_error err) e \<and> (started \<longleftrightarrow> evs \<noteq> [])
    \<and> prefix evs (pipeline ops (newCanonicalStopSequenceFilter stops) (lines_of rds) d k)
    \<and> (whole_body rds \<and> started \<and> err = None \<and> cap_endReason c \<noteq> ''upstream_stream_incomplete''
        \<longrightarrow> fed ops e0 (pipeline ops (newCanonicalStopSequenceFilter stops) (lines_of rds) d k) None e)"
proof -
  let ?F = "newCanonicalStopSequenceFilter stops"
  let ?s = "\<lparr>px_dec = d, px_enc = e0, px_filter = ?F, px_pre = [], px_preBytes = 0, px_committed = False, px_headers = False\<rparr>"
  obtain err1 s' where l1: "convert_loop ops rds ?s = (err1, s')" by fastforce
  have "proxyCanonicalStream ops d e0 stops (Some rds) = px_give ops s' err1" by (simp only: proxyCanonicalStream_def Let_def option.case l1 prod.case)
  then have loop: "convert_loop ops rds ?s = (err, s')" and give: "c = po_capture ops (px_enc s')" "started = px_headers s'" "e = px_enc s'"
    using assms(4) l1 by (simp_all add: px_give_def)
  have law: "lawful ops" using capture_set assms(2,3) by (simp add: lawful_def)
  have "filt ?F [] = ([], ?F)" by (cases ?F) simp_all
  then have r: "reached ops e0 ?F [] ?s" by (simp add: reached_def point_def fed_start)
  have all: "all_events ops ?F [] ls d k = pipeline ops ?F ls d k" for ls k by (simp add: all_events_def pipeline_def split: prod.split)
  from convert_loop_ends[OF law r loop] show ?thesis unfolding all proxy_state.simps
    by (auto simp: run_ends_def fed_part_def give)
qed

text \<open>Before the response has started nothing is written, and nothing is ever taken back.\<close>

lemma unstarted_silent:
  assumes "po_encode ops = enc" "po_capture ops = capture_of" "po_set_capture ops = set_capture"
    "proxyCanonicalStream ops d e0 stops (Some rds) = (c, started, err, e)"
  shows "(\<not> started \<longrightarrow> out e = out e0) \<and> grown out (out e0) e"
  using conversion[OF assms] fed_grows[OF assms(1,3)] by blast

end

section \<open>From chat completions\<close>

text \<open>\<open>openAIChatStreamDecoder.DecodeLine\<close> on the text of a line.\<close>

definition chat_decode_text :: "(nat \<Rightarrow> string) \<Rightarrow> string \<Rightarrow> chat_decoder \<Rightarrow> stream_event list option \<times> chat_decoder" where
  "chat_decode_text newID line d = (case sseDataFromLine line of
      NoData \<Rightarrow> (Some [], d)
    | DoneData \<Rightarrow> chat_DecodeLine newID DoneMark d
    | Data data \<Rightarrow> (case json_parse data of
          Some (AObj m) \<Rightarrow> chat_DecodeLine newID (Chunk m) d
        | Some ANil \<Rightarrow> chat_DecodeLine newID (Chunk []) d
        | _ \<Rightarrow> (None, d)))"

definition chat_to_anthropic :: "enc_env \<Rightarrow> (nat \<Rightarrow> string) \<Rightarrow> (string \<Rightarrow> capture \<Rightarrow> capture) option \<Rightarrow> (chat_decoder, anth_encoder) proxy_ops" where
  "chat_to_anthropic env newID inspect = \<lparr>po_decode = chat_decode_text newID, po_flush = Some chat_Flush, po_encode = anth_EncodeEvent env,
     po_capture = an_capture, po_set_capture = (\<lambda>c e. e\<lparr>an_capture := c\<rparr>), po_inspect = inspect, po_defer = False, po_synthesize = False,
     po_require_usage = ee_RequireUsage env\<rparr>"

lemma anth_fed_reads:
  assumes "fed (chat_to_anthropic env newID inspect) e0 evs r e" "reads e0" "r = None" "list_all (\<lambda>ev. ev_Type ev \<notin> {EvCompleted, EvIncomplete}) evs"
  shows "reads e \<and> contents e = (an_textBuffer e0 @ concat (map text_of evs), an_thinkingBuffer e0 @ concat (map (thinking_of env ''thinking'') evs),
       an_thinkingSignature e0 @ concat (map (thinking_of env ''thinking_signature'') evs), \<lambda>i. at_Arguments (anth_tool_of i e0) @ concat (map (input_part i) evs))"
  using assms
proof induction
  case fed_start
  then show ?case by (simp add: contents_def)
next
  case (fed_note evs r e c)
  then show ?case by (simp add: chat_to_anthropic_def reads_def)
next
  case (fed_event evs e ev r e')
  have step: "anth_EncodeEvent env ev e = (None, e')" using fed_event by (simp add: chat_to_anthropic_def)
  have nt: "ev_Type ev \<notin> {EvCompleted, EvIncomplete}" using fed_event.prems by simp
  have ih: "reads e" "contents e = (an_textBuffer e0 @ concat (map text_of evs), an_thinkingBuffer e0 @ concat (map (thinking_of env ''thinking'') evs),
       an_thinkingSignature e0 @ concat (map (thinking_of env ''thinking_signature'') evs), \<lambda>i. at_Arguments (anth_tool_of i e0) @ concat (map (input_part i) evs))"
    using fed_event by simp_all
  from encode_reads[OF ih(1) step nt] encode_adds[OF step nt] ih(2) show ?case by (simp add: adds_def contents_def fun_eq_iff)
qed

section \<open>Properties\<close>

lemma result_parts: "fst (snd p) = a \<Longrightarrow> fst (snd (snd p)) = b \<Longrightarrow> \<exists>c e. p = (c, a, b, e)"
  by (cases p) auto

text \<open>A chat completion of two pieces.\<close>

definition demo_chat_reads :: "stream_read list" where
  "demo_chat_reads = [data_read ''{\"id\":\"a\",\"model\":\"m\",\"choices\":[{\"delta\":{\"content\":\"Hel\"}}]}'' ReadMore,
     data_read ''{\"choices\":[{\"delta\":{\"content\":\"lo\"}}]}'' ReadMore,
     data_read ''{\"choices\":[{\"delta\":{},\"finish_reason\":\"stop\"}]}'' ReadMore, data_read ''[DONE]'' ReadMore]"

abbreviation demo_conversion :: "anth_encoder proxy_result" where
  "demo_conversion \<equiv> proxyCanonicalStream (chat_to_anthropic demo_anth_env (\<lambda>_. ''n'') None) new_chat_decoder (newAnthropicMessagesStreamEncoder ''x'' 0 new_capture) []
     (Some demo_chat_reads)"

definition demo_pipeline :: "stream_event list" where
  "demo_pipeline = pipeline (chat_to_anthropic demo_anth_env (\<lambda>_. ''n'') None) (newCanonicalStopSequenceFilter []) (lines_of demo_chat_reads) new_chat_decoder []"

lemma demo_conversion_run:
  "fst (snd demo_conversion) = True" "fst (snd (snd demo_conversion)) = None" "cap_endReason (fst demo_conversion) = ''done''"
  by code_simp+

lemma demo_conversion_events: "map ev_Type demo_pipeline = [EvCreated, EvTextDelta, EvTextDelta, EvCompleted]" "concat (map text_of demo_pipeline) = ''Hello''"
  by code_simp+

text \<open>An upstream that fails before it has sent a line.\<close>

definition demo_failing :: "stream_read list" where
  "demo_failing = [\<lparr>sr_ctx = None, sr_line = [], sr_end = ReadFailed ''reset''\<rparr>]"

definition chat_to_chat :: "enc_env \<Rightarrow> (nat \<Rightarrow> string) \<Rightarrow> (chat_decoder, chat_encoder) proxy_ops" where
  "chat_to_chat env newID = \<lparr>po_decode = chat_decode_text newID, po_flush = Some chat_Flush, po_encode = chat_EncodeEvent env,
     po_capture = ce_capture, po_set_capture = (\<lambda>c e. e\<lparr>ce_capture := c\<rparr>), po_inspect = None, po_defer = False, po_synthesize = False,
     po_require_usage = ee_RequireUsage env\<rparr>"

text \<open>C20. A conversion that has not started has written nothing, so that the gateway may try another candidate. For the encoders of chat
  completions and of Anthropic messages, with any decoder, any options and any upstream: if the loop reports that the response has not started, the
  encoder's output is empty, whether events were held back, a line was malformed, the upstream declared a failure or reading failed; and the events
  that were fed to the encoder are in every case a beginning of what the pipeline of decoding and filtering makes of the upstream's lines.\<close>

theorem unstarted_conversion_wrote_nothing:
  assumes "po_encode ops = anth_EncodeEvent env" "po_capture ops = an_capture" "po_set_capture ops = (\<lambda>c e. e\<lparr>an_capture := c\<rparr>)"
    and "proxyCanonicalStream ops d (newAnthropicMessagesStreamEncoder i now new_capture) stops (Some rds) = (c, started, err, e)"
    and "po_encode ops' = chat_EncodeEvent env'" "po_capture ops' = ce_capture" "po_set_capture ops' = (\<lambda>c e. e\<lparr>ce_capture := c\<rparr>)"
    and "proxyCanonicalStream ops' d' (newOpenAIChatStreamEncoder now new_capture) stops (Some rds) = (c', started', err', e')"
  shows "(\<not> started \<longrightarrow> an_out e = []) \<and> (\<not> started' \<longrightarrow> ce_out e' = [])
    \<and> (\<exists>k \<in> completions ops. \<exists>evs. fed ops (newAnthropicMessagesStreamEncoder i now new_capture) evs (encode_error err) e
         \<and> prefix evs (pipeline ops (newCanonicalStopSequenceFilter stops) (lines_of rds) d k))
    \<and> (\<exists>k \<in> completions ops'. \<exists>evs. fed ops' (newOpenAIChatStreamEncoder now new_capture) evs (encode_error err') e'
         \<and> prefix evs (pipeline ops' (newCanonicalStopSequenceFilter stops) (lines_of rds) d' k))"
proof -
  note a = anth_enc.unstarted_silent[OF assms(1-4)] anth_enc.conversion[OF assms(1-4)]
  note b = chat_enc.unstarted_silent[OF assms(5-8)] chat_enc.conversion[OF assms(5-8)]
  have "an_out (newAnthropicMessagesStreamEncoder i now new_capture) = []" "ce_out (newOpenAIChatStreamEncoder now new_capture) = []"
    by (simp_all add: newAnthropicMessagesStreamEncoder_def newOpenAIChatStreamEncoder_def)
  then show ?thesis using a b by metis
qed

theorem unstarted_conversion_wrote_nothing_witness:
  "\<exists>c e c' e'. proxyCanonicalStream (chat_to_anthropic demo_anth_env (\<lambda>_. ''n'') None) new_chat_decoder (newAnthropicMessagesStreamEncoder ''x'' 0 new_capture) []
       (Some demo_failing) = (c, False, Some (ReadError ''reset''), e) \<and> an_out e = []
     \<and> proxyCanonicalStream (chat_to_chat demo_anth_env (\<lambda>_. ''n'')) new_chat_decoder (newOpenAIChatStreamEncoder 0 new_capture) []
       (Some demo_failing) = (c', False, Some (ReadError ''reset''), e') \<and> ce_out e' = []"
proof -
  let ?a = "proxyCanonicalStream (chat_to_anthropic demo_anth_env (\<lambda>_. ''n'') None) new_chat_decoder (newAnthropicMessagesStreamEncoder ''x'' 0 new_capture) [] (Some demo_failing)"
  let ?b = "proxyCanonicalStream (chat_to_chat demo_anth_env (\<lambda>_. ''n'')) new_chat_decoder (newOpenAIChatStreamEncoder 0 new_capture) [] (Some demo_failing)"
  have x: "fst (snd ?a) = False" "fst (snd (snd ?a)) = Some (ReadError ''reset'')" and y: "fst (snd ?b) = False" "fst (snd (snd ?b)) = Some (ReadError ''reset'')"
    by code_simp+
  obtain c e where ra: "?a = (c, False, Some (ReadError ''reset''), e)" using result_parts[OF x] by (elim exE)
  obtain c' e' where rb: "?b = (c', False, Some (ReadError ''reset''), e')" using result_parts[OF y] by (elim exE)
  have "an_out e = [] \<and> ce_out e' = []"
    using unstarted_conversion_wrote_nothing[OF _ _ _ ra _ _ _ rb, of demo_anth_env demo_anth_env] by (simp add: chat_to_anthropic_def chat_to_chat_def)
  then show ?thesis unfolding ra rb by simp
qed

text \<open>C19. Through the gateway an Anthropic client reads what an upstream of chat completions sent. The whole body is read, and the loop
  ends without an error and does not report it as incomplete. If what the decoder and the stop filter make of the lines is a sequence \<open>es\<close> and then the end of
  the stream, then the events written obey the Anthropic protocol, and what the client has assembled at the end is the text, the thinking that the policy
  passes on, and for every tool call the input, of \<open>es\<close> in their order, although the loop, the filter and the inspection of lines
  change the state between the events.\<close>

theorem chat_upstream_read_by_anthropic_client:
  assumes "proxyCanonicalStream (chat_to_anthropic env newID inspect) new_chat_decoder (newAnthropicMessagesStreamEncoder i now new_capture) stops (Some rds)
      = (c, True, None, e)"
    and "whole_body rds" and "cap_endReason c \<noteq> ''upstream_stream_incomplete''"
    and "pipeline (chat_to_anthropic env newID inspect) (newCanonicalStopSequenceFilter stops) (lines_of rds) new_chat_decoder [] = es @ [fin]"
    and "list_all (\<lambda>ev. ev_Type ev \<notin> {EvCompleted, EvIncomplete}) es" and "ev_Type fin \<in> {EvCompleted, EvIncomplete}"
    and "protocolEventName env EvCompleted ''message_stop'' = ''message_stop''"
  shows "\<exists>cl. anth_read (an_out e) = Some cl \<and> cl_Done cl \<and> list_all (\<lambda>b. \<not> snd b) (cl_Blocks cl)
    \<and> cl_Text cl = concat (map text_of es) \<and> cl_Thinking cl = concat (map (thinking_of env ''thinking'') es)
    \<and> cl_Signature cl = concat (map (thinking_of env ''thinking_signature'') es)
    \<and> (\<forall>i. input_of cl i = concat (map (input_part i) es))"
proof -
  let ?ops = "chat_to_anthropic env newID inspect" and ?new = "newAnthropicMessagesStreamEncoder i now new_capture"
  have o: "po_encode ?ops = anth_EncodeEvent env" "po_capture ?ops = an_capture" "po_set_capture ?ops = (\<lambda>c e. e\<lparr>an_capture := c\<rparr>)" "completions ?ops = {[]}"
    by (simp_all add: chat_to_anthropic_def completions_def)
  have "fed ?ops ?new (es @ [fin]) None e"
    using anth_enc.conversion[OF o(1-3) assms(1)] assms(2-4) o(4) by auto
  then obtain e1 e2 where e1: "fed ?ops ?new es None e1" "anth_EncodeEvent env fin e1 = (None, e2)" "an_out e = an_out e2"
    using anth_enc.fed_last[OF o(1,3)] by blast
  from anth_fed_reads[OF e1(1) new_reads refl assms(5)] have r: "reads e1" and c1: "contents e1 = (concat (map text_of es), concat (map (thinking_of env ''thinking'') es),
       concat (map (thinking_of env ''thinking_signature'') es), \<lambda>i. concat (map (input_part i) es))"
    by (simp_all add: newAnthropicMessagesStreamEncoder_def anth_tool_of_def)
  from finish_read_back[OF r c1 e1(2) assms(6,7)] show ?thesis by (simp add: e1(3))
qed

theorem chat_upstream_read_by_anthropic_client_witness:
  "\<exists>c e cl. demo_conversion = (c, True, None, e) \<and> anth_read (an_out e) = Some cl \<and> cl_Done cl \<and> cl_Text cl = ''Hello''"
proof -
  obtain c e where r: "demo_conversion = (c, True, None, e)" using result_parts[OF demo_conversion_run(1,2)] by blast
  have reason: "cap_endReason c \<noteq> ''upstream_stream_incomplete''" using demo_conversion_run(3) unfolding r by simp
  obtain es fin where p: "demo_pipeline = es @ [fin]" using demo_conversion_events(1) by (cases demo_pipeline rule: rev_cases) auto
  have t: "list_all (\<lambda>ev. ev_Type ev \<notin> {EvCompleted, EvIncomplete}) es" "ev_Type fin = EvCompleted"
    using demo_conversion_events(1) unfolding p by (auto simp: Cons_eq_append_conv)
  have w: "whole_body demo_chat_reads" by (simp add: whole_body_def demo_chat_reads_def data_read_def)
  have n: "protocolEventName demo_anth_env EvCompleted ''message_stop'' = ''message_stop''" by code_simp
  have "text_of fin = []" using t(2) by (simp add: text_of_def)
  then have hello: "concat (map text_of es) = ''Hello''" using demo_conversion_events(2) by (simp add: p)
  from chat_upstream_read_by_anthropic_client[OF r w reason p[unfolded demo_pipeline_def] t(1) _ n] t(2) hello r show ?thesis by auto
qed

section \<open>From Responses\<close>

definition responses_to_chat :: "enc_env \<Rightarrow> (float64 \<Rightarrow> string) \<Rightarrow> (responses_decoder, chat_encoder) proxy_ops" where
  "responses_to_chat env fmt = \<lparr>po_decode = responses_DecodeLine fmt, po_flush = None, po_encode = chat_EncodeEvent env,
     po_capture = ce_capture, po_set_capture = (\<lambda>c e. e\<lparr>ce_capture := c\<rparr>), po_inspect = None, po_defer = True, po_synthesize = False,
     po_require_usage = ee_RequireUsage env\<rparr>"

definition broken_read :: stream_read where
  "broken_read = data_read ''{broken'' ReadMore"


end
