(* ===== verification/Spec2Isabelle.thy ===== *)
theory Spec2Isabelle
  imports Rate_Queue Failover Upstream_Error Stream_Convert
begin

text \<open>
  A verification library for xLyra, a gateway that accepts requests for language models, chooses an
  upstream site, model and credential for each of them, limits and bills the traffic, and takes failing
  upstreams out of the rotation for a while. The sources are the Go packages under
  \<open>server/internal\<close>.

  A request passes these parts. The rate limiter admits it or makes it wait in a queue
  (\<open>ratelimit\<close>); the router finds the canonical model and ranks the sites that offer it
  (\<open>router\<close>, over \<open>catalog\<close>, \<open>site\<close> and the cooldown table of \<open>store\<close>); the gateway takes the
  concurrency slots of the site, the model and the credential, sends the request, decides after a failure
  whether to try the next credential or site and which cooldown the failure causes
  (\<open>gateway\<close>), and computes the cost of what was used. At the end the reservation is settled.

  Theories and what they model:

  \<^item> \<open>Go_Prelude\<close>: the Go types and library functions the code uses (64-bit integers with
    wrap-around, durations, strings, \<open>any\<close> values and JSON, stable sorting with the locale
    \<open>strict_weak_order\<close>).
  \<^item> \<open>Slot_Pool\<close>: the locale \<open>slot_pool\<close>, the contract of a component that bounds how many requests
    run at once; interpreted by the rate limiter (\<open>scope_slots\<close>) and by the upstream limiters
    (\<open>key_slots\<close>).
  \<^item> \<open>Rate_Limit\<close>: \<open>ratelimit/service.go\<close>. The record \<open>service\<close> is the mutex-protected state; \<open>admit\<close>
    is the critical section of \<open>acquire\<close>, \<open>settle\<close> is \<open>Settle\<close>. Shown: the in-flight counter
    is the number of held reservations and stays within the limit, token limits hold (and when
    they do not), refusals change nothing, settlement undoes admission, a changed configuration
    is used at once.
  \<^item> \<open>Rate_Queue\<close>: \<open>ratelimit/queue.go\<close> as a step relation of one goroutine (\<open>q_step\<close>) and of the
    system of all of them (\<open>sys_step\<close>); the locale \<open>turn_queue\<close> is the contract of the queue and \<open>rq\<close>
    its interpretation. Shown: turns are exclusive, the queue is bounded and never orphaned; a wake-up can be
    lost, and a lifted limit still refuses.
  \<^item> \<open>Route_Cooldown\<close>: \<open>store/route_cooldown_repository.go\<close>, the table as a list of rows and the
    queries as data run by \<open>sql_eval\<close>. Shown: what is listed as active, what an activation changes, that
    cooldowns do not pile up.
  \<^item> \<open>Gateway_Config\<close>: \<open>site/gateway_config.go\<close>. Shown: normalisation is idempotent, an accepted update
    is what is read back.
  \<^item> \<open>Model_Key\<close>: the key functions of \<open>catalog/service.go\<close>. Shown: normal forms are fixed points, canonical
    keys are stable except after a dot.
  \<^item> \<open>Router\<close>: \<open>router/service.go\<close>. Shown: exactly the routable rows are offered, in the documented order; the
    plan is an initial segment of it; scores are bounded.
  \<^item> \<open>Pricing\<close>: \<open>gateway/pricing.go\<close> and \<open>pricing_long_context.go\<close>. Shown: normal usage reports, costs
    not negative, every token billed once, the logged parts add up, the long-context rate applied once.
  \<^item> \<open>Gateway_Cooldown\<close>: \<open>gateway/cooldown.go\<close>, \<open>upstream_rate_limit_wait.go\<close>, \<open>failover_budget.go\<close>.
    Shown, across the router and the cooldown table: a failed attempt never takes a route away
    unless the model does not exist upstream; the closed forms of escalation and streaks.
  \<^item> \<open>Concurrency\<close>: \<open>gateway/concurrency.go\<close>. Shown: the limits hold in every interleaving, slots are
    taken together or not at all.
  \<^item> \<open>No_Route\<close>: \<open>gateway/no_route_suppression.go\<close>. Shown: a remembered refusal ends after at most a minute, and the
    delay told to the client is the time until the first cooldown that concerns it ends.
  \<^item> \<open>Inflight\<close>: \<open>inflight/inflight.go\<close>. Shown: the events after a snapshot rebuild the next one (the live view
    \<open>live_view\<close> is the specification), the token accounts agree, finished requests stay as they ended.
  \<^item> \<open>Model_Rules\<close>: \<open>store/api_key_model_rules.go\<close>, \<open>gateway/model_rules.go\<close> and the validation of \<open>auth/service.go\<close>. Shown: the rule
    found is the one of the documented precedence, accepted rules do not depend on their order, what is read from the
    database is well formed.
  \<^item> \<open>Image_Policy\<close>: \<open>gateway/codex_image_policy.go\<close> and the conditions of the image bridge. Shown: a site that does not take the
    image tool does not receive it.
  \<^item> \<open>Credential_Window\<close>: \<open>gateway/grok_credential_selector.go\<close>. Shown: the account used least is selected.
  \<^item> \<open>Execution\<close>: \<open>forwardGatewayRequest\<close> of \<open>gateway/execution.go\<close>, over \<open>Concurrency\<close>, \<open>Credential_Window\<close>, \<open>Inflight\<close> and
    \<open>Gateway_Cooldown\<close>. Shown: an attempt returns all slots and selections it took, uses no credential twice and stops when
    the client has been answered.
  \<^item> \<open>Failover\<close>: \<open>serveEndpoint\<close> of \<open>gateway/handler_chat.go\<close>, over the router, the model rules, the image policy, the rate
    limiter, the registry and \<open>Execution\<close>: planning, passes over the candidates, waits, the soft fallback, settlement, replies. Shown:
    every request is answered, the failover stops when the client has an answer and starts nothing after the budget, the
    reservation is settled once with the tokens served; a delay that overflows is no delay.
  \<^item> \<open>Stream_Events\<close>: the canonical events of \<open>gateway/protocol_canonical_stream.go\<close>, what is captured of a stream, annotations, and
    the steps of an encoder. Shown: annotations hold no value under a key that names a secret.
  \<^item> \<open>Anthropic_Stream\<close>: \<open>anthropicMessagesStreamEncoder\<close> and a client of the protocol as specification. Shown, by a simulation: the
    client can read every event, all blocks are closed at the end, and it has the text, the thinking and the tool inputs of the events.
  \<^item> \<open>Chat_Stream\<close>: \<open>openAIChatStreamEncoder\<close> and \<open>openAIChatStreamDecoder\<close>. Shown: the decoder reads back what the encoder writes,
    up to the trimming of reasoning and the reason of a cut tool call; the usage report without its reasoning tokens.
  \<^item> \<open>Stop_Filter\<close>: \<open>gateway/protocol_stop_sequences.go\<close>. Shown: however the text is cut into deltas, what passes is the text before the
    first occurrence of a stop sequence.
  \<^item> \<open>Go_Json\<close>: \<open>encoding/json\<close> as a parser of byte strings, with the lemma that its fuel is never used up (\<open>json_fuel_enough\<close>).
  \<^item> \<open>Upstream_Failure\<close>: \<open>upstream/failure.go\<close>, the classification of an upstream response, error or message. Shown: the text of an
    HTTP error, logged and read again, has the classification of the response.
  \<^item> \<open>Upstream_Error\<close>: the classification of the gateway (\<open>gateway/upstream_errors.go\<close>) over \<open>Upstream_Failure\<close> and
    \<open>Gateway_Cooldown\<close>. Shown: a limit of a subscription cools the credential and never the site or the model.
  \<^item> \<open>Stream_Lines\<close>: the inspection of one line of a stream and of semantic failures (\<open>gateway/stream_runtime.go\<close>,
    \<open>semantic_failure.go\<close>).
  \<^item> \<open>Stream_Proxy\<close>: \<open>proxyResponsesStreamPassthrough\<close> and \<open>proxyCanonicalStream\<close>, the loops from the upstream body to the client.
    Shown: what has no output yet is held back, so that a stream that fails early can still fail over.
  \<^item> \<open>Stream_Pipeline\<close>: the conversion loop seen as decoder, filter and encoder on the whole stream; the inductive relation \<open>fed\<close> says which events
    have reached the encoder and is the invariant of the loop.
  \<^item> \<open>Stream_Decoders\<close>: the decoders of the Responses and Anthropic protocols and the Anthropic usage reports. Shown: the arguments of a
    call are emitted once; which usage a streamed message is billed with; where both go wrong.
  \<^item> \<open>Stream_Convert\<close>: the composition. Over the locale \<open>stream_encoder\<close> of \<open>Stream_Events\<close>, which the two encoders interpret
    (\<open>chat_enc\<close>, \<open>anth_enc\<close>): a conversion that did not start wrote nothing; an Anthropic client reads, from the text of a chat upstream
    passed through decoder, filter, loop and encoder, exactly that text.

  Choices of the model. \<open>int64\<close> and \<open>int\<close> are integers passed through \<open>wrap64\<close> where the code computes;
  \<open>float64\<close> is a rational number, so rounding and NaN are outside; times are nanoseconds with the zero
  time as 0; strings are byte lists and the trimming and folding functions are those of ASCII; a UUID is its
  text. The database, the clock, random numbers and the formatting of floats are arguments of the
  definitions; an operation that may fail takes its error as an argument or returns a sum. A document
  column is \<open>json_raw\<close>: empty, invalid, or a decoded document. One repository operation reads the
  clock once. An acquisition of the rate limiter reads and refreshes its configuration cache and
  admits in one step. \<open>sort.Slice\<close> is taken as the stable sort, one of the results it allows. Loops are
  structural recursions, except the passes of \<open>serveEndpoint\<close>, which take the fuel \<open>serve_fuel = 62\<close>: a wait lasts a second or more and
  ends within sixty seconds of the start, the fallback of a soft rule adds one pass and the last pass one, so the fuel is never used
  up (\<open>failover_terminates\<close>).

  Streams. A write of an event succeeds or fails as a whole, which an argument decides. Event names, policies and identifiers are
  arguments. Payloads are \<open>any\<close> values, decoded as \<open>json.Unmarshal\<close> fills the structs; a character of a string stands for
  a rune. The parser of \<open>Go_Json\<close> has the fuel \<open>2 * length s + 1\<close>: every call but the first consumes a character or
  follows one that did, so it is not used up. The upstream body is a list of reads (\<open>stream_read\<close>): the line, whether the body ended or failed with it,
  and whether the context had ended before it. What the classification takes from elsewhere (the parsing and formatting of dates and durations, the
  calendar of the local time zone, the JavaScript classifier of a site) are the fields of \<open>class_env\<close> and \<open>up_env\<close>.

  Not modelled: HTTP handling, the conversion of requests and whole responses, the encoders of the Responses and Gemini protocols and the
  Antigravity decoder, access control of API keys, health states and refresh of sites, the database behind the queries, the vendor adapters, the web console.
  These are either dominated by input and output (database, HTTP, vendor services) or large independent translations of documents that no part modelled here
  relies on.
\<close>

end
